(* ===== verification/Prelude.thy ===== *)
theory Prelude
  imports Main "HOL-Library.Word" "HOL-Library.Sublist"
begin

unbundle bit_operations_syntax

text \<open>
  Shared vocabulary of the development: the machine types of the code, results with errors as
  values, byte strings, and the generic lemmas on lists and bits that the component theories use.

  The code is Rust on a 64-bit target.  A byte is an \<^typ>\<open>8 word\<close>; a \<open>Vec<u8>\<close> or a byte slice
  is a list of bytes; a \<open>usize\<close> is a natural number, and every place where the code guards against
  an overflow of it writes the bound \<^term>\<open>2 ^ 64 :: nat\<close> out.  A \<open>Result<T, E>\<close> is the sum
  type with \<open>Inl\<close> for the error, and the \<open>?\<close> operator is \<open>and_then\<close>.
\<close>

type_synonym u8 = "8 word"
type_synonym u16 = "16 word"
type_synonym u32 = "32 word"
type_synonym u64 = "64 word"
type_synonym bytes = "u8 list"

named_theorems result_simps \<open>unfolding of the error-propagation operators\<close>
named_theorems bits_simps \<open>most-significant-bit-first bit lists of integers\<close>
named_theorems frame_rules \<open>fields an operation leaves alone\<close>

subsection \<open>Results\<close>

definition and_then :: "'e + 'a \<Rightarrow> ('a \<Rightarrow> 'e + 'b) \<Rightarrow> 'e + 'b" where
  "and_then r f = (case r of Inl e \<Rightarrow> Inl e | Inr a \<Rightarrow> f a)"

definition ok_or :: "'a option \<Rightarrow> 'e \<Rightarrow> 'e + 'a" where
  "ok_or v e = (case v of None \<Rightarrow> Inl e | Some a \<Rightarrow> Inr a)"

definition map_err :: "('e \<Rightarrow> 'f) \<Rightarrow> 'e + 'a \<Rightarrow> 'f + 'a" where
  "map_err f r = (case r of Inl e \<Rightarrow> Inl (f e) | Inr a \<Rightarrow> Inr a)"

abbreviation is_ok :: "'e + 'a \<Rightarrow> bool" where
  "is_ok r \<equiv> \<exists>a. r = Inr a"

lemma and_then_simps [simp, result_simps]:
  "and_then (Inl e) f = Inl e"
  "and_then (Inr a) f = f a"
  by (simp_all add: and_then_def)

lemma and_then_Inr_iff [result_simps]:
  "and_then r f = Inr b \<longleftrightarrow> (\<exists>a. r = Inr a \<and> f a = Inr b)"
  by (cases r) simp_all

lemma and_then_Inl_iff [result_simps]:
  "and_then r f = Inl e \<longleftrightarrow> r = Inl e \<or> (\<exists>a. r = Inr a \<and> f a = Inl e)"
  by (cases r) simp_all

lemma and_then_cong [fundef_cong]:
  "r = r' \<Longrightarrow> (\<And>a. r' = Inr a \<Longrightarrow> f a = g a) \<Longrightarrow> and_then r f = and_then r' g"
  by (cases r') simp_all

lemma ok_or_simps [simp, result_simps]:
  "ok_or None e = Inl e"
  "ok_or (Some a) e = Inr a"
  by (simp_all add: ok_or_def)

lemma ok_or_Inr_iff [result_simps]: "ok_or v e = Inr a \<longleftrightarrow> v = Some a"
  by (cases v) simp_all

lemma ok_or_Inl_iff [result_simps]: "ok_or v e = Inl e' \<longleftrightarrow> v = None \<and> e = e'"
  by (cases v) auto

lemma map_err_simps [simp, result_simps]:
  "map_err f (Inl e) = Inl (f e)"
  "map_err f (Inr a) = Inr a"
  by (simp_all add: map_err_def)

lemma map_err_Inr_iff [result_simps]: "map_err f r = Inr a \<longleftrightarrow> r = Inr a"
  by (cases r) simp_all

subsection \<open>Lists\<close>

text \<open>\<open>Iterator::position\<close>: the index of the first element that satisfies a predicate.\<close>

fun position :: "('a \<Rightarrow> bool) \<Rightarrow> 'a list \<Rightarrow> nat option" where
  "position P [] = None"
| "position P (x # xs) = (if P x then Some 0 else map_option Suc (position P xs))"

lemma position_SomeD: "position P xs = Some i \<Longrightarrow> i < length xs \<and> P (xs ! i)"
  by (induction xs arbitrary: i) (auto split: if_splits)

lemma position_first: "position P xs = Some i \<Longrightarrow> j < i \<Longrightarrow> \<not> P (xs ! j)"
  by (induction xs arbitrary: i j) (auto split: if_splits simp: nth_Cons' less_Suc_eq_0_disj)

lemma position_None: "position P xs = None \<longleftrightarrow> (\<forall>x \<in> set xs. \<not> P x)"
  by (induction xs) auto

subsection \<open>Bits, most significant first\<close>

text \<open>\<open>bits_msb n w\<close> is the low \<open>n\<close> bits of \<open>w\<close>, the order in which the codecs emit them.\<close>

definition bits_msb :: "nat \<Rightarrow> 'a::semiring_bit_operations \<Rightarrow> bool list" where
  "bits_msb n w = map (bit w) (rev [0..<n])"

lemma length_bits_msb [simp, bits_simps]: "length (bits_msb n w) = n"
  by (simp add: bits_msb_def)

lemma bits_msb_0 [simp, bits_simps]: "bits_msb 0 w = []"
  by (simp add: bits_msb_def)

lemma bits_msb_Suc [bits_simps]: "bits_msb (Suc n) w = bit w n # bits_msb n w"
  by (simp add: bits_msb_def)

lemma bits_msb_cong:
  "(\<And>i. i < n \<Longrightarrow> bit v i = bit w i) \<Longrightarrow> bits_msb n v = bits_msb n w"
  by (simp add: bits_msb_def)

lemma bits_msb_add: "bits_msb (m + n) w = bits_msb m (drop_bit n w) @ bits_msb n w"
  by (induction m) (simp_all add: bits_simps bit_drop_bit_eq add.commute)

text \<open>The value of a bit list, and its bounds.\<close>

definition bits_val :: "bool list \<Rightarrow> nat" where
  "bits_val bs = foldl (\<lambda>a b. 2 * a + of_bool b) 0 bs"

lemma foldl_bits_val:
  "foldl (\<lambda>a b. 2 * a + of_bool b) k bs = k * 2 ^ length bs + bits_val bs"
proof (induction bs arbitrary: k)
  case Nil
  show ?case by (simp add: bits_val_def)
next
  case (Cons b bs)
  have "bits_val (b # bs) = of_bool b * 2 ^ length bs + bits_val bs"
    using Cons.IH [of "of_bool b"] by (simp add: bits_val_def)
  then show ?case
    using Cons.IH [of "2 * k + of_bool b"] by (simp add: algebra_simps)
qed

lemma bits_val_Nil [simp]: "bits_val [] = 0"
  by (simp add: bits_val_def)

lemma bits_val_append: "bits_val (xs @ ys) = bits_val xs * 2 ^ length ys + bits_val ys"
  by (simp add: bits_val_def [of "xs @ ys"] foldl_bits_val [of "foldl _ 0 xs"])
     (simp add: bits_val_def)

lemma bits_val_Cons: "bits_val (b # bs) = of_bool b * 2 ^ length bs + bits_val bs"
  using bits_val_append [of "[b]" bs] by (simp add: bits_val_def)

lemma bits_val_less: "bits_val bs < 2 ^ length bs"
  by (induction bs) (auto simp: bits_val_Cons)

lemma bits_val_inj: "bits_val xs = bits_val ys \<Longrightarrow> length xs = length ys \<Longrightarrow> xs = ys"
proof (induction xs arbitrary: ys)
  case Nil
  then show ?case by simp
next
  case (Cons x xs)
  then obtain y ys' where ys: "ys = y # ys'" by (cases ys) auto
  have "x = y"
    using Cons.prems bits_val_less [of xs] bits_val_less [of ys']
    by (cases x; cases y) (auto simp: ys bits_val_Cons)
  with Cons show ?case by (auto simp: ys bits_val_Cons)
qed

lemma bits_val_bits_msb: "bits_val (bits_msb n (w :: nat)) = take_bit n w"
  by (induction n) (simp_all add: bits_simps bits_val_Cons take_bit_Suc_from_most)

lemma bits_val_take:
  assumes "n \<le> length xs"
  shows "bits_val (take n xs) = bits_val xs div 2 ^ (length xs - n)"
proof -
  have "bits_val xs = bits_val (take n xs) * 2 ^ (length xs - n) + bits_val (drop n xs)"
    using bits_val_append [of "take n xs" "drop n xs"] by simp
  moreover have "bits_val (drop n xs) < 2 ^ (length xs - n)"
    using bits_val_less [of "drop n xs"] by simp
  ultimately show ?thesis by simp
qed

subsection \<open>Bytes as bits\<close>

abbreviation byte_bits :: "u8 \<Rightarrow> bool list" where
  "byte_bits b \<equiv> bits_msb 8 b"

lemma byte_bits_inj: "byte_bits a = byte_bits b \<Longrightarrow> a = b"
  by (rule bit_word_eqI) (simp add: bits_msb_def)

lemma length_concat_byte_bits [simp]: "length (concat (map byte_bits xs)) = 8 * length xs"
  by (induction xs) simp_all

lemma concat_byte_bits_inj:
  "concat (map byte_bits xs) = concat (map byte_bits ys) \<Longrightarrow> xs = ys"
proof (induction xs arbitrary: ys)
  case Nil
  then show ?case by (cases ys) (auto dest: arg_cong [where f = length])
next
  case (Cons x xs)
  then show ?case
    by (cases ys) (auto dest: byte_bits_inj arg_cong [where f = length])
qed

end
