(* ===== verification/HuffmanTree.thy ===== *)
theory HuffmanTree
  imports Prelude
begin

text \<open>
  The arena of tree nodes behind the HPACK Huffman decoder
  (\<^verbatim>\<open>crates/render-net/src/h2/hpack/huffman.rs\<close>, \<open>tree\<close>).  The interface \<open>path_trie\<close> states what
  a decoder needs of such a tree: a lookup after an insert, and the paths that lead to a node.
  The vector of nodes with child indices implements it.
\<close>

subsection \<open>The arena of tree nodes\<close>

record hnode =
  zero_child :: "nat option"
  one_child :: "nat option"
  node_symbol :: "nat option"

definition default_node :: hnode where
  "default_node = \<lparr>zero_child = None, one_child = None, node_symbol = None\<rparr>"

fun child :: "bool \<Rightarrow> hnode \<Rightarrow> nat option" where
  "child False n = zero_child n"
| "child True n = one_child n"

fun set_child :: "bool \<Rightarrow> nat \<Rightarrow> hnode \<Rightarrow> hnode" where
  "set_child False j n = n\<lparr>zero_child := Some j\<rparr>"
| "set_child True j n = n\<lparr>one_child := Some j\<rparr>"

text \<open>The inner loop of \<open>tree\<close>: follow the bits of a code, pushing the nodes that are missing.\<close>

fun descend :: "hnode list \<Rightarrow> nat \<Rightarrow> bool list \<Rightarrow> hnode list \<times> nat" where
  "descend nodes node [] = (nodes, node)"
| "descend nodes node (b # bs) =
     (case child b (nodes ! node) of
        Some next \<Rightarrow> descend nodes next bs
      | None \<Rightarrow>
          (let next = length nodes;
               nodes' = nodes @ [default_node]
           in descend (nodes'[node := set_child b next (nodes' ! node)]) next bs))"

definition insert_symbol :: "bool list \<Rightarrow> nat \<Rightarrow> hnode list \<Rightarrow> hnode list" where
  "insert_symbol bs symbol nodes =
     (let (nodes', node) = descend nodes 0 bs
      in nodes'[node := (nodes' ! node)\<lparr>node_symbol := Some symbol\<rparr>])"

subsection \<open>What a trie promises\<close>

text \<open>
  \<open>reach t p\<close> says that the path \<open>p\<close> leads to a node of \<open>t\<close>, \<open>lookup t p\<close> is the symbol stored
  there.
\<close>

locale path_trie =
  fixes empty :: 't
    and insert :: "bool list \<Rightarrow> nat \<Rightarrow> 't \<Rightarrow> 't"
    and lookup :: "'t \<Rightarrow> bool list \<Rightarrow> nat option"
    and reach :: "'t \<Rightarrow> bool list \<Rightarrow> bool"
    and invar :: "'t \<Rightarrow> bool"
  assumes invar_empty: "invar empty"
    and invar_insert: "invar t \<Longrightarrow> invar (insert p s t)"
    and lookup_empty: "lookup empty p = None"
    and lookup_insert: "invar t \<Longrightarrow> lookup (insert p s t) q = (if q = p then Some s else lookup t q)"
    and reach_insert: "invar t \<Longrightarrow> prefix q p \<or> reach t q \<Longrightarrow> reach (insert p s t) q"
begin

definition build :: "(nat \<Rightarrow> bool list) \<Rightarrow> nat \<Rightarrow> 't" where
  "build code n = foldl (\<lambda>t s. insert (code s) s t) empty [0..<n]"

lemma build_Suc: "build code (Suc n) = insert (code n) n (build code n)"
  by (simp add: build_def)

lemma invar_build: "invar (build code n)"
  by (induction n) (simp_all add: build_Suc invar_empty invar_insert, simp add: build_def invar_empty)

lemma lookup_build:
  assumes "inj_on code {..<n}"
  shows "lookup (build code n) q = Some s \<longleftrightarrow> s < n \<and> code s = q"
  using assms
proof (induction n)
  case 0
  show ?case by (simp add: build_def lookup_empty)
next
  case (Suc n)
  then have "inj_on code {..<n}" by (auto intro: inj_on_subset)
  moreover have "s < n \<Longrightarrow> code s \<noteq> code n" for s
    using Suc.prems by (auto dest: inj_onD)
  ultimately show ?case
    using Suc.IH by (auto simp: build_Suc lookup_insert invar_build less_Suc_eq)
qed

lemma reach_build: "s < n \<Longrightarrow> prefix q (code s) \<Longrightarrow> reach (build code n) q"
proof (induction n)
  case 0
  then show ?case by simp
next
  case (Suc n)
  then show ?case by (auto simp: build_Suc less_Suc_eq intro!: reach_insert invar_build)
qed

end

subsection \<open>The arena is such a trie\<close>

fun walk :: "hnode list \<Rightarrow> nat \<Rightarrow> bool list \<Rightarrow> nat option" where
  "walk nodes node [] = Some node"
| "walk nodes node (b # bs) =
     (case child b (nodes ! node) of None \<Rightarrow> None | Some next \<Rightarrow> walk nodes next bs)"

definition symbol_at :: "hnode list \<Rightarrow> bool list \<Rightarrow> nat option" where
  "symbol_at nodes q = (case walk nodes 0 q of None \<Rightarrow> None | Some j \<Rightarrow> node_symbol (nodes ! j))"

text \<open>Children lie later in the arena, inside it, and have one parent edge each.\<close>

definition arena_ok :: "hnode list \<Rightarrow> bool" where
  "arena_ok nodes \<longleftrightarrow> 0 < length nodes \<and>
     (\<forall>i < length nodes. \<forall>b j. child b (nodes ! i) = Some j \<longrightarrow> i < j \<and> j < length nodes) \<and>
     (\<forall>i < length nodes. \<forall>i' < length nodes. \<forall>b b' j.
        child b (nodes ! i) = Some j \<and> child b' (nodes ! i') = Some j \<longrightarrow> i = i' \<and> b = b')"

lemma child_set_child [simp]: "child b (set_child b' j n) = (if b = b' then Some j else child b n)"
  by (cases b; cases b') simp_all

lemma symbol_set_child [simp]: "node_symbol (set_child b j n) = node_symbol n"
  by (cases b) simp_all

lemma child_symbol_update [simp]: "child b (n\<lparr>node_symbol := s\<rparr>) = child b n"
  by (cases b) simp_all

lemma child_default [simp]: "child b default_node = None"
  by (cases b) (simp_all add: default_node_def)

lemma symbol_default [simp]: "node_symbol default_node = None"
  by (simp add: default_node_def)

lemma walk_append:
  "walk nodes i (p @ q) = (case walk nodes i p of None \<Rightarrow> None | Some j \<Rightarrow> walk nodes j q)"
  by (induction p arbitrary: i) (auto split: option.splits)

lemma walk_prefix: "walk nodes i p = Some j \<Longrightarrow> prefix q p \<Longrightarrow> \<exists>k. walk nodes i q = Some k"
  by (auto simp: prefix_def walk_append split: option.splits)

lemma arena_nonempty: "arena_ok nodes \<Longrightarrow> 0 < length nodes"
  by (simp add: arena_ok_def)

lemma arena_child:
  "arena_ok nodes \<Longrightarrow> i < length nodes \<Longrightarrow> child b (nodes ! i) = Some j \<Longrightarrow> i < j \<and> j < length nodes"
  unfolding arena_ok_def by blast

lemma arena_parent:
  "arena_ok nodes \<Longrightarrow> i < length nodes \<Longrightarrow> i' < length nodes \<Longrightarrow> child b (nodes ! i) = Some j \<Longrightarrow>
   child b' (nodes ! i') = Some j \<Longrightarrow> i = i' \<and> b = b'"
  unfolding arena_ok_def by blast

lemma walk_bound:
  assumes "arena_ok nodes"
  shows "i < length nodes \<Longrightarrow> walk nodes i p = Some j \<Longrightarrow> j < length nodes"
proof (induction p arbitrary: i)
  case (Cons b p)
  then show ?case by (auto split: option.splits dest: arena_child [OF assms])
qed simp

lemma walk_last:
  assumes ok: "arena_ok nodes" and i: "i < length nodes" and w: "walk nodes i (p @ [b]) = Some j"
  obtains k where "walk nodes i p = Some k" "k < length nodes" "child b (nodes ! k) = Some j" "k < j"
proof -
  from w obtain k where k: "walk nodes i p = Some k" and c: "child b (nodes ! k) = Some j"
    by (auto simp: walk_append split: option.splits)
  have l: "k < length nodes" using walk_bound [OF ok i k] .
  from arena_child [OF ok l c] have "k < j" by simp
  with k l c show thesis by (rule that)
qed

lemma walk_inj:
  assumes ok: "arena_ok nodes"
  shows "walk nodes 0 p = Some j \<Longrightarrow> walk nodes 0 q = Some j \<Longrightarrow> p = q"
proof (induction p arbitrary: q j rule: rev_induct)
  have ne: "0 < length nodes" using ok by (rule arena_nonempty)
  case Nil
  then show ?case by (cases q rule: rev_cases) (auto elim!: walk_last [OF ok ne])
next
  have ne: "0 < length nodes" using ok by (rule arena_nonempty)
  case (snoc b p)
  from walk_last [OF ok ne snoc.prems(1)] obtain k where
    k: "walk nodes 0 p = Some k" "k < length nodes" "child b (nodes ! k) = Some j" "k < j" .
  with snoc.prems(2) obtain q' b' where q: "q = q' @ [b']" by (cases q rule: rev_cases) auto
  from walk_last [OF ok ne snoc.prems(2) [unfolded q]] obtain k' where
    k': "walk nodes 0 q' = Some k'" "k' < length nodes" "child b' (nodes ! k') = Some j" .
  from arena_parent [OF ok k(2) k'(2) k(3) k'(3)] have "k = k' \<and> b = b'" .
  with snoc.IH [OF k(1)] k' q show ?case by simp
qed

text \<open>One step of the descent: a missing child is a fresh node at the end of the arena.\<close>

definition graft :: "hnode list \<Rightarrow> nat \<Rightarrow> bool \<Rightarrow> hnode list" where
  "graft nodes node b =
     (nodes @ [default_node])[node := set_child b (length nodes) (nodes ! node)]"

lemma descend_Cons:
  "node < length nodes \<Longrightarrow> descend nodes node (b # bs) =
     (case child b (nodes ! node) of
        Some next \<Rightarrow> descend nodes next bs
      | None \<Rightarrow> descend (graft nodes node b) (length nodes) bs)"
  by (auto simp: graft_def nth_append Let_def split: option.split)

lemma graft_length [simp]: "length (graft nodes node b) = Suc (length nodes)"
  by (simp add: graft_def)

lemma graft_nth:
  "i \<le> length nodes \<Longrightarrow> node < length nodes \<Longrightarrow> graft nodes node b ! i =
     (if i = node then set_child b (length nodes) (nodes ! node)
      else if i = length nodes then default_node else nodes ! i)"
  by (auto simp: graft_def nth_list_update nth_append)

lemma graft_child:
  assumes "node < length nodes" "child b (nodes ! node) = None" "i \<le> length nodes"
  shows "child c (graft nodes node b ! i) = Some j \<longleftrightarrow>
    (i < length nodes \<and> child c (nodes ! i) = Some j \<or> i = node \<and> c = b \<and> j = length nodes)"
  using assms by (cases "i = length nodes") (auto simp: graft_nth)

lemma arena_graft:
  assumes ok: "arena_ok nodes" and n: "node < length nodes" and c: "child b (nodes ! node) = None"
  shows "arena_ok (graft nodes node b)"
  unfolding arena_ok_def
proof (intro conjI allI impI)
  show "0 < length (graft nodes node b)" by simp
next
  fix i c' j
  assume i: "i < length (graft nodes node b)" and e: "child c' (graft nodes node b ! i) = Some j"
  from i have le: "i \<le> length nodes" by simp
  show "i < j" using e arena_child [OF ok, of i c' j] n by (auto simp: graft_child [OF n c le])
  show "j < length (graft nodes node b)"
    using e arena_child [OF ok, of i c' j] n by (auto simp: graft_child [OF n c le])
next
  fix i i' c' d j
  assume i: "i < length (graft nodes node b)" "i' < length (graft nodes node b)"
    and e: "child c' (graft nodes node b ! i) = Some j \<and> child d (graft nodes node b ! i') = Some j"
  from i have le: "i \<le> length nodes" "i' \<le> length nodes" by simp_all
  have "child c' (nodes ! k) \<noteq> Some (length nodes)" if "k < length nodes" for k c'
    using arena_child [OF ok that, of c'] by fastforce
  then show "i = i'" "c' = d"
    using e arena_parent [OF ok, of i i' c' j d]
    by (auto simp: graft_child [OF n c le(1)] graft_child [OF n c le(2)])
qed

lemma walk_graft:
  assumes ok: "arena_ok nodes" and n: "node < length nodes" and c: "child b (nodes ! node) = None"
  shows "i < length nodes \<Longrightarrow> walk nodes i q = Some k \<Longrightarrow> walk (graft nodes node b) i q = Some k"
proof (induction q arbitrary: i)
  case (Cons d q)
  from Cons.prems obtain j where j: "child d (nodes ! i) = Some j" and w: "walk nodes j q = Some k"
    by (auto split: option.splits)
  from Cons.prems(1) j have "child d (graft nodes node b ! i) = Some j"
    by (simp add: graft_child [OF n c])
  with Cons.IH [of j] w arena_child [OF ok Cons.prems(1) j] show ?case by simp
qed simp

lemma walk_graft_new:
  assumes ok: "arena_ok nodes" and n: "node < length nodes" and c: "child b (nodes ! node) = None"
  shows "i < length nodes \<Longrightarrow> walk nodes i q = None \<Longrightarrow> walk (graft nodes node b) i q = Some k \<Longrightarrow>
    k = length nodes"
proof (induction q arbitrary: i)
  case (Cons d q)
  show ?case
  proof (cases "child d (nodes ! i)")
    case None
    from Cons.prems(3) obtain x where x: "child d (graft nodes node b ! i) = Some x"
      and w: "walk (graft nodes node b) x q = Some k"
      by (auto split: option.splits)
    from x None Cons.prems(1) have "x = length nodes" by (simp add: graft_child [OF n c])
    with w have "walk (graft nodes node b) (length nodes) q = Some k" by simp
    moreover have "child e (graft nodes node b ! length nodes) = None" for e
      using n by (simp add: graft_nth)
    ultimately show ?thesis by (cases q) simp_all
  next
    case (Some j)
    with Cons.prems have "child d (graft nodes node b ! i) = Some j"
      by (simp add: graft_child [OF n c])
    with Some Cons.prems Cons.IH [of j] arena_child [OF ok Cons.prems(1) Some]
    show ?thesis by simp
  qed
qed simp

text \<open>The descent as a whole: what it keeps, where it ends, and that nothing else is new.\<close>

definition descend_post :: "hnode list \<Rightarrow> nat \<Rightarrow> bool list \<Rightarrow> hnode list \<Rightarrow> nat \<Rightarrow> bool" where
  "descend_post nodes node bs nodes' j \<longleftrightarrow>
     arena_ok nodes' \<and> length nodes \<le> length nodes' \<and> j < length nodes' \<and>
     walk nodes' node bs = Some j \<and>
     (\<forall>i q k. i < length nodes \<longrightarrow> walk nodes i q = Some k \<longrightarrow> walk nodes' i q = Some k) \<and>
     (\<forall>i q k. i < length nodes \<longrightarrow> walk nodes i q = None \<longrightarrow> walk nodes' i q = Some k \<longrightarrow>
        length nodes \<le> k) \<and>
     (\<forall>i < length nodes. node_symbol (nodes' ! i) = node_symbol (nodes ! i)) \<and>
     (\<forall>i. length nodes \<le> i \<longrightarrow> i < length nodes' \<longrightarrow> node_symbol (nodes' ! i) = None)"

lemma descend_correct:
  assumes "arena_ok nodes" "node < length nodes" "descend nodes node bs = (nodes', j)"
  shows "descend_post nodes node bs nodes' j"
  using assms
proof (induction bs arbitrary: nodes node)
  case Nil
  then show ?case by (auto simp: descend_post_def)
next
  case (Cons b bs)
  note ok = Cons.prems(1) and n = Cons.prems(2)
  show ?case
  proof (cases "child b (nodes ! node)")
    case (Some nx)
    from arena_child [OF ok n Some] have l: "nx < length nodes" by simp
    from Some Cons.prems have "descend nodes nx bs = (nodes', j)" by simp
    from Cons.IH [OF ok l this] have post: "descend_post nodes nx bs nodes' j" .
    moreover have "walk nodes node [b] = Some nx" using Some by simp
    with post n have "walk nodes' node [b] = Some nx" unfolding descend_post_def by blast
    ultimately show ?thesis by (auto simp: descend_post_def split: option.splits)
  next
    case None
    let ?g = "graft nodes node b"
    have okg: "arena_ok ?g" by (rule arena_graft [OF ok n None])
    from None Cons.prems have "descend ?g (length nodes) bs = (nodes', j)"
      by (simp add: descend_Cons del: descend.simps)
    from Cons.IH [OF okg _ this] have post: "descend_post ?g (length nodes) bs nodes' j" by simp
    have "walk ?g node [b] = Some (length nodes)"
      using n graft_child [OF n None, of node b "length nodes"] by simp
    with post n have "walk nodes' node [b] = Some (length nodes)"
      unfolding descend_post_def by (metis graft_length less_SucI)
    moreover have "node_symbol (?g ! i) = (if i < length nodes then node_symbol (nodes ! i) else None)"
      if "i \<le> length nodes" for i
      using that n by (auto simp: graft_nth)
    moreover have "length nodes \<le> k"
      if "i < length nodes" "walk nodes i q = None" "walk nodes' i q = Some k" for i q k
    proof (cases "walk ?g i q")
      case None
      with post that show ?thesis unfolding descend_post_def
        by (metis graft_length less_SucI Suc_leD)
    next
      case (Some k')
      with post that have "k' = k" unfolding descend_post_def by (metis graft_length less_SucI option.inject)
      with walk_graft_new [OF ok n None that(1,2) Some] show ?thesis by simp
    qed
    ultimately show ?thesis
      using post walk_graft [OF ok n None]
      by (auto simp: descend_post_def less_Suc_eq_le split: option.splits)
        (metis Suc_leI le_antisym not_less_eq_eq)+
  qed
qed

lemma descend_arena:
  assumes "arena_ok nodes"
  shows "descend_post nodes 0 bs (fst (descend nodes 0 bs)) (snd (descend nodes 0 bs))"
  using descend_correct [OF assms arena_nonempty [OF assms], of bs] by (metis prod.collapse)

lemma descend_keeps:
  "descend_post nodes n bs nodes' j \<Longrightarrow> i < length nodes \<Longrightarrow> walk nodes i q = Some k \<Longrightarrow>
   walk nodes' i q = Some k"
  unfolding descend_post_def by blast

lemma descend_new:
  "descend_post nodes n bs nodes' j \<Longrightarrow> i < length nodes \<Longrightarrow> walk nodes i q = None \<Longrightarrow>
   walk nodes' i q = Some k \<Longrightarrow> length nodes \<le> k"
  unfolding descend_post_def by blast

lemma descend_symbol:
  "descend_post nodes n bs nodes' j \<Longrightarrow> i < length nodes' \<Longrightarrow>
   node_symbol (nodes' ! i) = (if i < length nodes then node_symbol (nodes ! i) else None)"
  unfolding descend_post_def by simp

lemma arena_symbol_update:
  assumes "arena_ok nodes" "j < length nodes"
  shows "arena_ok (nodes[j := (nodes ! j)\<lparr>node_symbol := s\<rparr>])"
proof -
  let ?nodes = "nodes[j := (nodes ! j)\<lparr>node_symbol := s\<rparr>]"
  have same: "child b (?nodes ! i) = child b (nodes ! i)" for b i
    by (cases "i = j") (simp_all add: assms(2))
  have "arena_ok ?nodes = arena_ok nodes"
    by (unfold arena_ok_def same length_list_update) (rule refl)
  with assms(1) show ?thesis by blast
qed

lemma walk_symbol_update:
  "j < length nodes \<Longrightarrow> walk (nodes[j := (nodes ! j)\<lparr>node_symbol := s\<rparr>]) i q = walk nodes i q"
proof (induction q arbitrary: i)
  case (Cons b q)
  have "child b (nodes[j := (nodes ! j)\<lparr>node_symbol := s\<rparr>] ! i) = child b (nodes ! i)"
    using Cons.prems by (cases "i = j") simp_all
  with Cons show ?case by (simp split: option.split)
qed simp

lemma insert_symbol_eq:
  "insert_symbol bs s nodes =
     (fst (descend nodes 0 bs))[snd (descend nodes 0 bs) :=
        (fst (descend nodes 0 bs) ! snd (descend nodes 0 bs))\<lparr>node_symbol := Some s\<rparr>]"
  by (simp add: insert_symbol_def split: prod.split)

lemma symbol_at_insert:
  assumes ok: "arena_ok nodes"
  shows "symbol_at (insert_symbol bs s nodes) q = (if q = bs then Some s else symbol_at nodes q)"
proof -
  let ?n = "fst (descend nodes 0 bs)" and ?j = "snd (descend nodes 0 bs)"
  from descend_arena [OF ok] have post: "descend_post nodes 0 bs ?n ?j" .
  then have j: "?j < length ?n" and wj: "walk ?n 0 bs = Some ?j" and okn: "arena_ok ?n"
    by (auto simp: descend_post_def)
  note ne = arena_nonempty [OF ok]
  have w: "walk (insert_symbol bs s nodes) 0 q = walk ?n 0 q"
    by (simp add: insert_symbol_eq walk_symbol_update j)
  show ?thesis
  proof (cases "walk ?n 0 q")
    case None
    then have "q \<noteq> bs" using wj by auto
    moreover have "walk nodes 0 q = None"
      using None descend_keeps [OF post ne, of q] by (cases "walk nodes 0 q") auto
    ultimately show ?thesis using None w by (simp add: symbol_at_def)
  next
    case (Some k)
    from walk_bound [OF okn _ Some] arena_nonempty [OF okn] have k: "k < length ?n" by simp
    have kj: "k = ?j \<longleftrightarrow> q = bs"
    proof
      assume "k = ?j"
      with wj have "walk ?n 0 bs = Some k" by simp
      with walk_inj [OF okn Some] show "q = bs" .
    next
      assume "q = bs"
      with wj Some show "k = ?j" by simp
    qed
    have "node_symbol (?n ! k) = symbol_at nodes q"
    proof (cases "walk nodes 0 q")
      case None
      from descend_new [OF post ne None Some] have "length nodes \<le> k" .
      with None show ?thesis by (simp add: symbol_at_def descend_symbol [OF post k])
    next
      case (Some k')
      with \<open>walk ?n 0 q = Some k\<close> descend_keeps [OF post ne Some] have "k' = k" by simp
      moreover have "k' < length nodes" using walk_bound [OF ok ne Some] .
      ultimately show ?thesis using Some by (simp add: symbol_at_def descend_symbol [OF post k])
    qed
    moreover have "node_symbol (insert_symbol bs s nodes ! k) =
        (if k = ?j then Some s else node_symbol (?n ! k))"
      using j by (simp add: insert_symbol_eq nth_list_update)
    ultimately show ?thesis using w Some kj by (auto simp: symbol_at_def)
  qed
qed

definition reachable_path :: "hnode list \<Rightarrow> bool list \<Rightarrow> bool" where
  "reachable_path nodes q \<longleftrightarrow> walk nodes 0 q \<noteq> None"

interpretation arena: path_trie "[default_node]" insert_symbol symbol_at reachable_path arena_ok
proof unfold_locales
  show "arena_ok [default_node]" by (simp add: arena_ok_def)
next
  fix nodes p s
  assume "arena_ok nodes"
  then show "arena_ok (insert_symbol p s nodes)"
    using descend_arena [of nodes p]
    by (auto simp: insert_symbol_eq descend_post_def intro: arena_symbol_update)
next
  fix p
  show "symbol_at [default_node] p = None"
    by (cases p) (simp_all add: symbol_at_def)
next
  fix nodes p s q
  assume "arena_ok nodes"
  then show "symbol_at (insert_symbol p s nodes) q = (if q = p then Some s else symbol_at nodes q)"
    by (rule symbol_at_insert)
next
  fix nodes p s q
  assume ok: "arena_ok nodes" and q: "prefix q p \<or> reachable_path nodes q"
  from descend_arena [OF ok, of p] arena_nonempty [OF ok] q
  have "walk (fst (descend nodes 0 p)) 0 q \<noteq> None" "snd (descend nodes 0 p) < length (fst (descend nodes 0 p))"
    by (auto simp: descend_post_def reachable_path_def dest: walk_prefix)
  then show "reachable_path (insert_symbol p s nodes) q"
    by (simp add: insert_symbol_eq walk_symbol_update reachable_path_def)
qed


end
