(* ===== verification/HuffmanTable.thy ===== *)
theory HuffmanTable
  imports Prelude
begin

text \<open>
  The Huffman code of HPACK (\<^verbatim>\<open>crates/render-net/src/h2/hpack/huffman.rs\<close>, \<open>CODE_LENGTHS\<close> and
  \<open>CODES\<close>).  The interface \<open>prefix_code\<close> states what decoding needs of a code (prefix freedom and
  completeness), with the lemmas that decoding rests on; it is interpreted on the two tables.
\<close>

subsection \<open>The tables\<close>

definition CODE_LENGTHS :: "nat list" where
  "CODE_LENGTHS = [
    13, 23, 28, 28, 28, 28, 28, 28, 28, 24, 30, 28, 28, 30, 28, 28, 28, 28, 28, 28, 28, 28, 30,
    28, 28, 28, 28, 28, 28, 28, 28, 28, 6, 10, 10, 12, 13, 6, 8, 11, 10, 10, 8, 11, 8, 6, 6, 6,
    5, 5, 5, 6, 6, 6, 6, 6, 6, 6, 7, 8, 15, 6, 12, 10, 13, 6, 7, 7, 7, 7, 7, 7, 7, 7, 7, 7, 7, 7,
    7, 7, 7, 7, 7, 7, 7, 7, 7, 7, 8, 7, 8, 13, 19, 13, 14, 6, 15, 5, 6, 5, 6, 5, 6, 6, 6, 5, 7,
    7, 6, 6, 6, 5, 6, 7, 6, 5, 5, 6, 7, 7, 7, 7, 7, 15, 11, 14, 13, 28, 20, 22, 20, 20, 22, 22,
    22, 23, 22, 23, 23, 23, 23, 23, 24, 23, 24, 24, 22, 23, 24, 23, 23, 23, 23, 21, 22, 23, 22,
    23, 23, 24, 22, 21, 20, 22, 22, 23, 23, 21, 23, 22, 22, 24, 21, 22, 23, 23, 21, 21, 22, 21,
    23, 22, 23, 23, 20, 22, 22, 22, 23, 22, 22, 23, 26, 26, 20, 19, 22, 23, 22, 25, 26, 26, 26,
    27, 27, 26, 24, 25, 19, 21, 26, 27, 27, 26, 27, 24, 21, 21, 26, 26, 28, 27, 27, 27, 20, 24,
    20, 21, 22, 21, 21, 23, 22, 22, 25, 25, 24, 24, 26, 23, 26, 27, 26, 26, 27, 27, 27, 27, 27,
    28, 27, 27, 27, 27, 27, 26, 30]"

definition CODES :: "nat list" where
  "CODES = [
    0x1ff8, 0x7fffd8, 0xfffffe2, 0xfffffe3, 0xfffffe4, 0xfffffe5, 0xfffffe6, 0xfffffe7,
    0xfffffe8, 0xffffea, 0x3ffffffc, 0xfffffe9, 0xfffffea, 0x3ffffffd, 0xfffffeb, 0xfffffec,
    0xfffffed, 0xfffffee, 0xfffffef, 0xffffff0, 0xffffff1, 0xffffff2, 0x3ffffffe, 0xffffff3,
    0xffffff4, 0xffffff5, 0xffffff6, 0xffffff7, 0xffffff8, 0xffffff9, 0xffffffa, 0xffffffb, 0x14,
    0x3f8, 0x3f9, 0xffa, 0x1ff9, 0x15, 0xf8, 0x7fa, 0x3fa, 0x3fb, 0xf9, 0x7fb, 0xfa, 0x16, 0x17,
    0x18, 0x0, 0x1, 0x2, 0x19, 0x1a, 0x1b, 0x1c, 0x1d, 0x1e, 0x1f, 0x5c, 0xfb, 0x7ffc, 0x20,
    0xffb, 0x3fc, 0x1ffa, 0x21, 0x5d, 0x5e, 0x5f, 0x60, 0x61, 0x62, 0x63, 0x64, 0x65, 0x66, 0x67,
    0x68, 0x69, 0x6a, 0x6b, 0x6c, 0x6d, 0x6e, 0x6f, 0x70, 0x71, 0x72, 0xfc, 0x73, 0xfd, 0x1ffb,
    0x7fff0, 0x1ffc, 0x3ffc, 0x22, 0x7ffd, 0x3, 0x23, 0x4, 0x24, 0x5, 0x25, 0x26, 0x27, 0x6,
    0x74, 0x75, 0x28, 0x29, 0x2a, 0x7, 0x2b, 0x76, 0x2c, 0x8, 0x9, 0x2d, 0x77, 0x78, 0x79, 0x7a,
    0x7b, 0x7ffe, 0x7fc, 0x3ffd, 0x1ffd, 0xffffffc, 0xfffe6, 0x3fffd2, 0xfffe7, 0xfffe8,
    0x3fffd3, 0x3fffd4, 0x3fffd5, 0x7fffd9, 0x3fffd6, 0x7fffda, 0x7fffdb, 0x7fffdc, 0x7fffdd,
    0x7fffde, 0xffffeb, 0x7fffdf, 0xffffec, 0xffffed, 0x3fffd7, 0x7fffe0, 0xffffee, 0x7fffe1,
    0x7fffe2, 0x7fffe3, 0x7fffe4, 0x1fffdc, 0x3fffd8, 0x7fffe5, 0x3fffd9, 0x7fffe6, 0x7fffe7,
    0xffffef, 0x3fffda, 0x1fffdd, 0xfffe9, 0x3fffdb, 0x3fffdc, 0x7fffe8, 0x7fffe9, 0x1fffde,
    0x7fffea, 0x3fffdd, 0x3fffde, 0xfffff0, 0x1fffdf, 0x3fffdf, 0x7fffeb, 0x7fffec, 0x1fffe0,
    0x1fffe1, 0x3fffe0, 0x1fffe2, 0x7fffed, 0x3fffe1, 0x7fffee, 0x7fffef, 0xfffea, 0x3fffe2,
    0x3fffe3, 0x3fffe4, 0x7ffff0, 0x3fffe5, 0x3fffe6, 0x7ffff1, 0x3ffffe0, 0x3ffffe1, 0xfffeb,
    0x7fff1, 0x3fffe7, 0x7ffff2, 0x3fffe8, 0x1ffffec, 0x3ffffe2, 0x3ffffe3, 0x3ffffe4, 0x7ffffde,
    0x7ffffdf, 0x3ffffe5, 0xfffff1, 0x1ffffed, 0x7fff2, 0x1fffe3, 0x3ffffe6, 0x7ffffe0,
    0x7ffffe1, 0x3ffffe7, 0x7ffffe2, 0xfffff2, 0x1fffe4, 0x1fffe5, 0x3ffffe8, 0x3ffffe9,
    0xffffffd, 0x7ffffe3, 0x7ffffe4, 0x7ffffe5, 0xfffec, 0xfffff3, 0xfffed, 0x1fffe6, 0x3fffe9,
    0x1fffe7, 0x1fffe8, 0x7ffff3, 0x3fffea, 0x3fffeb, 0x1ffffee, 0x1ffffef, 0xfffff4, 0xfffff5,
    0x3ffffea, 0x7ffff4, 0x3ffffeb, 0x7ffffe6, 0x3ffffec, 0x3ffffed, 0x7ffffe7, 0x7ffffe8,
    0x7ffffe9, 0x7ffffea, 0x7ffffeb, 0xffffffe, 0x7ffffec, 0x7ffffed, 0x7ffffee, 0x7ffffef,
    0x7fffff0, 0x3ffffee, 0x3fffffff]"


text \<open>The code word of a symbol, most significant bit first, as both directions read it.\<close>

definition code_bits :: "nat \<Rightarrow> bool list" where
  "code_bits symbol = bits_msb (CODE_LENGTHS ! symbol) (CODES ! symbol)"

subsection \<open>What decoding needs of a code\<close>

locale prefix_code =
  fixes code :: "nat \<Rightarrow> bool list"
    and n :: nat
  assumes code_nonempty: "s < n \<Longrightarrow> code s \<noteq> []"
    and code_prefix_free: "s < n \<Longrightarrow> t < n \<Longrightarrow> prefix (code s) (code t) \<Longrightarrow> s = t"
    and code_complete: "s < n \<Longrightarrow> strict_prefix q (code s) \<Longrightarrow> \<exists>t < n. prefix (q @ [b]) (code t)"
begin

lemma code_inj: "inj_on code {..<n}"
  by (rule inj_onI) (simp add: code_prefix_free)

text \<open>\<open>pending q\<close>: the bits \<open>q\<close> are the beginning of a code word, but not a whole one.\<close>

definition pending :: "bool list \<Rightarrow> bool" where
  "pending q \<longleftrightarrow> (\<exists>s < n. strict_prefix q (code s))"

lemma pending_no_code: "pending q \<Longrightarrow> s < n \<Longrightarrow> prefix (code s) q \<Longrightarrow> False"
  unfolding pending_def
  by (metis code_prefix_free prefix_order.order_trans prefix_order.less_le_not_le)

lemma pending_step:
  assumes "pending q"
  obtains (symbol) t where "t < n" "code t = q @ [b]" | (more) "pending (q @ [b])"
proof -
  from assms obtain s where "s < n" "strict_prefix q (code s)" by (auto simp: pending_def)
  from code_complete [OF this] obtain t where t: "t < n" "prefix (q @ [b]) (code t)" by blast
  show thesis
  proof (cases "code t = q @ [b]")
    case True
    with t symbol show thesis by blast
  next
    case False
    with t have "pending (q @ [b])" by (auto simp: pending_def strict_prefix_def)
    with more show thesis .
  qed
qed

lemma pending_prefix: "pending q \<Longrightarrow> prefix p q \<Longrightarrow> pending p"
  unfolding pending_def using prefix_order.le_less_trans by blast

lemma parse_prefix:
  assumes "pending q" "set xs \<subseteq> {..<n}" "set ys \<subseteq> {..<n}"
    and "concat (map code xs) @ q = concat (map code ys) @ r"
  shows "prefix ys xs"
  using assms
proof (induction xs arbitrary: ys)
  case Nil
  show ?case
  proof (cases ys)
    case (Cons y ys')
    with Nil have "prefix (code y) q" "y < n" by (auto simp: prefix_def)
    with Nil pending_no_code show ?thesis by blast
  qed simp
next
  case (Cons x xs)
  show ?case
  proof (cases ys)
    case (Cons y ys')
    let ?b = "code x @ concat (map code xs) @ q"
    have "?b = code y @ concat (map code ys') @ r" using Cons.prems(4) Cons by simp
    then have "prefix (code x) ?b" "prefix (code y) ?b" by (metis prefixI)+
    then have "prefix (code x) (code y) \<or> prefix (code y) (code x)"
      by (rule prefix_same_cases)
    then have "x = y"
      using code_prefix_free Cons.prems(2,3) Cons by auto
    with Cons.prems Cons Cons.IH [of ys'] show ?thesis by auto
  qed simp
qed

lemma unique_parse:
  assumes "pending q" "pending q'" "set xs \<subseteq> {..<n}" "set ys \<subseteq> {..<n}"
    and "concat (map code xs) @ q = concat (map code ys) @ q'"
  shows "xs = ys \<and> q = q'"
proof -
  have "prefix ys xs" by (rule parse_prefix [OF assms(1,3,4,5)])
  moreover have "prefix xs ys" by (rule parse_prefix [OF assms(2,4,3) assms(5) [symmetric]])
  ultimately have "xs = ys" by simp
  with assms(5) show ?thesis by simp
qed

end

subsection \<open>The table is a complete canonical prefix code\<close>

text \<open>
  \<open>canonical\<close> checks in one pass that the codes of each length are consecutive: \<open>next ! l\<close> is the
  next unused code of length \<open>l\<close>.  The intervals of 30-bit extensions of the lengths then tile
  \<^term>\<open>{0 ..< 2 ^ 30 :: nat}\<close>, which gives prefix freedom and completeness at once.
\<close>

fun canonical :: "nat list \<Rightarrow> (nat \<times> nat) list \<Rightarrow> nat list option" where
  "canonical nxt [] = Some nxt"
| "canonical nxt ((c, l) # rows) =
     (if l < length nxt \<and> nxt ! l = c then canonical (nxt[l := Suc c]) rows else None)"

lemma canonical_length: "canonical nxt rows = Some nxt' \<Longrightarrow> length nxt' = length nxt"
  by (induction nxt rows rule: canonical.induct) (auto split: if_splits)

lemma canonical_mono: "canonical nxt rows = Some nxt' \<Longrightarrow> l < length nxt \<Longrightarrow> nxt ! l \<le> nxt' ! l"
proof (induction nxt rows rule: canonical.induct)
  case (2 nxt c l' rows)
  then show ?case by (cases "l = l'") (fastforce split: if_splits)+
qed simp

lemma canonical_set:
  "canonical nxt rows = Some nxt' \<Longrightarrow>
   (c, l) \<in> set rows \<longleftrightarrow> l < length nxt \<and> nxt ! l \<le> c \<and> c < nxt' ! l"
proof (induction nxt rows rule: canonical.induct)
  case (2 nxt c' l' rows)
  then have l': "l' < length nxt" "nxt ! l' = c'" and r: "canonical (nxt[l' := Suc c']) rows = Some nxt'"
    by (auto split: if_splits)
  from 2(1) [OF conjI [OF l'] r] canonical_mono [OF r, of l'] l' show ?case
    by (cases "l = l'") auto
qed auto

lemma canonical_distinct: "canonical nxt rows = Some nxt' \<Longrightarrow> distinct rows"
proof (induction nxt rows rule: canonical.induct)
  case (2 nxt c' l' rows)
  then have r: "canonical (nxt[l' := Suc c']) rows = Some nxt'" "l' < length nxt"
    by (auto split: if_splits)
  with 2 canonical_set [OF r(1), of c' l'] show ?case by (auto split: if_splits)
qed simp

definition first_code :: "nat list" where
  "first_code = [0, 0, 0, 0, 0, 0, 0x14, 0x5c, 0xf8, 0, 0x3f8, 0x7fa, 0xffa, 0x1ff8, 0x3ffc, 0x7ffc, 0, 0, 0, 0x7fff0, 0xfffe6, 0x1fffdc, 0x3fffd2, 0x7fffd8, 0xffffea, 0x1ffffec, 0x3ffffe0, 0x7ffffde, 0xfffffe2, 0, 0x3ffffffc]"

definition last_code :: "nat list" where
  "last_code = [0, 0, 0, 0, 0, 0xa, 0x2e, 0x7c, 0xfe, 0, 0x3fd, 0x7fd, 0xffc, 0x1ffe, 0x3ffe, 0x7fff, 0, 0, 0, 0x7fff3, 0xfffee, 0x1fffe9, 0x3fffec, 0x7ffff5, 0xfffff6, 0x1fffff0, 0x3ffffef, 0x7fffff1, 0xfffffff, 0, 0x40000000]"

lemma table_canonical: "canonical first_code (zip CODES CODE_LENGTHS) = Some last_code"
  by (simp add: CODES_def CODE_LENGTHS_def first_code_def last_code_def)

subsection \<open>The tables of the code are such a code\<close>

lemma table_lengths: "length CODES = 257" "length CODE_LENGTHS = 257"
  by (simp_all add: CODES_def CODE_LENGTHS_def)

lemma table_row:
  "s < 257 \<Longrightarrow> (CODES ! s, CODE_LENGTHS ! s) \<in> set (zip CODES CODE_LENGTHS)"
  by (auto simp: set_zip table_lengths)

lemma table_row_ex:
  "(c, l) \<in> set (zip CODES CODE_LENGTHS) \<Longrightarrow> \<exists>s < 257. CODES ! s = c \<and> CODE_LENGTHS ! s = l"
  by (auto simp: set_zip table_lengths)

lemma table_inj:
  assumes "s < 257" "t < 257" "CODES ! s = CODES ! t" "CODE_LENGTHS ! s = CODE_LENGTHS ! t"
  shows "s = t"
proof -
  have "zip CODES CODE_LENGTHS ! s = zip CODES CODE_LENGTHS ! t"
    using assms by (simp add: table_lengths)
  with canonical_distinct [OF table_canonical] assms(1,2) show ?thesis
    by (auto simp: distinct_conv_nth table_lengths)
qed

text \<open>\<open>tile ! l\<close> is where the 30-bit extensions of the codes of length \<open>l\<close> begin.\<close>

definition tile :: "nat list" where
  "tile = [0, 0, 0, 0, 0, 0, 335544320, 771751936, 1040187392, 1065353216, 1065353216, 1070596096, 1072168960, 1072693248, 1073479680, 1073610752, 1073709056, 1073709056, 1073709056, 1073709056, 1073715200, 1073723392, 1073730048, 1073736704, 1073740416, 1073741184, 1073741312, 1073741552, 1073741704, 1073741820, 1073741820, 1073741824]"

definition tile_ok :: "nat \<Rightarrow> bool" where
  "tile_ok l \<longleftrightarrow>
     (if first_code ! l < last_code ! l
      then tile ! l = first_code ! l * 2 ^ (30 - l) \<and> tile ! Suc l = last_code ! l * 2 ^ (30 - l)
      else tile ! l = tile ! Suc l)"

lemma tile_oks: "list_all tile_ok [0, 1, 2, 3, 4, 5, 6, 7, 8, 9, 10, 11, 12, 13, 14, 15, 16, 17, 18, 19,
    20, 21, 22, 23, 24, 25, 26, 27, 28, 29, 30]"
  by (simp add: tile_ok_def tile_def first_code_def last_code_def)

lemma tile_ok: "l < 31 \<Longrightarrow> tile_ok l"
proof -
  assume "l < 31"
  then have "l \<in> set [0, 1, 2, 3, 4, 5, 6, 7, 8, 9, 10, 11, 12, 13, 14, 15, 16, 17, 18, 19,
    20, 21, 22, 23, 24, 25, 26, 27, 28, 29, 30]"
    by (simp add: numeral_eq_Suc less_Suc_eq)
  with tile_oks show ?thesis unfolding list_all_iff by blast
qed

lemma tile_mono: "l \<le> m \<Longrightarrow> m \<le> 31 \<Longrightarrow> tile ! l \<le> tile ! m"
proof (induction m)
  case (Suc m)
  have "tile ! m \<le> tile ! Suc m"
    using tile_ok [of m] Suc.prems by (auto simp: tile_ok_def split: if_splits)
  with Suc show ?case by (cases "l = Suc m") (auto intro: order_trans)
qed simp

lemma tile_bounds: "tile ! 0 = 0" "tile ! 31 = 2 ^ 30"
  by (simp_all add: tile_def)

text \<open>The 30-bit extensions of a code word form an interval inside the tile of its length.\<close>

lemma table_interval:
  assumes "s < 257"
  shows "CODE_LENGTHS ! s < 31" "tile ! (CODE_LENGTHS ! s) \<le> CODES ! s * 2 ^ (30 - CODE_LENGTHS ! s)"
    "(CODES ! s + 1) * 2 ^ (30 - CODE_LENGTHS ! s) \<le> tile ! Suc (CODE_LENGTHS ! s)"
proof -
  let ?l = "CODE_LENGTHS ! s" and ?c = "CODES ! s"
  from table_row [OF assms] canonical_set [OF table_canonical, of ?c ?l]
  have l: "?l < 31" and c: "first_code ! ?l \<le> ?c" "?c < last_code ! ?l"
    by (auto simp: first_code_def)
  then have t: "tile ! ?l = first_code ! ?l * 2 ^ (30 - ?l)"
    "tile ! Suc ?l = last_code ! ?l * 2 ^ (30 - ?l)"
    using tile_ok [OF l] by (auto simp: tile_ok_def split: if_splits)
  show "?l < 31" by (rule l)
  show "tile ! ?l \<le> ?c * 2 ^ (30 - ?l)" using c t by simp
  have "Suc ?c * 2 ^ (30 - ?l) \<le> last_code ! ?l * 2 ^ (30 - ?l)" using c(2) by (intro mult_le_mono) auto
  with t show "(?c + 1) * 2 ^ (30 - ?l) \<le> tile ! Suc ?l" by simp
qed

text \<open>The tiles cover every 30-bit value, and inside a tile every value belongs to a code word.\<close>

lemma tile_cover: "x < tile ! m \<Longrightarrow> m \<le> 31 \<Longrightarrow> \<exists>l < m. tile ! l \<le> x \<and> x < tile ! Suc l"
proof (induction m)
  case 0
  then show ?case by (simp add: tile_bounds)
next
  case (Suc m)
  then show ?case by (cases "x < tile ! m") (auto simp: less_Suc_eq not_less)
qed

lemma table_cover:
  assumes "x < 2 ^ 30"
  obtains s where "s < 257" "CODE_LENGTHS ! s < 31" "x div 2 ^ (30 - CODE_LENGTHS ! s) = CODES ! s"
proof -
  from tile_cover [of x 31] assms obtain l where l: "l < 31" "tile ! l \<le> x" "x < tile ! Suc l"
    by (auto simp: tile_bounds)
  with tile_ok [OF l(1)] have f: "first_code ! l * 2 ^ (30 - l) \<le> x" "x < last_code ! l * 2 ^ (30 - l)"
    by (auto simp: tile_ok_def split: if_splits)
  define c where "c = x div 2 ^ (30 - l)"
  have "first_code ! l \<le> c" using f(1) by (simp add: c_def less_eq_div_iff_mult_less_eq)
  moreover have "c < last_code ! l" using f(2) by (simp add: c_def less_mult_imp_div_less)
  ultimately have "(c, l) \<in> set (zip CODES CODE_LENGTHS)"
    using canonical_set [OF table_canonical, of c l] l(1) by (simp add: first_code_def)
  from table_row_ex [OF this] obtain s where "s < 257" "CODES ! s = c" "CODE_LENGTHS ! s = l" by blast
  with l(1) show thesis by (intro that [of s]) (auto simp: c_def)
qed

lemma interval_div:
  fixes x c :: nat
  assumes "x div 2 ^ (30 - k) = c"
  shows "c * 2 ^ (30 - k) \<le> x \<and> x < (c + 1) * 2 ^ (30 - k)"
proof -
  have "x < (x div 2 ^ (30 - k) + 1) * 2 ^ (30 - k)"
    using dividend_less_div_times [of "2 ^ (30 - k)" x] by simp
  with assms show ?thesis by (auto simp: div_times_less_eq_dividend)
qed

lemma table_unique:
  assumes s: "s < 257" and t: "t < 257"
    and xs: "x div 2 ^ (30 - CODE_LENGTHS ! s) = CODES ! s"
    and xt: "x div 2 ^ (30 - CODE_LENGTHS ! t) = CODES ! t"
  shows "s = t"
proof -
  note isv = table_interval [OF s] and it = table_interval [OF t]
  have xs': "tile ! (CODE_LENGTHS ! s) \<le> x" "x < tile ! Suc (CODE_LENGTHS ! s)"
    using interval_div [OF xs] isv by auto
  have xt': "tile ! (CODE_LENGTHS ! t) \<le> x" "x < tile ! Suc (CODE_LENGTHS ! t)"
    using interval_div [OF xt] it by auto
  have "CODE_LENGTHS ! s = CODE_LENGTHS ! t"
  proof (rule linorder_cases [of "CODE_LENGTHS ! s" "CODE_LENGTHS ! t"])
    assume "CODE_LENGTHS ! s < CODE_LENGTHS ! t"
    then have "tile ! Suc (CODE_LENGTHS ! s) \<le> tile ! (CODE_LENGTHS ! t)"
      using it(1) by (intro tile_mono) auto
    with xs' xt' show ?thesis by simp
  next
    assume "CODE_LENGTHS ! t < CODE_LENGTHS ! s"
    then have "tile ! Suc (CODE_LENGTHS ! t) \<le> tile ! (CODE_LENGTHS ! s)"
      using isv(1) by (intro tile_mono) auto
    with xs' xt' show ?thesis by simp
  qed
  with xs xt table_inj [OF s t] show ?thesis by simp
qed

text \<open>Code words as bit lists: their values, and the code word a long enough bit list starts with.\<close>

lemma code_bits_length [simp]: "length (code_bits s) = CODE_LENGTHS ! s"
  by (simp add: code_bits_def)

lemma table_range: "list_all2 (\<lambda>c l. c < 2 ^ l \<and> 5 \<le> l \<and> l \<le> 30) CODES CODE_LENGTHS"
  by (simp add: CODES_def CODE_LENGTHS_def)

lemma table_sizes:
  assumes "s < 257"
  shows "CODES ! s < 2 ^ (CODE_LENGTHS ! s)" "5 \<le> CODE_LENGTHS ! s" "CODE_LENGTHS ! s \<le> 30"
  using list_all2_nthD [OF table_range, of s] assms by (simp_all add: table_lengths)

lemma code_bits_val: "s < 257 \<Longrightarrow> bits_val (code_bits s) = CODES ! s"
  by (simp add: code_bits_def bits_val_bits_msb take_bit_nat_eq_self table_sizes)

lemma code_prefix_iff:
  assumes "s < 257" "length x = 30"
  shows "prefix (code_bits s) x \<longleftrightarrow> bits_val x div 2 ^ (30 - CODE_LENGTHS ! s) = CODES ! s"
proof -
  have le: "CODE_LENGTHS ! s \<le> length x" using table_sizes [OF assms(1)] assms(2) by simp
  have "prefix (code_bits s) x \<longleftrightarrow> take (CODE_LENGTHS ! s) x = code_bits s"
    by (metis append_eq_conv_conj append_take_drop_id code_bits_length prefix_def)
  also have "... \<longleftrightarrow> bits_val (take (CODE_LENGTHS ! s) x) = bits_val (code_bits s)"
    using le by (auto dest!: bits_val_inj)
  finally show ?thesis
    using bits_val_take [OF le] assms by (simp add: code_bits_val)
qed

lemma code_of_long:
  assumes "length x = 30"
  obtains s where "s < 257" "prefix (code_bits s) x"
proof -
  from bits_val_less [of x] assms have "bits_val x < 2 ^ 30" by simp
  then obtain s where "s < 257" "bits_val x div 2 ^ (30 - CODE_LENGTHS ! s) = CODES ! s"
    by (rule table_cover)
  with assms that show thesis by (simp add: code_prefix_iff)
qed

lemma code_bits_prefix_free:
  assumes s: "s < 257" and t: "t < 257" and p: "prefix (code_bits s) (code_bits t)"
  shows "s = t"
proof -
  define x where "x = code_bits t @ replicate (30 - CODE_LENGTHS ! t) False"
  have l: "length x = 30" using table_sizes [OF t] by (simp add: x_def)
  have "prefix (code_bits t) x" by (simp add: x_def)
  moreover from p this have "prefix (code_bits s) x" by (rule prefix_order.order_trans)
  ultimately show ?thesis using s t l by (intro table_unique [of s t "bits_val x"]) (simp_all add: code_prefix_iff)
qed

interpretation huffman: prefix_code code_bits 257
proof unfold_locales
  fix s :: nat
  assume "s < 257"
  with table_sizes [OF this] show "code_bits s \<noteq> []" by (auto dest: arg_cong [where f = length])
next
  fix s t :: nat
  assume "s < 257" "t < 257" "prefix (code_bits s) (code_bits t)"
  then show "s = t" by (rule code_bits_prefix_free)
next
  fix s :: nat and q b
  assume s: "s < 257" and q: "strict_prefix q (code_bits s)"
  have len: "length q < 30" using prefix_length_less [OF q] table_sizes [OF s] by simp
  let ?x = "q @ [b] @ replicate (29 - length q) b"
  from len have "length ?x = 30" by simp
  then obtain t where t: "t < 257" "prefix (code_bits t) ?x" by (rule code_of_long)
  have "prefix (q @ [b]) ?x" by simp
  with t(2) have "prefix (code_bits t) (q @ [b]) \<or> prefix (q @ [b]) (code_bits t)"
    by (rule prefix_same_cases)
  then show "\<exists>t < 257. prefix (q @ [b]) (code_bits t)"
  proof
    assume "prefix (code_bits t) (q @ [b])"
    then consider "code_bits t = q @ [b]" | "prefix (code_bits t) q" by (auto simp: prefix_snoc)
    then show ?thesis
    proof cases
      case 1
      then show ?thesis using t(1) by (intro exI [of _ t]) simp
    next
      case 2
      with q have "strict_prefix (code_bits t) (code_bits s)" by auto
      with code_bits_prefix_free [OF t(1) s] have False by (auto simp: strict_prefix_def)
      then show ?thesis ..
    qed
  qed (use t(1) in blast)
qed

end
