(* ===== verification/RustText.thy ===== *)
theory RustText
  imports Prelude
begin

text \<open>
  The parts of Rust's text handling that the HTTP/2 client uses: decimal and hexadecimal formatting,
  the ASCII classes of \<open>u8\<close>, case-insensitive comparison, \<open>String::from_utf8_lossy\<close> and the quoting of
  \<open>{:?}\<close>.  A \<open>String\<close> or \<open>&str\<close> is a \<^typ>\<open>string\<close> whose characters are the bytes of its UTF-8
  encoding.
\<close>

subsection \<open>Bytes and characters\<close>

definition to_bytes :: "string \<Rightarrow> bytes" where
  "to_bytes s = map (\<lambda>c. of_nat (of_char c)) s"

definition of_bytes :: "bytes \<Rightarrow> string" where
  "of_bytes bs = map (\<lambda>b. char_of (unat b)) bs"

lemma length_to_bytes [simp]: "length (to_bytes s) = length s"
  by (simp add: to_bytes_def)

lemma of_bytes_to_bytes [simp]: "of_bytes (to_bytes s) = s"
  by (simp add: of_bytes_def to_bytes_def unat_of_nat comp_def)

lemma to_bytes_of_bytes [simp]: "to_bytes (of_bytes bs) = bs"
proof -
  have "unat b < 256" for b :: u8 using unsigned_less [of b] by simp
  then show ?thesis by (simp add: of_bytes_def to_bytes_def comp_def map_idI)
qed

subsection \<open>Classes of bytes\<close>

definition is_ascii_digit :: "u8 \<Rightarrow> bool" where
  "is_ascii_digit b \<longleftrightarrow> 0x30 \<le> b \<and> b \<le> 0x39"

definition is_ascii_uppercase :: "u8 \<Rightarrow> bool" where
  "is_ascii_uppercase b \<longleftrightarrow> 0x41 \<le> b \<and> b \<le> 0x5a"

definition is_ascii_lowercase :: "u8 \<Rightarrow> bool" where
  "is_ascii_lowercase b \<longleftrightarrow> 0x61 \<le> b \<and> b \<le> 0x7a"

definition is_ascii_alphanumeric :: "u8 \<Rightarrow> bool" where
  "is_ascii_alphanumeric b \<longleftrightarrow> is_ascii_digit b \<or> is_ascii_uppercase b \<or> is_ascii_lowercase b"

definition is_ascii_graphic :: "u8 \<Rightarrow> bool" where
  "is_ascii_graphic b \<longleftrightarrow> 0x21 \<le> b \<and> b \<le> 0x7e"

definition to_ascii_lowercase :: "u8 \<Rightarrow> u8" where
  "to_ascii_lowercase b = (if is_ascii_uppercase b then b + 32 else b)"

definition eq_ignore_ascii_case :: "bytes \<Rightarrow> bytes \<Rightarrow> bool" where
  "eq_ignore_ascii_case a b \<longleftrightarrow> map to_ascii_lowercase a = map to_ascii_lowercase b"

lemma lowercase_not_uppercase: "\<not> is_ascii_uppercase (to_ascii_lowercase b)"
proof (cases "is_ascii_uppercase b")
  case True
  then have "unat b \<le> 0x5a" "0x41 \<le> unat b"
    by (simp_all add: is_ascii_uppercase_def word_le_nat_alt)
  then have "unat (b + 32) = unat b + 32" by (simp add: unat_word_ariths)
  with True show ?thesis
    by (simp add: to_ascii_lowercase_def is_ascii_uppercase_def word_le_nat_alt)
qed (simp add: to_ascii_lowercase_def)

subsection \<open>Numbers\<close>

definition digit_char :: "nat \<Rightarrow> char" where
  "digit_char d = char_of (if d < 10 then 48 + d else 87 + d)"

fun radix :: "nat \<Rightarrow> nat \<Rightarrow> string" where
  "radix base n = (if n < base \<or> base < 2 then [digit_char n] else radix base (n div base) @ [digit_char (n mod base)])"

declare radix.simps [simp del]

definition dec_text :: "nat \<Rightarrow> string" where
  "dec_text n = radix 10 n"

definition hex2_text :: "u8 \<Rightarrow> string" where
  "hex2_text b = (let s = radix 16 (unat b) in if length s < 2 then CHR ''0'' # s else s)"

lemma radix_nonempty [simp]: "radix base n \<noteq> []"
  by (subst radix.simps) simp

text \<open>Decimal formatting is injective: it is read back by the usual fold.\<close>

definition dec_val :: "string \<Rightarrow> nat" where
  "dec_val s = foldl (\<lambda>a c. 10 * a + (of_char c - 48)) 0 s"

lemma dec_val_text [simp]: "dec_val (dec_text n) = n"
proof (induction n rule: less_induct)
  case (less n)
  show ?case
  proof (cases "n < 10")
    case True
    then show ?thesis by (simp add: dec_text_def radix.simps [of 10 n] dec_val_def digit_char_def)
  next
    case False
    then have "dec_val (dec_text (n div 10)) = n div 10" by (intro less.IH) simp
    with False show ?thesis
      by (simp add: dec_text_def radix.simps [of 10 n] dec_val_def digit_char_def)
  qed
qed

lemma dec_text_inj: "dec_text m = dec_text n \<longleftrightarrow> m = n"
  by (metis dec_val_text)

lemma dec_text_length: "n < 10 ^ k \<Longrightarrow> 0 < k \<Longrightarrow> length (dec_text n) \<le> k"
proof (induction k arbitrary: n)
  case (Suc k)
  show ?case
  proof (cases "n < 10")
    case False
    with Suc.prems have "0 < k" by (cases k) auto
    moreover have "n div 10 < 10 ^ k" using Suc.prems by (simp add: less_mult_imp_div_less mult.commute)
    ultimately have "length (dec_text (n div 10)) \<le> k" using Suc.IH by blast
    with False show ?thesis by (simp add: dec_text_def radix.simps [of 10 n])
  qed (simp add: dec_text_def radix.simps [of 10 n])
qed simp

subsection \<open>Lossy decoding of UTF-8\<close>

text \<open>
  The length of the well-formed sequence at the front, or the error with the length of the maximal
  ill-formed part, which \<open>from_utf8_lossy\<close> replaces by one U+FFFD.
\<close>

definition is_cont :: "u8 \<Rightarrow> bool" where
  "is_cont b \<longleftrightarrow> 0x80 \<le> b \<and> b \<le> 0xbf"

definition second_ok :: "u8 \<Rightarrow> u8 \<Rightarrow> bool" where
  "second_ok lead b \<longleftrightarrow>
     (if lead = 0xe0 then 0xa0 \<le> b \<and> b \<le> 0xbf
      else if lead = 0xed then 0x80 \<le> b \<and> b \<le> 0x9f
      else if lead = 0xf0 then 0x90 \<le> b \<and> b \<le> 0xbf
      else if lead = 0xf4 then 0x80 \<le> b \<and> b \<le> 0x8f
      else is_cont b)"

definition utf8_width :: "u8 \<Rightarrow> nat" where
  "utf8_width b =
     (if b < 0x80 then 1
      else if 0xc2 \<le> b \<and> b \<le> 0xdf then 2
      else if 0xe0 \<le> b \<and> b \<le> 0xef then 3
      else if 0xf0 \<le> b \<and> b \<le> 0xf4 then 4 else 0)"

definition utf8_step :: "u8 \<Rightarrow> bytes \<Rightarrow> nat + nat" where
  "utf8_step b rest =
     (let w = utf8_width b in
      if w = 0 then Inl 1
      else if w = 1 then Inr 1
      else if rest = [] \<or> \<not> second_ok b (rest ! 0) then Inl 1
      else if w = 2 then Inr 2
      else if length rest < 2 \<or> \<not> is_cont (rest ! 1) then Inl 2
      else if w = 3 then Inr 3
      else if length rest < 3 \<or> \<not> is_cont (rest ! 2) then Inl 3
      else Inr 4)"

lemma utf8_step_bounds:
  "utf8_step b rest = Inl n \<Longrightarrow> 0 < n \<and> n \<le> Suc (length rest)"
  "utf8_step b rest = Inr n \<Longrightarrow> 0 < n \<and> n \<le> Suc (length rest)"
proof -
  have "rest \<noteq> [] \<Longrightarrow> 0 < length rest" by simp
  then show "utf8_step b rest = Inl n \<Longrightarrow> 0 < n \<and> n \<le> Suc (length rest)"
    "utf8_step b rest = Inr n \<Longrightarrow> 0 < n \<and> n \<le> Suc (length rest)"
    unfolding utf8_step_def Let_def by (clarsimp split: if_split_asm; linarith)+
qed

function from_utf8_lossy :: "bytes \<Rightarrow> bytes" where
  "from_utf8_lossy [] = []"
| "from_utf8_lossy (b # rest) =
     (case utf8_step b rest of
        Inr n \<Rightarrow> take n (b # rest) @ from_utf8_lossy (drop n (b # rest))
      | Inl n \<Rightarrow> [0xef, 0xbf, 0xbd] @ from_utf8_lossy (drop n (b # rest)))"
  by pat_completeness auto
termination
  by (relation "measure length") (auto dest: utf8_step_bounds)

declare from_utf8_lossy.simps(2) [simp del]

lemma from_utf8_lossy_ascii: "(\<And>b. b \<in> set bs \<Longrightarrow> b < 0x80) \<Longrightarrow> from_utf8_lossy bs = bs"
proof (induction bs)
  case (Cons b bs)
  then have "b < 0x80" "from_utf8_lossy bs = bs" by simp_all
  then show ?case by (subst from_utf8_lossy.simps) (simp add: utf8_step_def utf8_width_def)
qed simp

subsection \<open>Quoting\<close>

text \<open>
  \<open>{:?}\<close> of a string.  Characters outside ASCII are kept; the standard library also escapes those that
  are not printable, which needs the Unicode tables.
\<close>

definition debug_char :: "char \<Rightarrow> string" where
  "debug_char c =
     (let n = of_char c :: nat in
      if n = 34 then [CHR 0x5c, CHR 0x22]
      else if n = 92 then [CHR 0x5c, CHR 0x5c]
      else if n = 0 then [CHR 0x5c, CHR ''0'']
      else if n = 9 then [CHR 0x5c, CHR ''t'']
      else if n = 10 then [CHR 0x5c, CHR ''n'']
      else if n = 13 then [CHR 0x5c, CHR ''r'']
      else if n < 32 \<or> n = 127 then [CHR 0x5c, CHR ''u'', CHR 0x7b] @ radix 16 n @ [CHR 0x7d]
      else [c])"

definition debug_text :: "string \<Rightarrow> string" where
  "debug_text s = [CHR 0x22] @ concat (map debug_char s) @ [CHR 0x22]"

end
