(* ===== verification/H2Error.thy ===== *)
theory H2Error
  imports RustText
begin

text \<open>
  Identifiers, error codes and error values of the HTTP/2 client
  (\<^verbatim>\<open>crates/render-net/src/h2/error.rs\<close>): the 31-bit stream identifier, the wire error codes, the
  frame, HPACK and connection errors with their accessors, and their \<open>Display\<close> texts, which reach
  the wire as the debug data of a GOAWAY frame.
\<close>

subsection \<open>Stream identifiers\<close>

datatype stream_id = StreamId (sid_raw: u32)

definition stream_new :: "u32 \<Rightarrow> stream_id" where
  "stream_new raw = StreamId (raw AND 0x7fffffff)"

definition CONNECTION :: stream_id where
  "CONNECTION = StreamId 0"

definition is_connection :: "stream_id \<Rightarrow> bool" where
  "is_connection s \<longleftrightarrow> sid_raw s = 0"

definition is_client_initiated :: "stream_id \<Rightarrow> bool" where
  "is_client_initiated s \<longleftrightarrow> sid_raw s mod 2 = 1"

text \<open>The private constructor keeps the reserved bit clear: the type invariant.\<close>

definition stream_ok :: "stream_id \<Rightarrow> bool" where
  "stream_ok s \<longleftrightarrow> unat (sid_raw s) < 2 ^ 31"

lemma and_31: "(raw :: u32) AND 0x7fffffff = take_bit 31 raw"
proof -
  have "(0x7fffffff :: u32) = mask 31" by (simp add: mask_eq_exp_minus_1)
  then show ?thesis by (simp only: take_bit_eq_mask)
qed

lemma stream_ok_new [simp, intro]: "stream_ok (stream_new raw)"
  using take_bit_nat_less_exp [of 31 "unat raw"]
  by (simp add: stream_ok_def stream_new_def and_31 unsigned_take_bit_eq)

lemma stream_ok_CONNECTION [simp, intro]: "stream_ok CONNECTION"
  by (simp add: stream_ok_def CONNECTION_def)

lemma stream_new_id [simp]: "stream_ok s \<Longrightarrow> stream_new (sid_raw s) = s"
  by (cases s)
     (simp add: stream_ok_def stream_new_def and_31 word_unat_eq_iff unsigned_take_bit_eq
        take_bit_nat_eq_self)

subsection \<open>Error codes\<close>

datatype error_code = NoError | ProtocolError | InternalError | FlowControlError
  | SettingsTimeout | StreamClosed | FrameSizeError | RefusedStream | Cancel | CompressionError
  | ConnectError | EnhanceYourCalm | InadequateSecurity | Http11Required | UnknownCode u32

definition error_code_from_u32 :: "u32 \<Rightarrow> error_code" where
  "error_code_from_u32 raw =
     (if raw = 0x0 then NoError
      else if raw = 0x1 then ProtocolError
      else if raw = 0x2 then InternalError
      else if raw = 0x3 then FlowControlError
      else if raw = 0x4 then SettingsTimeout
      else if raw = 0x5 then StreamClosed
      else if raw = 0x6 then FrameSizeError
      else if raw = 0x7 then RefusedStream
      else if raw = 0x8 then Cancel
      else if raw = 0x9 then CompressionError
      else if raw = 0xa then ConnectError
      else if raw = 0xb then EnhanceYourCalm
      else if raw = 0xc then InadequateSecurity
      else if raw = 0xd then Http11Required
      else UnknownCode raw)"

fun error_code_as_u32 :: "error_code \<Rightarrow> u32" where
  "error_code_as_u32 NoError = 0x0"
| "error_code_as_u32 ProtocolError = 0x1"
| "error_code_as_u32 InternalError = 0x2"
| "error_code_as_u32 FlowControlError = 0x3"
| "error_code_as_u32 SettingsTimeout = 0x4"
| "error_code_as_u32 StreamClosed = 0x5"
| "error_code_as_u32 FrameSizeError = 0x6"
| "error_code_as_u32 RefusedStream = 0x7"
| "error_code_as_u32 Cancel = 0x8"
| "error_code_as_u32 CompressionError = 0x9"
| "error_code_as_u32 ConnectError = 0xa"
| "error_code_as_u32 EnhanceYourCalm = 0xb"
| "error_code_as_u32 InadequateSecurity = 0xc"
| "error_code_as_u32 Http11Required = 0xd"
| "error_code_as_u32 (UnknownCode v) = v"

lemma error_code_as_from [simp]: "error_code_as_u32 (error_code_from_u32 raw) = raw"
  by (simp add: error_code_from_u32_def)

text \<open>The other direction holds for the codes decoding can produce.\<close>

definition error_code_ok :: "error_code \<Rightarrow> bool" where
  "error_code_ok c \<longleftrightarrow> (case c of UnknownCode v \<Rightarrow> 0xd < v | _ \<Rightarrow> True)"

lemma error_code_from_as: "error_code_ok c \<Longrightarrow> error_code_from_u32 (error_code_as_u32 c) = c"
  by (cases c) (auto simp: error_code_from_u32_def error_code_ok_def)

subsection \<open>Error values\<close>

datatype frame_error = FrameClosed | FrameIo string
  | FrameProtocol error_code "stream_id option" string

definition frame_error_connection :: "error_code \<Rightarrow> string \<Rightarrow> frame_error" where
  "frame_error_connection code detail = FrameProtocol code None detail"

definition frame_error_stream :: "stream_id \<Rightarrow> error_code \<Rightarrow> string \<Rightarrow> frame_error" where
  "frame_error_stream s code detail = FrameProtocol code (Some s) detail"

fun frame_error_code :: "frame_error \<Rightarrow> error_code" where
  "frame_error_code FrameClosed = NoError"
| "frame_error_code (FrameIo _) = NoError"
| "frame_error_code (FrameProtocol code _ _) = code"

fun frame_error_stream_id :: "frame_error \<Rightarrow> stream_id option" where
  "frame_error_stream_id (FrameProtocol _ s _) = s"
| "frame_error_stream_id _ = None"

fun frame_error_is_connection :: "frame_error \<Rightarrow> bool" where
  "frame_error_is_connection (FrameProtocol _ None _) = True"
| "frame_error_is_connection _ = False"

datatype hpack_error = InvalidIndex nat | IndexZero | IntegerOverflow | TruncatedInteger
  | TruncatedString nat nat | StringTooLong nat nat | SizeUpdateNotAtStart
  | SizeUpdateTooLarge nat nat | InvalidHuffmanCode | EosInHuffman | InvalidHuffmanPadding
  | HpackHeaderListTooLarge nat

datatype unsupported_feature = ServerPush | PriorityScheduling | TlsAlpn | Connect

datatype h2_error = H2Frame frame_error | H2Hpack hpack_error | H2Io string | H2ConnectionClosed
  | H2Protocol error_code string | H2Stream stream_id error_code string
  | H2StreamReset stream_id error_code | H2GoAway stream_id error_code bytes
  | H2Unsupported unsupported_feature | H2InvalidConfig string | H2InvalidRequest string
  | H2ConcurrentStreamLimit u32 | H2StreamIdExhausted | H2ResponseBodyTooLarge nat
  | H2HeaderBlockTooLarge nat | H2HeaderListTooLarge nat

fun h2_error_code :: "h2_error \<Rightarrow> error_code" where
  "h2_error_code (H2Frame e) = frame_error_code e"
| "h2_error_code (H2Hpack _) = CompressionError"
| "h2_error_code (H2Protocol code _) = code"
| "h2_error_code (H2Stream _ code _) = code"
| "h2_error_code (H2StreamReset _ code) = code"
| "h2_error_code (H2GoAway _ code _) = code"
| "h2_error_code (H2Unsupported ServerPush) = ProtocolError"
| "h2_error_code (H2ResponseBodyTooLarge _) = EnhanceYourCalm"
| "h2_error_code (H2HeaderBlockTooLarge _) = EnhanceYourCalm"
| "h2_error_code (H2HeaderListTooLarge _) = EnhanceYourCalm"
| "h2_error_code _ = NoError"

fun h2_error_stream_id :: "h2_error \<Rightarrow> stream_id option" where
  "h2_error_stream_id (H2Frame e) = frame_error_stream_id e"
| "h2_error_stream_id (H2Stream s _ _) = Some s"
| "h2_error_stream_id (H2StreamReset s _) = Some s"
| "h2_error_stream_id _ = None"

fun h2_error_is_connection :: "h2_error \<Rightarrow> bool" where
  "h2_error_is_connection (H2Frame e) = frame_error_is_connection e"
| "h2_error_is_connection (H2Hpack _) = True"
| "h2_error_is_connection (H2Protocol _ _) = True"
| "h2_error_is_connection (H2HeaderBlockTooLarge _) = True"
| "h2_error_is_connection (H2HeaderListTooLarge _) = True"
| "h2_error_is_connection (H2Unsupported ServerPush) = True"
| "h2_error_is_connection _ = False"

text \<open>A connection error is never attributed to a stream: the two reports exclude each other.\<close>

lemma connection_error_no_stream:
  "h2_error_is_connection e \<Longrightarrow> h2_error_stream_id e = None"
  by (cases e rule: h2_error_is_connection.cases; simp)
     (metis frame_error_is_connection.simps(2,3) frame_error_stream_id.simps(1,2,3)
        frame_error_is_connection.elims(2))

subsection \<open>Display texts\<close>

definition stream_text :: "stream_id \<Rightarrow> string" where
  "stream_text s = ''stream '' @ dec_text (unat (sid_raw s))"

fun error_code_text :: "error_code \<Rightarrow> string" where
  "error_code_text NoError = ''NO_ERROR''"
| "error_code_text ProtocolError = ''PROTOCOL_ERROR''"
| "error_code_text InternalError = ''INTERNAL_ERROR''"
| "error_code_text FlowControlError = ''FLOW_CONTROL_ERROR''"
| "error_code_text SettingsTimeout = ''SETTINGS_TIMEOUT''"
| "error_code_text StreamClosed = ''STREAM_CLOSED''"
| "error_code_text FrameSizeError = ''FRAME_SIZE_ERROR''"
| "error_code_text RefusedStream = ''REFUSED_STREAM''"
| "error_code_text Cancel = ''CANCEL''"
| "error_code_text CompressionError = ''COMPRESSION_ERROR''"
| "error_code_text ConnectError = ''CONNECT_ERROR''"
| "error_code_text EnhanceYourCalm = ''ENHANCE_YOUR_CALM''"
| "error_code_text InadequateSecurity = ''INADEQUATE_SECURITY''"
| "error_code_text Http11Required = ''HTTP_1_1_REQUIRED''"
| "error_code_text (UnknownCode v) = ''unknown error code '' @ dec_text (unat v)"

fun frame_error_text :: "frame_error \<Rightarrow> string" where
  "frame_error_text FrameClosed = ''peer closed the connection''"
| "frame_error_text (FrameIo message) = ''frame I/O failed: '' @ message"
| "frame_error_text (FrameProtocol code (Some s) detail) =
     stream_text s @ '': '' @ error_code_text code @ '': '' @ detail"
| "frame_error_text (FrameProtocol code None detail) =
     ''connection: '' @ error_code_text code @ '': '' @ detail"

fun hpack_error_text :: "hpack_error \<Rightarrow> string" where
  "hpack_error_text (InvalidIndex index) = ''invalid HPACK table index '' @ dec_text index"
| "hpack_error_text IndexZero = ''HPACK index 0 is reserved''"
| "hpack_error_text IntegerOverflow = ''HPACK integer overflow''"
| "hpack_error_text TruncatedInteger = ''truncated HPACK integer''"
| "hpack_error_text (TruncatedString expected remaining) =
     ''truncated HPACK string: declared '' @ dec_text expected @ '' bytes, '' @ dec_text remaining @ '' remain''"
| "hpack_error_text (StringTooLong len limit) =
     ''HPACK string of '' @ dec_text len @ '' bytes exceeds limit '' @ dec_text limit"
| "hpack_error_text SizeUpdateNotAtStart = ''HPACK dynamic table size update after a header field''"
| "hpack_error_text (SizeUpdateTooLarge requested limit) =
     ''HPACK table size update to '' @ dec_text requested @ '' exceeds limit '' @ dec_text limit"
| "hpack_error_text InvalidHuffmanCode = ''invalid HPACK Huffman code''"
| "hpack_error_text EosInHuffman = ''HPACK Huffman string contains EOS''"
| "hpack_error_text InvalidHuffmanPadding = ''invalid HPACK Huffman padding''"
| "hpack_error_text (HpackHeaderListTooLarge limit) =
     ''decoded HPACK header list exceeds limit '' @ dec_text limit"

fun feature_text :: "unsupported_feature \<Rightarrow> string" where
  "feature_text ServerPush = ''HTTP/2 server push''"
| "feature_text PriorityScheduling = ''HTTP/2 priority scheduling''"
| "feature_text TlsAlpn = ''TLS ALPN negotiation''"
| "feature_text Connect = ''HTTP/2 CONNECT''"

fun h2_error_text :: "h2_error \<Rightarrow> string" where
  "h2_error_text (H2Frame e) = frame_error_text e"
| "h2_error_text (H2Hpack e) = ''HPACK: '' @ hpack_error_text e"
| "h2_error_text (H2Io message) = ''HTTP/2 I/O failed: '' @ message"
| "h2_error_text H2ConnectionClosed = ''HTTP/2 connection closed by peer''"
| "h2_error_text (H2Protocol code detail) = error_code_text code @ '': '' @ detail"
| "h2_error_text (H2Stream s code detail) =
     stream_text s @ '': '' @ error_code_text code @ '': '' @ detail"
| "h2_error_text (H2StreamReset s code) = stream_text s @ '' reset by peer: '' @ error_code_text code"
| "h2_error_text (H2GoAway s code debug_data) =
     ''GOAWAY (last stream '' @ stream_text s @ '', '' @ error_code_text code @ '')'' @
     (if debug_data = [] then [] else '': '' @ of_bytes (from_utf8_lossy debug_data))"
| "h2_error_text (H2Unsupported feature) = ''unsupported HTTP/2 feature: '' @ feature_text feature"
| "h2_error_text (H2InvalidConfig message) = ''invalid HTTP/2 configuration: '' @ message"
| "h2_error_text (H2InvalidRequest message) = ''invalid HTTP/2 request: '' @ message"
| "h2_error_text (H2ConcurrentStreamLimit limit) =
     ''HTTP/2 concurrent stream limit '' @ dec_text (unat limit) @ '' reached''"
| "h2_error_text H2StreamIdExhausted = ''HTTP/2 client stream identifier space exhausted''"
| "h2_error_text (H2ResponseBodyTooLarge limit) =
     ''HTTP/2 response body exceeds limit '' @ dec_text limit"
| "h2_error_text (H2HeaderBlockTooLarge limit) =
     ''HTTP/2 header block exceeds limit '' @ dec_text limit"
| "h2_error_text (H2HeaderListTooLarge limit) =
     ''HTTP/2 header list exceeds limit '' @ dec_text limit"

end
