(* ===== verification/HpackHuffman.thy ===== *)
theory HpackHuffman
  imports HuffmanTree HuffmanTable H2Error
begin

text \<open>
  The Huffman codec of HPACK (\<^verbatim>\<open>crates/render-net/src/h2/hpack/huffman.rs\<close>): the decoder's tree, the
  bitwise decoder with its padding rule, and the accumulator-based encoder.
\<close>

subsection \<open>The tree of the code\<close>

definition tree :: "hnode list" where
  "tree = foldl (\<lambda>nodes symbol. insert_symbol (code_bits symbol) symbol nodes)
            [default_node] [0..<length CODES]"

lemma tree_build: "tree = arena.build code_bits 257"
  by (simp add: tree_def arena.build_def table_lengths)

lemma tree_arena: "arena_ok tree"
  by (simp add: tree_build arena.invar_build)

lemma tree_symbol: "symbol_at tree q = Some s \<longleftrightarrow> s < 257 \<and> code_bits s = q"
  using arena.lookup_build [OF huffman.code_inj] by (simp add: tree_build)

lemma tree_reach: "s < 257 \<Longrightarrow> prefix q (code_bits s) \<Longrightarrow> walk tree 0 q \<noteq> None"
  using arena.reach_build [of s 257 q code_bits] by (simp add: tree_build reachable_path_def)

subsection \<open>Decoding\<close>

record hstate =
  hd_node :: nat
  bits_since_symbol :: nat
  all_ones :: bool
  hd_output :: bytes

definition hstate_init :: hstate where
  "hstate_init = \<lparr>hd_node = 0, bits_since_symbol = 0, all_ones = True, hd_output = []\<rparr>"

text \<open>The body of the two nested loops of \<open>decode\<close>: one bit.\<close>

definition decode_bit :: "bool \<Rightarrow> hstate \<Rightarrow> hpack_error + hstate" where
  "decode_bit b st =
     (case child b (tree ! hd_node st) of
        None \<Rightarrow> Inl InvalidHuffmanCode
      | Some node \<Rightarrow>
          (case node_symbol (tree ! node) of
             Some symbol \<Rightarrow>
               if symbol = 256 then Inl EosInHuffman
               else Inr \<lparr>hd_node = 0, bits_since_symbol = 0, all_ones = True,
                         hd_output = hd_output st @ [if symbol < 256 then of_nat symbol else 0]\<rparr>
           | None \<Rightarrow>
               Inr (st\<lparr>hd_node := node, bits_since_symbol := bits_since_symbol st + 1,
                       all_ones := all_ones st \<and> b\<rparr>)))"

fun decode_shifts :: "u8 \<Rightarrow> nat list \<Rightarrow> hstate \<Rightarrow> hpack_error + hstate" where
  "decode_shifts byte [] st = Inr st"
| "decode_shifts byte (shift # shifts) st =
     and_then (decode_bit (drop_bit shift byte AND 1 = 1) st) (decode_shifts byte shifts)"

fun decode_octets :: "bytes \<Rightarrow> hstate \<Rightarrow> hpack_error + hstate" where
  "decode_octets [] st = Inr st"
| "decode_octets (byte # input) st =
     and_then (decode_shifts byte (rev [0..<8]) st) (decode_octets input)"

definition huffman_decode :: "bytes \<Rightarrow> hpack_error + bytes" where
  "huffman_decode input =
     and_then (decode_octets input hstate_init) (\<lambda>st.
       if hd_node st \<noteq> 0 \<and> (7 < bits_since_symbol st \<or> \<not> all_ones st)
       then Inl InvalidHuffmanPadding else Inr (hd_output st))"

subsection \<open>Encoding\<close>

fun emit_octets :: "u64 \<Rightarrow> nat \<Rightarrow> bytes \<Rightarrow> nat \<times> bytes" where
  "emit_octets accumulator bits out =
     (if 8 \<le> bits
      then emit_octets accumulator (bits - 8) (out @ [ucast (drop_bit (bits - 8) accumulator AND 0xff)])
      else (bits, out))"

declare emit_octets.simps [simp del]

definition encode_octet :: "u8 \<Rightarrow> u64 \<times> nat \<times> bytes \<Rightarrow> u64 \<times> nat \<times> bytes" where
  "encode_octet byte = (\<lambda>(accumulator, bits, out).
     (let code = of_nat (CODES ! unat byte) :: u64;
          length = CODE_LENGTHS ! unat byte;
          accumulator' = push_bit length accumulator OR code;
          (bits', out') = emit_octets accumulator' (bits + length) out
      in (accumulator' AND (push_bit bits' 1 - 1), bits', out')))"

definition huffman_encode :: "bytes \<Rightarrow> bytes" where
  "huffman_encode input =
     (let (accumulator, bits, out) = foldl (\<lambda>st byte. encode_octet byte st) (0, 0, []) input
      in if 0 < bits
         then (let padding = 8 - bits;
                   v = push_bit padding accumulator OR (push_bit padding 1 - 1)
               in out @ [ucast (v AND 0xff)])
         else out)"

definition encoded_len :: "bytes \<Rightarrow> nat" where
  "encoded_len input = (sum_list (map (\<lambda>byte. CODE_LENGTHS ! unat byte) input) + 7) div 8"

subsection \<open>The decoder as a function of the bits it reads\<close>

fun decode_bits :: "bool list \<Rightarrow> hstate \<Rightarrow> hpack_error + hstate" where
  "decode_bits [] st = Inr st"
| "decode_bits (b # bs) st = and_then (decode_bit b st) (decode_bits bs)"

lemma decode_bits_append:
  "decode_bits (xs @ ys) st = and_then (decode_bits xs st) (decode_bits ys)"
  by (induction xs arbitrary: st) (simp_all add: and_then_def split: sum.split)

lemma bit_shift: "drop_bit n (b :: u8) AND 1 = 1 \<longleftrightarrow> bit b n"
  by (simp add: and_one_eq mod_2_eq_odd bit_iff_odd_drop_bit)

lemma decode_shifts_bits: "decode_shifts byte shifts st = decode_bits (map (bit byte) shifts) st"
  by (induction shifts arbitrary: st) (simp_all add: bit_shift cong: and_then_cong)

lemma decode_octets_bits: "decode_octets input st = decode_bits (concat (map byte_bits input)) st"
  by (induction input arbitrary: st)
     (simp_all add: decode_bits_append decode_shifts_bits bits_msb_def cong: and_then_cong)

text \<open>
  \<open>tracks st bs\<close>: after the bits \<open>bs\<close> the state holds the symbols of a parse of \<open>bs\<close> into code
  words, and its node is where the pending bits lead.
\<close>

definition codes_of :: "bytes \<Rightarrow> bool list" where
  "codes_of out = concat (map (\<lambda>byte. code_bits (unat byte)) out)"

definition tracks :: "hstate \<Rightarrow> bool list \<Rightarrow> bool" where
  "tracks st bs \<longleftrightarrow> (\<exists>q. huffman.pending q \<and> walk tree 0 q = Some (hd_node st) \<and>
     bits_since_symbol st = length q \<and> (all_ones st \<longleftrightarrow> (\<forall>b \<in> set q. b)) \<and>
     bs = codes_of (hd_output st) @ q)"

lemma pending_Nil: "huffman.pending []"
  using huffman.code_nonempty [of 0] unfolding huffman.pending_def
  by (intro exI [of _ 0]) (simp add: strict_prefix_def)

lemma tracks_init: "tracks hstate_init []"
  unfolding tracks_def
  by (intro exI [of _ "[]"]) (simp add: pending_Nil hstate_init_def codes_of_def)

lemma codes_of_snoc: "codes_of (out @ [byte]) = codes_of out @ code_bits (unat byte)"
  by (simp add: codes_of_def)

lemma decode_bit_tracks:
  assumes "tracks st bs"
  shows "(\<exists>st'. decode_bit b st = Inr st' \<and> tracks st' (bs @ [b])) \<or>
    decode_bit b st = Inl EosInHuffman \<and> bs @ [b] = codes_of (hd_output st) @ code_bits 256"
proof -
  from assms obtain q where q: "huffman.pending q" "walk tree 0 q = Some (hd_node st)"
    "bits_since_symbol st = length q" "all_ones st \<longleftrightarrow> (\<forall>b \<in> set q. b)"
    "bs = codes_of (hd_output st) @ q" by (auto simp: tracks_def)
  from q(1) show ?thesis
  proof (cases rule: huffman.pending_step [of q b])
    case (symbol t)
    then have s: "symbol_at tree (q @ [b]) = Some t" by (simp add: tree_symbol)
    with q(2) obtain j where j: "child b (tree ! hd_node st) = Some j" "node_symbol (tree ! j) = Some t"
      by (auto simp: symbol_at_def walk_append split: option.splits)
    show ?thesis
    proof (cases "t = 256")
      case True
      with j q(5) symbol show ?thesis by (simp add: decode_bit_def)
    next
      case False
      with symbol have t: "t < 256" by simp
      then have u: "unat (of_nat t :: u8) = t" by (simp add: unat_of_nat)
      let ?st = "\<lparr>hd_node = 0, bits_since_symbol = 0, all_ones = True, hd_output = hd_output st @ [of_nat t]\<rparr>"
      have "tracks ?st (bs @ [b])" unfolding tracks_def
        by (intro exI [of _ "[]"]) (use symbol q(5) u in \<open>simp add: pending_Nil codes_of_snoc\<close>)
      with j t False show ?thesis by (simp add: decode_bit_def)
    qed
  next
    case more
    then obtain s where s: "s < 257" "strict_prefix (q @ [b]) (code_bits s)" by (auto simp: huffman.pending_def)
    then have "walk tree 0 (q @ [b]) \<noteq> None" using tree_reach [of s "q @ [b]"] by simp
    with q(2) obtain j where j: "child b (tree ! hd_node st) = Some j"
      by (auto simp: walk_append split: option.splits)
    with q(2) have w: "walk tree 0 (q @ [b]) = Some j" by (simp add: walk_append)
    have "symbol_at tree (q @ [b]) = None"
      using huffman.pending_no_code [OF more] tree_symbol [of "q @ [b]"] by (cases "symbol_at tree (q @ [b])") auto
    with w have n: "node_symbol (tree ! j) = None" by (simp add: symbol_at_def)
    let ?st = "st\<lparr>hd_node := j, bits_since_symbol := bits_since_symbol st + 1, all_ones := all_ones st \<and> b\<rparr>"
    have "tracks ?st (bs @ [b])" unfolding tracks_def
      by (intro exI [of _ "q @ [b]"]) (use more q w in auto)
    with j n show ?thesis by (simp add: decode_bit_def)
  qed
qed

lemma decode_bits_tracks:
  "tracks st bs \<Longrightarrow>
    (\<exists>st'. decode_bits cs st = Inr st' \<and> tracks st' (bs @ cs)) \<or>
    decode_bits cs st = Inl EosInHuffman \<and>
      (\<exists>out rest. bs @ cs = codes_of out @ code_bits 256 @ rest)"
proof (induction cs arbitrary: st bs)
  case (Cons c cs)
  from decode_bit_tracks [OF Cons.prems, of c] show ?case
  proof (elim disjE exE conjE)
    fix st'
    assume "decode_bit c st = Inr st'" "tracks st' (bs @ [c])"
    with Cons.IH [of st' "bs @ [c]"] show ?thesis by simp
  next
    assume "decode_bit c st = Inl EosInHuffman" "bs @ [c] = codes_of (hd_output st) @ code_bits 256"
    then show ?thesis
      by (intro disjI2 conjI exI [of _ "hd_output st"] exI [of _ cs]) (simp, metis append.assoc append_Cons append_Nil)
  qed
qed simp

lemma code_eos: "code_bits 256 = replicate 30 True"
proof -
  have "CODES ! 256 = mask 30" "CODE_LENGTHS ! 256 = 30"
    by (simp_all add: CODES_def CODE_LENGTHS_def mask_eq_exp_minus_1)
  then show ?thesis
    by (auto simp: code_bits_def bits_msb_def bit_mask_iff list_eq_iff_nth_eq rev_nth)
qed

lemma pending_ones: "k < 30 \<Longrightarrow> huffman.pending (replicate k True)"
  unfolding huffman.pending_def code_eos [symmetric]
proof (intro exI [of _ 256] conjI)
  assume "k < 30"
  then have "replicate 30 True = replicate k True @ replicate (30 - k) True"
    by (simp add: replicate_add [symmetric])
  then show "strict_prefix (replicate k True) (code_bits 256)"
    using \<open>k < 30\<close> by (auto simp: code_eos strict_prefix_def dest: arg_cong [where f = length])
qed simp

lemma byte_less: "unat (byte :: u8) < 256"
  using unsigned_less [of byte] by simp

lemma map_unat_inj: "map unat (xs :: bytes) = map unat ys \<Longrightarrow> xs = ys"
  by (erule map_injective) (simp add: inj_def word_unat_eq_iff)

lemma codes_of_range:
  "codes_of out = concat (map code_bits (map unat out))"
  "set (map unat (out :: bytes)) \<subseteq> {..<256}"
  "set (map unat (out :: bytes)) \<subseteq> {..<257}"
  using byte_less by (auto simp: codes_of_def comp_def intro: less_trans)

text \<open>The decoder accepts exactly the code words of the output followed by fewer than 8 one bits.\<close>

lemma huffman_decode_iff:
  "huffman_decode input = Inr out \<longleftrightarrow>
     (\<exists>k < 8. concat (map byte_bits input) = codes_of out @ replicate k True)"
  (is "?l \<longleftrightarrow> ?r")
proof
  assume ?l
  then obtain st where st: "decode_bits (concat (map byte_bits input)) hstate_init = Inr st"
    "\<not> (hd_node st \<noteq> 0 \<and> (7 < bits_since_symbol st \<or> \<not> all_ones st))" "hd_output st = out"
    by (auto simp: huffman_decode_def decode_octets_bits result_simps split: if_splits)
  with decode_bits_tracks [OF tracks_init, of "concat (map byte_bits input)"]
  obtain q where q: "walk tree 0 q = Some (hd_node st)" "bits_since_symbol st = length q"
    "all_ones st \<longleftrightarrow> (\<forall>b \<in> set q. b)" "concat (map byte_bits input) = codes_of out @ q"
    by (auto simp: tracks_def)
  show ?r
  proof (cases "hd_node st = 0")
    case True
    with q(1) walk_inj [OF tree_arena, of q 0 "[]"] have "q = []" by simp
    with q(4) show ?thesis by (intro exI [of _ 0]) simp
  next
    case False
    with st(2) q(2,3) have "length q < 8" "q = replicate (length q) True"
      by (auto simp: list_eq_iff_nth_eq)
    with q(4) show ?thesis by metis
  qed
next
  assume ?r
  then obtain k where k: "k < 8" and b: "concat (map byte_bits input) = codes_of out @ replicate k True"
    by blast
  have pk: "huffman.pending (replicate k True)" using k by (intro pending_ones) simp
  from decode_bits_tracks [OF tracks_init, of "concat (map byte_bits input)"] show ?l
  proof (elim disjE exE conjE)
    fix st
    assume st: "decode_bits (concat (map byte_bits input)) hstate_init = Inr st"
      "tracks st ([] @ concat (map byte_bits input))"
    then obtain q where q: "huffman.pending q" "bits_since_symbol st = length q"
      "all_ones st \<longleftrightarrow> (\<forall>b \<in> set q. b)" "codes_of out @ replicate k True = codes_of (hd_output st) @ q"
      using b by (auto simp: tracks_def)
    have "map unat out = map unat (hd_output st) \<and> replicate k True = q"
      by (rule huffman.unique_parse [OF pk q(1) codes_of_range(3) codes_of_range(3)])
         (use q(4) in \<open>simp only: codes_of_range(1)\<close>)
    then have "out = hd_output st" "q = replicate k True" by (auto dest: map_unat_inj)
    with st q k show ?thesis
      by (simp add: huffman_decode_def decode_octets_bits)
  next
    fix out' rest
    assume "[] @ concat (map byte_bits input) = codes_of out' @ code_bits 256 @ rest"
    with b have "concat (map code_bits (map unat out)) @ replicate k True =
      concat (map code_bits (map unat out' @ [256])) @ rest"
      by (simp add: codes_of_range(1))
    then have "prefix (map unat out' @ [256]) (map unat out)"
      using codes_of_range(3) [of out']
      by (intro huffman.parse_prefix [OF pk codes_of_range(3)]) auto
    then have "256 \<in> set (map unat out)" by (auto dest: set_mono_prefix)
    with codes_of_range(2) [of out] show ?thesis by auto
  qed
qed


subsection \<open>The encoder as a function to bits\<close>

lemma byte_bits_ucast: "byte_bits (ucast (w AND 0xff) :: u8) = bits_msb 8 (w :: u64)"
proof -
  have "(0xff :: u64) = mask 8" by (simp add: mask_eq_exp_minus_1)
  then show ?thesis
    unfolding \<open>0xff = mask 8\<close> by (auto simp: bits_msb_def bit_and_iff bit_mask_iff bit_ucast_iff)
qed

lemma emit_octets_bits:
  "emit_octets acc bits out = (bits', out') \<Longrightarrow>
   bits' < 8 \<and> concat (map byte_bits out') @ bits_msb bits' acc =
     concat (map byte_bits out) @ bits_msb bits acc \<and> bits' = bits mod 8 \<and>
     length out' = length out + bits div 8"
proof (induction acc bits out rule: emit_octets.induct)
  case (1 acc bits out)
  show ?case
  proof (cases "8 \<le> bits")
    case True
    then have "bits_msb bits acc = bits_msb 8 (drop_bit (bits - 8) acc) @ bits_msb (bits - 8) acc"
      using bits_msb_add [of 8 "bits - 8" acc] by simp
    moreover have "bits mod 8 = (bits - 8) mod 8" "bits div 8 = Suc ((bits - 8) div 8)"
      using True by (auto simp: le_mod_geq le_div_geq)
    ultimately show ?thesis
      using 1 True by (auto simp: emit_octets.simps [of acc bits] byte_bits_ucast)
  next
    case False
    with 1 show ?thesis by (simp add: emit_octets.simps [of acc bits])
  qed
qed

lemma shift_mask: "push_bit m 1 - 1 = (mask m :: u64)"
  by (simp add: mask_eq_exp_minus_1)

lemma bits_msb_low: "n \<le> m \<Longrightarrow> bits_msb n (w AND (push_bit m 1 - 1)) = bits_msb n (w :: u64)"
  unfolding shift_mask by (rule bits_msb_cong) (auto simp: bit_and_iff bit_mask_iff dest: bit_imp_le_length)

lemma bits_msb_push:
  assumes "n + l \<le> 64" "c < 2 ^ l"
  shows "bits_msb (n + l) (push_bit l acc OR (of_nat c :: u64)) = bits_msb n acc @ bits_msb l c"
proof -
  have hi: "\<not> bit (of_nat c :: u64) (i + l)" for i
    using assms(2) by (simp add: bit_simps) (metis bit_take_bit_iff less_add_same_cancel2 not_add_less2 take_bit_nat_eq_self)
  have "bits_msb n (drop_bit l (push_bit l acc OR (of_nat c :: u64))) = bits_msb n acc"
    by (rule bits_msb_cong) (use assms(1) hi in \<open>auto simp: bit_simps add.commute\<close>)
  moreover have "bits_msb l (push_bit l acc OR (of_nat c :: u64)) = bits_msb l c"
    using assms(1) by (auto simp: bits_msb_def bit_simps)
  ultimately show ?thesis by (simp add: bits_msb_add)
qed

text \<open>The encoder's state after some octets: their code words, split at the last octet boundary.\<close>

definition encodes :: "u64 \<times> nat \<times> bytes \<Rightarrow> bytes \<Rightarrow> bool" where
  "encodes st input \<longleftrightarrow> (case st of (acc, bits, out) \<Rightarrow>
     bits < 8 \<and> concat (map byte_bits out) @ bits_msb bits acc = codes_of input)"

lemma encode_octet_encodes:
  assumes "encodes st input"
  shows "encodes (encode_octet byte st) (input @ [byte])"
proof -
  obtain acc bits out where st: "st = (acc, bits, out)" by (cases st)
  let ?l = "CODE_LENGTHS ! unat byte" and ?c = "CODES ! unat byte"
  let ?acc = "push_bit ?l acc OR (of_nat ?c :: u64)"
  obtain bits' out' where e: "emit_octets ?acc (bits + ?l) out = (bits', out')" by fastforce
  have s: "unat byte < 257" using byte_less [of byte] by simp
  note sizes = table_sizes [OF s]
  from assms st have "bits < 8" and b: "concat (map byte_bits out) @ bits_msb bits acc = codes_of input"
    by (auto simp: encodes_def)
  then have "bits_msb (bits + ?l) ?acc = bits_msb bits acc @ code_bits (unat byte)"
    using sizes by (subst bits_msb_push) (auto simp: code_bits_def)
  with b emit_octets_bits [OF e] show ?thesis
    by (auto simp: st encode_octet_def Let_def e encodes_def codes_of_snoc bits_msb_low
          simp del: push_bit_of_1)
qed

lemma foldl_encodes: "encodes (foldl (\<lambda>st byte. encode_octet byte st) (0, 0, []) input) input"
  by (induction input rule: rev_induct)
     (simp_all add: encode_octet_encodes, simp add: encodes_def codes_of_def)

lemma huffman_encode_bits:
  "\<exists>k < 8. concat (map byte_bits (huffman_encode input)) = codes_of input @ replicate k True"
proof -
  obtain acc bits out where f: "foldl (\<lambda>st byte. encode_octet byte st) (0, 0, []) input = (acc, bits, out)"
    by (cases "foldl (\<lambda>st byte. encode_octet byte st) (0, 0, []) input")
  with foldl_encodes [of input] have b: "bits < 8"
    "concat (map byte_bits out) @ bits_msb bits acc = codes_of input"
    by (auto simp: encodes_def)
  show ?thesis
  proof (cases "0 < bits")
    case True
    have m: "push_bit n 1 - 1 = (of_nat (2 ^ n - 1) :: u64)" for n
      by (simp add: push_bit_of_1 of_nat_diff)
    have "bits_msb (bits + (8 - bits)) (push_bit (8 - bits) acc OR (push_bit (8 - bits) 1 - 1)) =
        bits_msb bits acc @ bits_msb (8 - bits) (2 ^ (8 - bits) - 1 :: nat)"
      unfolding m using b(1) by (intro bits_msb_push) auto
    moreover have "bits_msb k (2 ^ k - 1 :: nat) = replicate k True" for k
      unfolding mask_eq_exp_minus_1 [symmetric]
      by (auto simp: bits_msb_def list_eq_iff_nth_eq rev_nth bit_mask_iff)
    ultimately have "byte_bits (ucast ((push_bit (8 - bits) acc OR (push_bit (8 - bits) 1 - 1)) AND 0xff)) =
        bits_msb bits acc @ replicate (8 - bits) True"
      using b(1) by (simp add: byte_bits_ucast)
    with True b f show ?thesis
      by (intro exI [of _ "8 - bits"]) (auto simp: huffman_encode_def Let_def)
  next
    case False
    with b f show ?thesis by (intro exI [of _ 0]) (simp add: huffman_encode_def)
  qed
qed

lemma huffman_encode_canonical: "huffman_decode input = Inr out \<Longrightarrow> input = huffman_encode out"
proof -
  assume "huffman_decode input = Inr out"
  then obtain k where k: "k < 8" "concat (map byte_bits input) = codes_of out @ replicate k True"
    by (auto simp: huffman_decode_iff)
  obtain m where m: "m < 8" "concat (map byte_bits (huffman_encode out)) = codes_of out @ replicate m True"
    using huffman_encode_bits by blast
  have "8 * length input = length (codes_of out) + k"
    "8 * length (huffman_encode out) = length (codes_of out) + m"
    using k(2) m(2) by (metis length_append length_concat_byte_bits length_replicate)+
  with k(1) m(1) have "k = m" by presburger
  with k m have "concat (map byte_bits input) = concat (map byte_bits (huffman_encode out))" by simp
  then show ?thesis by (rule concat_byte_bits_inj)
qed

lemma length_codes_of: "length (codes_of xs) = sum_list (map (\<lambda>byte. CODE_LENGTHS ! unat byte) xs)"
  by (induction xs) (simp_all add: codes_of_def)

lemma huffman_decode_encode: "huffman_decode (huffman_encode out) = Inr out"
  using huffman_encode_bits by (simp add: huffman_decode_iff)

lemma huffman_decode_errors:
  "huffman_decode input = Inl e \<Longrightarrow> e = EosInHuffman \<or> e = InvalidHuffmanPadding"
  using decode_bits_tracks [OF tracks_init, of "concat (map byte_bits input)"]
  by (auto simp: huffman_decode_def decode_octets_bits split: if_splits)

lemma huffman_encode_length: "length (huffman_encode input) = encoded_len input"
proof -
  obtain k where "k < 8" "concat (map byte_bits (huffman_encode input)) = codes_of input @ replicate k True"
    using huffman_encode_bits by blast
  then have "8 * length (huffman_encode input) = length (codes_of input) + k" "k < 8"
    by (metis length_append length_concat_byte_bits length_replicate, simp)
  then show ?thesis by (simp add: encoded_len_def flip: length_codes_of)
qed

subsection \<open>Properties\<close>

text \<open>
  C37: The Huffman decoder inverts the encoder and accepts nothing else: an octet
  string decodes to \<open>out\<close> exactly when it is the encoding of \<open>out\<close>, so padding that is too long, not
  an EOS prefix or contains a symbol is rejected, and every string has one accepted encoding.
\<close>

theorem huffman_decode_exact: "huffman_decode input = Inr out \<longleftrightarrow> input = huffman_encode out"
  using huffman_encode_canonical huffman_decode_encode by blast

text \<open>
  huffman_code_total: The HPACK code is complete: the decoder walks off the tree on no input, so the
  error \<open>InvalidHuffmanCode\<close> is never returned, only EOS inside a string or bad padding.
\<close>

theorem huffman_code_total: "huffman_decode input \<noteq> Inl InvalidHuffmanCode"
  using huffman_decode_errors by fastforce

text \<open>
  \<open>encoded_len\<close> predicts the number of octets the encoder emits, which is what
  the encoder of string literals relies on to choose the shorter form.
\<close>

theorem huffman_encoded_len: "length (huffman_encode input) = encoded_len input"
  by (rule huffman_encode_length)

end
