(* ===== verification/HpackTable.thy ===== *)
theory HpackTable
  imports H2Error
begin

text \<open>
  The tables of HPACK (\<^verbatim>\<open>crates/render-net/src/h2/hpack/static_table.rs\<close> and the \<open>DynamicTable\<close> of
  \<^verbatim>\<open>crates/render-net/src/h2/hpack/mod.rs\<close>): the static table, the dynamic table with its size
  accounting and eviction, and the lookups of both directions.  \<open>fit\<close> is the abstract view of
  eviction: the longest prefix of the entries that fits a size.
\<close>

record header_field =
  field_name :: bytes
  field_value :: bytes

definition ascii :: "string \<Rightarrow> bytes" where
  "ascii s = map of_char s"

definition field_size :: "header_field \<Rightarrow> nat" where
  "field_size f = length (field_name f) + length (field_value f) + 32"

subsection \<open>The static table\<close>

definition STATIC_TABLE :: "(bytes \<times> bytes) list" where
  "STATIC_TABLE = [
    (ascii '':authority'', ascii ''''),
    (ascii '':method'', ascii ''GET''),
    (ascii '':method'', ascii ''POST''),
    (ascii '':path'', ascii ''/''),
    (ascii '':path'', ascii ''/index.html''),
    (ascii '':scheme'', ascii ''http''),
    (ascii '':scheme'', ascii ''https''),
    (ascii '':status'', ascii ''200''),
    (ascii '':status'', ascii ''204''),
    (ascii '':status'', ascii ''206''),
    (ascii '':status'', ascii ''304''),
    (ascii '':status'', ascii ''400''),
    (ascii '':status'', ascii ''404''),
    (ascii '':status'', ascii ''500''),
    (ascii ''accept-charset'', ascii ''''),
    (ascii ''accept-encoding'', ascii ''gzip, deflate''),
    (ascii ''accept-language'', ascii ''''),
    (ascii ''accept-ranges'', ascii ''''),
    (ascii ''accept'', ascii ''''),
    (ascii ''access-control-allow-origin'', ascii ''''),
    (ascii ''age'', ascii ''''),
    (ascii ''allow'', ascii ''''),
    (ascii ''authorization'', ascii ''''),
    (ascii ''cache-control'', ascii ''''),
    (ascii ''content-disposition'', ascii ''''),
    (ascii ''content-encoding'', ascii ''''),
    (ascii ''content-language'', ascii ''''),
    (ascii ''content-length'', ascii ''''),
    (ascii ''content-location'', ascii ''''),
    (ascii ''content-range'', ascii ''''),
    (ascii ''content-type'', ascii ''''),
    (ascii ''cookie'', ascii ''''),
    (ascii ''date'', ascii ''''),
    (ascii ''etag'', ascii ''''),
    (ascii ''expect'', ascii ''''),
    (ascii ''expires'', ascii ''''),
    (ascii ''from'', ascii ''''),
    (ascii ''host'', ascii ''''),
    (ascii ''if-match'', ascii ''''),
    (ascii ''if-modified-since'', ascii ''''),
    (ascii ''if-none-match'', ascii ''''),
    (ascii ''if-range'', ascii ''''),
    (ascii ''if-unmodified-since'', ascii ''''),
    (ascii ''last-modified'', ascii ''''),
    (ascii ''link'', ascii ''''),
    (ascii ''location'', ascii ''''),
    (ascii ''max-forwards'', ascii ''''),
    (ascii ''proxy-authenticate'', ascii ''''),
    (ascii ''proxy-authorization'', ascii ''''),
    (ascii ''range'', ascii ''''),
    (ascii ''referer'', ascii ''''),
    (ascii ''refresh'', ascii ''''),
    (ascii ''retry-after'', ascii ''''),
    (ascii ''server'', ascii ''''),
    (ascii ''set-cookie'', ascii ''''),
    (ascii ''strict-transport-security'', ascii ''''),
    (ascii ''transfer-encoding'', ascii ''''),
    (ascii ''user-agent'', ascii ''''),
    (ascii ''vary'', ascii ''''),
    (ascii ''via'', ascii ''''),
    (ascii ''www-authenticate'', ascii '''')]"

lemma STATIC_TABLE_length [simp]: "length STATIC_TABLE = 61"
  by (simp add: STATIC_TABLE_def)

subsection \<open>The dynamic table\<close>

text \<open>
  A \<open>DynamicEntry\<close> has the fields of a header field; the newest entry is at the front.  The byte
  count \<^verbatim>\<open>size\<close> is kept incrementally, and \<open>table_ok\<close> says that it is the sum of the entry sizes and
  within the maximum.
\<close>

record dynamic_table =
  entries :: "header_field list"
  table_size :: nat
  max_size :: nat

definition table_new :: "nat \<Rightarrow> dynamic_table" where
  "table_new m = \<lparr>entries = [], table_size = 0, max_size = m\<rparr>"

function evict_to_fit :: "nat \<Rightarrow> dynamic_table \<Rightarrow> dynamic_table" where
  "evict_to_fit upcoming t =
     (if max_size t < table_size t + upcoming then
        (if entries t = [] then t
         else evict_to_fit upcoming
                (t\<lparr>entries := butlast (entries t),
                   table_size := table_size t - field_size (last (entries t))\<rparr>))
      else t)"
  by pat_completeness auto
termination
  by (relation "measure (\<lambda>(u, t). length (entries t))") auto

declare evict_to_fit.simps [simp del]

definition set_max_size :: "nat \<Rightarrow> dynamic_table \<Rightarrow> dynamic_table" where
  "set_max_size m t = evict_to_fit 0 (t\<lparr>max_size := m\<rparr>)"

definition table_insert :: "header_field \<Rightarrow> dynamic_table \<Rightarrow> dynamic_table" where
  "table_insert f t =
     (if max_size t < field_size f then t\<lparr>entries := [], table_size := 0\<rparr>
      else (let t' = evict_to_fit (field_size f) t
            in t'\<lparr>table_size := table_size t' + field_size f, entries := f # entries t'\<rparr>))"

definition table_get :: "nat \<Rightarrow> dynamic_table \<Rightarrow> header_field option" where
  "table_get i t = (if i < length (entries t) then Some (entries t ! i) else None)"

definition table_find_exact :: "bytes \<Rightarrow> bytes \<Rightarrow> dynamic_table \<Rightarrow> nat option" where
  "table_find_exact n v t = position (\<lambda>f. field_name f = n \<and> field_value f = v) (entries t)"

definition table_find_name :: "bytes \<Rightarrow> dynamic_table \<Rightarrow> nat option" where
  "table_find_name n t = position (\<lambda>f. field_name f = n) (entries t)"

subsection \<open>Eviction keeps the longest prefix that fits\<close>

definition entries_size :: "header_field list \<Rightarrow> nat" where
  "entries_size es = sum_list (map field_size es)"

definition table_ok :: "dynamic_table \<Rightarrow> bool" where
  "table_ok t \<longleftrightarrow> table_size t = entries_size (entries t) \<and> table_size t \<le> max_size t"

lemma entries_size_simps [simp]:
  "entries_size [] = 0" "entries_size (f # es) = field_size f + entries_size es" "entries_size (es @ fs) = entries_size es + entries_size fs"
  by (simp_all add: entries_size_def)

lemma field_size_pos: "32 \<le> field_size f"
  by (simp add: field_size_def)

fun fit :: "nat \<Rightarrow> header_field list \<Rightarrow> header_field list" where
  "fit m [] = []"
| "fit m (f # es) = (if field_size f \<le> m then f # fit (m - field_size f) es else [])"

lemma fit_all: "entries_size es \<le> m \<Longrightarrow> fit m es = es"
  by (induction es arbitrary: m) auto

lemma fit_snoc: "m < entries_size (es @ [f]) \<Longrightarrow> fit m (es @ [f]) = fit m es"
  by (induction es arbitrary: m) auto

lemma entries_size_fit: "entries_size (fit m es) \<le> m"
  by (induction m es rule: fit.induct) auto

lemma fit_fit: "fit k (fit m es) = fit (min k m) es"
proof (induction m es arbitrary: k rule: fit.induct)
  case (2 m f es)
  show ?case
  proof (cases "field_size f \<le> m \<and> field_size f \<le> k")
    case True
    then have "min k m - field_size f = min (k - field_size f) (m - field_size f)" by auto
    with True 2 show ?thesis by simp
  qed auto
qed simp

text \<open>
  The loop of \<open>evict_to_fit\<close> on a table whose count is right: it never subtracts more than it has,
  and ends with the entries that leave room for \<open>upcoming\<close> more octets.
\<close>

lemma evict_no_underflow:
  "table_size t = entries_size (entries t) \<Longrightarrow> entries t \<noteq> [] \<Longrightarrow> field_size (last (entries t)) \<le> table_size t"
  by (metis append_butlast_last_id le_add2 entries_size_simps(2,3) entries_size_simps(1) add.right_neutral)

lemma evict_to_fit_eq:
  assumes "table_size t = entries_size (entries t)" "upcoming \<le> max_size t"
  shows "evict_to_fit upcoming t =
    t\<lparr>entries := fit (max_size t - upcoming) (entries t),
      table_size := entries_size (fit (max_size t - upcoming) (entries t))\<rparr>"
  using assms
proof (induction upcoming t rule: evict_to_fit.induct)
  case (1 upcoming t)
  show ?case
  proof (cases "max_size t < table_size t + upcoming")
    case False
    then have "fit (max_size t - upcoming) (entries t) = entries t"
      using 1 by (intro fit_all) simp
    with False 1 show ?thesis by (simp add: evict_to_fit.simps [of upcoming t])
  next
    case True
    show ?thesis
    proof (cases "entries t = []")
      case True
      with \<open>max_size t < _\<close> 1 show ?thesis by (simp add: evict_to_fit.simps [of upcoming t])
    next
      case ne: False
      let ?t = "t\<lparr>entries := butlast (entries t),
                  table_size := table_size t - field_size (last (entries t))\<rparr>"
      have split: "entries t = butlast (entries t) @ [last (entries t)]" using ne by simp
      then have "entries_size (entries t) = entries_size (butlast (entries t)) + field_size (last (entries t))"
        by (metis add.right_neutral entries_size_simps)
      then have "table_size ?t = entries_size (entries ?t)" using 1 by simp
      from 1(1) [OF True ne this] 1(3)
      have "evict_to_fit upcoming ?t =
        t\<lparr>entries := fit (max_size t - upcoming) (butlast (entries t)),
          table_size := entries_size (fit (max_size t - upcoming) (butlast (entries t)))\<rparr>" by simp
      moreover have "fit (max_size t - upcoming) (entries t) = fit (max_size t - upcoming) (butlast (entries t))"
        using True 1(2,3) split by (metis fit_snoc less_diff_conv2 add.commute add_less_cancel_left le_add_diff_inverse)
      ultimately show ?thesis
        using True ne by (simp add: evict_to_fit.simps [of upcoming t])
    qed
  qed
qed

lemma set_max_size_eq:
  "table_size t = entries_size (entries t) \<Longrightarrow> set_max_size m t =
     \<lparr>entries = fit m (entries t), table_size = entries_size (fit m (entries t)), max_size = m\<rparr>"
  by (simp add: set_max_size_def evict_to_fit_eq)

lemma table_insert_eq:
  assumes "table_ok t"
  shows "table_insert f t =
    t\<lparr>entries := fit (max_size t) (f # entries t), table_size := entries_size (fit (max_size t) (f # entries t))\<rparr>"
  using assms by (auto simp: table_insert_def table_ok_def evict_to_fit_eq Let_def)

lemma table_ok_new [intro, simp]: "table_ok (table_new m)"
  by (simp add: table_ok_def table_new_def)

lemma table_ok_set_max_size [intro]: "table_ok t \<Longrightarrow> table_ok (set_max_size m t)"
  by (simp add: table_ok_def set_max_size_eq entries_size_fit)

lemma table_ok_insert [intro]: "table_ok t \<Longrightarrow> table_ok (table_insert f t)"
  using entries_size_fit [of "max_size t" "f # entries t"]
  by (auto simp: table_insert_eq table_ok_def split: if_splits)

lemma max_size_simps [simp]:
  "table_ok t \<Longrightarrow> max_size (table_insert f t) = max_size t"
  "table_ok t \<Longrightarrow> max_size (set_max_size m t) = m"
  "max_size (table_new m) = m"
  by (simp_all add: table_insert_eq set_max_size_eq table_ok_def table_new_def)

lemma table_ok_entries: "table_ok t \<Longrightarrow> 32 * length (entries t) \<le> max_size t"
proof -
  have "32 * length es \<le> entries_size es" for es
    by (induction es) (auto simp: add_mono field_size_pos)
  then show "table_ok t \<Longrightarrow> 32 * length (entries t) \<le> max_size t"
    unfolding table_ok_def by (metis order_trans)
qed

end
