(* ===== verification/HpackPrimitives.thy ===== *)
theory HpackPrimitives
  imports HpackHuffman
begin

text \<open>
  The integer and string primitives of HPACK (\<^verbatim>\<open>crates/render-net/src/h2/hpack/mod.rs\<close>:
  \<open>encode_integer\<close>, \<open>decode_integer\<close>, \<open>encode_string\<close> and \<open>decode_string\<close>).  The interface
  \<open>positional_codec\<close> states the contract of such a pair: what was appended to a block is read
  back from its position, and the position moves past it.
\<close>

subsection \<open>Integers\<close>

text \<open>The loop of \<open>encode_integer\<close>: seven bits at a time, least significant group first.\<close>

function encode_continuation :: "nat \<Rightarrow> bytes" where
  "encode_continuation remaining =
     (if 128 \<le> remaining
      then (of_nat (remaining AND 0x7f) OR 0x80) # encode_continuation (drop_bit 7 remaining)
      else [of_nat remaining])"
  by pat_completeness auto
termination
  by (relation "measure id") (auto simp: drop_bit_eq_div)

declare encode_continuation.simps [simp del]

definition encode_integer :: "nat \<Rightarrow> nat \<Rightarrow> u8 \<Rightarrow> bytes \<Rightarrow> bytes" where
  "encode_integer v prefix_bits pattern out =
     (let msk = mask prefix_bits in
      if v < msk then out @ [pattern OR of_nat v]
      else out @ [pattern OR of_nat msk] @ encode_continuation (v - msk))"

text \<open>
  The loop of \<open>decode_integer\<close>.  \<open>checked_shl\<close> fails for a shift of 64 or more and otherwise drops
  the bits above 64; \<open>checked_add\<close> fails at \<^term>\<open>2 ^ 64 :: nat\<close>.
\<close>

function decode_continuation :: "bytes \<Rightarrow> nat \<Rightarrow> nat \<Rightarrow> nat \<Rightarrow> hpack_error + nat \<times> nat" where
  "decode_continuation block pos v shift =
     (if pos < length block then
        (let byte = block ! pos;
             chunk = unat (byte AND 0x7f)
         in if 64 \<le> shift then Inl IntegerOverflow
            else (let v' = v + take_bit 64 (push_bit shift chunk)
                  in if 2 ^ 64 \<le> v' \<or> 2 ^ 32 - 1 < v' then Inl IntegerOverflow
                     else if byte AND 0x80 = 0 then Inr (v', pos + 1)
                     else if 28 < shift + 7 then Inl IntegerOverflow
                     else decode_continuation block (pos + 1) v' (shift + 7)))
      else Inl TruncatedInteger)"
  by pat_completeness auto
termination
  by (relation "measure (\<lambda>(block, pos, v, shift). length block - pos)") auto

declare decode_continuation.simps [simp del]

definition decode_integer :: "bytes \<Rightarrow> nat \<Rightarrow> nat \<Rightarrow> hpack_error + nat \<times> nat" where
  "decode_integer block pos prefix_bits =
     (if pos < length block then
        (let v = unat (block ! pos) AND mask prefix_bits
         in if v < mask prefix_bits then Inr (v, pos + 1)
            else decode_continuation block (pos + 1) v 0)
      else Inl TruncatedInteger)"

subsection \<open>Strings\<close>

definition encode_string :: "bytes \<Rightarrow> bool \<Rightarrow> bytes \<Rightarrow> bytes" where
  "encode_string v huffman out =
     (if huffman \<and> length (huffman_encode v) < length v
      then encode_integer (length (huffman_encode v)) 7 0x80 out @ huffman_encode v
      else encode_integer (length v) 7 0 out @ v)"

definition decode_string :: "nat \<Rightarrow> bytes \<Rightarrow> nat \<Rightarrow> hpack_error + bytes \<times> nat" where
  "decode_string max_string_size block pos =
     (if pos < length block then
        (let huffman = (block ! pos AND 0x80 \<noteq> 0) in
         and_then (decode_integer block pos 7) (\<lambda>(len, pos').
           if max_string_size < len then Inl (StringTooLong len max_string_size)
           else (let remaining = length block - pos' in
             if remaining < len then Inl (TruncatedString len remaining)
             else (let raw = take len (drop pos' block) in
                if huffman then map_sum id (\<lambda>s. (s, pos' + len)) (huffman_decode raw)
                else Inr (raw, pos' + len)))))
      else Inl (TruncatedString 1 0))"

subsection \<open>The contract of an encoder and a decoder\<close>

locale positional_codec =
  fixes enc :: "'a \<Rightarrow> bytes"
    and dec :: "bytes \<Rightarrow> nat \<Rightarrow> 'e + 'a \<times> nat"
    and valid :: "'a \<Rightarrow> bool"
  assumes dec_enc: "valid x \<Longrightarrow> dec (pre @ enc x @ post) (length pre) = Inr (x, length pre + length (enc x))"
    and dec_advances: "dec block pos = Inr (x, pos') \<Longrightarrow> pos < pos' \<and> pos' \<le> length block"
begin

text \<open>The form that simplification uses inside a longer block.\<close>

lemma dec_at:
  "valid x \<Longrightarrow> block = pre @ enc x @ post \<Longrightarrow> pos = length pre \<Longrightarrow>
   dec block pos = Inr (x, pos + length (enc x))"
  by (simp add: dec_enc)

lemma enc_nonempty: "valid x \<Longrightarrow> enc x \<noteq> []"
  using dec_enc [of x "[]" "[]"] dec_advances [of "enc x" 0 x] by fastforce

text \<open>A run of encodings is read back value by value.\<close>

fun dec_many :: "nat \<Rightarrow> bytes \<Rightarrow> nat \<Rightarrow> 'e + 'a list \<times> nat" where
  "dec_many 0 block pos = Inr ([], pos)"
| "dec_many (Suc n) block pos =
     and_then (dec block pos) (\<lambda>(x, pos'). map_sum id (\<lambda>(xs, p). (x # xs, p)) (dec_many n block pos'))"

lemma dec_many_enc:
  "\<forall>x \<in> set xs. valid x \<Longrightarrow>
   dec_many (length xs) (pre @ concat (map enc xs) @ post) (length pre) =
     Inr (xs, length pre + length (concat (map enc xs)))"
proof (induction xs arbitrary: pre)
  case (Cons x xs)
  from Cons.IH [of "pre @ enc x"] Cons.prems show ?case
    by (simp add: dec_at [of x _ pre "concat (map enc xs) @ post"])
qed simp

end

subsection \<open>Integers: the codec contract\<close>

lemma byte_or_low:
  assumes "pattern AND mask n = 0" "v < 2 ^ n" "n \<le> 8"
  shows "unat (pattern OR of_nat v :: u8) AND mask n = v"
proof -
  have "take_bit n (pattern OR of_nat v) = (of_nat v :: u8)"
    using assms(1,2) by (simp add: take_bit_or flip: take_bit_eq_mask) (metis of_nat_take_bit take_bit_nat_eq_self)
  then have "take_bit n (unat (pattern OR of_nat v :: u8)) = unat (of_nat v :: u8)"
    by (metis unsigned_take_bit_eq)
  moreover have "v < 256" using assms(2,3) power_increasing [of n 8 "2::nat"] by simp
  ultimately show ?thesis by (simp add: unat_of_nat flip: take_bit_eq_mask)
qed

lemma byte_or_high:
  assumes "m AND mask n = 0" "v < 2 ^ n"
  shows "(pattern OR of_nat v :: u8) AND m = pattern AND m"
proof -
  have "(of_nat v :: u8) = of_nat v AND mask n"
    using assms(2) by (metis of_nat_take_bit take_bit_eq_mask take_bit_nat_eq_self)
  then have "(of_nat v :: u8) AND m = of_nat v AND (m AND mask n)"
    by (metis and.assoc and.commute)
  with assms(1) show ?thesis by (simp add: bit.conj_disj_distrib2)
qed

lemma continuation_byte:
  "unat ((of_nat (r AND 0x7f) OR 0x80 :: u8) AND 0x7f) = r mod 128"
  "(of_nat (r AND 0x7f) OR 0x80 :: u8) AND 0x80 \<noteq> 0"
proof -
  have m: "(0x7f :: nat) = mask 7" "(0x7f :: u8) = mask 7" "(0x80 :: u8) AND mask 7 = 0"
    by (simp_all add: mask_eq_exp_minus_1)
  have r: "r AND 0x7f = r mod 128" by (simp add: m(1) flip: take_bit_eq_mask) (simp add: take_bit_eq_mod)
  have "(0x80 OR of_nat (r mod 128) :: u8) AND 0x80 = 0x80 AND 0x80"
    by (rule byte_or_high [where n = 7]) (simp_all add: mask_eq_exp_minus_1)
  then show "(of_nat (r AND 0x7f) OR 0x80 :: u8) AND 0x80 \<noteq> 0" by (simp add: r or.commute)
  have "unat (0x80 OR of_nat (r mod 128) :: u8) AND mask 7 = r mod 128"
    by (rule byte_or_low) (simp_all add: m(3))
  then show "unat ((of_nat (r AND 0x7f) OR 0x80 :: u8) AND 0x7f) = r mod 128"
    by (simp add: r m(2) or.commute flip: take_bit_eq_mask unsigned_take_bit_eq)
qed

lemma continuation_last:
  assumes "r < 128"
  shows "unat ((of_nat r :: u8) AND 0x7f) = r" "(of_nat r :: u8) AND 0x80 = 0"
proof -
  have m: "(0x7f :: u8) = mask 7" "(0x80 :: u8) AND mask 7 = 0" by (simp_all add: mask_eq_exp_minus_1)
  have "(0 OR of_nat r :: u8) AND 0x80 = 0 AND 0x80"
    by (rule byte_or_high [where n = 7]) (use assms m(2) in simp_all)
  then show "(of_nat r :: u8) AND 0x80 = 0" by simp
  have "unat (0 OR of_nat r :: u8) AND mask 7 = r"
    by (rule byte_or_low) (use assms in simp_all)
  then show "unat ((of_nat r :: u8) AND 0x7f) = r"
    by (simp add: m(1) flip: take_bit_eq_mask) (simp add: unsigned_take_bit_eq)
qed

lemma take_bit_64_shift:
  assumes "c * 2 ^ s < (2 :: nat) ^ 32"
  shows "take_bit 64 (push_bit s c) = c * 2 ^ s"
  using assms by (simp add: push_bit_eq_mult) (rule take_bit_nat_eq_self, simp)

lemma decode_continuation_encode:
  assumes "v + r * 2 ^ (7 * k) < 2 ^ 32" "k \<le> 4"
  shows "decode_continuation (pre @ encode_continuation r @ post) (length pre) v (7 * k) =
    Inr (v + r * 2 ^ (7 * k), length pre + length (encode_continuation r))"
  using assms
proof (induction r arbitrary: pre v k rule: encode_continuation.induct)
  case (1 r)
  show ?case
  proof (cases "128 \<le> r")
    case True
    let ?c = "encode_continuation (drop_bit 7 r)"
    let ?b = "of_nat (r AND 0x7f) OR 0x80 :: u8"
    have e: "encode_continuation r = ?b # ?c"
      using True by (simp add: encode_continuation.simps [of r])
    have r: "r = drop_bit 7 r * 128 + r mod 128" by (simp add: drop_bit_eq_div)
    have sum: "v + r mod 128 * 2 ^ (7 * k) + drop_bit 7 r * 2 ^ (7 * Suc k) = v + r * 2 ^ (7 * k)"
    proof -
      have "(2 :: nat) ^ (7 * Suc k) = 128 * 2 ^ (7 * k)" by (simp add: power_add)
      then have "r mod 128 * 2 ^ (7 * k) + drop_bit 7 r * 2 ^ (7 * Suc k) =
          (drop_bit 7 r * 128 + r mod 128) * 2 ^ (7 * k)" by (simp add: algebra_simps)
      with r show ?thesis by simp
    qed
    then have lt: "v + r mod 128 * 2 ^ (7 * k) + drop_bit 7 r * 2 ^ (7 * Suc k) < 2 ^ 32"
      using 1(2) by simp
    then have lt': "r mod 128 * 2 ^ (7 * k) < 2 ^ 32" "v + r mod 128 * 2 ^ (7 * k) < 2 ^ 32" by simp_all
    have "1 \<le> drop_bit 7 r" using True by (simp add: drop_bit_eq_div)
    from mult_le_mono1 [OF this, of "2 ^ (7 * Suc k)"] lt
    have "(2 :: nat) ^ (7 * Suc k) < 2 ^ 32" by linarith
    then have "7 * Suc k < 32" by (rule power_less_imp_less_exp [rotated]) simp
    then have s: "\<not> 28 < 7 * k + 7" "Suc k \<le> 4" by simp_all
    have "decode_continuation (pre @ ?b # ?c @ post) (length pre) v (7 * k) =
        decode_continuation ((pre @ [?b]) @ ?c @ post) (length (pre @ [?b]))
          (v + r mod 128 * 2 ^ (7 * k)) (7 * Suc k)"
      using s 1(3) lt' continuation_byte [of r] take_bit_64_shift [OF lt'(1)]
      by (subst decode_continuation.simps) (simp add: Let_def nth_append add.commute [of 7])
    also have "... = Inr (v + r * 2 ^ (7 * k), length (pre @ [?b]) + length ?c)"
      using 1(1) [OF True lt s(2), of "pre @ [?b]"] sum by simp
    finally show ?thesis by (simp add: e)
  next
    case False
    then have e: "encode_continuation r = [of_nat r]" by (simp add: encode_continuation.simps [of r])
    have "take_bit 64 (push_bit (7 * k) r) = r * 2 ^ (7 * k)"
      using 1(2) by (intro take_bit_64_shift) simp
    with e 1(2,3) False continuation_last [of r] show ?thesis
      by (subst decode_continuation.simps) (auto simp: Let_def)
  qed
qed


lemma decode_continuation_advances:
  "decode_continuation block pos v shift = Inr (x, pos') \<Longrightarrow> pos < pos' \<and> pos' \<le> length block"
proof (induction block pos v shift rule: decode_continuation.induct)
  case (1 block pos v shift)
  from 1(2) 1(1) [OF _ refl refl _ refl] show ?case
    by (subst (asm) decode_continuation.simps [of block pos]) (auto simp: Let_def split: if_splits)
qed

lemma decode_integer_advances:
  "decode_integer block pos n = Inr (x, pos') \<Longrightarrow> pos < pos' \<and> pos' \<le> length block"
  by (auto simp: decode_integer_def Let_def split: if_splits dest!: decode_continuation_advances)

lemma encode_integer_out: "encode_integer v n pattern out = out @ encode_integer v n pattern []"
  by (simp add: encode_integer_def Let_def)

lemma integer_codec:
  assumes "1 \<le> n" "n \<le> 8" "pattern AND mask n = 0"
  shows "positional_codec (\<lambda>v. encode_integer v n pattern []) (\<lambda>b p. decode_integer b p n) (\<lambda>v. v < 2 ^ 32)"
proof unfold_locales
  fix v :: nat and pre post
  assume v: "v < 2 ^ 32"
  have mask: "mask n < (2 :: nat) ^ n" by (simp add: mask_eq_exp_minus_1)
  have le: "mask n \<le> (255 :: nat)"
    using power_increasing [OF assms(2), of "2 :: nat"] by (simp add: mask_eq_exp_minus_1)
  show "decode_integer (pre @ encode_integer v n pattern [] @ post) (length pre) n =
    Inr (v, length pre + length (encode_integer v n pattern []))"
  proof (cases "v < mask n")
    case True
    from this mask have "v < 2 ^ n" by (rule less_trans)
    with byte_or_low [OF assms(3) this assms(2)] True show ?thesis
      by (simp add: decode_integer_def encode_integer_def Let_def nth_append)
  next
    case False
    let ?b = "pattern OR of_nat (mask n) :: u8"
    from False have sum: "mask n + (v - mask n) * 2 ^ (7 * 0) = v" by simp
    have "decode_continuation ((pre @ [?b]) @ encode_continuation (v - mask n) @ post)
        (length (pre @ [?b])) (mask n) (7 * 0) =
      Inr (v, length (pre @ [?b]) + length (encode_continuation (v - mask n)))"
      using decode_continuation_encode [of "mask n" "v - mask n" 0 "pre @ [?b]" post] v sum by simp
    with byte_or_low [OF assms(3) mask assms(2)] False show ?thesis
      by (simp add: decode_integer_def encode_integer_def Let_def nth_append)
  qed
next
  fix block pos and x :: nat and pos'
  assume "decode_integer block pos n = Inr (x, pos')"
  then show "pos < pos' \<and> pos' \<le> length block" by (rule decode_integer_advances)
qed

interpretation indexed: positional_codec
  "\<lambda>v. encode_integer v 7 0x80 []" "\<lambda>b p. decode_integer b p 7" "\<lambda>v. v < 2 ^ 32"
  by (rule integer_codec) (simp_all add: mask_eq_exp_minus_1)

interpretation literal_incremental: positional_codec
  "\<lambda>v. encode_integer v 6 0x40 []" "\<lambda>b p. decode_integer b p 6" "\<lambda>v. v < 2 ^ 32"
  by (rule integer_codec) (simp_all add: mask_eq_exp_minus_1)

interpretation size_update: positional_codec
  "\<lambda>v. encode_integer v 5 0x20 []" "\<lambda>b p. decode_integer b p 5" "\<lambda>v. v < 2 ^ 32"
  by (rule integer_codec) (simp_all add: mask_eq_exp_minus_1)

interpretation literal_never: positional_codec
  "\<lambda>v. encode_integer v 4 0x10 []" "\<lambda>b p. decode_integer b p 4" "\<lambda>v. v < 2 ^ 32"
  by (rule integer_codec) (simp_all add: mask_eq_exp_minus_1)

interpretation literal_without: positional_codec
  "\<lambda>v. encode_integer v 4 0 []" "\<lambda>b p. decode_integer b p 4" "\<lambda>v. v < 2 ^ 32"
  by (rule integer_codec) simp_all

interpretation string_length: positional_codec
  "\<lambda>v. encode_integer v 7 0 []" "\<lambda>b p. decode_integer b p 7" "\<lambda>v. v < 2 ^ 32"
  by (rule integer_codec) simp_all

text \<open>The first octet keeps the bits of the pattern above the prefix.\<close>

lemma encode_integer_first:
  assumes "m AND mask n = 0"
  shows "(hd (encode_integer v n pattern [])) AND m = pattern AND m" "encode_integer v n pattern [] \<noteq> []"
proof -
  have "mask n < (2 :: nat) ^ n" by (simp add: mask_eq_exp_minus_1)
  moreover from this have "v < mask n \<Longrightarrow> v < 2 ^ n" by (rule less_trans [rotated])
  ultimately show "(hd (encode_integer v n pattern [])) AND m = pattern AND m"
    using byte_or_high [OF assms, of "mask n"] byte_or_high [OF assms, of v]
    by (auto simp: encode_integer_def Let_def simp del: of_nat_mask_eq)
qed (simp add: encode_integer_def Let_def)


subsection \<open>Strings: the codec contract\<close>

text \<open>A string literal is its length with a flag bit, then its octets, raw or Huffman coded.\<close>

lemma decode_string_at:
  assumes p: "pattern = 0x80 \<or> pattern = 0" and len: "length raw < 2 ^ 32" "length raw \<le> m"
    and block: "block = pre @ encode_integer (length raw) 7 pattern [] @ raw @ post"
  shows "decode_string m block (length pre) =
    (let pos' = length pre + length (encode_integer (length raw) 7 pattern []) + length raw
     in if pattern = 0x80 then map_sum id (\<lambda>s. (s, pos')) (huffman_decode raw) else Inr (raw, pos'))"
proof -
  let ?i = "encode_integer (length raw) 7 pattern []"
  have codec: "positional_codec (\<lambda>v. encode_integer v 7 pattern []) (\<lambda>b p. decode_integer b p 7) (\<lambda>v. v < 2 ^ 32)"
    using p indexed.positional_codec_axioms string_length.positional_codec_axioms by auto
  have dec: "decode_integer block (length pre) 7 = Inr (length raw, length pre + length ?i)"
    using positional_codec.dec_enc [OF codec, of "length raw" pre "raw @ post"] len block by simp
  have first: "hd ?i AND 0x80 = pattern AND 0x80" "?i \<noteq> []"
    using encode_integer_first [of "0x80" 7 "length raw" pattern] by (simp_all add: mask_eq_exp_minus_1)
  have "block ! length pre = hd ?i"
    using block first(2) by (simp add: nth_append hd_conv_nth)
  with first(1) p have flag: "(block ! length pre AND 0x80 \<noteq> 0) \<longleftrightarrow> pattern = 0x80" by auto
  have "length pre < length block" using block first(2) by simp
  moreover have "take (length raw) (drop (length pre + length ?i) block) = raw" using block by simp
  moreover have "length block = length pre + length ?i + length raw + length post" using block by simp
  ultimately show ?thesis using dec flag len by (simp add: decode_string_def Let_def)
qed

lemma encode_string_out: "encode_string v h out = out @ encode_string v h []"
  using encode_integer_out [of _ 7 _ out] by (simp add: encode_string_def)

interpretation string_literal: positional_codec
  "\<lambda>v. encode_string v huffman []" "decode_string m" "\<lambda>v. length v < 2 ^ 32 \<and> length v \<le> m"
  for huffman m
proof unfold_locales
  fix v :: bytes and pre post
  assume v: "length v < 2 ^ 32 \<and> length v \<le> m"
  show "decode_string m (pre @ encode_string v huffman [] @ post) (length pre) =
    Inr (v, length pre + length (encode_string v huffman []))"
  proof (cases "huffman \<and> length (huffman_encode v) < length v")
    case True
    with decode_string_at [of "0x80" "huffman_encode v" m _ pre post] v show ?thesis
      by (simp add: encode_string_def huffman_decode_encode)
  next
    case False
    then have "encode_string v huffman [] = encode_integer (length v) 7 0 [] @ v"
      by (auto simp: encode_string_def)
    with decode_string_at [of 0 v m _ pre post] v show ?thesis by simp
  qed
next
  fix block pos and x :: bytes and pos'
  assume "decode_string m block pos = Inr (x, pos')"
  then show "pos < pos' \<and> pos' \<le> length block"
    by (auto simp: decode_string_def Let_def result_simps map_sum_def split: if_splits sum.splits
        dest!: decode_integer_advances)
qed

subsection \<open>Values beyond 32 bits, and octets the decoder never wrote\<close>

lemma decode_continuation_overflow:
  assumes "2 ^ 32 \<le> v + r * 2 ^ (7 * k)" "v < 2 ^ 32" "k \<le> 4"
  shows "decode_continuation (pre @ encode_continuation r @ post) (length pre) v (7 * k) = Inl IntegerOverflow"
  using assms
proof (induction r arbitrary: pre v k rule: encode_continuation.induct)
  case (1 r)
  have p: "(2 :: nat) ^ (7 * k) \<le> 2 ^ 28"
    using 1(4) by (intro power_increasing) auto
  have small: "take_bit 64 (push_bit (7 * k) c) = c * 2 ^ (7 * k)" if "c < 128" for c :: nat
    using mult_le_mono [of c 128, OF _ p] that
    by (simp add: push_bit_eq_mult) (rule take_bit_nat_eq_self, simp)
  show ?case
  proof (cases "128 \<le> r")
    case True
    let ?c = "encode_continuation (drop_bit 7 r)"
    let ?b = "of_nat (r AND 0x7f) OR 0x80 :: u8"
    have e: "encode_continuation r = ?b # ?c"
      using True by (simp add: encode_continuation.simps [of r])
    have sum: "v + r mod 128 * 2 ^ (7 * k) + drop_bit 7 r * 2 ^ (7 * Suc k) = v + r * 2 ^ (7 * k)"
    proof -
      have "(2 :: nat) ^ (7 * Suc k) = 128 * 2 ^ (7 * k)" by (simp add: power_add)
      then have "r mod 128 * 2 ^ (7 * k) + drop_bit 7 r * 2 ^ (7 * Suc k) =
          (drop_bit 7 r * 128 + r mod 128) * 2 ^ (7 * k)" by (simp add: algebra_simps)
      then show ?thesis by (simp add: drop_bit_eq_div)
    qed
    have step: "decode_continuation ((pre @ [?b]) @ ?c @ post) (length (pre @ [?b]))
          (v + r mod 128 * 2 ^ (7 * k)) (7 * Suc k) = Inl IntegerOverflow"
      if "v + r mod 128 * 2 ^ (7 * k) < 2 ^ 32" "\<not> 28 < 7 * k + 7"
      using 1(1) [OF True, of "v + r mod 128 * 2 ^ (7 * k)" "Suc k" "pre @ [?b]"] 1(2) that sum by simp
    show ?thesis
      using step continuation_byte [of r] small [of "r mod 128"] e
      by (subst decode_continuation.simps) (auto simp: Let_def nth_append add.commute [of 7])
  next
    case False
    then have e: "encode_continuation r = [of_nat r]" by (simp add: encode_continuation.simps [of r])
    with 1(2) False continuation_last [of r] small [of r] show ?thesis
      by (subst decode_continuation.simps) (auto simp: Let_def)
  qed
qed

lemma decode_encode_integer:
  assumes "1 \<le> n" "n \<le> 8" "pattern AND mask n = 0"
  shows "decode_integer (pre @ encode_integer v n pattern [] @ post) (length pre) n =
    (if v < 2 ^ 32 then Inr (v, length pre + length (encode_integer v n pattern []))
     else Inl IntegerOverflow)"
proof (cases "v < 2 ^ 32")
  case True
  with positional_codec.dec_enc [OF integer_codec [OF assms]] show ?thesis by simp
next
  case False
  have mask: "mask n < (2 :: nat) ^ n" by (simp add: mask_eq_exp_minus_1)
  have "mask n \<le> (255 :: nat)"
    using power_increasing [OF assms(2), of "2 :: nat"] by (simp add: mask_eq_exp_minus_1)
  then have small: "mask n < (2 :: nat) ^ 32" "\<not> v < mask n" using False by simp_all
  let ?b = "pattern OR of_nat (mask n) :: u8"
  have "decode_continuation ((pre @ [?b]) @ encode_continuation (v - mask n) @ post)
      (length (pre @ [?b])) (mask n) (7 * 0) = Inl IntegerOverflow"
    by (rule decode_continuation_overflow) (use False small in auto)
  with byte_or_low [OF assms(3) mask assms(2)] small False show ?thesis
    by (simp add: decode_integer_def encode_integer_def Let_def nth_append)
qed

lemma decode_continuation_bound:
  "decode_continuation block pos v shift = Inr (x, pos') \<Longrightarrow> x < 2 ^ 32"
proof (induction block pos v shift rule: decode_continuation.induct)
  case (1 block pos v shift)
  from 1(2) 1(1) [OF _ refl refl _ refl] show ?case
    by (subst (asm) decode_continuation.simps [of block pos]) (auto simp: Let_def split: if_splits)
qed

subsection \<open>Properties\<close>

text \<open>
  hpack_integer_roundtrip: The HPACK integer codec, for every prefix width: an integer below
  \<^term>\<open>2 ^ 32 :: nat\<close> is read back wherever it stands in a block and the position moves past exactly
  its octets; a larger one is refused with \<open>IntegerOverflow\<close>, never truncated or wrapped.
\<close>

theorem hpack_integer_roundtrip:
  assumes "1 \<le> n" "n \<le> 8" "pattern AND mask n = 0"
  shows "decode_integer (pre @ encode_integer v n pattern [] @ post) (length pre) n =
    (if v < 2 ^ 32 then Inr (v, length pre + length (encode_integer v n pattern []))
     else Inl IntegerOverflow)"
  using assms by (rule decode_encode_integer)

theorem hpack_integer_roundtrip_witness:
  "decode_integer ([0xff] @ encode_integer 1337 5 0x20 [] @ [0]) 1 5 = Inr (1337, 4) \<and>
   decode_integer ([0xff] @ encode_integer (2 ^ 32) 5 0x20 [] @ [0]) 1 5 = Inl IntegerOverflow"
proof -
  have p: "(0x20 :: u8) AND mask 5 = 0" by (simp add: mask_eq_exp_minus_1)
  have "length (encode_integer 1337 5 0x20 []) = 3"
    by (simp add: encode_integer_def encode_continuation.simps drop_bit_eq_div mask_eq_exp_minus_1)
  then show ?thesis
    using hpack_integer_roundtrip [of 5 "0x20" "[0xff]" 1337 "[0]"]
      hpack_integer_roundtrip [of 5 "0x20" "[0xff]" "2 ^ 32" "[0]"] p by simp
qed

end
