(* ===== verification/Hpack.thy ===== *)
theory Hpack
  imports HpackTable HpackPrimitives
begin

text \<open>
  The HPACK encoder and decoder (\<^verbatim>\<open>crates/render-net/src/h2/hpack/mod.rs\<close>).  The state of each is its
  dynamic table; the main results say that the two stay in step: a decoder that is \<open>synced\<close> with an
  encoder reads back every block the encoder emits and is synced with it again, also across the
  table size updates that the encoder announces at the start of its next block.
\<close>

subsection \<open>The encoder\<close>

datatype indexing = Incremental | WithoutIndexing | NeverIndexed

record encoder =
  enc_table :: dynamic_table
  pending_min :: "nat option"
  pending_last :: "nat option"

definition encoder_new :: "nat \<Rightarrow> encoder" where
  "encoder_new m = \<lparr>enc_table = table_new m, pending_min = None, pending_last = None\<rparr>"

definition set_max_table_size :: "nat \<Rightarrow> encoder \<Rightarrow> encoder" where
  "set_max_table_size m e =
     e\<lparr>pending_min := Some (case pending_min e of None \<Rightarrow> m | Some smallest \<Rightarrow> min smallest m),
       pending_last := Some m,
       enc_table := set_max_size m (enc_table e)\<rparr>"

definition emit_size_updates :: "encoder \<Rightarrow> bytes \<Rightarrow> encoder \<times> bytes" where
  "emit_size_updates e out =
     (let out' =
        (case (pending_min e, pending_last e) of
           (Some smallest, Some final_size) \<Rightarrow>
             (let out1 = (if smallest \<noteq> final_size then encode_integer smallest 5 0x20 out else out)
              in encode_integer final_size 5 0x20 out1)
         | _ \<Rightarrow> out)
      in (e\<lparr>pending_min := None, pending_last := None\<rparr>, out'))"

definition enc_find_exact :: "encoder \<Rightarrow> bytes \<Rightarrow> bytes \<Rightarrow> nat option" where
  "enc_find_exact e n v =
     (case position (\<lambda>(en, ev). en = n \<and> ev = v) STATIC_TABLE of
        Some p \<Rightarrow> Some (p + 1)
      | None \<Rightarrow> map_option (\<lambda>p. length STATIC_TABLE + p + 1) (table_find_exact n v (enc_table e)))"

definition enc_find_name :: "encoder \<Rightarrow> bytes \<Rightarrow> nat option" where
  "enc_find_name e n =
     (case position (\<lambda>(en, _). en = n) STATIC_TABLE of
        Some p \<Rightarrow> Some (p + 1)
      | None \<Rightarrow> map_option (\<lambda>p. length STATIC_TABLE + p + 1) (table_find_name n (enc_table e)))"

definition encode_literal :: "encoder \<Rightarrow> header_field \<Rightarrow> indexing \<Rightarrow> bool \<Rightarrow> bytes \<Rightarrow> encoder \<times> bytes" where
  "encode_literal e f indexing huffman out =
     (let name_index = enc_find_name e (field_name f);
          (pattern, prefix_bits) =
            (case indexing of Incremental \<Rightarrow> (0x40, 6) | WithoutIndexing \<Rightarrow> (0x00, 4)
             | NeverIndexed \<Rightarrow> (0x10, 4));
          out1 = encode_integer (case name_index of None \<Rightarrow> 0 | Some i \<Rightarrow> i) prefix_bits pattern out;
          out2 = (if name_index = None then encode_string (field_name f) huffman out1 else out1);
          out3 = encode_string (field_value f) huffman out2
      in (if indexing = Incremental then e\<lparr>enc_table := table_insert f (enc_table e)\<rparr> else e, out3))"

definition encode_field :: "encoder \<Rightarrow> header_field \<Rightarrow> indexing \<Rightarrow> bool \<Rightarrow> bytes \<Rightarrow> encoder \<times> bytes" where
  "encode_field e f indexing huffman out =
     (case (if indexing = Incremental then enc_find_exact e (field_name f) (field_value f) else None) of
        Some index \<Rightarrow> (e, encode_integer index 7 0x80 out)
      | None \<Rightarrow> encode_literal e f indexing huffman out)"

fun encode_fields :: "encoder \<Rightarrow> (header_field \<times> indexing) list \<Rightarrow> bool \<Rightarrow> bytes \<Rightarrow> encoder \<times> bytes" where
  "encode_fields e [] huffman out = (e, out)"
| "encode_fields e ((f, indexing) # rest) huffman out =
     (let (e', out') = encode_field e f indexing huffman out in encode_fields e' rest huffman out')"

definition encode_with :: "encoder \<Rightarrow> (header_field \<times> indexing) list \<Rightarrow> bool \<Rightarrow> encoder \<times> bytes" where
  "encode_with e headers huffman =
     (let (e', out) = emit_size_updates e [] in encode_fields e' headers huffman out)"

definition is_sensitive :: "bytes \<Rightarrow> bool" where
  "is_sensitive n \<longleftrightarrow> n = ascii ''authorization'' \<or> n = ascii ''cookie'' \<or>
     n = ascii ''proxy-authorization'' \<or> n = ascii ''set-cookie''"

definition hpack_encode :: "encoder \<Rightarrow> header_field list \<Rightarrow> encoder \<times> bytes" where
  "hpack_encode e headers =
     encode_with e (map (\<lambda>f. (f, if is_sensitive (field_name f) then NeverIndexed else Incremental)) headers)
       True"

subsection \<open>The decoder\<close>

record decoder =
  dec_table :: dynamic_table
  max_allowed_table_size :: nat
  header_list_limit :: nat
  max_string_size :: nat

definition decoder_new :: "nat \<Rightarrow> decoder" where
  "decoder_new m = \<lparr>dec_table = table_new m, max_allowed_table_size = m,
     header_list_limit = 2 ^ 64 - 1, max_string_size = 2 ^ 20\<rparr>"

definition with_header_list_limit :: "nat \<Rightarrow> decoder \<Rightarrow> decoder" where
  "with_header_list_limit limit d = d\<lparr>header_list_limit := limit\<rparr>"

definition with_max_string_size :: "nat \<Rightarrow> decoder \<Rightarrow> decoder" where
  "with_max_string_size limit d = d\<lparr>max_string_size := limit\<rparr>"

definition hpack_lookup :: "decoder \<Rightarrow> nat \<Rightarrow> hpack_error + header_field" where
  "hpack_lookup d index =
     (if index = 0 then Inl IndexZero
      else if index - 1 < length STATIC_TABLE
      then (let (n, v) = STATIC_TABLE ! (index - 1) in Inr \<lparr>field_name = n, field_value = v\<rparr>)
      else ok_or (table_get (index - length STATIC_TABLE - 1) (dec_table d)) (InvalidIndex index))"

definition account :: "decoder \<Rightarrow> header_field \<Rightarrow> nat \<Rightarrow> header_field list \<Rightarrow>
    hpack_error + nat \<times> header_field list" where
  "account d f current headers =
     (let next_size = current + field_size f in
      if 2 ^ 64 \<le> next_size then Inl (HpackHeaderListTooLarge (header_list_limit d))
      else if header_list_limit d < next_size then Inl (HpackHeaderListTooLarge (header_list_limit d))
      else Inr (next_size, headers @ [f]))"

definition decode_literal :: "decoder \<Rightarrow> bytes \<Rightarrow> nat \<Rightarrow> nat \<Rightarrow> hpack_error + header_field \<times> nat" where
  "decode_literal d block pos prefix_bits =
     and_then (decode_integer block pos prefix_bits) (\<lambda>(name_index, pos1).
     and_then (if name_index = 0 then decode_string (max_string_size d) block pos1
               else and_then (hpack_lookup d name_index) (\<lambda>f. Inr (field_name f, pos1))) (\<lambda>(n, pos2).
     and_then (decode_string (max_string_size d) block pos2) (\<lambda>(v, pos3).
       Inr (\<lparr>field_name = n, field_value = v\<rparr>, pos3))))"

lemma decode_literal_advances:
  "decode_literal d block pos n = Inr (f, pos') \<Longrightarrow> pos < pos' \<and> pos' \<le> length block"
  by (auto simp: decode_literal_def result_simps split: if_splits
      dest!: decode_integer_advances string_literal.dec_advances)

text \<open>
  The body of the loop of \<open>decode\<close>: one representation.  An error leaves the decoder as it was before
  the representation.
\<close>

definition decode_one :: "decoder \<Rightarrow> bytes \<Rightarrow> nat \<Rightarrow> header_field list \<Rightarrow> nat \<Rightarrow> bool \<Rightarrow>
    hpack_error + decoder \<times> nat \<times> header_field list \<times> nat \<times> bool" where
  "decode_one d block pos headers hls saw_header =
     (let first = block ! pos in
      if first AND 0x80 \<noteq> 0 then
        and_then (decode_integer block pos 7) (\<lambda>(index, pos').
          if index = 0 then Inl IndexZero
          else and_then (hpack_lookup d index) (\<lambda>f.
               and_then (account d f hls headers) (\<lambda>(hls', headers').
                 Inr (d, pos', headers', hls', True))))
      else if first AND 0x40 \<noteq> 0 then
        and_then (decode_literal d block pos 6) (\<lambda>(f, pos').
        and_then (account d f hls headers) (\<lambda>(hls', headers').
          Inr (d\<lparr>dec_table := table_insert f (dec_table d)\<rparr>, pos', headers', hls', True)))
      else if first AND 0x20 \<noteq> 0 then
        (if saw_header then Inl SizeUpdateNotAtStart
         else and_then (decode_integer block pos 5) (\<lambda>(sz, pos').
                if max_allowed_table_size d < sz
                then Inl (SizeUpdateTooLarge sz (max_allowed_table_size d))
                else Inr (d\<lparr>dec_table := set_max_size sz (dec_table d)\<rparr>, pos', headers, hls, saw_header)))
      else
        and_then (decode_literal d block pos 4) (\<lambda>(f, pos').
        and_then (account d f hls headers) (\<lambda>(hls', headers').
          Inr (d, pos', headers', hls', True))))"

lemma decode_one_advances:
  "decode_one d block pos hs hls saw = Inr (d', pos', hs', hls', saw') \<Longrightarrow> pos < pos' \<and> pos' \<le> length block"
  by (auto simp: decode_one_def Let_def result_simps split: if_splits
      dest!: decode_literal_advances decode_integer_advances)

text \<open>
  The loop returns the decoder too, since the table keeps what was inserted before an error.
\<close>

function decode_loop :: "decoder \<Rightarrow> bytes \<Rightarrow> nat \<Rightarrow> header_field list \<Rightarrow> nat \<Rightarrow> bool \<Rightarrow>
    (hpack_error + header_field list) \<times> decoder" where
  "decode_loop d block pos headers hls saw_header =
     (if pos < length block then
        (case decode_one d block pos headers hls saw_header of
           Inl e \<Rightarrow> (Inl e, d)
         | Inr (d', pos', headers', hls', saw') \<Rightarrow> decode_loop d' block pos' headers' hls' saw')
      else (Inr headers, d))"
  by pat_completeness auto
termination
  by (relation "measure (\<lambda>(d, block, pos, headers, hls, saw). length block - pos)")
     (auto dest!: decode_one_advances)

declare decode_loop.simps [simp del]

definition hpack_decode :: "decoder \<Rightarrow> bytes \<Rightarrow> (hpack_error + header_field list) \<times> decoder" where
  "hpack_decode d block = decode_loop d block 0 [] 0 False"

subsection \<open>Both sides address the same entries\<close>

text \<open>Limits under which every index and length stays inside the 32 bits the decoder reads.\<close>

definition field_ok :: "decoder \<Rightarrow> header_field \<Rightarrow> bool" where
  "field_ok d f \<longleftrightarrow> length (field_name f) < 2 ^ 32 \<and> length (field_name f) \<le> max_string_size d \<and>
     length (field_value f) < 2 ^ 32 \<and> length (field_value f) \<le> max_string_size d"

definition tables_agree :: "encoder \<Rightarrow> decoder \<Rightarrow> bool" where
  "tables_agree e d \<longleftrightarrow> enc_table e = dec_table d \<and> table_ok (dec_table d) \<and> max_size (dec_table d) < 2 ^ 32"

lemma table_index_bound:
  "table_ok t \<Longrightarrow> max_size t < 2 ^ 32 \<Longrightarrow> p < length (entries t) \<Longrightarrow> 61 + p + 1 < 2 ^ 32"
  using table_ok_entries [of t] by simp

lemma find_exact_lookup:
  assumes "tables_agree e d" "enc_find_exact e n v = Some index"
  shows "hpack_lookup d index = Inr \<lparr>field_name = n, field_value = v\<rparr>" "0 < index" "index < 2 ^ 32"
proof -
  have "hpack_lookup d index = Inr \<lparr>field_name = n, field_value = v\<rparr> \<and> 0 < index \<and> index < 2 ^ 32"
  proof (cases "position (\<lambda>(en, ev). en = n \<and> ev = v) STATIC_TABLE")
    case None
    with assms(2) obtain p where "index = 61 + p + 1"
      and p: "position (\<lambda>f. field_name f = n \<and> field_value f = v) (entries (enc_table e)) = Some p"
      by (auto simp: enc_find_exact_def table_find_exact_def)
    with position_SomeD [OF p] table_index_bound [of "dec_table d" p] assms(1) show ?thesis
      by (auto simp: tables_agree_def hpack_lookup_def table_get_def)
  next
    case (Some p)
    with position_SomeD [OF Some] assms(2) show ?thesis
      by (auto simp: enc_find_exact_def hpack_lookup_def)
  qed
  then show "hpack_lookup d index = Inr \<lparr>field_name = n, field_value = v\<rparr>" "0 < index" "index < 2 ^ 32"
    by blast+
qed

lemma find_name_lookup:
  assumes "tables_agree e d" "enc_find_name e n = Some index"
  obtains f where "hpack_lookup d index = Inr f" "field_name f = n" "0 < index" "index < 2 ^ 32"
proof (cases "position (\<lambda>(en, _). en = n) STATIC_TABLE")
  case None
  with assms(2) obtain p where i: "index = 61 + p + 1"
    and p: "position (\<lambda>f. field_name f = n) (entries (enc_table e)) = Some p"
    by (auto simp: enc_find_name_def table_find_name_def)
  with position_SomeD [OF p] table_index_bound [of "dec_table d" p] assms(1)
  show thesis
    by (intro that [of "entries (dec_table d) ! p"]) (auto simp: tables_agree_def hpack_lookup_def table_get_def)
next
  case (Some p)
  with position_SomeD [OF Some] assms(2) show thesis
    by (intro that [of "\<lparr>field_name = fst (STATIC_TABLE ! p), field_value = snd (STATIC_TABLE ! p)\<rparr>"])
       (auto simp: enc_find_name_def hpack_lookup_def split: prod.splits)
qed

subsection \<open>What one field puts on the wire, and how it is read back\<close>

definition pattern_of :: "indexing \<Rightarrow> u8" where
  "pattern_of i = (case i of Incremental \<Rightarrow> 0x40 | WithoutIndexing \<Rightarrow> 0x00 | NeverIndexed \<Rightarrow> 0x10)"

definition prefix_of :: "indexing \<Rightarrow> nat" where
  "prefix_of i = (case i of Incremental \<Rightarrow> 6 | _ \<Rightarrow> 4)"

definition name_index_of :: "encoder \<Rightarrow> header_field \<Rightarrow> nat" where
  "name_index_of e f = (case enc_find_name e (field_name f) of None \<Rightarrow> 0 | Some i \<Rightarrow> i)"

definition literal_chunk :: "encoder \<Rightarrow> header_field \<Rightarrow> indexing \<Rightarrow> bool \<Rightarrow> bytes" where
  "literal_chunk e f i huffman =
     encode_integer (name_index_of e f) (prefix_of i) (pattern_of i) [] @
     (if enc_find_name e (field_name f) = None then encode_string (field_name f) huffman [] else []) @
     encode_string (field_value f) huffman []"

lemma encode_literal_eq:
  "encode_literal e f i huffman out =
     (if i = Incremental then e\<lparr>enc_table := table_insert f (enc_table e)\<rparr> else e,
      out @ literal_chunk e f i huffman)"
  by (cases i)
     (simp_all add: encode_literal_def literal_chunk_def prefix_of_def pattern_of_def name_index_of_def
        Let_def encode_integer_out [of _ _ _ out] encode_string_out [of _ _ "out @ _"]
        encode_string_out [of "field_value f" _ "(out @ _) @ _"])

lemma pattern_codec:
  "positional_codec (\<lambda>v. encode_integer v (prefix_of i) (pattern_of i) [])
     (\<lambda>b p. decode_integer b p (prefix_of i)) (\<lambda>v. v < 2 ^ 32)"
  by (rule integer_codec) (cases i; simp add: prefix_of_def pattern_of_def mask_eq_exp_minus_1)+

lemma decode_literal_chunk:
  assumes agree: "tables_agree e d" and f: "field_ok d f"
    and block: "block = pre @ literal_chunk e f i huffman @ post"
  shows "decode_literal d block (length pre) (prefix_of i) =
    Inr (f, length pre + length (literal_chunk e f i huffman))"
proof -
  let ?int = "encode_integer (name_index_of e f) (prefix_of i) (pattern_of i) []"
  let ?v = "encode_string (field_value f) huffman []"
  have fval: "decode_string (max_string_size d) (p @ ?v @ post) (length p) =
      Inr (field_value f, length p + length ?v)" for p
    using string_literal.dec_enc [of "field_value f" "max_string_size d" p huffman post] f
    by (simp add: field_ok_def)
  show ?thesis
  proof (cases "enc_find_name e (field_name f)")
    case None
    let ?n = "encode_string (field_name f) huffman []"
    have "decode_integer block (length pre) (prefix_of i) = Inr (0, length pre + length ?int)"
      using positional_codec.dec_enc [OF pattern_codec [of i], of 0 pre "?n @ ?v @ post"] None block
      by (simp add: literal_chunk_def name_index_of_def)
    moreover have "decode_string (max_string_size d) block (length pre + length ?int) =
        Inr (field_name f, length pre + length ?int + length ?n)"
      using string_literal.dec_enc [of "field_name f" "max_string_size d" "pre @ ?int" huffman "?v @ post"]
        f None block by (simp add: field_ok_def literal_chunk_def)
    moreover note fval [of "pre @ ?int @ ?n"]
    ultimately show ?thesis using None block
      by (simp add: decode_literal_def literal_chunk_def add.assoc)
  next
    case (Some index)
    from find_name_lookup [OF agree Some] obtain g where
      g: "hpack_lookup d index = Inr g" "field_name g = field_name f" "0 < index" "index < 2 ^ 32" .
    have "decode_integer block (length pre) (prefix_of i) = Inr (index, length pre + length ?int)"
      using positional_codec.dec_enc [OF pattern_codec [of i], of index pre "?v @ post"] Some block g
      by (simp add: literal_chunk_def name_index_of_def)
    moreover note fval [of "pre @ ?int"]
    ultimately show ?thesis using Some block g
      by (simp add: decode_literal_def literal_chunk_def)
  qed
qed

text \<open>The first octet of a chunk selects the branch of the decoder.\<close>

lemma chunk_first:
  assumes "block = pre @ literal_chunk e f i huffman @ post"
  shows "length pre < length block"
    "block ! length pre AND 0x80 = 0" "(block ! length pre AND 0x40 \<noteq> 0) \<longleftrightarrow> i = Incremental"
    "i \<noteq> Incremental \<Longrightarrow> block ! length pre AND 0x20 = 0"
proof -
  let ?int = "encode_integer (name_index_of e f) (prefix_of i) (pattern_of i) []"
  have ne: "?int \<noteq> []" by (simp add: encode_integer_def Let_def)
  have hd: "block ! length pre = hd ?int"
    using assms ne by (simp add: literal_chunk_def nth_append hd_conv_nth)
  show "length pre < length block" using assms ne by (simp add: literal_chunk_def)
  show "block ! length pre AND 0x80 = 0"
    unfolding hd by (subst encode_integer_first(1)) (cases i; simp add: prefix_of_def pattern_of_def mask_eq_exp_minus_1)+
  show "(block ! length pre AND 0x40 \<noteq> 0) \<longleftrightarrow> i = Incremental"
    unfolding hd by (subst encode_integer_first(1)) (cases i; simp add: prefix_of_def pattern_of_def mask_eq_exp_minus_1)+
  show "i \<noteq> Incremental \<Longrightarrow> block ! length pre AND 0x20 = 0"
    unfolding hd by (subst encode_integer_first(1)) (cases i; simp add: prefix_of_def pattern_of_def mask_eq_exp_minus_1)+
qed

lemma index_first:
  assumes "block = pre @ encode_integer index 7 0x80 [] @ post"
  shows "length pre < length block" "block ! length pre AND 0x80 \<noteq> 0"
proof -
  have ne: "encode_integer index 7 0x80 [] \<noteq> []" by (simp add: encode_integer_def Let_def)
  then show "length pre < length block" using assms by simp
  have "block ! length pre = hd (encode_integer index 7 0x80 [])"
    using assms ne by (simp add: nth_append hd_conv_nth)
  then show "block ! length pre AND 0x80 \<noteq> 0"
    by (simp only:) (subst encode_integer_first(1); simp add: mask_eq_exp_minus_1)
qed

definition field_chunk :: "encoder \<Rightarrow> header_field \<Rightarrow> indexing \<Rightarrow> bool \<Rightarrow> bytes" where
  "field_chunk e f i huffman = snd (encode_field e f i huffman [])"

lemma encode_field_out:
  "encode_field e f i huffman out = (fst (encode_field e f i huffman []), out @ field_chunk e f i huffman)"
  by (simp add: encode_field_def field_chunk_def encode_literal_eq encode_integer_out [of _ _ _ out]
      split: option.split)

lemma decode_field_step:
  assumes agree: "tables_agree e d" and f: "field_ok d f"
    and room: "hls + field_size f \<le> header_list_limit d" "header_list_limit d < 2 ^ 64"
    and block: "block = pre @ field_chunk e f i huffman @ post"
  defines "e' \<equiv> fst (encode_field e f i huffman [])"
  shows "decode_loop d block (length pre) hs hls saw =
      decode_loop (d\<lparr>dec_table := enc_table e'\<rparr>) block (length (pre @ field_chunk e f i huffman))
        (hs @ [f]) (hls + field_size f) True"
    and "tables_agree e' (d\<lparr>dec_table := enc_table e'\<rparr>)"
proof -
  have acc: "account d f hls hs = Inr (hls + field_size f, hs @ [f])"
    using room by (simp add: account_def)
  have same: "d\<lparr>dec_table := enc_table e\<rparr> = d" using agree by (simp add: tables_agree_def)
  have "decode_loop d block (length pre) hs hls saw =
      decode_loop (d\<lparr>dec_table := enc_table e'\<rparr>) block (length (pre @ field_chunk e f i huffman))
        (hs @ [f]) (hls + field_size f) True \<and> tables_agree e' (d\<lparr>dec_table := enc_table e'\<rparr>)"
  proof (cases "if i = Incremental then enc_find_exact e (field_name f) (field_value f) else None")
    case (Some index)
    then have enc: "enc_find_exact e (field_name f) (field_value f) = Some index"
      and chunk: "field_chunk e f i huffman = encode_integer index 7 0x80 []" and e': "e' = e"
      by (auto simp: field_chunk_def e'_def encode_field_def split: if_splits)
    note look = find_exact_lookup [OF agree enc]
    have eta: "\<lparr>field_name = field_name f, field_value = field_value f\<rparr> = f" by simp
    have "decode_integer block (length pre) 7 = Inr (index, length pre + length (field_chunk e f i huffman))"
      using indexed.dec_enc [OF look(3), of pre post] block chunk by simp
    with index_first [OF block [unfolded chunk]] look acc agree same show ?thesis
      by (subst decode_loop.simps) (simp add: decode_one_def e' Let_def eta)
  next
    case None
    then have chunk: "field_chunk e f i huffman = literal_chunk e f i huffman"
      and e': "e' = (if i = Incremental then e\<lparr>enc_table := table_insert f (enc_table e)\<rparr> else e)"
      by (simp_all add: field_chunk_def e'_def encode_field_def encode_literal_eq)
    note first = chunk_first [OF block [unfolded chunk]]
    note lit = decode_literal_chunk [OF agree f block [unfolded chunk]]
    show ?thesis
    proof (cases "i = Incremental")
      case True
      then have lit6: "decode_literal d block (length pre) 6 = Inr (f, length pre + length (literal_chunk e f i huffman))"
        using lit by (simp add: prefix_of_def)
      have "tables_agree e' (d\<lparr>dec_table := enc_table e'\<rparr>)"
        using agree True by (auto simp: tables_agree_def e')
      with True first lit6 acc agree show ?thesis
        by (subst decode_loop.simps) (simp add: decode_one_def e' chunk [unfolded True] Let_def tables_agree_def)
    next
      case False
      then have lit4: "decode_literal d block (length pre) 4 = Inr (f, length pre + length (literal_chunk e f i huffman))"
        using lit by (cases i) (simp_all add: prefix_of_def)
      from False first lit4 acc agree same show ?thesis
        by (subst decode_loop.simps) (simp add: decode_one_def e' chunk Let_def)
    qed
  qed
  then show "decode_loop d block (length pre) hs hls saw =
      decode_loop (d\<lparr>dec_table := enc_table e'\<rparr>) block (length (pre @ field_chunk e f i huffman))
        (hs @ [f]) (hls + field_size f) True"
    and "tables_agree e' (d\<lparr>dec_table := enc_table e'\<rparr>)"
    by blast+
qed

lemma encode_fields_Cons:
  "encode_fields e ((f, i) # rest) huffman out =
     encode_fields (fst (encode_field e f i huffman [])) rest huffman (out @ field_chunk e f i huffman)"
  by (subst encode_fields.simps, subst encode_field_out) simp

declare encode_fields.simps(2) [simp del]

lemma encode_fields_out:
  "encode_fields e hs huffman out =
     (fst (encode_fields e hs huffman []), out @ snd (encode_fields e hs huffman []))"
proof (induction hs arbitrary: e out)
  case (Cons h hs)
  obtain f i where h: "h = (f, i)" by fastforce
  let ?e = "fst (encode_field e f i huffman [])" and ?c = "field_chunk e f i huffman"
  from Cons [of ?e ?c] Cons [of ?e "out @ ?c"] show ?case by (simp add: h encode_fields_Cons)
qed simp

lemma decode_fields:
  assumes "tables_agree e d" "\<forall>(f, i) \<in> set hs. field_ok d f"
    and "hls + sum_list (map (field_size \<circ> fst) hs) \<le> header_list_limit d" "header_list_limit d < 2 ^ 64"
    and "block = pre @ snd (encode_fields e hs huffman [])"
  shows "\<exists>d'. decode_loop d block (length pre) acc hls saw = (Inr (acc @ map fst hs), d') \<and>
    tables_agree (fst (encode_fields e hs huffman [])) d' \<and>
    d' = d\<lparr>dec_table := enc_table (fst (encode_fields e hs huffman []))\<rparr>"
  using assms
proof (induction hs arbitrary: e d pre acc hls saw)
  case Nil
  then show ?case by (subst decode_loop.simps) (simp add: tables_agree_def)
next
  case (Cons h hs)
  obtain f i where h: "h = (f, i)" by fastforce
  let ?e = "fst (encode_field e f i huffman [])" and ?c = "field_chunk e f i huffman"
  have e: "encode_fields e ((f, i) # hs) huffman [] =
      (fst (encode_fields ?e hs huffman []), ?c @ snd (encode_fields ?e hs huffman []))"
    using encode_fields_out [of ?e hs huffman ?c] by (simp add: encode_fields_Cons)
  have block: "block = pre @ ?c @ snd (encode_fields ?e hs huffman [])"
    using Cons.prems(5) e h by simp
  have "field_ok d f" "hls + field_size f \<le> header_list_limit d"
    using Cons.prems(2,3) h by auto
  note step = decode_field_step [OF Cons.prems(1) this Cons.prems(4) block]
  let ?d = "d\<lparr>dec_table := enc_table ?e\<rparr>"
  have "field_ok ?d g = field_ok d g" for g by (simp add: field_ok_def)
  with Cons.prems(2) h have "\<forall>(f, i) \<in> set hs. field_ok ?d f" by auto
  with Cons.IH [OF step(2), of "hls + field_size f" "pre @ ?c" "acc @ [f]" True] Cons.prems(3,4) h block
  obtain d' where "decode_loop ?d block (length (pre @ ?c)) (acc @ [f]) (hls + field_size f) True =
      (Inr ((acc @ [f]) @ map fst hs), d')"
    "tables_agree (fst (encode_fields ?e hs huffman [])) d'"
    "d' = ?d\<lparr>dec_table := enc_table (fst (encode_fields ?e hs huffman []))\<rparr>"
    by (auto simp: add.assoc)
  then show ?case using step(1) by (simp add: h e)
qed

subsection \<open>Table size updates\<close>

text \<open>
  Between two blocks the encoder's table may be ahead of the decoder's: it has applied every size
  change at once, and the decoder will apply the smallest and the last.
\<close>

definition synced :: "encoder \<Rightarrow> decoder \<Rightarrow> bool" where
  "synced e d \<longleftrightarrow> table_ok (dec_table d) \<and> max_size (enc_table e) < 2 ^ 32 \<and>
     (case (pending_min e, pending_last e) of
        (None, None) \<Rightarrow> enc_table e = dec_table d
      | (Some s, Some l) \<Rightarrow> s \<le> l \<and> l < 2 ^ 32 \<and> l \<le> max_allowed_table_size d \<and>
          enc_table e = set_max_size l (set_max_size s (dec_table d))
      | _ \<Rightarrow> False)"

lemma synced_new: "n < 2 ^ 32 \<Longrightarrow> synced (encoder_new n) (decoder_new n)"
  by (simp add: synced_def encoder_new_def decoder_new_def table_new_def table_ok_def)

lemma set_max_size_twice:
  assumes "table_ok t" "s \<le> l"
  shows "set_max_size m (set_max_size l (set_max_size s t)) = set_max_size m (set_max_size (min s m) t)"
  using assms by (simp add: set_max_size_eq table_ok_def fit_fit min.commute min.left_commute min.absorb1)

lemma set_max_size_same: "table_ok t \<Longrightarrow> set_max_size m (set_max_size m t) = set_max_size m t"
  by (simp add: set_max_size_eq table_ok_def fit_fit)

lemma synced_set_max_table_size:
  assumes "synced e d" "m < 2 ^ 32" "m \<le> max_allowed_table_size d"
  shows "synced (set_max_table_size m e) d"
proof (cases "pending_min e")
  case None
  with assms show ?thesis
    by (auto simp: synced_def set_max_table_size_def set_max_size_same split: option.splits)
next
  case (Some s)
  with assms obtain l where "pending_last e = Some l" "s \<le> l" "table_ok (dec_table d)"
    "enc_table e = set_max_size l (set_max_size s (dec_table d))"
    by (auto simp: synced_def split: option.splits)
  with assms(2,3) Some show ?thesis
    by (simp add: synced_def set_max_table_size_def set_max_size_twice table_ok_set_max_size)
qed

lemma decode_size_update:
  assumes "sz \<le> max_allowed_table_size d" "sz < 2 ^ 32" "block = pre @ encode_integer sz 5 0x20 [] @ post"
  shows "decode_loop d block (length pre) acc hls False =
    decode_loop (d\<lparr>dec_table := set_max_size sz (dec_table d)\<rparr>) block
      (length (pre @ encode_integer sz 5 0x20 [])) acc hls False"
proof -
  let ?c = "encode_integer sz 5 0x20 []"
  have ne: "?c \<noteq> []" by (simp add: encode_integer_def Let_def)
  have hd: "block ! length pre = hd ?c" using assms(3) ne by (simp add: nth_append hd_conv_nth)
  have "hd ?c AND 0x80 = 0" "hd ?c AND 0x40 = 0" "hd ?c AND 0x20 \<noteq> 0"
    by (subst encode_integer_first(1); simp add: mask_eq_exp_minus_1)+
  moreover have "decode_integer block (length pre) 5 = Inr (sz, length pre + length ?c)"
    using size_update.dec_enc [OF assms(2), of pre post] assms(3) by simp
  moreover have "length pre < length block" using assms(3) ne by simp
  ultimately show ?thesis
    using assms(1) hd by (subst decode_loop.simps) (simp add: decode_one_def Let_def)
qed

lemma encode_decode_synced:
  assumes sync: "synced e d" and ok: "\<forall>(f, i) \<in> set hs. field_ok d f"
    and room: "sum_list (map (field_size \<circ> fst) hs) \<le> header_list_limit d" "header_list_limit d < 2 ^ 64"
    and enc: "encode_with e hs huffman = (e', block)"
  shows "\<exists>d'. hpack_decode d block = (Inr (map fst hs), d') \<and> synced e' d' \<and>
    d' = d\<lparr>dec_table := enc_table e'\<rparr>"
proof -
  obtain e1 upd where u: "emit_size_updates e [] = (e1, upd)" by fastforce
  then have e1: "e1 = e\<lparr>pending_min := None, pending_last := None\<rparr>"
    by (simp add: emit_size_updates_def Let_def)
  let ?body = "snd (encode_fields e1 hs huffman [])"
  have e': "e' = fst (encode_fields e1 hs huffman [])" and block: "block = upd @ ?body"
    using enc u encode_fields_out [of e1 hs huffman upd] by (simp_all add: encode_with_def)
  let ?d = "d\<lparr>dec_table := enc_table e\<rparr>"
  have start: "decode_loop d block 0 [] 0 False = decode_loop ?d block (length upd) [] 0 False"
  proof (cases "pending_min e")
    case None
    with sync u show ?thesis
      by (auto simp: synced_def emit_size_updates_def Let_def split: option.splits)
  next
    case (Some s)
    with sync obtain l where l: "pending_last e = Some l" "s \<le> l" "l < 2 ^ 32" "l \<le> max_allowed_table_size d"
      "enc_table e = set_max_size l (set_max_size s (dec_table d))" "table_ok (dec_table d)"
      by (auto simp: synced_def split: option.splits)
    let ?s = "encode_integer s 5 0x20 []" and ?l = "encode_integer l 5 0x20 []"
    show ?thesis
    proof (cases "s = l")
      case True
      with Some l u have "upd = ?l" by (simp add: emit_size_updates_def)
      with decode_size_update [of l d block "[]" ?body] l block True show ?thesis
        by (simp add: set_max_size_same)
    next
      case False
      with Some l u have "upd = ?s @ ?l"
        by (simp add: emit_size_updates_def Let_def encode_integer_out [of l _ _ ?s])
      with decode_size_update [of s d block "[]" "?l @ ?body"]
        decode_size_update [of l "d\<lparr>dec_table := set_max_size s (dec_table d)\<rparr>" block ?s ?body] l block
      show ?thesis by simp
    qed
  qed
  have agree: "tables_agree e1 ?d"
    using sync by (auto simp: tables_agree_def synced_def e1 split: option.splits)
  have "field_ok ?d f = field_ok d f" for f by (simp add: field_ok_def)
  with decode_fields [OF agree, of hs 0 block upd huffman "[]" False] ok room block
  obtain d' where d': "decode_loop ?d block (length upd) [] 0 False = (Inr (map fst hs), d')"
    "tables_agree e' d'" "d' = d\<lparr>dec_table := enc_table e'\<rparr>"
    by (auto simp: e')
  have "pending_min e1 = None" "pending_last e1 = None" by (simp_all add: e1)
  moreover have "pending_min (fst (encode_fields x hs huffman [])) = pending_min x \<and>
      pending_last (fst (encode_fields x hs huffman [])) = pending_last x" for x
  proof (induction hs arbitrary: x)
    case (Cons h hs)
    obtain f i where h: "h = (f, i)" by fastforce
    have "pending_min (fst (encode_field x f i huffman [])) = pending_min x \<and>
        pending_last (fst (encode_field x f i huffman [])) = pending_last x"
      by (simp add: encode_field_def encode_literal_eq split: option.split)
    with Cons encode_fields_out [of "fst (encode_field x f i huffman [])" hs huffman "field_chunk x f i huffman"]
    show ?case by (simp add: h encode_fields_Cons)
  qed simp
  ultimately have "synced e' d'"
    using d'(2) by (simp add: synced_def tables_agree_def e')
  with start d' show ?thesis by (simp add: hpack_decode_def)
qed

subsection \<open>Whole sessions\<close>

text \<open>
  A connection's use of one direction: blocks in order, with table size changes of the encoder
  between them.  \<open>run_session\<close> collects what the decoder returns for each block.
\<close>

datatype session_op = ResizeTable nat | SendBlock "header_field list"

fun run_session :: "encoder \<Rightarrow> decoder \<Rightarrow> session_op list \<Rightarrow> (hpack_error + header_field list) list" where
  "run_session e d [] = []"
| "run_session e d (ResizeTable m # ops) = run_session (set_max_table_size m e) d ops"
| "run_session e d (SendBlock hs # ops) =
     (let (e', block) = hpack_encode e hs;
          (r, d') = hpack_decode d block
      in r # run_session e' d' ops)"

fun sent_blocks :: "session_op list \<Rightarrow> header_field list list" where
  "sent_blocks [] = []"
| "sent_blocks (ResizeTable m # ops) = sent_blocks ops"
| "sent_blocks (SendBlock hs # ops) = hs # sent_blocks ops"

definition op_ok :: "nat \<Rightarrow> nat \<Rightarrow> nat \<Rightarrow> session_op \<Rightarrow> bool" where
  "op_ok table_limit list_limit string_limit op \<longleftrightarrow>
     (case op of
        ResizeTable m \<Rightarrow> m \<le> table_limit \<and> m < 2 ^ 32
      | SendBlock hs \<Rightarrow> entries_size hs \<le> list_limit \<and>
          (\<forall>f \<in> set hs. length (field_name f) < 2 ^ 32 \<and> length (field_name f) \<le> string_limit \<and>
             length (field_value f) < 2 ^ 32 \<and> length (field_value f) \<le> string_limit))"

lemma hpack_encode_decode:
  assumes "synced e d" "\<forall>f \<in> set hs. field_ok d f"
    and "entries_size hs \<le> header_list_limit d" "header_list_limit d < 2 ^ 64"
    and "hpack_encode e hs = (e', block)"
  shows "\<exists>d'. hpack_decode d block = (Inr hs, d') \<and> synced e' d' \<and> d' = d\<lparr>dec_table := enc_table e'\<rparr>"
  using encode_decode_synced [OF assms(1), of
      "map (\<lambda>f. (f, if is_sensitive (field_name f) then NeverIndexed else Incremental)) hs" True e' block]
    assms(2-5)
  by (simp add: hpack_encode_def comp_def entries_size_def)

lemma run_session_synced:
  assumes "synced e d" "header_list_limit d < 2 ^ 64"
    and "\<forall>op \<in> set ops. op_ok (max_allowed_table_size d) (header_list_limit d) (max_string_size d) op"
  shows "run_session e d ops = map Inr (sent_blocks ops)"
  using assms
proof (induction e d ops rule: run_session.induct)
  case (2 e d m ops)
  then show ?case by (simp add: synced_set_max_table_size op_ok_def)
next
  case (3 e d hs ops)
  obtain e' block where enc: "hpack_encode e hs = (e', block)" by fastforce
  from 3(4) have "\<forall>f \<in> set hs. field_ok d f" "entries_size hs \<le> header_list_limit d"
    by (auto simp: op_ok_def field_ok_def)
  from hpack_encode_decode [OF 3(2) this 3(3) enc] obtain d' where
    "hpack_decode d block = (Inr hs, d')" "synced e' d'" "d' = d\<lparr>dec_table := enc_table e'\<rparr>" by blast
  with 3(1) [OF enc [symmetric]] 3(3,4) enc show ?case by simp
qed simp

subsection \<open>Bounds of the decoder on any input\<close>

definition dec_bounded :: "decoder \<Rightarrow> bool" where
  "dec_bounded d \<longleftrightarrow> table_ok (dec_table d) \<and> max_size (dec_table d) \<le> max_allowed_table_size d"

definition same_limits :: "decoder \<Rightarrow> decoder \<Rightarrow> bool" where
  "same_limits d d' \<longleftrightarrow> max_allowed_table_size d' = max_allowed_table_size d \<and>
     header_list_limit d' = header_list_limit d \<and> max_string_size d' = max_string_size d"

lemma fit_prefix: "prefix (fit m es) es"
  by (induction m es rule: fit.induct) auto

lemma fit_longest: "prefix xs es \<Longrightarrow> entries_size xs \<le> m \<Longrightarrow> length xs \<le> length (fit m es)"
  by (induction m es arbitrary: xs rule: fit.induct) (auto simp: prefix_Cons)

lemma set_fit: "set (fit m es) \<subseteq> set es"
  by (induction m es rule: fit.induct) auto

lemma encode_fields_entries:
  assumes "encode_fields e hs huffman out = (e', out')" "table_ok (enc_table e)"
  shows "table_ok (enc_table e') \<and>
    set (entries (enc_table e')) \<subseteq> set (entries (enc_table e)) \<union> {f. (f, Incremental) \<in> set hs}"
  using assms
proof (induction e hs huffman out rule: encode_fields.induct)
  case (2 e f i rest huffman out)
  obtain e1 out1 where one: "encode_field e f i huffman out = (e1, out1)" by fastforce
  then have "e1 = e \<or> (i = Incremental \<and> e1 = e\<lparr>enc_table := table_insert f (enc_table e)\<rparr>)"
    by (auto simp: encode_field_def encode_literal_eq split: option.splits if_splits)
  moreover from this have "table_ok (enc_table e1)"
    using 2(3) table_ok_insert [of "enc_table e" f] by auto
  moreover have "set (entries (table_insert f (enc_table e))) \<subseteq> insert f (set (entries (enc_table e)))"
    using 2(3) set_fit [of "max_size (enc_table e)" "f # entries (enc_table e)"]
    by (simp del: fit.simps add: table_insert_eq)
  ultimately have "table_ok (enc_table e1) \<and> set (entries (enc_table e1)) \<subseteq>
      set (entries (enc_table e)) \<union> {g. g = f \<and> i = Incremental}"
    by auto
  moreover have "table_ok (enc_table e') \<and> set (entries (enc_table e')) \<subseteq>
      set (entries (enc_table e1)) \<union> {f. (f, Incremental) \<in> set rest}"
    using 2(1) [OF one [symmetric] refl] 2(2) one calculation by (simp add: encode_fields.simps)
  ultimately show ?case by auto
qed simp

lemma dec_bounded_simps [simp]:
  "dec_bounded d \<Longrightarrow> dec_bounded (d\<lparr>dec_table := table_insert f (dec_table d)\<rparr>)"
  "dec_bounded d \<Longrightarrow> sz \<le> max_allowed_table_size d \<Longrightarrow> dec_bounded (d\<lparr>dec_table := set_max_size sz (dec_table d)\<rparr>)"
  by (auto simp: dec_bounded_def)

lemma account_size:
  "account d f hls hs = Inr (hls', hs') \<Longrightarrow> entries_size hs = hls \<Longrightarrow>
   entries_size hs' = hls' \<and> hls' \<le> header_list_limit d"
  by (auto simp: account_def Let_def split: if_splits)

lemma decode_one_bounded:
  assumes "dec_bounded d" "entries_size hs = hls" "hls \<le> header_list_limit d"
    and "decode_one d block pos hs hls saw = Inr (d', pos', hs', hls', saw')"
  shows "dec_bounded d' \<and> same_limits d d' \<and> entries_size hs' = hls' \<and> hls' \<le> header_list_limit d"
  using assms
  by (auto simp: decode_one_def Let_def result_simps same_limits_def split: if_splits dest!: account_size)

lemma decode_loop_bounded:
  assumes "dec_bounded d" "entries_size hs = hls" "hls \<le> header_list_limit d"
    and "decode_loop d block pos hs hls saw = (r, d')"
  shows "dec_bounded d' \<and> same_limits d d' \<and> (\<forall>hs'. r = Inr hs' \<longrightarrow> entries_size hs' \<le> header_list_limit d)"
  using assms
proof (induction d block pos hs hls saw rule: decode_loop.induct)
  case (1 d block pos hs hls saw)
  show ?case
  proof (cases "pos < length block \<and> is_ok (decode_one d block pos hs hls saw)")
    case False
    with 1 show ?thesis
      by (subst (asm) decode_loop.simps [of d block pos])
         (auto simp: same_limits_def split: if_splits sum.splits)
  next
    case True
    then obtain d1 pos1 hs1 hls1 saw1 where
      one: "decode_one d block pos hs hls saw = Inr (d1, pos1, hs1, hls1, saw1)" by auto
    from decode_one_bounded [OF 1(2,3,4) one]
    have b: "dec_bounded d1" "same_limits d d1" "entries_size hs1 = hls1" "hls1 \<le> header_list_limit d1"
      by (auto simp: same_limits_def)
    from 1(5) True one have "decode_loop d1 block pos1 hs1 hls1 saw1 = (r, d')"
      by (subst (asm) decode_loop.simps [of d block pos]) simp
    with 1(1) [OF _ one refl refl refl refl] b True show ?thesis by (auto simp: same_limits_def)
  qed
qed


subsection \<open>Main results\<close>

text \<open>
  C35: over a whole connection, with table size changes between the header
  blocks, the decoder returns for each block exactly the header list the encoder was given, and never
  an error, provided the lists and strings stay within the decoder's limits.
\<close>

theorem hpack_session_roundtrip:
  assumes "table_limit < 2 ^ 32" "list_limit < 2 ^ 64"
    and "\<forall>op \<in> set ops. op_ok table_limit list_limit string_limit op"
  shows "run_session (encoder_new table_limit)
      (with_max_string_size string_limit (with_header_list_limit list_limit (decoder_new table_limit))) ops =
    map Inr (sent_blocks ops)"
proof (rule run_session_synced)
  let ?d = "with_max_string_size string_limit (with_header_list_limit list_limit (decoder_new table_limit))"
  show "synced (encoder_new table_limit) ?d"
    using synced_new [OF assms(1)]
    by (simp add: synced_def with_max_string_size_def with_header_list_limit_def encoder_new_def decoder_new_def)
  show "header_list_limit ?d < 2 ^ 64"
    "\<forall>op \<in> set ops. op_ok (max_allowed_table_size ?d) (header_list_limit ?d) (max_string_size ?d) op"
    using assms(2,3) by (simp_all add: with_max_string_size_def with_header_list_limit_def decoder_new_def)
qed

theorem hpack_session_roundtrip_witness:
  "run_session (encoder_new 4096)
      (with_max_string_size 100 (with_header_list_limit 200 (decoder_new 4096)))
      [SendBlock [\<lparr>field_name = [120, 45, 97], field_value = [49]\<rparr>], ResizeTable 0, ResizeTable 64,
       SendBlock [\<lparr>field_name = [120, 45, 97], field_value = [49]\<rparr>]] =
    [Inr [\<lparr>field_name = [120, 45, 97], field_value = [49]\<rparr>],
     Inr [\<lparr>field_name = [120, 45, 97], field_value = [49]\<rparr>]]"
  by (subst hpack_session_roundtrip) (simp_all add: op_ok_def field_size_def)

text \<open>
  C38: whatever block a peer sends, decoding it (with or without an error) leaves
  the decoder's dynamic table within its maximum size, the maximum within the advertised limit and the
  limits unchanged; a list that is returned is within the header list limit.
\<close>

theorem hpack_decoder_bounded:
  assumes "dec_bounded d" "hpack_decode d block = (r, d')"
  shows "dec_bounded d' \<and> same_limits d d' \<and> (\<forall>hs. r = Inr hs \<longrightarrow> entries_size hs \<le> header_list_limit d)"
  using decode_loop_bounded [OF assms(1) _ _ assms(2) [unfolded hpack_decode_def]] by simp

theorem hpack_decoder_bounded_witness:
  "dec_bounded (snd (hpack_decode (decoder_new 64) [0x82, 0x40, 0x01, 0x61, 0x01, 0x62, 0x20]))"
proof -
  have "dec_bounded (decoder_new 64)" by (simp add: dec_bounded_def decoder_new_def table_ok_new)
  from hpack_decoder_bounded [OF this prod.collapse [symmetric]]
  show ?thesis by simp
qed

text \<open>
  sensitive_fields_not_indexed: the value of a sensitive header is never put in the encoder's dynamic
  table, where a later block could refer to it: what the table holds after a block was there before or
  comes from a header of the block that is not sensitive.
\<close>

theorem sensitive_fields_not_indexed:
  assumes "hpack_encode e headers = (e', block)" "table_ok (enc_table e)"
  shows "table_ok (enc_table e') \<and>
    set (entries (enc_table e')) \<subseteq>
      set (entries (enc_table e)) \<union> {f \<in> set headers. \<not> is_sensitive (field_name f)}"
proof -
  obtain e1 upd where u: "emit_size_updates e [] = (e1, upd)" by fastforce
  then have "enc_table e1 = enc_table e" by (auto simp: emit_size_updates_def Let_def)
  with assms u encode_fields_entries [of e1 _ True upd e' block] show ?thesis
    by (fastforce simp: hpack_encode_def encode_with_def split: if_splits)
qed

theorem sensitive_fields_not_indexed_witness:
  "set (entries (enc_table (fst (hpack_encode (encoder_new 4096)
     [\<lparr>field_name = ascii ''cookie'', field_value = ascii ''k''\<rparr>])))) = {}"
proof -
  have "table_ok (enc_table (encoder_new 4096))" by (simp add: encoder_new_def table_ok_new)
  moreover have "entries (enc_table (encoder_new 4096)) = []" by (simp add: encoder_new_def table_new_def)
  moreover have "{f \<in> set [\<lparr>field_name = ascii ''cookie'', field_value = ascii ''k''\<rparr>].
      \<not> is_sensitive (field_name f)} = {}" by (auto simp: is_sensitive_def)
  ultimately show ?thesis
    using sensitive_fields_not_indexed [OF prod.collapse [symmetric], of "encoder_new 4096"
        "[\<lparr>field_name = ascii ''cookie'', field_value = ascii ''k''\<rparr>]"] by (simp only: list.set) simp
qed

text \<open>
  Inserting a field in a dynamic table evicts as little as it can from the
  old end: the entries are the longest prefix of the new field followed by the old entries whose total
  size is within the maximum (no entry at all when the field alone is too large), and the stored size
  is that total.
\<close>

theorem dynamic_table_insert_spec:
  assumes "table_ok t"
  shows "prefix (entries (table_insert f t)) (f # entries t) \<and>
    table_size (table_insert f t) = entries_size (entries (table_insert f t)) \<and>
    table_size (table_insert f t) \<le> max_size t \<and>
    (\<forall>es. prefix es (f # entries t) \<and> entries_size es \<le> max_size t \<longrightarrow>
       length es \<le> length (entries (table_insert f t)))"
  using assms fit_prefix [of "max_size t" "f # entries t"] entries_size_fit [of "max_size t" "f # entries t"]
    fit_longest [of _ "f # entries t" "max_size t"]
  by (simp add: table_insert_eq)

theorem dynamic_table_insert_spec_witness:
  "prefix (entries (table_insert \<lparr>field_name = [1], field_value = []\<rparr>
       \<lparr>entries = [\<lparr>field_name = [2], field_value = []\<rparr>], table_size = 33, max_size = 65\<rparr>))
     [\<lparr>field_name = [1], field_value = []\<rparr>, \<lparr>field_name = [2], field_value = []\<rparr>]"
proof -
  have "table_ok \<lparr>entries = [\<lparr>field_name = [2], field_value = []\<rparr>], table_size = 33, max_size = 65\<rparr>"
    by (simp add: table_ok_def field_size_def)
  from dynamic_table_insert_spec [OF this, of "\<lparr>field_name = [1], field_value = []\<rparr>"]
  show ?thesis by simp
qed

end
