(* ===== verification/H2Transport.thy ===== *)
theory H2Transport
  imports H2Error
begin

text \<open>
  The transport of the HTTP/2 client, any \<open>S: Read + Write\<close> its caller supplies.  One run of a transport
  is a script: what each call of \<open>read\<close> meets (octets, a would-block or timeout, an interruption, a
  failure) and how each write and flush ends; \<open>sent\<close> logs the octets of each successful \<open>write_all\<close>.
  A statement about every script is a statement about every transport, including one that reacts to
  what is written.  At the end of its script the transport is at end of file.
\<close>

datatype io_error = WouldBlock | TimedOut | Interrupted | OtherIo string

text \<open>\<open>error.to_string()\<close>; the texts of the first three are the standard library's for the bare kinds.\<close>

fun io_error_text :: "io_error \<Rightarrow> string" where
  "io_error_text WouldBlock = ''operation would block''"
| "io_error_text TimedOut = ''timed out''"
| "io_error_text Interrupted = ''operation interrupted''"
| "io_error_text (OtherIo message) = message"

datatype read_event = ReadBytes bytes | ReadError io_error

record transport =
  reads :: "read_event list"
  write_results :: "io_error option list"
  sent :: "bytes list"

text \<open>\<open>read\<close> into a buffer of \<open>n\<close> octets: at most \<open>n\<close> of the next event, none at end of file.\<close>

definition io_read :: "nat \<Rightarrow> transport \<Rightarrow> (io_error + bytes) \<times> transport" where
  "io_read n t =
     (case reads t of
        [] \<Rightarrow> (Inr [], t)
      | ReadError e # rest \<Rightarrow> (Inl e, t\<lparr>reads := rest\<rparr>)
      | ReadBytes bs # rest \<Rightarrow>
          (if length bs \<le> n then (Inr bs, t\<lparr>reads := rest\<rparr>)
           else (Inr (take n bs), t\<lparr>reads := ReadBytes (drop n bs) # rest\<rparr>)))"

definition io_write_all :: "bytes \<Rightarrow> transport \<Rightarrow> (io_error + unit) \<times> transport" where
  "io_write_all bs t =
     (case write_results t of
        [] \<Rightarrow> (Inr (), t\<lparr>sent := sent t @ [bs]\<rparr>)
      | None # rest \<Rightarrow> (Inr (), t\<lparr>write_results := rest, sent := sent t @ [bs]\<rparr>)
      | Some e # rest \<Rightarrow> (Inl e, t\<lparr>write_results := rest\<rparr>))"

definition io_flush :: "transport \<Rightarrow> (io_error + unit) \<times> transport" where
  "io_flush t =
     (case write_results t of
        [] \<Rightarrow> (Inr (), t)
      | None # rest \<Rightarrow> (Inr (), t\<lparr>write_results := rest\<rparr>)
      | Some e # rest \<Rightarrow> (Inl e, t\<lparr>write_results := rest\<rparr>))"

text \<open>Every read makes progress: the measure of the loops that read.\<close>

definition event_size :: "read_event \<Rightarrow> nat" where
  "event_size e = (case e of ReadBytes bs \<Rightarrow> 1 + length bs | ReadError _ \<Rightarrow> 1)"

definition script_size :: "transport \<Rightarrow> nat" where
  "script_size t = sum_list (map event_size (reads t))"

lemma io_read_error_shrinks: "io_read n t = (Inl e, t') \<Longrightarrow> script_size t' < script_size t"
  by (auto simp: io_read_def script_size_def event_size_def split: list.splits read_event.splits if_splits)

lemma io_read_bytes_shrinks:
  "io_read n t = (Inr bs, t') \<Longrightarrow> bs \<noteq> [] \<Longrightarrow> script_size t' < script_size t"
  by (auto simp: io_read_def script_size_def event_size_def split: list.splits read_event.splits if_splits)

lemma io_read_length: "io_read n t = (Inr bs, t') \<Longrightarrow> length bs \<le> n"
  by (auto simp: io_read_def split: list.splits read_event.splits if_splits)

text \<open>The octets a script still delivers, up to its first end of file.\<close>

fun octets :: "read_event list \<Rightarrow> bytes" where
  "octets [] = []"
| "octets (ReadBytes [] # rest) = []"
| "octets (ReadBytes (b # bs) # rest) = b # bs @ octets rest"
| "octets (ReadError _ # rest) = octets rest"

lemma octets_ReadBytes: "cs \<noteq> [] \<Longrightarrow> octets (ReadBytes cs # rest) = cs @ octets rest"
  by (cases cs) simp_all

lemma io_read_octets:
  "io_read n t = (Inr bs, t') \<Longrightarrow> bs \<noteq> [] \<Longrightarrow> octets (reads t) = bs @ octets (reads t')"
  by (auto simp: io_read_def octets_ReadBytes simp flip: append_assoc
      split: list.splits read_event.splits if_splits)

lemma io_read_error_octets: "io_read n t = (Inl e, t') \<Longrightarrow> octets (reads t') = octets (reads t)"
  by (auto simp: io_read_def split: list.splits read_event.splits if_splits)

lemma io_read_frame [frame_rules]:
  "io_read n t = (r, t') \<Longrightarrow> sent t' = sent t \<and> write_results t' = write_results t"
  by (auto simp: io_read_def split: list.splits read_event.splits if_splits)

lemma io_write_all_sent [frame_rules]:
  "io_write_all bs t = (r, t') \<Longrightarrow>
     reads t' = reads t \<and> sent t' = (if is_ok r then sent t @ [bs] else sent t)"
  by (auto simp: io_write_all_def split: list.splits option.splits)

lemma io_flush_frame [frame_rules]:
  "io_flush t = (r, t') \<Longrightarrow> reads t' = reads t \<and> sent t' = sent t"
  by (auto simp: io_flush_def split: list.splits option.splits)

end
