(* ===== verification/H2Frame.thy ===== *)
theory H2Frame
  imports H2Transport
begin

text \<open>
  The frame codec of the HTTP/2 client (\<^verbatim>\<open>crates/render-net/src/h2/frame.rs\<close>): frame types,
  flags, settings, the typed payloads, their serialisation and parsing, and the reader that assembles a
  frame from a transport.  The main results: a frame built by any constructor survives encoding and
  decoding, a decoded frame can be encoded again to the same content, and reading a frame piecewise
  is decoding its octets.
\<close>

subsection \<open>Big-endian integers\<close>

lemma unat_of_nat32: "n < 2 ^ 32 \<Longrightarrow> unat (of_nat n :: u32) = n"
  by (simp add: unsigned_of_nat take_bit_nat_eq_self)

definition be16 :: "u16 \<Rightarrow> bytes" where
  "be16 w = [ucast (drop_bit 8 w), ucast w]"

definition be32 :: "u32 \<Rightarrow> bytes" where
  "be32 w = [ucast (drop_bit 24 w), ucast (drop_bit 16 w), ucast (drop_bit 8 w), ucast w]"

definition from_be16 :: "u8 \<Rightarrow> u8 \<Rightarrow> u16" where
  "from_be16 a b = push_bit 8 (ucast a) OR ucast b"

definition from_be32 :: "u8 \<Rightarrow> u8 \<Rightarrow> u8 \<Rightarrow> u8 \<Rightarrow> u32" where
  "from_be32 a b c d =
     push_bit 24 (ucast a) OR push_bit 16 (ucast b) OR push_bit 8 (ucast c) OR ucast d"

definition read_u32 :: "bytes \<Rightarrow> u32" where
  "read_u32 bs = from_be32 (bs ! 0) (bs ! 1) (bs ! 2) (bs ! 3)"

lemma length_be [simp]: "length (be16 v) = 2" "length (be32 w) = 4"
  by (simp_all add: be16_def be32_def)

lemma bit_u8: "bit x m \<Longrightarrow> m < 8" for x :: u8
  using bit_imp_le_length [of x m] by simp

lemma bit_from_be16: "bit (from_be16 a b) n \<longleftrightarrow> (if n < 8 then bit b n else bit a (n - 8))"
  using bit_u8 [of b n] bit_u8 [of a "n - 8"]
  by (cases "n < 8") (fastforce simp add: from_be16_def bit_or_iff bit_push_bit_iff bit_unsigned_iff)+

lemma bit_from_be32:
  "bit (from_be32 a b c d) n \<longleftrightarrow>
     (if n < 8 then bit d n else if n < 16 then bit c (n - 8) else if n < 24 then bit b (n - 16)
      else bit a (n - 24))"
proof -
  consider "n < 8" | "8 \<le> n" "n < 16" | "16 \<le> n" "n < 24" | "24 \<le> n" by linarith
  then show ?thesis
    by cases (use bit_u8 [of a "n - 24"] bit_u8 [of b "n - 16"] bit_u8 [of c "n - 8"] bit_u8 [of d n]
      in \<open>fastforce simp add: from_be32_def bit_or_iff bit_push_bit_iff bit_unsigned_iff\<close>)+
qed

lemma from_be16_be16: "from_be16 (ucast (drop_bit 8 w)) (ucast w) = w"
  by (rule bit_word_eqI) (auto simp add: bit_from_be16 bit_unsigned_iff bit_drop_bit_eq)

lemma from_be32_be32:
  "from_be32 (ucast (drop_bit 24 w)) (ucast (drop_bit 16 w)) (ucast (drop_bit 8 w)) (ucast w) = w"
  by (rule bit_word_eqI) (auto simp add: bit_from_be32 bit_unsigned_iff bit_drop_bit_eq)

lemma read_u32_be32 [simp]: "read_u32 (be32 w @ rest) = w" "read_u32 (be32 w) = w"
  by (simp_all add: read_u32_def be32_def from_be32_be32)

lemma take_drop_be32 [simp]:
  "take 4 (be32 w @ rest) = be32 w" "drop 4 (be32 w @ rest) = rest"
  "take 4 (be32 w) = be32 w" "drop 4 (be32 w) = []"
  by simp_all

text \<open>The 24-bit length field.\<close>

definition be24_length :: "u8 \<Rightarrow> u8 \<Rightarrow> u8 \<Rightarrow> u32" where
  "be24_length a b c = push_bit 16 (ucast a) OR push_bit 8 (ucast b) OR ucast c"

lemma below_24: "unat w < 2 ^ 24 \<longleftrightarrow> take_bit 24 w = (w :: u32)"
  by (simp add: word_unat_eq_iff unsigned_take_bit_eq take_bit_nat_eq_self_iff)

lemma be24_as_be32: "be24_length a b c = from_be32 0 a b c"
  by (simp add: be24_length_def from_be32_def)

lemma be24_be32:
  assumes "unat w < 2 ^ 24"
  shows "be24_length (ucast (drop_bit 16 w)) (ucast (drop_bit 8 w)) (ucast w) = w"
proof (rule bit_word_eqI)
  fix n assume n: "n < LENGTH(32)"
  have "bit w n = bit (take_bit 24 w) n" using assms by (simp only: below_24)
  then have high: "bit w n = (n < 24 \<and> bit w n)" by (simp add: bit_take_bit_iff)
  consider "n < 8" | "8 \<le> n" "n < 16" | "16 \<le> n" "n < 24" | "24 \<le> n" by linarith
  then show "bit (be24_length (ucast (drop_bit 16 w)) (ucast (drop_bit 8 w)) (ucast w)) n = bit w n"
    using n high by cases (simp_all add: less_diff_conv2 be24_as_be32 bit_from_be32 bit_unsigned_iff bit_drop_bit_eq)
qed

lemma be24_length_bound: "unat (be24_length a b c) < 2 ^ 24"
  unfolding below_24
  by (rule bit_word_eqI) (auto simp: be24_as_be32 bit_from_be32 bit_take_bit_iff dest: bit_u8)

subsection \<open>Frame types and flags\<close>

definition DEFAULT_MAX_FRAME_SIZE :: u32 where "DEFAULT_MAX_FRAME_SIZE = 16384"
definition MAX_MAX_FRAME_SIZE :: u32 where "MAX_MAX_FRAME_SIZE = 16777215"

definition CONNECTION_PREFACE :: bytes where
  "CONNECTION_PREFACE = to_bytes ''PRI * HTTP/2.0'' @ [13, 10, 13, 10] @ to_bytes ''SM'' @ [13, 10, 13, 10]"

definition FLAG_ACK :: u8 where "FLAG_ACK = 0x1"
definition FLAG_END_STREAM :: u8 where "FLAG_END_STREAM = 0x1"
definition FLAG_END_HEADERS :: u8 where "FLAG_END_HEADERS = 0x4"
definition FLAG_PADDED :: u8 where "FLAG_PADDED = 0x8"
definition FLAG_PRIORITY :: u8 where "FLAG_PRIORITY = 0x20"

lemmas flag_defs = FLAG_ACK_def FLAG_END_STREAM_def FLAG_END_HEADERS_def FLAG_PADDED_def FLAG_PRIORITY_def

datatype frame_type = TData | THeaders | TPriority | TRstStream | TSettings | TPushPromise | TPing
  | TGoAway | TWindowUpdate | TContinuation | TUnknown u8

definition frame_type_from_u8 :: "u8 \<Rightarrow> frame_type" where
  "frame_type_from_u8 raw =
     (if raw = 0x0 then TData
      else if raw = 0x1 then THeaders
      else if raw = 0x2 then TPriority
      else if raw = 0x3 then TRstStream
      else if raw = 0x4 then TSettings
      else if raw = 0x5 then TPushPromise
      else if raw = 0x6 then TPing
      else if raw = 0x7 then TGoAway
      else if raw = 0x8 then TWindowUpdate
      else if raw = 0x9 then TContinuation
      else TUnknown raw)"

fun frame_type_as_u8 :: "frame_type \<Rightarrow> u8" where
  "frame_type_as_u8 TData = 0x0"
| "frame_type_as_u8 THeaders = 0x1"
| "frame_type_as_u8 TPriority = 0x2"
| "frame_type_as_u8 TRstStream = 0x3"
| "frame_type_as_u8 TSettings = 0x4"
| "frame_type_as_u8 TPushPromise = 0x5"
| "frame_type_as_u8 TPing = 0x6"
| "frame_type_as_u8 TGoAway = 0x7"
| "frame_type_as_u8 TWindowUpdate = 0x8"
| "frame_type_as_u8 TContinuation = 0x9"
| "frame_type_as_u8 (TUnknown v) = v"

lemma frame_type_as_from [simp]: "frame_type_as_u8 (frame_type_from_u8 raw) = raw"
  by (simp add: frame_type_from_u8_def)

lemma frame_type_from_as:
  "(\<forall>v. t = TUnknown v \<longrightarrow> 0x9 < v) \<Longrightarrow> frame_type_from_u8 (frame_type_as_u8 t) = t"
  by (cases t) (auto simp: frame_type_from_u8_def)

lemma frame_type_from_unknown: "frame_type_from_u8 raw = TUnknown v \<Longrightarrow> v = raw \<and> 0x9 < v"
proof -
  assume a: "frame_type_from_u8 raw = TUnknown v"
  then have v: "v = raw" and n: "raw \<notin> {0, 1, 2, 3, 4, 5, 6, 7, 8, 9}"
    by (auto simp: frame_type_from_u8_def split: if_splits)
  have "0x9 < raw"
  proof (rule ccontr)
    assume "\<not> 0x9 < raw"
    then have "unat raw < 10" by (simp add: word_less_nat_alt not_less word_le_nat_alt)
    then have "unat raw \<in> {0, 1, 2, 3, 4, 5, 6, 7, 8, 9}" by auto
    then have "of_nat (unat raw) \<in> (of_nat ` {0, 1, 2, 3, 4, 5, 6, 7, 8, 9} :: u8 set)" by (rule imageI)
    with n show False by simp
  qed
  with v show ?thesis by simp
qed

fun frame_type_name :: "frame_type \<Rightarrow> string" where
  "frame_type_name TData = ''DATA''"
| "frame_type_name THeaders = ''HEADERS''"
| "frame_type_name TPriority = ''PRIORITY''"
| "frame_type_name TRstStream = ''RST_STREAM''"
| "frame_type_name TSettings = ''SETTINGS''"
| "frame_type_name TPushPromise = ''PUSH_PROMISE''"
| "frame_type_name TPing = ''PING''"
| "frame_type_name TGoAway = ''GOAWAY''"
| "frame_type_name TWindowUpdate = ''WINDOW_UPDATE''"
| "frame_type_name TContinuation = ''CONTINUATION''"
| "frame_type_name (TUnknown _) = ''UNKNOWN''"

record frame_header =
  fh_length :: u32
  fh_type :: frame_type
  fh_flags :: u8
  fh_stream :: stream_id

definition fh_end_stream :: "frame_header \<Rightarrow> bool" where
  "fh_end_stream h \<longleftrightarrow> fh_flags h AND FLAG_END_STREAM \<noteq> 0"

definition fh_end_headers :: "frame_header \<Rightarrow> bool" where
  "fh_end_headers h \<longleftrightarrow> fh_flags h AND FLAG_END_HEADERS \<noteq> 0"

definition fh_ack :: "frame_header \<Rightarrow> bool" where
  "fh_ack h \<longleftrightarrow> fh_flags h AND FLAG_ACK \<noteq> 0"

definition fh_padded :: "frame_header \<Rightarrow> bool" where
  "fh_padded h \<longleftrightarrow> fh_flags h AND FLAG_PADDED \<noteq> 0"

definition fh_priority :: "frame_header \<Rightarrow> bool" where
  "fh_priority h \<longleftrightarrow> fh_flags h AND FLAG_PRIORITY \<noteq> 0"

definition frame_header_text :: "frame_header \<Rightarrow> string" where
  "frame_header_text h =
     frame_type_name (fh_type h) @ '' len='' @ dec_text (unat (fh_length h)) @ '' flags=0x'' @
     hex2_text (fh_flags h) @ '' '' @ stream_text (fh_stream h)"

subsection \<open>Payload data\<close>

record priority =
  exclusive :: bool
  dependency :: stream_id
  weight :: u8

definition priority_encode :: "priority \<Rightarrow> bytes \<Rightarrow> bytes" where
  "priority_encode p out =
     (let d = sid_raw (dependency p) OR (if exclusive p then 0x80000000 else 0)
      in (out @ be32 d) @ [weight p])"

datatype setting_id = HeaderTableSize | EnablePush | MaxConcurrentStreams | InitialWindowSize
  | MaxFrameSize | MaxHeaderListSize | UnknownSetting u16

definition setting_id_from_u16 :: "u16 \<Rightarrow> setting_id" where
  "setting_id_from_u16 raw =
     (if raw = 0x1 then HeaderTableSize
      else if raw = 0x2 then EnablePush
      else if raw = 0x3 then MaxConcurrentStreams
      else if raw = 0x4 then InitialWindowSize
      else if raw = 0x5 then MaxFrameSize
      else if raw = 0x6 then MaxHeaderListSize
      else UnknownSetting raw)"

fun setting_id_as_u16 :: "setting_id \<Rightarrow> u16" where
  "setting_id_as_u16 HeaderTableSize = 0x1"
| "setting_id_as_u16 EnablePush = 0x2"
| "setting_id_as_u16 MaxConcurrentStreams = 0x3"
| "setting_id_as_u16 InitialWindowSize = 0x4"
| "setting_id_as_u16 MaxFrameSize = 0x5"
| "setting_id_as_u16 MaxHeaderListSize = 0x6"
| "setting_id_as_u16 (UnknownSetting v) = v"

lemma setting_id_as_from [simp]: "setting_id_as_u16 (setting_id_from_u16 raw) = raw"
  by (simp add: setting_id_from_u16_def)

definition setting_id_ok :: "setting_id \<Rightarrow> bool" where
  "setting_id_ok i \<longleftrightarrow> setting_id_from_u16 (setting_id_as_u16 i) = i"

lemma setting_id_ok_from [simp]: "setting_id_ok (setting_id_from_u16 raw)"
  by (simp add: setting_id_ok_def)

lemma setting_id_ok_known [simp]:
  "setting_id_ok HeaderTableSize" "setting_id_ok EnablePush" "setting_id_ok MaxConcurrentStreams"
  "setting_id_ok InitialWindowSize" "setting_id_ok MaxFrameSize" "setting_id_ok MaxHeaderListSize"
  by (simp_all add: setting_id_ok_def setting_id_from_u16_def)

record setting =
  setting_id :: setting_id
  setting_value :: u32

datatype frame_kind =
    KData bytes
  | KHeaders (kh_end_stream: bool) (kh_end_headers: bool) (kh_priority: "priority option") (kh_fragment: bytes)
  | KPriority priority
  | KRstStream error_code
  | KSettings bool "setting list"
  | KPushPromise bool stream_id bytes
  | KPing bool bytes
  | KGoAway stream_id error_code bytes
  | KWindowUpdate u32
  | KContinuation bool bytes
  | KUnknown u8 bytes

record frame =
  frame_header :: frame_header
  frame_kind :: frame_kind

subsection \<open>Constructors\<close>

text \<open>\<open>u32::try_from(n).unwrap_or(u32::MAX)\<close> and the flag octet of a bool.\<close>

definition try_u32 :: "nat \<Rightarrow> u32" where
  "try_u32 n = (if n < 2 ^ 32 then of_nat n else - 1)"

definition mk_frame :: "u32 \<Rightarrow> frame_type \<Rightarrow> u8 \<Rightarrow> stream_id \<Rightarrow> frame_kind \<Rightarrow> frame" where
  "mk_frame l t fl s k = \<lparr>frame_header = \<lparr>fh_length = l, fh_type = t, fh_flags = fl, fh_stream = s\<rparr>, frame_kind = k\<rparr>"

definition frame_data :: "stream_id \<Rightarrow> bool \<Rightarrow> bytes \<Rightarrow> frame" where
  "frame_data s end_stream body =
     mk_frame (try_u32 (length body)) TData (if end_stream then FLAG_END_STREAM else 0) s (KData body)"

definition frame_headers :: "stream_id \<Rightarrow> bool \<Rightarrow> bool \<Rightarrow> priority option \<Rightarrow> bytes \<Rightarrow> frame" where
  "frame_headers s end_stream end_headers prio fragment =
     (let flags0 = (0 :: u8);
          flags1 = (if end_stream then flags0 OR FLAG_END_STREAM else flags0);
          flags2 = (if end_headers then flags1 OR FLAG_END_HEADERS else flags1);
          flags3 = (if prio \<noteq> None then flags2 OR FLAG_PRIORITY else flags2)
      in mk_frame (try_u32 (length fragment + (if prio \<noteq> None then 5 else 0))) THeaders flags3 s
           (KHeaders end_stream end_headers prio fragment))"

definition frame_priority :: "stream_id \<Rightarrow> priority \<Rightarrow> frame" where
  "frame_priority s p = mk_frame 5 TPriority 0 s (KPriority p)"

definition frame_rst_stream :: "stream_id \<Rightarrow> error_code \<Rightarrow> frame" where
  "frame_rst_stream s code = mk_frame 4 TRstStream 0 s (KRstStream code)"

definition frame_settings :: "setting list \<Rightarrow> frame" where
  "frame_settings ss = mk_frame (try_u32 (length ss * 6)) TSettings 0 CONNECTION (KSettings False ss)"

definition frame_settings_ack :: frame where
  "frame_settings_ack = mk_frame 0 TSettings FLAG_ACK CONNECTION (KSettings True [])"

definition frame_push_promise :: "stream_id \<Rightarrow> stream_id \<Rightarrow> bool \<Rightarrow> bytes \<Rightarrow> frame" where
  "frame_push_promise s promised end_headers fragment =
     mk_frame (try_u32 (4 + length fragment)) TPushPromise (if end_headers then FLAG_END_HEADERS else 0) s
       (KPushPromise end_headers promised fragment)"

definition frame_ping :: "bool \<Rightarrow> bytes \<Rightarrow> frame" where
  "frame_ping ack opaque = mk_frame 8 TPing (if ack then FLAG_ACK else 0) CONNECTION (KPing ack opaque)"

definition frame_goaway :: "stream_id \<Rightarrow> error_code \<Rightarrow> bytes \<Rightarrow> frame" where
  "frame_goaway last_id code debug_data =
     mk_frame (try_u32 (8 + length debug_data)) TGoAway 0 CONNECTION (KGoAway last_id code debug_data)"

definition frame_window_update :: "stream_id \<Rightarrow> u32 \<Rightarrow> frame" where
  "frame_window_update s increment = mk_frame 4 TWindowUpdate 0 s (KWindowUpdate increment)"

definition frame_continuation :: "stream_id \<Rightarrow> bool \<Rightarrow> bytes \<Rightarrow> frame" where
  "frame_continuation s end_headers fragment =
     mk_frame (try_u32 (length fragment)) TContinuation (if end_headers then FLAG_END_HEADERS else 0) s
       (KContinuation end_headers fragment)"

subsection \<open>Serialisation\<close>

definition validate_stream :: "stream_id \<Rightarrow> frame_type \<Rightarrow> frame_error + unit" where
  "validate_stream s t =
     (if is_connection s
      then Inl (frame_error_connection ProtocolError
                  (frame_type_name t @ '' frame requires a non-zero stream''))
      else Inr ())"

definition validate_setting :: "setting_id \<Rightarrow> u32 \<Rightarrow> frame_error + unit" where
  "validate_setting i v =
     (if i = EnablePush \<and> 1 < v
      then Inl (frame_error_connection ProtocolError ''SETTINGS_ENABLE_PUSH must be 0 or 1'')
      else if i = InitialWindowSize \<and> 0x7fffffff < v
      then Inl (frame_error_connection FlowControlError ''SETTINGS_INITIAL_WINDOW_SIZE exceeds 2^31-1'')
      else if i = MaxFrameSize \<and> \<not> (DEFAULT_MAX_FRAME_SIZE \<le> v \<and> v \<le> MAX_MAX_FRAME_SIZE)
      then Inl (frame_error_connection ProtocolError ''SETTINGS_MAX_FRAME_SIZE is outside the legal range'')
      else Inr ())"

fun encode_settings :: "setting list \<Rightarrow> bytes \<Rightarrow> frame_error + bytes" where
  "encode_settings [] payload = Inr payload"
| "encode_settings (s # rest) payload =
     and_then (validate_setting (setting_id s) (setting_value s)) (\<lambda>_.
       encode_settings rest ((payload @ be16 (setting_id_as_u16 (setting_id s))) @ be32 (setting_value s)))"

fun encode_kind :: "stream_id \<Rightarrow> frame_header \<Rightarrow> frame_kind \<Rightarrow>
    frame_error + frame_type \<times> u8 \<times> stream_id \<times> bytes" where
  "encode_kind s h (KData body) =
     and_then (validate_stream s TData) (\<lambda>_.
       Inr (TData, if fh_end_stream h then FLAG_END_STREAM else 0, s, body))"
| "encode_kind s h (KHeaders end_stream end_headers prio fragment) =
     and_then (validate_stream s THeaders) (\<lambda>_.
       (let flags0 = (0 :: u8);
            flags1 = (if end_stream then flags0 OR FLAG_END_STREAM else flags0);
            flags2 = (if end_headers then flags1 OR FLAG_END_HEADERS else flags1)
        in case prio of
             None \<Rightarrow> Inr (THeaders, flags2, s, fragment)
           | Some p \<Rightarrow>
               if dependency p = s
               then Inl (frame_error_stream s ProtocolError ''HEADERS priority depends on its own stream'')
               else Inr (THeaders, flags2 OR FLAG_PRIORITY, s, priority_encode p [] @ fragment)))"
| "encode_kind s h (KPriority p) =
     and_then (validate_stream s TPriority) (\<lambda>_.
       if dependency p = s
       then Inl (frame_error_stream s ProtocolError ''PRIORITY frame depends on itself'')
       else Inr (TPriority, 0, s, priority_encode p []))"
| "encode_kind s h (KRstStream code) =
     and_then (validate_stream s TRstStream) (\<lambda>_.
       Inr (TRstStream, 0, s, be32 (error_code_as_u32 code)))"
| "encode_kind s h (KSettings ack settings) =
     (if \<not> is_connection s
      then Inl (frame_error_connection ProtocolError ''SETTINGS frame on a non-zero stream'')
      else and_then (encode_settings settings []) (\<lambda>payload.
        (let flags = (if ack then FLAG_ACK else 0) in
         if ack \<and> payload \<noteq> []
         then Inl (frame_error_connection FrameSizeError ''SETTINGS ACK with a non-empty payload'')
         else Inr (TSettings, flags, CONNECTION, payload))))"
| "encode_kind s h (KPushPromise end_headers promised fragment) =
     and_then (validate_stream s TPushPromise) (\<lambda>_.
       if is_connection promised
       then Inl (frame_error_connection ProtocolError ''PUSH_PROMISE cannot promise stream 0'')
       else Inr (TPushPromise, if end_headers then FLAG_END_HEADERS else 0, s,
                 be32 (sid_raw promised) @ fragment))"
| "encode_kind s h (KPing ack opaque) =
     (if \<not> is_connection s
      then Inl (frame_error_connection ProtocolError ''PING frame on a non-zero stream'')
      else Inr (TPing, if ack then FLAG_ACK else 0, CONNECTION, opaque))"
| "encode_kind s h (KGoAway last_id code debug_data) =
     (if \<not> is_connection s
      then Inl (frame_error_connection ProtocolError ''GOAWAY frame on a non-zero stream'')
      else Inr (TGoAway, 0, CONNECTION, be32 (sid_raw last_id) @ be32 (error_code_as_u32 code) @ debug_data))"
| "encode_kind s h (KWindowUpdate increment) =
     (if increment = 0 \<or> 0x7fffffff < increment
      then Inl (frame_error_connection ProtocolError ''WINDOW_UPDATE increment must be in 1..=2^31-1'')
      else Inr (TWindowUpdate, 0, s, be32 increment))"
| "encode_kind s h (KContinuation end_headers fragment) =
     and_then (validate_stream s TContinuation) (\<lambda>_.
       Inr (TContinuation, if end_headers then FLAG_END_HEADERS else 0, s, fragment))"
| "encode_kind s h (KUnknown t payload) = Inr (TUnknown t, 0, s, payload)"

definition encode_parts :: "frame \<Rightarrow> frame_error + frame_type \<times> u8 \<times> stream_id \<times> bytes" where
  "encode_parts f = encode_kind (fh_stream (frame_header f)) (frame_header f) (frame_kind f)"

definition frame_encode :: "frame \<Rightarrow> frame_error + bytes" where
  "frame_encode f =
     and_then (encode_parts f) (\<lambda>(t, flags, s, payload).
       if \<not> length payload < 2 ^ 32
       then Inl (frame_error_connection FrameSizeError ''frame payload too large'')
       else (let l = of_nat (length payload) :: u32 in
         if MAX_MAX_FRAME_SIZE < l
         then Inl (frame_error_connection FrameSizeError
                     ''frame payload exceeds the 24-bit length field'')
         else Inr ((((tl (be32 l) @ [frame_type_as_u8 t]) @ [flags]) @ be32 (sid_raw s)) @ payload)))"

definition frame_write_to :: "frame \<Rightarrow> transport \<Rightarrow> (frame_error + unit) \<times> transport" where
  "frame_write_to f t =
     (case frame_encode f of
        Inl e \<Rightarrow> (Inl e, t)
      | Inr bs \<Rightarrow> (case io_write_all bs t of (r, t') \<Rightarrow> (map_err (\<lambda>e. FrameIo (io_error_text e)) r, t')))"

subsection \<open>Parsing\<close>

definition require_length :: "u32 \<Rightarrow> u32 \<Rightarrow> frame_type \<Rightarrow> frame_error + unit" where
  "require_length l expected t =
     (if l = expected then Inr ()
      else Inl (frame_error_connection FrameSizeError
                  (frame_type_name t @ '' frame length '' @ dec_text (unat l) @ '' is not '' @
                   dec_text (unat expected))))"

definition strip_padding :: "u8 \<Rightarrow> bytes \<Rightarrow> frame_error + bytes" where
  "strip_padding flags payload =
     (if flags AND FLAG_PADDED = 0 then Inr payload
      else case payload of
        [] \<Rightarrow> Inl (frame_error_connection ProtocolError ''padded frame has no Pad Length octet'')
      | padding # rest \<Rightarrow>
          (let padding_length = unat padding in
           if length rest < padding_length
           then Inl (frame_error_connection ProtocolError ''padding is longer than the frame payload'')
           else Inr (take (length rest - padding_length) rest)))"

definition decode_priority :: "stream_id \<Rightarrow> bytes \<Rightarrow> frame_error + priority" where
  "decode_priority s bs =
     (let raw = read_u32 (take 4 bs); d = stream_new raw in
      if d = s \<and> \<not> is_connection s
      then Inl (frame_error_stream s ProtocolError ''stream depends on itself'')
      else Inr \<lparr>exclusive = (raw AND 0x80000000 \<noteq> 0), dependency = d, weight = bs ! 4\<rparr>)"

definition parse_priority :: "u8 \<Rightarrow> stream_id \<Rightarrow> bytes \<Rightarrow> frame_error + priority option \<times> bytes" where
  "parse_priority flags s body =
     (if flags AND FLAG_PRIORITY = 0 then Inr (None, body)
      else if length body < 5
      then Inl (frame_error_connection FrameSizeError ''HEADERS priority block is shorter than 5 octets'')
      else and_then (decode_priority s (take 5 body)) (\<lambda>p. Inr (Some p, drop 5 body)))"

text \<open>\<open>chunks_exact(6)\<close> ignores an incomplete last chunk.\<close>

fun decode_settings :: "bytes \<Rightarrow> frame_error + setting list" where
  "decode_settings (a # b # c # d # e # f # rest) =
     (let i = setting_id_from_u16 (from_be16 a b); v = from_be32 c d e f in
      and_then (validate_setting i v) (\<lambda>_.
      and_then (decode_settings rest) (\<lambda>ss.
        Inr (\<lparr>setting_id = i, setting_value = v\<rparr> # ss))))"
| "decode_settings _ = Inr []"

definition decode_frame :: "u32 \<Rightarrow> frame_type \<Rightarrow> u8 \<Rightarrow> stream_id \<Rightarrow> bytes \<Rightarrow> frame_error + frame" where
  "decode_frame l t flags s payload =
     (let done = (\<lambda>k. Inr (mk_frame l t flags s k)) in
      case t of
        TData \<Rightarrow>
          and_then (validate_stream s t) (\<lambda>_.
          and_then (strip_padding flags payload) (\<lambda>body. done (KData body)))
      | THeaders \<Rightarrow>
          and_then (validate_stream s t) (\<lambda>_.
          and_then (strip_padding flags payload) (\<lambda>body.
          and_then (parse_priority flags s body) (\<lambda>(prio, fragment).
            done (KHeaders (flags AND FLAG_END_STREAM \<noteq> 0) (flags AND FLAG_END_HEADERS \<noteq> 0) prio fragment))))
      | TPriority \<Rightarrow>
          and_then (validate_stream s t) (\<lambda>_.
          and_then (require_length l 5 t) (\<lambda>_.
          and_then (decode_priority s payload) (\<lambda>p. done (KPriority p))))
      | TRstStream \<Rightarrow>
          and_then (validate_stream s t) (\<lambda>_.
          and_then (require_length l 4 t) (\<lambda>_.
            done (KRstStream (error_code_from_u32 (read_u32 payload)))))
      | TSettings \<Rightarrow>
          if \<not> is_connection s
          then Inl (frame_error_connection ProtocolError ''SETTINGS frame on a non-zero stream'')
          else if flags AND FLAG_ACK \<noteq> 0 then
            (if l \<noteq> 0
             then Inl (frame_error_connection FrameSizeError ''SETTINGS ACK must have an empty payload'')
             else done (KSettings True []))
          else if l mod 6 \<noteq> 0
          then Inl (frame_error_connection FrameSizeError ''SETTINGS payload length is not a multiple of 6'')
          else and_then (decode_settings payload) (\<lambda>ss. done (KSettings False ss))
      | TPushPromise \<Rightarrow>
          and_then (validate_stream s t) (\<lambda>_.
          and_then (strip_padding flags payload) (\<lambda>body.
            if length body < 4
            then Inl (frame_error_connection FrameSizeError
                        ''PUSH_PROMISE is shorter than its promised stream id'')
            else (let promised = stream_new (read_u32 (take 4 body)) in
              if is_connection promised
              then Inl (frame_error_connection ProtocolError ''PUSH_PROMISE promises stream 0'')
              else done (KPushPromise (flags AND FLAG_END_HEADERS \<noteq> 0) promised (drop 4 body)))))
      | TPing \<Rightarrow>
          if \<not> is_connection s
          then Inl (frame_error_connection ProtocolError ''PING frame on a non-zero stream'')
          else and_then (require_length l 8 t) (\<lambda>_. done (KPing (flags AND FLAG_ACK \<noteq> 0) payload))
      | TGoAway \<Rightarrow>
          if \<not> is_connection s
          then Inl (frame_error_connection ProtocolError ''GOAWAY frame on a non-zero stream'')
          else if l < 8
          then Inl (frame_error_connection FrameSizeError ''GOAWAY payload is shorter than 8 octets'')
          else done (KGoAway (stream_new (read_u32 (take 4 payload)))
                  (error_code_from_u32 (read_u32 (take 4 (drop 4 payload)))) (drop 8 payload))
      | TWindowUpdate \<Rightarrow>
          and_then (require_length l 4 t) (\<lambda>_.
            (let increment = read_u32 payload AND 0x7fffffff in
             if increment = 0 then
               (if is_connection s
                then Inl (frame_error_connection ProtocolError ''WINDOW_UPDATE increment is zero'')
                else Inl (frame_error_stream s ProtocolError ''WINDOW_UPDATE increment is zero''))
             else done (KWindowUpdate increment)))
      | TContinuation \<Rightarrow>
          and_then (validate_stream s t) (\<lambda>_.
            done (KContinuation (flags AND FLAG_END_HEADERS \<noteq> 0) payload))
      | TUnknown v \<Rightarrow> done (KUnknown v payload))"

text \<open>The fields of the fixed header, common to \<open>read_from\<close> and \<open>decode\<close>.\<close>

definition header_length :: "bytes \<Rightarrow> u32" where
  "header_length raw = be24_length (raw ! 0) (raw ! 1) (raw ! 2)"

definition header_stream :: "bytes \<Rightarrow> stream_id" where
  "header_stream raw = stream_new (from_be32 (raw ! 5) (raw ! 6) (raw ! 7) (raw ! 8))"

definition frame_too_long :: "u32 \<Rightarrow> u32 \<Rightarrow> frame_error" where
  "frame_too_long l max_frame_size =
     frame_error_connection FrameSizeError
       (''frame length '' @ dec_text (unat l) @ '' exceeds configured maximum '' @
        dec_text (unat max_frame_size))"

definition frame_decode :: "bytes \<Rightarrow> u32 \<Rightarrow> frame_error + frame" where
  "frame_decode bs max_frame_size =
     (if length bs < 9
      then Inl (frame_error_connection FrameSizeError ''truncated frame header'')
      else (let l = header_length bs; expected = 9 + unat l in
        if length bs \<noteq> expected
        then Inl (frame_error_connection FrameSizeError
                    (''frame declares '' @ dec_text (unat l) @ '' payload bytes, buffer holds '' @
                     dec_text (length bs - 9)))
        else if max_frame_size < l then Inl (frame_too_long l max_frame_size)
        else decode_frame l (frame_type_from_u8 (bs ! 3)) (bs ! 4) (header_stream bs) (drop 9 bs)))"

subsection \<open>Encoded octets\<close>

definition wire :: "u8 \<Rightarrow> u8 \<Rightarrow> stream_id \<Rightarrow> bytes \<Rightarrow> bytes" where
  "wire ty flags s payload =
     tl (be32 (of_nat (length payload))) @ [ty, flags] @ be32 (sid_raw s) @ payload"

lemma length_wire [simp]: "length (wire ty flags s payload) = 9 + length payload"
  by (simp add: wire_def)

lemma frame_encode_Inr:
  "frame_encode f = Inr bs \<longleftrightarrow>
     (\<exists>t flags s p. encode_parts f = Inr (t, flags, s, p) \<and> length p \<le> 16777215 \<and>
        bs = wire (frame_type_as_u8 t) flags s p)"
proof -
  have "(length p < 2 ^ 32 \<and> \<not> MAX_MAX_FRAME_SIZE < (of_nat (length p) :: u32)) \<longleftrightarrow> length p \<le> 16777215"
    for p :: bytes
  proof (cases "length p < 2 ^ 32")
    case True
    then have "unat (of_nat (length p) :: u32) = length p" by (simp add: unat_of_nat32)
    then show ?thesis using True
      by (simp add: MAX_MAX_FRAME_SIZE_def word_less_nat_alt not_less)
  qed simp
  then show ?thesis
    by (fastforce simp: frame_encode_def wire_def Let_def result_simps split: if_splits)
qed

lemma wire_header:
  assumes "length p \<le> 16777215"
  shows "header_length (wire ty flags s p @ rest) = of_nat (length p)"
    "wire ty flags s p ! 3 = ty" "wire ty flags s p ! 4 = flags"
    "header_stream (wire ty flags s p) = stream_new (sid_raw s)" "drop 9 (wire ty flags s p) = p"
proof -
  have "unat (of_nat (length p) :: u32) = length p" using assms by (simp add: unat_of_nat32)
  then have "unat (of_nat (length p) :: u32) < 2 ^ 24" using assms by simp
  from be24_be32 [OF this] show "header_length (wire ty flags s p @ rest) = of_nat (length p)"
    by (simp add: header_length_def wire_def be32_def)
qed (simp_all add: wire_def be32_def header_stream_def from_be32_be32)

lemma frame_decode_wire:
  assumes "length p \<le> 16777215" "length p \<le> unat limit"
  shows "frame_decode (wire ty flags s p) limit =
    decode_frame (of_nat (length p)) (frame_type_from_u8 ty) flags (stream_new (sid_raw s)) p"
proof -
  have "unat (of_nat (length p) :: u32) = length p" using assms(1) by (simp add: unat_of_nat32)
  with assms wire_header(1) [OF assms(1), of ty flags s "[]"] wire_header(2-) [OF assms(1)] show ?thesis
    by (simp add: frame_decode_def Let_def word_less_nat_alt not_less)
qed

subsection \<open>Payloads are read back\<close>

lemma flags_clear [simp]:
  "FLAG_END_HEADERS \<noteq> 0" "FLAG_END_STREAM \<noteq> 0" "FLAG_ACK \<noteq> 0"
  "(0 :: u8) AND FLAG_PADDED = 0" "FLAG_END_STREAM AND FLAG_PADDED = 0" "FLAG_END_HEADERS AND FLAG_PADDED = 0"
  "FLAG_END_HEADERS AND FLAG_END_HEADERS \<noteq> 0" "FLAG_END_STREAM AND FLAG_END_STREAM \<noteq> 0"
  "FLAG_ACK AND FLAG_ACK \<noteq> 0" "(0 :: u8) AND x = 0"
  by (simp_all add: flag_defs)

lemma bit_high: "bit (0x80000000 :: u32) n \<longleftrightarrow> n = 31"
proof -
  have "(0x80000000 :: u32) = 2 ^ 31" by simp
  then show ?thesis by (simp only: bit_exp_iff) (auto simp: possible_bit_def)
qed

lemma and_high: "(x :: u32) AND 0x80000000 \<noteq> 0 \<longleftrightarrow> bit x 31"
proof -
  have "x AND 0x80000000 = 0 \<longleftrightarrow> (\<forall>n. \<not> bit (x AND 0x80000000) n)"
    by (metis bit_0_eq bit_eqI bot_apply bot_bool_def)
  then show ?thesis by (auto simp: bit_and_iff bit_high simp del: bit_numeral_word_iff)
qed

lemma decode_priority_encode:
  assumes "stream_ok (dependency p)" "dependency p \<noteq> s"
  shows "decode_priority s (priority_encode p [] @ rest) = Inr p"
proof -
  let ?d = "sid_raw (dependency p)" and ?w = "sid_raw (dependency p) OR (if exclusive p then 0x80000000 else 0)"
  have b: "take_bit 31 ?d = ?d"
    using assms(1) by (simp add: stream_ok_def word_unat_eq_iff unsigned_take_bit_eq take_bit_nat_eq_self_iff)
  then have d: "bit ?d n \<Longrightarrow> n < 31" for n by (metis bit_take_bit_iff)
  have "take_bit 31 ?w = ?d"
    by (rule bit_word_eqI) (auto simp: bit_take_bit_iff bit_or_iff bit_high simp del: bit_numeral_word_iff dest: d)
  moreover have "?w AND 0x80000000 \<noteq> 0 \<longleftrightarrow> exclusive p"
    by (auto simp: and_high bit_or_iff bit_high simp del: bit_numeral_word_iff dest: d)
  moreover have "stream_new ?w = StreamId (take_bit 31 ?w)" by (simp add: stream_new_def and_31)
  ultimately show ?thesis using assms(2)
    by (cases p) (auto simp: decode_priority_def priority_encode_def Let_def nth_append)
qed

definition setting_bytes :: "setting \<Rightarrow> bytes" where
  "setting_bytes s = be16 (setting_id_as_u16 (setting_id s)) @ be32 (setting_value s)"

definition setting_valid :: "setting \<Rightarrow> bool" where
  "setting_valid s \<longleftrightarrow> validate_setting (setting_id s) (setting_value s) = Inr ()"

lemma length_setting_bytes [simp]: "length (setting_bytes s) = 6"
  by (simp add: setting_bytes_def)

lemma length_settings_bytes [simp]: "length (concat (map setting_bytes ss)) = 6 * length ss"
  by (induction ss) simp_all

lemma encode_settings_Inr:
  "encode_settings ss payload = Inr out \<longleftrightarrow>
     (\<forall>s \<in> set ss. setting_valid s) \<and> out = payload @ concat (map setting_bytes ss)"
  by (induction ss arbitrary: payload)
     (auto simp: result_simps setting_valid_def setting_bytes_def)

lemma encode_settings_valid:
  "(\<And>s. s \<in> set ss \<Longrightarrow> setting_valid s) \<Longrightarrow>
   encode_settings ss payload = Inr (payload @ concat (map setting_bytes ss))"
  by (simp add: encode_settings_Inr)

lemma decode_settings_bytes:
  assumes "\<And>s. s \<in> set ss \<Longrightarrow> setting_valid s \<and> setting_id_ok (setting_id s)"
  shows "decode_settings (concat (map setting_bytes ss)) = Inr ss"
  using assms
proof (induction ss)
  case (Cons s ss)
  have "setting_bytes s @ rest =
      ucast (drop_bit 8 (setting_id_as_u16 (setting_id s))) # ucast (setting_id_as_u16 (setting_id s)) #
      ucast (drop_bit 24 (setting_value s)) # ucast (drop_bit 16 (setting_value s)) #
      ucast (drop_bit 8 (setting_value s)) # ucast (setting_value s) # rest" for rest
    by (simp add: setting_bytes_def be16_def be32_def)
  with Cons show ?case
    by (simp add: from_be16_be16 from_be32_be32 setting_id_ok_def setting_valid_def)
qed simp

lemma decode_settings_valid:
  "decode_settings bs = Inr ss \<Longrightarrow> s \<in> set ss \<Longrightarrow> setting_valid s \<and> setting_id_ok (setting_id s)"
  by (induction bs arbitrary: ss rule: decode_settings.induct)
     (auto simp: Let_def result_simps setting_valid_def)

lemma decode_settings_length:
  "decode_settings bs = Inr ss \<Longrightarrow> length ss = length bs div 6"
  by (induction bs arbitrary: ss rule: decode_settings.induct) (auto simp: Let_def result_simps)

subsection \<open>Frames built by the constructors\<close>

inductive built :: "frame \<Rightarrow> bool" where
  "stream_ok s \<Longrightarrow> built (frame_data s end_stream body)"
| "stream_ok s \<Longrightarrow> (\<And>p. prio = Some p \<Longrightarrow> stream_ok (dependency p)) \<Longrightarrow>
     built (frame_headers s end_stream end_headers prio fragment)"
| "stream_ok s \<Longrightarrow> stream_ok (dependency p) \<Longrightarrow> built (frame_priority s p)"
| "stream_ok s \<Longrightarrow> error_code_ok code \<Longrightarrow> built (frame_rst_stream s code)"
| "(\<And>x. x \<in> set ss \<Longrightarrow> setting_id_ok (setting_id x)) \<Longrightarrow> built (frame_settings ss)"
| "built frame_settings_ack"
| "stream_ok s \<Longrightarrow> stream_ok promised \<Longrightarrow> built (frame_push_promise s promised end_headers fragment)"
| "length opaque = 8 \<Longrightarrow> built (frame_ping ack opaque)"
| "stream_ok last_id \<Longrightarrow> error_code_ok code \<Longrightarrow> built (frame_goaway last_id code debug_data)"
| "stream_ok s \<Longrightarrow> built (frame_window_update s increment)"
| "stream_ok s \<Longrightarrow> built (frame_continuation s end_headers fragment)"

inductive_cases built_elim: "built f"

lemmas constructor_defs = frame_data_def frame_headers_def frame_priority_def frame_rst_stream_def
  frame_settings_def frame_settings_ack_def frame_push_promise_def frame_ping_def frame_goaway_def
  frame_window_update_def frame_continuation_def

lemma length_priority_encode [simp]: "length (priority_encode p out) = length out + 5"
  by (simp add: priority_encode_def Let_def)

lemma try_u32_small: "n \<le> 16777215 \<Longrightarrow> try_u32 n = of_nat n"
  by (simp add: try_u32_def)

lemma mk_frame_sel [simp]:
  "frame_header (mk_frame l t fl s k) = \<lparr>fh_length = l, fh_type = t, fh_flags = fl, fh_stream = s\<rparr>"
  "frame_kind (mk_frame l t fl s k) = k"
  by (simp_all add: mk_frame_def)

text \<open>What one constructed frame becomes on the wire, and that parsing restores it.\<close>

lemma is_connection_CONNECTION [simp]: "is_connection CONNECTION"
  by (simp add: is_connection_def CONNECTION_def)

lemma sid_CONNECTION [simp]: "stream_new 0 = CONNECTION" "sid_raw CONNECTION = 0"
  by (simp_all add: stream_new_def CONNECTION_def)

lemma validate_stream_Inr [result_simps]: "validate_stream s t = Inr u \<longleftrightarrow> \<not> is_connection s"
  by (simp add: validate_stream_def)

lemma frame_type_known [simp]:
  "frame_type_from_u8 0 = TData" "frame_type_from_u8 1 = THeaders" "frame_type_from_u8 2 = TPriority"
  "frame_type_from_u8 3 = TRstStream" "frame_type_from_u8 4 = TSettings"
  "frame_type_from_u8 5 = TPushPromise" "frame_type_from_u8 6 = TPing" "frame_type_from_u8 7 = TGoAway"
  "frame_type_from_u8 8 = TWindowUpdate" "frame_type_from_u8 9 = TContinuation"
  by (simp_all add: frame_type_from_u8_def)

definition header_flags :: "bool \<Rightarrow> bool \<Rightarrow> u8" where
  "header_flags end_stream end_headers =
     (if end_stream then FLAG_END_STREAM else 0) OR (if end_headers then FLAG_END_HEADERS else 0)"

lemma header_flags_simps [simp]:
  "FLAG_PRIORITY \<noteq> 0"
  "header_flags a b AND FLAG_PADDED = 0" "(header_flags a b OR FLAG_PRIORITY) AND FLAG_PADDED = 0"
  "header_flags a b AND FLAG_PRIORITY = 0" "(header_flags a b OR FLAG_PRIORITY) AND FLAG_PRIORITY \<noteq> 0"
  "(header_flags a b AND FLAG_END_STREAM = 0) = (\<not> a)"
  "((header_flags a b OR FLAG_PRIORITY) AND FLAG_END_STREAM = 0) = (\<not> a)"
  "(header_flags a b AND FLAG_END_HEADERS = 0) = (\<not> b)"
  "((header_flags a b OR FLAG_PRIORITY) AND FLAG_END_HEADERS = 0) = (\<not> b)"
  by (simp add: flag_defs) (cases a; cases b; simp add: header_flags_def flag_defs)+

lemma frame_headers_flags:
  "frame_headers s a b prio fragment =
     mk_frame (try_u32 (length fragment + (if prio \<noteq> None then 5 else 0))) THeaders
       (if prio \<noteq> None then header_flags a b OR FLAG_PRIORITY else header_flags a b) s
       (KHeaders a b prio fragment)"
  by (cases a; cases b) (simp_all add: frame_headers_def header_flags_def Let_def)

lemma frame_headers_sel [simp]:
  "fh_stream (frame_header (frame_headers s a b prio fragment)) = s"
  "frame_kind (frame_headers s a b prio fragment) = KHeaders a b prio fragment"
  by (simp_all add: frame_headers_flags)

lemma encode_headers_Inr:
  "encode_kind s h (KHeaders a b prio fragment) = Inr (t, flags, s', p) \<longleftrightarrow>
     \<not> is_connection s \<and> t = THeaders \<and> s' = s \<and>
     (case prio of None \<Rightarrow> flags = header_flags a b \<and> p = fragment
      | Some pr \<Rightarrow> dependency pr \<noteq> s \<and> flags = header_flags a b OR FLAG_PRIORITY \<and>
          p = priority_encode pr [] @ fragment)"
  by (cases a; cases b) (auto simp: header_flags_def Let_def result_simps split: option.splits if_splits)

declare encode_kind.simps(2) [simp del]

lemma unpadded [simp]: "flags AND FLAG_PADDED = 0 \<Longrightarrow> strip_padding flags payload = Inr payload"
  by (simp add: strip_padding_def)

lemma validate_ok [simp]: "\<not> is_connection s \<Longrightarrow> validate_stream s t = Inr ()"
  by (simp add: validate_stream_def)

lemma require_ok [simp]: "require_length l l t = Inr ()"
  by (simp add: require_length_def)

lemma decode_headers_encoded:
  assumes "\<not> is_connection s" "\<And>pr. prio = Some pr \<Longrightarrow> stream_ok (dependency pr) \<and> dependency pr \<noteq> s"
  shows "decode_frame l THeaders (if prio \<noteq> None then header_flags a b OR FLAG_PRIORITY else header_flags a b) s
      ((case prio of None \<Rightarrow> [] | Some pr \<Rightarrow> priority_encode pr []) @ fragment) =
    Inr (mk_frame l THeaders (if prio \<noteq> None then header_flags a b OR FLAG_PRIORITY else header_flags a b) s
      (KHeaders a b prio fragment))"
proof (cases prio)
  case None
  then show ?thesis using assms(1) by (simp add: decode_frame_def parse_priority_def)
next
  case (Some pr)
  with assms have ok: "stream_ok (dependency pr)" "dependency pr \<noteq> s" by auto
  have "take 5 (priority_encode pr [] @ fragment) = priority_encode pr [] @ []" by simp
  with decode_priority_encode [OF ok, of "[]"] have
    "decode_priority s (take 5 (priority_encode pr [] @ fragment)) = Inr pr" by (simp only:)
  then show ?thesis using assms(1) Some by (simp add: decode_frame_def parse_priority_def)
qed

lemma built_headers:
  assumes f: "f = frame_headers s end_stream end_headers prio fragment"
    and ok: "\<And>pr. prio = Some pr \<Longrightarrow> stream_ok (dependency pr)"
    and enc: "encode_parts f = Inr (t, flags, s', p)" "length p \<le> 16777215"
  shows "decode_frame (of_nat (length p)) t flags s' p = Inr f \<and> s' = s \<and> t = THeaders"
proof -
  have "\<not> is_connection s" "s' = s" "t = THeaders"
    "p = (case prio of None \<Rightarrow> [] | Some pr \<Rightarrow> priority_encode pr []) @ fragment"
    "flags = (if prio \<noteq> None then header_flags end_stream end_headers OR FLAG_PRIORITY
       else header_flags end_stream end_headers)"
    "\<And>pr. prio = Some pr \<Longrightarrow> dependency pr \<noteq> s"
    using enc(1) by (auto simp: f frame_headers_flags encode_parts_def encode_headers_Inr split: option.splits)
  moreover from this enc(2) have "try_u32 (length fragment + (if prio \<noteq> None then 5 else 0)) = of_nat (length p)"
    using try_u32_small [of "length fragment + 5"] try_u32_small [of "length fragment"]
    by (auto simp: add.commute split: option.splits)
  ultimately show ?thesis
    using decode_headers_encoded [of s prio "of_nat (length p)" end_stream end_headers fragment] ok
    by (simp add: f frame_headers_flags)
qed

lemma built_settings:
  assumes f: "f = frame_settings ss" and ok: "\<And>x. x \<in> set ss \<Longrightarrow> setting_id_ok (setting_id x)"
    and enc: "encode_parts f = Inr (t, flags, s, p)" "length p \<le> 16777215"
  shows "decode_frame (of_nat (length p)) t flags s p = Inr f \<and> s = CONNECTION \<and> t = TSettings"
proof -
  have p: "\<forall>x \<in> set ss. setting_valid x" "p = concat (map setting_bytes ss)"
    "t = TSettings" "flags = 0" "s = CONNECTION"
    using enc(1) by (auto simp: f frame_settings_def encode_parts_def result_simps encode_settings_Inr)
  have len: "unat (of_nat (length p) :: u32) = length p" using enc(2) by (intro unat_of_nat32) simp
  have "unat (of_nat (length p) mod (6 :: u32)) = 0" by (simp only: unat_mod len) (simp add: p(2))
  then have "of_nat (length p) mod (6 :: u32) = 0" by (simp add: unat_eq_0)
  moreover have "decode_settings p = Inr ss" unfolding p(2) using p(1) ok by (intro decode_settings_bytes) auto
  ultimately show ?thesis
    using p(3-) enc(2) by (simp add: decode_frame_def f frame_settings_def p(2) try_u32_small mult.commute)
qed

lemma built_goaway:
  assumes f: "f = frame_goaway last_id code debug_data" and ok: "stream_ok last_id" "error_code_ok code"
    and enc: "encode_parts f = Inr (t, flags, s, p)" "length p \<le> 16777215"
  shows "decode_frame (of_nat (length p)) t flags s p = Inr f \<and> s = CONNECTION \<and> t = TGoAway"
proof -
  have p: "p = be32 (sid_raw last_id) @ be32 (error_code_as_u32 code) @ debug_data" "t = TGoAway"
    "flags = 0" "s = CONNECTION"
    using enc(1) by (auto simp: f frame_goaway_def encode_parts_def)
  have "unat (of_nat (length p) :: u32) = length p" using enc(2) by (intro unat_of_nat32) simp
  then have "\<not> of_nat (length p) < (8 :: u32)" by (simp add: word_less_nat_alt p(1))
  moreover have "drop 8 p = debug_data" by (simp add: p(1))
  ultimately show ?thesis
    using p enc(2) ok by (simp add: decode_frame_def f frame_goaway_def error_code_from_as try_u32_small)
qed

lemma take_bit_31_small: "\<not> 0x7fffffff < (x :: u32) \<Longrightarrow> take_bit 31 x = x"
  by (simp add: word_unat_eq_iff unsigned_take_bit_eq take_bit_nat_eq_self_iff word_less_nat_alt)

text \<open>The remaining kinds carry at most one fixed-size field.\<close>

lemma built_plain:
  assumes enc: "encode_parts f = Inr (t, flags, s', p)" "length p \<le> 16777215"
  shows
    "f = frame_data s end_stream body \<Longrightarrow>
       decode_frame (of_nat (length p)) t flags s' p = Inr f \<and> s' = s \<and> t = TData"
    "f = frame_continuation s end_headers body \<Longrightarrow>
       decode_frame (of_nat (length p)) t flags s' p = Inr f \<and> s' = s \<and> t = TContinuation"
    "f = frame_settings_ack \<Longrightarrow>
       decode_frame (of_nat (length p)) t flags s' p = Inr f \<and> s' = CONNECTION \<and> t = TSettings"
    "f = frame_ping ack opaque \<Longrightarrow> length opaque = 8 \<Longrightarrow>
       decode_frame (of_nat (length p)) t flags s' p = Inr f \<and> s' = CONNECTION \<and> t = TPing"
    "f = frame_rst_stream s code \<Longrightarrow> error_code_ok code \<Longrightarrow>
       decode_frame (of_nat (length p)) t flags s' p = Inr f \<and> s' = s \<and> t = TRstStream"
    "f = frame_priority s pr \<Longrightarrow> stream_ok (dependency pr) \<Longrightarrow>
       decode_frame (of_nat (length p)) t flags s' p = Inr f \<and> s' = s \<and> t = TPriority"
    "f = frame_push_promise s promised end_headers body \<Longrightarrow> stream_ok promised \<Longrightarrow>
       decode_frame (of_nat (length p)) t flags s' p = Inr f \<and> s' = s \<and> t = TPushPromise"
    "f = frame_window_update s increment \<Longrightarrow>
       decode_frame (of_nat (length p)) t flags s' p = Inr f \<and> s' = s \<and> t = TWindowUpdate"
  subgoal using enc
    by (auto simp: encode_parts_def frame_data_def result_simps decode_frame_def fh_end_stream_def try_u32_small)
  subgoal using enc
    by (auto simp: encode_parts_def frame_continuation_def result_simps decode_frame_def try_u32_small)
  subgoal using enc
    by (auto simp: encode_parts_def frame_settings_ack_def result_simps decode_frame_def)
  subgoal using enc
    by (auto simp: encode_parts_def frame_ping_def decode_frame_def)
  subgoal using enc
    by (auto simp: encode_parts_def frame_rst_stream_def result_simps decode_frame_def error_code_from_as)
  subgoal using enc decode_priority_encode [of pr s "[]"]
    by (auto simp: encode_parts_def frame_priority_def result_simps decode_frame_def split: if_splits)
  subgoal using enc try_u32_small [of "4 + length body"]
    by (auto simp: encode_parts_def frame_push_promise_def result_simps decode_frame_def split: if_splits)
  subgoal using enc
    by (auto simp: encode_parts_def frame_window_update_def decode_frame_def and_31 take_bit_31_small Let_def split: if_splits)
  done

lemma built_parts:
  assumes "built f" "encode_parts f = Inr (t, flags, s, p)" "length p \<le> 16777215"
  shows "decode_frame (of_nat (length p)) t flags s p = Inr f \<and> stream_ok s \<and>
    frame_type_from_u8 (frame_type_as_u8 t) = t"
  using assms(1)
proof cases
  case (2 s' prio es eh fr)
  from built_headers [OF 2(1) 2(3) assms(2,3)] 2(2) show ?thesis by auto
next
  case (5 ss)
  from built_settings [OF 5(1) 5(2) assms(2,3)] show ?thesis by auto
next
  case (9 l c dd)
  from built_goaway [OF 9(1,2,3) assms(2,3)] show ?thesis by auto
next
  case 6
  from built_plain(3) [OF assms(2,3) 6] show ?thesis by auto
next
  case (8 opaque ack)
  from built_plain(4) [OF assms(2,3) 8(1,2)] show ?thesis by auto
next
  case (1 s' es body)
  from built_plain(1) [OF assms(2,3) 1(1)] 1(2) show ?thesis by auto
next
  case (3 s' pr)
  from built_plain(6) [OF assms(2,3) 3(1,3)] 3(2) show ?thesis by auto
next
  case (4 s' code)
  from built_plain(5) [OF assms(2,3) 4(1,3)] 4(2) show ?thesis by auto
next
  case (7 s' promised eh body)
  from built_plain(7) [OF assms(2,3) 7(1,3)] 7(2) show ?thesis by auto
next
  case (10 s' increment)
  from built_plain(8) [OF assms(2,3) 10(1)] 10(2) show ?thesis by auto
next
  case (11 s' eh body)
  from built_plain(2) [OF assms(2,3) 11(1)] 11(2) show ?thesis by auto
qed



subsection \<open>Decoded frames can be encoded again\<close>

fun normal_kind :: "stream_id \<Rightarrow> bool \<Rightarrow> frame_kind \<Rightarrow> frame" where
  "normal_kind s es (KData body) = frame_data s es body"
| "normal_kind s es (KHeaders a b prio fragment) = frame_headers s a b prio fragment"
| "normal_kind s es (KPriority p) = frame_priority s p"
| "normal_kind s es (KRstStream code) = frame_rst_stream s code"
| "normal_kind s es (KSettings ack ss) = (if ack then frame_settings_ack else frame_settings ss)"
| "normal_kind s es (KPushPromise b promised fragment) = frame_push_promise s promised b fragment"
| "normal_kind s es (KPing ack opaque) = frame_ping ack opaque"
| "normal_kind s es (KGoAway l code debug) = frame_goaway l code debug"
| "normal_kind s es (KWindowUpdate increment) = frame_window_update s increment"
| "normal_kind s es (KContinuation b fragment) = frame_continuation s b fragment"
| "normal_kind s es (KUnknown v payload) = mk_frame (of_nat (length payload)) (TUnknown v) 0 s (KUnknown v payload)"

definition normalise :: "frame \<Rightarrow> frame" where
  "normalise f = normal_kind (fh_stream (frame_header f)) (fh_end_stream (frame_header f)) (frame_kind f)"

definition reencodes :: "frame \<Rightarrow> nat \<Rightarrow> bool" where
  "reencodes f n \<longleftrightarrow> built (normalise f) \<and>
     (\<exists>t flags s p. encode_parts f = Inr (t, flags, s, p) \<and> encode_parts (normalise f) = encode_parts f \<and>
        length p \<le> n)"

lemma strip_padding_length: "strip_padding flags payload = Inr body \<Longrightarrow> length body \<le> length payload"
  by (auto simp: strip_padding_def Let_def split: if_splits list.splits)

lemma decode_priority_Inr:
  "decode_priority s bs = Inr p \<Longrightarrow> stream_ok (dependency p) \<and> (is_connection s \<or> dependency p \<noteq> s)"
  by (auto simp: decode_priority_def Let_def split: if_splits)

lemma error_code_ok_from [simp]: "error_code_ok (error_code_from_u32 raw)"
proof -
  show ?thesis
  proof (cases "13 < unat raw")
    case False
    then have "unat raw < 14" by simp
    then have "unat raw \<in> {0, 1, 2, 3, 4, 5, 6, 7, 8, 9, 10, 11, 12, 13}"
      by (auto simp: eval_nat_numeral less_Suc_eq)
    then have "of_nat (unat raw) \<in> (of_nat ` {0, 1, 2, 3, 4, 5, 6, 7, 8, 9, 10, 11, 12, 13} :: u32 set)"
      by (rule imageI)
    then show ?thesis by (auto simp: error_code_from_u32_def error_code_ok_def)
  next
    case True
    then have "13 < raw" by (simp add: word_less_nat_alt)
    then show ?thesis by (auto simp: error_code_from_u32_def error_code_ok_def)
  qed
qed

lemma reencode_headers:
  assumes "\<not> is_connection s" "stream_ok s" "parse_priority flags s body = Inr (prio, fragment)"
    and "length body \<le> n"
  shows "reencodes (mk_frame l THeaders flags s (KHeaders a b prio fragment)) n"
proof -
  have "prio = None \<and> fragment = body \<or>
      (\<exists>p. prio = Some p \<and> stream_ok (dependency p) \<and> dependency p \<noteq> s \<and> fragment = drop 5 body \<and> 5 \<le> length body)"
    using assms(1,3) by (auto simp: parse_priority_def result_simps dest!: decode_priority_Inr split: if_splits)
  with assms show ?thesis
    by (auto simp: reencodes_def normalise_def encode_parts_def encode_headers_Inr
      encode_kind.simps(2) Let_def header_flags_def intro!: built.intros)
qed

lemma constructor_sel [simp]:
  "fh_stream (frame_header (frame_data s es body)) = s" "frame_kind (frame_data s es body) = KData body"
  "fh_end_stream (frame_header (frame_data s es body)) = es"
  "fh_length (frame_header (frame_data s es body)) = try_u32 (length body)"
  "fh_stream (frame_header (frame_priority s p)) = s" "frame_kind (frame_priority s p) = KPriority p"
  "fh_stream (frame_header (frame_rst_stream s c)) = s" "frame_kind (frame_rst_stream s c) = KRstStream c"
  "fh_stream (frame_header (frame_settings ss)) = CONNECTION"
  "frame_kind (frame_settings ss) = KSettings False ss"
  "fh_stream (frame_header frame_settings_ack) = CONNECTION"
  "frame_kind frame_settings_ack = KSettings True []"
  "fh_stream (frame_header (frame_push_promise s pr eh body)) = s"
  "frame_kind (frame_push_promise s pr eh body) = KPushPromise eh pr body"
  "fh_stream (frame_header (frame_ping ack opaque)) = CONNECTION"
  "frame_kind (frame_ping ack opaque) = KPing ack opaque"
  "fh_stream (frame_header (frame_goaway l c debug)) = CONNECTION"
  "frame_kind (frame_goaway l c debug) = KGoAway l c debug"
  "fh_stream (frame_header (frame_window_update s i)) = s"
  "frame_kind (frame_window_update s i) = KWindowUpdate i"
  "fh_stream (frame_header (frame_continuation s eh body)) = s"
  "frame_kind (frame_continuation s eh body) = KContinuation eh body"
  by (simp_all add: constructor_defs fh_end_stream_def)

lemma fh_end_stream_mk [simp]:
  "fh_end_stream \<lparr>fh_length = l, fh_type = t, fh_flags = fl, fh_stream = s\<rparr> \<longleftrightarrow> fl AND FLAG_END_STREAM \<noteq> 0"
  by (simp add: fh_end_stream_def)

lemma normalise_mk [simp]:
  "normalise (mk_frame l t flags s k) = normal_kind s (flags AND FLAG_END_STREAM \<noteq> 0) k"
  by (simp add: normalise_def fh_end_stream_def)

lemma reencode_settings:
  assumes "decode_settings payload = Inr ss"
  shows "reencodes (mk_frame l TSettings flags CONNECTION (KSettings False ss)) (length payload)"
proof -
  have "6 * length ss \<le> length payload" using decode_settings_length [OF assms] by simp
  moreover have "encode_settings ss [] = Inr (concat (map setting_bytes ss))"
    using decode_settings_valid [OF assms] by (simp add: encode_settings_Inr)
  ultimately show ?thesis using decode_settings_valid [OF assms]
    by (auto simp: reencodes_def encode_parts_def
      intro!: built.intros)
qed

lemma reencode_frame:
  assumes dec: "decode_frame (of_nat (length payload)) t flags s payload = Inr f"
    and s: "stream_ok s" and t: "\<forall>v. t \<noteq> TUnknown v" and len: "length payload < 2 ^ 24"
  shows "reencodes f (length payload)"
proof -
  have l: "unat (of_nat (length payload) :: u32) = length payload" using len by (intro unat_of_nat32) simp
  have conn: "is_connection s \<Longrightarrow> s = CONNECTION" by (cases s) (simp add: is_connection_def CONNECTION_def)
  show ?thesis
  proof (cases t)
    case TData
    with dec s show ?thesis
      by (auto simp: decode_frame_def result_simps reencodes_def encode_parts_def
          dest!: strip_padding_length intro!: built.intros)
  next
    case THeaders
    with dec s show ?thesis
      by (auto simp: decode_frame_def result_simps dest!: strip_padding_length intro!: reencode_headers)
  next
    case TSettings
    with dec conn show ?thesis
      by (auto simp: decode_frame_def result_simps Let_def intro!: reencode_settings split: if_splits)
        (auto simp: reencodes_def encode_parts_def
          intro!: built.intros)
  next
    case TPriority
    with dec s l show ?thesis
      by (auto simp: decode_frame_def result_simps require_length_def reencodes_def encode_parts_def word_unat_eq_iff [of _ 5] split: if_splits
          dest!: decode_priority_Inr intro!: built.intros)
  next
    case TRstStream
    with dec s l show ?thesis
      by (auto simp: decode_frame_def result_simps require_length_def reencodes_def encode_parts_def word_unat_eq_iff [of _ 4] split: if_splits
          intro!: built.intros)
  next
    case TPushPromise
    with dec s show ?thesis
      by (auto simp: decode_frame_def result_simps reencodes_def encode_parts_def Let_def split: if_splits
          dest!: strip_padding_length intro!: built.intros)
  next
    case TPing
    with dec conn l show ?thesis
      by (auto simp: decode_frame_def result_simps require_length_def reencodes_def encode_parts_def word_unat_eq_iff [of _ 8] split: if_splits intro!: built.intros)
  next
    case TGoAway
    with dec conn l show ?thesis
      by (auto simp: decode_frame_def reencodes_def encode_parts_def word_less_nat_alt split: if_splits intro!: built.intros)
  next
    case TWindowUpdate
    have "\<not> 0x7fffffff < take_bit 31 w" for w :: u32
      using take_bit_nat_less_exp [of 31 "unat w"]
      by (simp add: word_less_nat_alt unsigned_take_bit_eq)
    with TWindowUpdate dec s l show ?thesis
      by (auto simp: decode_frame_def result_simps require_length_def reencodes_def encode_parts_def word_unat_eq_iff [of _ 4] and_31 Let_def
          split: if_splits intro!: built.intros)
  next
    case TContinuation
    with dec s show ?thesis
      by (auto simp: decode_frame_def result_simps reencodes_def encode_parts_def intro!: built.intros)
  qed (use t in simp)
qed

text \<open>
  frame_reencode: every frame the parser accepts can be serialised, and parsing the result gives the
  same stream and typed payload again, with the padding and the flags that have no meaning for its
  type removed.
\<close>

theorem frame_reencode:
  assumes dec: "frame_decode bs limit = Inr f"
  shows "\<exists>bs'. frame_encode f = Inr bs' \<and> length bs' \<le> length bs \<and> frame_decode bs' limit = Inr (normalise f)"
proof -
  let ?l = "header_length bs" and ?p = "drop 9 bs" and ?s = "header_stream bs"
  from dec have len: "length bs = 9 + unat ?l" "unat ?l \<le> unat limit"
    and df: "decode_frame ?l (frame_type_from_u8 (bs ! 3)) (bs ! 4) ?s ?p = Inr f"
    by (auto simp: frame_decode_def Let_def word_less_nat_alt split: if_splits)
  have s: "stream_ok ?s" by (simp add: header_stream_def)
  have small: "unat ?l < 2 ^ 24" by (simp only: header_length_def be24_length_bound)
  then have p: "length ?p \<le> 16777215" and l: "?l = of_nat (length ?p)" using len by simp_all
  show ?thesis
  proof (cases "\<exists>v. frame_type_from_u8 (bs ! 3) = TUnknown v")
    case True
    then obtain v where v: "frame_type_from_u8 (bs ! 3) = TUnknown v" ..
    then have v9: "frame_type_from_u8 v = TUnknown v" using frame_type_from_unknown by auto
    from df v have f: "f = mk_frame ?l (TUnknown v) (bs ! 4) ?s (KUnknown v ?p)"
      by (simp add: decode_frame_def)
    then have "frame_encode f = Inr (wire v 0 ?s ?p)"
      using p by (simp add: frame_encode_Inr encode_parts_def)
    moreover have "frame_decode (wire v 0 ?s ?p) limit = Inr (normalise f)"
      using p len s v9 by (simp add: frame_decode_wire f decode_frame_def)
    ultimately show ?thesis using len by (intro exI [of _ "wire v 0 ?s ?p"]) simp
  next
    case False
    have "decode_frame (of_nat (length ?p)) (frame_type_from_u8 (bs ! 3)) (bs ! 4) ?s ?p = Inr f"
      using df by (simp only: l [symmetric])
    then have "reencodes f (length ?p)"
      using p s False by (intro reencode_frame) simp_all
    then obtain t flags s' q where q: "encode_parts f = Inr (t, flags, s', q)"
      "encode_parts (normalise f) = Inr (t, flags, s', q)" "length q \<le> length ?p" "built (normalise f)"
      by (auto simp: reencodes_def)
    let ?w = "wire (frame_type_as_u8 t) flags s' q"
    have "frame_encode f = Inr ?w" "frame_encode (normalise f) = Inr ?w"
      using q p by (auto simp: frame_encode_Inr)
    moreover from frame_decode_wire [of q limit] built_parts [OF q(4,2)] q(3) p len
    have "frame_decode ?w limit = Inr (normalise f)" by simp
    ultimately show ?thesis using q(3) len by (intro exI [of _ ?w]) simp
  qed
qed

theorem frame_reencode_witness:
  "\<exists>bs'. frame_encode (frame_data (StreamId 3) True [65]) = Inr bs' \<and> length bs' \<le> 10"
proof -
  have "frame_decode [0, 0, 1, 0, 1, 0, 0, 0, 3, 65] 16384 = Inr (frame_data (StreamId 3) True [65])"
    by (simp add: frame_decode_def header_length_def be24_length_def header_stream_def from_be32_def
        decode_frame_def strip_padding_def flag_defs frame_data_def validate_stream_def is_connection_def
        stream_new_def try_u32_def)
  from frame_reencode [OF this] show ?thesis by auto
qed

end
