(* ===== verification/H2FrameReader.thy ===== *)
theory H2FrameReader
  imports H2Frame
begin

text \<open>
  \<open>Frame::read_from\<close> (\<^verbatim>\<open>crates/render-net/src/h2/frame.rs\<close>): assembling one frame from
  a transport with short reads and interruptions.
\<close>

text \<open>
  \<open>read_full\<close> fills a buffer of \<open>n\<close> octets: false at end of file before the first, an error inside.
\<close>

function read_full_loop :: "nat \<Rightarrow> bytes \<Rightarrow> transport \<Rightarrow> (frame_error + bytes option) \<times> transport" where
  "read_full_loop n filled t =
     (if length filled < n then
        (case io_read (n - length filled) t of
           (Inr [], t') \<Rightarrow>
             (if filled = [] then Inr None else Inl (FrameIo ''connection ended inside a frame''), t')
         | (Inr (b # bs), t') \<Rightarrow> read_full_loop n (filled @ b # bs) t'
         | (Inl Interrupted, t') \<Rightarrow> read_full_loop n filled t'
         | (Inl e, t') \<Rightarrow> (Inl (FrameIo (io_error_text e)), t'))
      else (Inr (Some filled), t))"
  by pat_completeness auto
termination
  by (relation "measure (\<lambda>(n, filled, t). script_size t)")
     (auto dest: io_read_error_shrinks [OF sym] io_read_bytes_shrinks [OF sym])

definition read_full :: "nat \<Rightarrow> transport \<Rightarrow> (frame_error + bytes option) \<times> transport" where
  "read_full n t = read_full_loop n [] t"

definition frame_read_from :: "transport \<Rightarrow> u32 \<Rightarrow> (frame_error + frame) \<times> transport" where
  "frame_read_from t max_frame_size =
     (case read_full 9 t of
        (Inl e, t1) \<Rightarrow> (Inl e, t1)
      | (Inr None, t1) \<Rightarrow> (Inl FrameClosed, t1)
      | (Inr (Some raw), t1) \<Rightarrow>
          (let l = header_length raw in
           if max_frame_size < l then (Inl (frame_too_long l max_frame_size), t1)
           else case read_full (unat l) t1 of
               (Inl e, t2) \<Rightarrow> (Inl e, t2)
             | (Inr None, t2) \<Rightarrow> (Inl (FrameIo ''connection ended inside a frame payload''), t2)
             | (Inr (Some payload), t2) \<Rightarrow>
                 (decode_frame l (frame_type_from_u8 (raw ! 3)) (raw ! 4) (header_stream raw) payload, t2)))"

subsection \<open>Reading from a transport\<close>

text \<open>A transport that is only ever interrupted or short: it never fails or ends early.\<close>

definition steady :: "transport \<Rightarrow> bool" where
  "steady t \<longleftrightarrow> (\<forall>e \<in> set (reads t). e = ReadError Interrupted \<or> (\<exists>b bs. e = ReadBytes (b # bs)))"

declare read_full_loop.simps [simp del]

lemma steady_read:
  assumes "steady t" "0 < n" "octets (reads t) \<noteq> []"
  obtains (bytes) b bs t' where "io_read n t = (Inr (b # bs), t')" "steady t'" "length (b # bs) \<le> n"
      "octets (reads t) = b # bs @ octets (reads t')"
  | (interrupted) t' where "io_read n t = (Inl Interrupted, t')" "steady t'"
      "octets (reads t') = octets (reads t)"
proof -
  obtain e rest where r: "reads t = e # rest" using assms(3) by (cases "reads t") auto
  from assms(1) r consider "e = ReadError Interrupted" | b bs where "e = ReadBytes (b # bs)"
    by (auto simp: steady_def)
  then show thesis
  proof cases
    case 1
    with r assms(1) show ?thesis by (intro interrupted) (auto simp: io_read_def steady_def)
  next
    case (2 b bs)
    show ?thesis
    proof (cases "length (b # bs) \<le> n")
      case True
      with 2 r assms(1) show ?thesis by (intro bytes) (auto simp: io_read_def steady_def)
    next
      case False
      then obtain c cs where d: "drop n (b # bs) = c # cs" by (cases "drop n (b # bs)") auto
      obtain m where n: "n = Suc m" using assms(2) by (cases n) auto
      have "io_read n t = (Inr (b # take m bs), t\<lparr>reads := ReadBytes (c # cs) # rest\<rparr>)"
        using False 2 r d n by (simp add: io_read_def)
      moreover have "octets (reads t) = b # take m bs @ octets (ReadBytes (c # cs) # rest)"
        using 2 r d n by (simp flip: append_assoc) (metis append.assoc append_Cons append_take_drop_id)
      ultimately show ?thesis
        using assms(1) r n by (intro bytes [of b "take m bs"]) (auto simp: steady_def)
    qed
  qed
qed

lemma read_full_loop_steady:
  assumes "steady t" "length filled \<le> n" "n - length filled \<le> length (octets (reads t))"
  shows "\<exists>t'. read_full_loop n filled t = (Inr (Some (filled @ take (n - length filled) (octets (reads t)))), t') \<and>
    steady t' \<and> octets (reads t') = drop (n - length filled) (octets (reads t))"
  using assms
proof (induction n filled t rule: read_full_loop.induct)
  case (1 n filled t)
  show ?case
  proof (cases "length filled < n")
    case False
    with 1(3-5) show ?thesis by (simp add: read_full_loop.simps [of n filled t])
  next
    case True
    with 1(5) have "0 < n - length filled" "octets (reads t) \<noteq> []" by auto
    from 1(3) this show ?thesis
    proof (cases rule: steady_read)
      case (bytes b bs t')
      have "length (filled @ b # bs) \<le> n" using bytes(3) True by simp
      moreover have "n - length (filled @ b # bs) \<le> length (octets (reads t'))"
        using bytes(4) 1(5) by simp
      ultimately obtain t'' where
        "read_full_loop n (filled @ b # bs) t' =
          (Inr (Some ((filled @ b # bs) @ take (n - length (filled @ b # bs)) (octets (reads t')))), t'')"
        "steady t''" "octets (reads t'') = drop (n - length (filled @ b # bs)) (octets (reads t'))"
        using 1(2) [OF True bytes(1) [symmetric] refl refl] bytes(2) by blast
      then show ?thesis using bytes True
        by (simp add: read_full_loop.simps [of n filled t] take_Cons' drop_Cons' Suc_diff_Suc flip: diff_diff_add)
    next
      case (interrupted t')
      with 1(1) [OF True interrupted(1) [symmetric] refl refl] 1(3-5) True show ?thesis
        by (simp add: read_full_loop.simps [of n filled t])
    qed
  qed
qed

text \<open>
  On a transport that delivers a complete frame in pieces of any size, with
  interruptions anywhere, \<open>read_from\<close> returns what \<open>decode\<close> returns on the octets of the frame, and
  leaves exactly the octets after it to be read.
\<close>

theorem frame_read_from_is_decode:
  assumes "steady t" "octets (reads t) = bs @ rest"
    and "length bs = 9 + unat (header_length bs)" "header_length bs \<le> limit"
  shows "\<exists>t'. frame_read_from t limit = (frame_decode bs limit, t') \<and> steady t' \<and> octets (reads t') = rest"
proof -
  let ?l = "header_length bs"
  have "9 \<le> length (octets (reads t))" using assms(2,3) by simp
  from read_full_loop_steady [OF assms(1), of "[]" 9] this obtain t1 where
    t1: "read_full 9 t = (Inr (Some (take 9 (octets (reads t)))), t1)" "steady t1"
      "octets (reads t1) = drop 9 (octets (reads t))"
    by (auto simp: read_full_def)
  have take9: "take 9 (octets (reads t)) = take 9 bs" "octets (reads t1) = drop 9 bs @ rest"
    using assms(2,3) t1(3) by simp_all
  have raw: "header_length (take 9 bs) = ?l" "header_stream (take 9 bs) = header_stream bs"
    "take 9 bs ! 3 = bs ! 3" "take 9 bs ! 4 = bs ! 4"
    by (simp_all add: header_length_def header_stream_def)
  have "unat ?l \<le> length (octets (reads t1))" using take9 assms(3) by simp
  from read_full_loop_steady [OF t1(2), of "[]" "unat ?l"] this obtain t2 where
    "read_full (unat ?l) t1 = (Inr (Some (take (unat ?l) (octets (reads t1)))), t2)" "steady t2"
      "octets (reads t2) = drop (unat ?l) (octets (reads t1))"
    by (auto simp: read_full_def)
  with take9 assms(3) have t2: "read_full (unat ?l) t1 = (Inr (Some (drop 9 bs)), t2)" "steady t2"
      "octets (reads t2) = rest"
    by simp_all
  have "frame_read_from t limit = (frame_decode bs limit, t2)"
    using assms(3) by (simp add: frame_read_from_def t1(1) take9(1) raw t2(1) frame_decode_def Let_def leD [OF assms(4)])
  with t2 show ?thesis by blast
qed

theorem frame_read_from_is_decode_witness:
  "\<exists>t'. frame_read_from \<lparr>reads = [ReadBytes [0, 0, 4, 8, 0], ReadError Interrupted,
        ReadBytes [0, 0, 0, 1, 0, 0, 0, 7, 99]], write_results = [], sent = []\<rparr> 16384 =
      (frame_decode [0, 0, 4, 8, 0, 0, 0, 0, 1, 0, 0, 0, 7] 16384, t') \<and> octets (reads t') = [99]"
proof -
  let ?t = "\<lparr>reads = [ReadBytes [0, 0, 4, 8, 0], ReadError Interrupted,
        ReadBytes [0, 0, 0, 1, 0, 0, 0, 7, 99]], write_results = [], sent = []\<rparr>"
  have "steady ?t" by (simp add: steady_def)
  from frame_read_from_is_decode [OF this, of "[0, 0, 4, 8, 0, 0, 0, 0, 1, 0, 0, 0, 7]" "[99]" 16384]
  show ?thesis by (auto simp: header_length_def be24_length_def)
qed

end
