(* ===== verification/Steps.thy ===== *)
theory Steps
  imports Prelude
begin

text \<open>
  Stateful steps that can fault.  A method that takes \<open>&mut self\<close> and returns a \<open>Result\<close> is a function
  from the state to a fault or a value, and the state it leaves behind; a fault keeps the state the
  method had reached, as the code does.  The type of faults is a parameter: each component adds to its
  errors the ways in which its code does not return.
\<close>

definition and_do :: "('s \<Rightarrow> ('e + 'a) \<times> 's) \<Rightarrow> ('a \<Rightarrow> 's \<Rightarrow> ('e + 'b) \<times> 's) \<Rightarrow> 's \<Rightarrow> ('e + 'b) \<times> 's" where
  "and_do m k c = (case m c of (Inl e, c') \<Rightarrow> (Inl e, c') | (Inr a, c') \<Rightarrow> k a c')"

definition ok :: "'a \<Rightarrow> 's \<Rightarrow> ('e + 'a) \<times> 's" where
  "ok a c = (Inr a, c)"

definition upd :: "('s \<Rightarrow> 's) \<Rightarrow> 's \<Rightarrow> ('e + unit) \<times> 's" where
  "upd f c = (Inr (), f c)"

text \<open>A method that only reads the state, and the faults it returns.\<close>

definition look :: "('s \<Rightarrow> 'e + 'a) \<Rightarrow> 's \<Rightarrow> ('e + 'a) \<times> 's" where
  "look f c = (f c, c)"

definition stop :: "'e \<Rightarrow> 's \<Rightarrow> ('e + 'a) \<times> 's" where
  "stop e c = (Inl e, c)"

lemma and_do_cong [fundef_cong]:
  "m c = m' c' \<Longrightarrow> (\<And>a c1. m' c' = (Inr a, c1) \<Longrightarrow> k a c1 = k' a c1) \<Longrightarrow> and_do m k c = and_do m' k' c'"
  by (auto simp: and_do_def split: prod.split sum.split)

lemma and_do_Inr [result_simps]:
  "and_do m k c = (Inr b, c') \<longleftrightarrow> (\<exists>a c1. m c = (Inr a, c1) \<and> k a c1 = (Inr b, c'))"
  by (auto simp: and_do_def split: prod.splits sum.splits)

lemma and_do_Inl [result_simps]:
  "and_do m k c = (Inl e, c') \<longleftrightarrow>
     m c = (Inl e, c') \<or> (\<exists>a c1. m c = (Inr a, c1) \<and> k a c1 = (Inl e, c'))"
  by (auto simp: and_do_def split: prod.splits sum.splits)

lemma plain_step_simps [simp, result_simps]:
  "ok a c = (Inr a, c)" "upd f c = (Inr (), f c)" "look g c = (g c, c)" "stop e c = (Inl e, c)"
  by (simp_all add: ok_def upd_def look_def stop_def)

text \<open>
  The rule for properties of a step's outcome: what holds after the first step carries over.
\<close>

lemma and_do_rule:
  assumes "and_do m k c = (r, c')"
    and "\<And>e c1. m c = (Inl e, c1) \<Longrightarrow> Q (Inl e) c1"
    and "\<And>a c1. m c = (Inr a, c1) \<Longrightarrow> k a c1 = (r, c') \<Longrightarrow> Q r c'"
  shows "Q r c'"
  using assms by (auto simp: and_do_def split: prod.splits sum.splits)

end
