(* ===== verification/H2Model.thy ===== *)
theory H2Model
  imports Steps H2Frame Hpack "HOL-Library.AList"
begin

text \<open>
  The state of an HTTP/2 client connection (\<^verbatim>\<open>crates/render-net/src/h2/connection.rs\<close>), the
  stateful steps with their errors, and what only reads it or only validates: configuration, requests,
  response fields.  The \<open>HashMap\<close>s of streams are association lists with distinct keys, in the order
  the map iterates.
\<close>

subsection \<open>Steps\<close>

text \<open>
  A step of the connection returns a value or a fault: one of the code's errors, a panic of an
  \<open>expect\<close>, or a loop that makes no progress.
\<close>

datatype fault = Err h2_error | Panic string | Hang

definition err :: "h2_error \<Rightarrow> 's \<Rightarrow> (fault + 'a) \<times> 's" where
  "err e c = (Inl (Err e), c)"

definition lift_result :: "h2_error + 'a \<Rightarrow> 's \<Rightarrow> (fault + 'a) \<times> 's" where
  "lift_result r c = (map_err Err r, c)"

lemma step_simps [simp, result_simps]:
  "err e c = (Inl (Err e), c)"
  "lift_result (Inr a) c = (Inr a, c)" "lift_result (Inl e) c = (Inl (Err e), c)"
  by (simp_all add: err_def lift_result_def)

subsection \<open>Configuration and state\<close>

record config =
  max_frame_size :: u32
  initial_window_size :: u32
  header_table_size :: u32
  max_header_list_size :: u32
  max_header_block_size :: nat
  max_body_size :: nat

definition config_default :: config where
  "config_default = \<lparr>max_frame_size = DEFAULT_MAX_FRAME_SIZE, initial_window_size = 65535,
     header_table_size = 4096, max_header_list_size = 2 ^ 20, max_header_block_size = 65536,
     max_body_size = 8 * 2 ^ 20\<rparr>"

definition config_validate :: "config \<Rightarrow> h2_error + unit" where
  "config_validate cfg =
     (if \<not> (DEFAULT_MAX_FRAME_SIZE \<le> max_frame_size cfg \<and> max_frame_size cfg \<le> MAX_MAX_FRAME_SIZE)
      then Inl (H2InvalidConfig (''max_frame_size '' @ dec_text (unat (max_frame_size cfg)) @
                  '' is outside 16384..=16777215''))
      else if 0x7fffffff < initial_window_size cfg
      then Inl (H2InvalidConfig ''initial_window_size exceeds 2^31-1'')
      else if max_header_block_size cfg = 0
      then Inl (H2InvalidConfig ''max_header_block_size must be non-zero'')
      else Inr ())"

record request =
  rq_method :: string
  rq_scheme :: string
  rq_authority :: string
  rq_path :: string
  rq_headers :: "header_field list"
  rq_body :: "bytes option"

definition request_new :: "string \<Rightarrow> string \<Rightarrow> string \<Rightarrow> string \<Rightarrow> request" where
  "request_new m s a p = \<lparr>rq_method = m, rq_scheme = s, rq_authority = a, rq_path = p,
     rq_headers = [], rq_body = None\<rparr>"

definition request_get :: "string \<Rightarrow> string \<Rightarrow> request" where
  "request_get a p = request_new ''GET'' ''http'' a p"

definition with_header_bytes :: "bytes \<Rightarrow> bytes \<Rightarrow> request \<Rightarrow> request" where
  "with_header_bytes n v r = r\<lparr>rq_headers := rq_headers r @ [\<lparr>field_name = n, field_value = v\<rparr>]\<rparr>"

definition with_header :: "string \<Rightarrow> string \<Rightarrow> request \<Rightarrow> request" where
  "with_header n v r = with_header_bytes (to_bytes n) (to_bytes v) r"

definition with_body :: "bytes \<Rightarrow> request \<Rightarrow> request" where
  "with_body b r = r\<lparr>rq_body := Some b\<rparr>"

definition with_scheme :: "string \<Rightarrow> request \<Rightarrow> request" where
  "with_scheme s r = r\<lparr>rq_scheme := s\<rparr>"

record response =
  rs_stream_id :: stream_id
  rs_status :: u16
  rs_headers :: "header_field list"
  rs_body :: bytes

text \<open>The \<open>u64\<close> counters are natural numbers: no run makes \<open>2 ^ 64\<close> steps.\<close>

record stats =
  frames_read :: nat
  frames_written :: nat
  settings_acks_sent :: nat
  window_updates_sent :: nat
  goaway_sent :: nat
  priority_frames_ignored :: nat
  unknown_frames_ignored :: nat

definition stats_default :: stats where
  "stats_default = \<lparr>frames_read = 0, frames_written = 0, settings_acks_sent = 0,
     window_updates_sent = 0, goaway_sent = 0, priority_frames_ignored = 0,
     unknown_frames_ignored = 0\<rparr>"

record peer_settings =
  peer_max_concurrent :: "u32 option"
  peer_initial_window :: u32
  peer_max_frame :: u32

definition peer_default :: peer_settings where
  "peer_default = \<lparr>peer_max_concurrent = None, peer_initial_window = 65535,
     peer_max_frame = DEFAULT_MAX_FRAME_SIZE\<rparr>"

datatype stream_state = SOpen | SHalfClosedLocal | SHalfClosedRemote | SClosed

datatype connection_state = COpen | CClosed

record stream =
  st_state :: stream_state
  st_send_window :: int
  st_recv_window :: int
  st_end_sent :: bool
  st_end_received :: bool
  st_status :: "u16 option"
  st_headers :: "header_field list"
  st_body :: bytes

definition stream_init :: "u32 \<Rightarrow> u32 \<Rightarrow> stream" where
  "stream_init send recv = \<lparr>st_state = SOpen, st_send_window = uint send, st_recv_window = uint recv,
     st_end_sent = False, st_end_received = False, st_status = None, st_headers = [], st_body = []\<rparr>"

definition is_active :: "stream \<Rightarrow> bool" where
  "is_active st \<longleftrightarrow> st_state st \<in> {SOpen, SHalfClosedLocal, SHalfClosedRemote}"

record pending_headers =
  pd_stream :: stream_id
  pd_trailers :: bool
  pd_end_stream :: bool
  pd_fragments :: bytes

record connection =
  io :: transport
  config :: config
  conn_state :: connection_state
  conn_encoder :: encoder
  conn_decoder :: decoder
  peer :: peer_settings
  next_stream_id :: u32
  streams :: "(stream_id \<times> stream) list"
  stream_errors :: "(stream_id \<times> h2_error) list"
  conn_send_window :: int
  conn_recv_window :: int
  pending_inbound :: "pending_headers option"
  read_buffer :: bytes
  goaway :: "(stream_id \<times> error_code \<times> bytes) option"
  stats :: stats

definition MAX_WINDOW_SIZE :: int where "MAX_WINDOW_SIZE = 0x7fffffff"
definition INITIAL_CONNECTION_WINDOW :: int where "INITIAL_CONNECTION_WINDOW = 65535"
definition MAX_GOAWAY_DEBUG :: nat where "MAX_GOAWAY_DEBUG = 256"
definition MAX_ENCODER_TABLE_SIZE :: nat where "MAX_ENCODER_TABLE_SIZE = 65536"

abbreviation stream_of :: "connection \<Rightarrow> stream_id \<Rightarrow> stream option" where
  "stream_of c s \<equiv> map_of (streams c) s"

definition put_stream :: "stream_id \<Rightarrow> stream \<Rightarrow> connection \<Rightarrow> connection" where
  "put_stream s st c = c\<lparr>streams := AList.update s st (streams c)\<rparr>"

definition drop_stream :: "stream_id \<Rightarrow> connection \<Rightarrow> connection" where
  "drop_stream s c = c\<lparr>streams := AList.delete s (streams c)\<rparr>"

definition update_stream :: "stream_id \<Rightarrow> (stream \<Rightarrow> stream) \<Rightarrow> connection \<Rightarrow> connection" where
  "update_stream s f c = (case stream_of c s of None \<Rightarrow> c | Some st \<Rightarrow> put_stream s (f st) c)"

definition bump :: "(stats \<Rightarrow> stats) \<Rightarrow> connection \<Rightarrow> connection" where
  "bump f c = c\<lparr>stats := f (stats c)\<rparr>"

subsection \<open>Field syntax\<close>

definition is_token_byte :: "u8 \<Rightarrow> bool" where
  "is_token_byte b \<longleftrightarrow> is_ascii_alphanumeric b \<or>
     b \<in> {0x21, 0x23, 0x24, 0x25, 0x26, 0x27, 0x2a, 0x2b, 0x2d, 0x2e, 0x5e, 0x5f, 0x60, 0x7c, 0x7e}"

definition is_token :: "bytes \<Rightarrow> bool" where
  "is_token v \<longleftrightarrow> v \<noteq> [] \<and> list_all is_token_byte v"

definition is_connection_specific :: "bytes \<Rightarrow> bool" where
  "is_connection_specific n \<longleftrightarrow> n = ascii ''connection'' \<or> n = ascii ''keep-alive'' \<or>
     n = ascii ''proxy-connection'' \<or> n = ascii ''transfer-encoding'' \<or> n = ascii ''upgrade''"

definition valid_field_value :: "bytes \<Rightarrow> bool" where
  "valid_field_value v \<longleftrightarrow> \<not> list_ex (\<lambda>b. b = 0x00 \<or> b = 0x0a \<or> b = 0x0d) v"

definition validate_field_name :: "bytes \<Rightarrow> string + unit" where
  "validate_field_name n =
     (if n = [] then Inl ''empty header name''
      else if list_ex is_ascii_uppercase n then Inl ''HTTP/2 header names must be lowercase''
      else if \<not> list_all is_token_byte n then Inl ''header name contains a non-token byte''
      else Inr ())"

definition first_is_colon :: "bytes \<Rightarrow> bool" where
  "first_is_colon n \<longleftrightarrow> (case n of [] \<Rightarrow> False | b # _ \<Rightarrow> b = 0x3a)"

text \<open>The name as \<open>String::from_utf8_lossy(..)\<close> printed with \<open>{:?}\<close>.\<close>

definition quoted_name :: "bytes \<Rightarrow> string" where
  "quoted_name n = debug_text (of_bytes (from_utf8_lossy n))"

fun validate_request_headers :: "header_field list \<Rightarrow> h2_error + unit" where
  "validate_request_headers [] = Inr ()"
| "validate_request_headers (f # rest) =
     and_then (map_err (\<lambda>detail. H2InvalidRequest (''header '' @ quoted_name (field_name f) @ '': '' @ detail))
                 (validate_field_name (field_name f))) (\<lambda>_.
       if first_is_colon (field_name f)
       then Inl (H2InvalidRequest ''caller-supplied pseudo headers are not allowed'')
       else if is_connection_specific (field_name f)
       then Inl (H2InvalidRequest (''connection-specific header '' @ quoted_name (field_name f) @
                   '' is forbidden in HTTP/2''))
       else if field_name f = ascii ''te'' \<and> \<not> eq_ignore_ascii_case (field_value f) (ascii ''trailers'')
       then Inl (H2InvalidRequest ''TE may only carry \"trailers\" in HTTP/2'')
       else if \<not> valid_field_value (field_value f)
       then Inl (H2InvalidRequest ''header value contains NUL, CR, or LF'')
       else validate_request_headers rest)"

definition validate_request :: "request \<Rightarrow> h2_error + unit" where
  "validate_request r =
     (if eq_ignore_ascii_case (to_bytes (rq_method r)) (ascii ''CONNECT'') then Inl (H2Unsupported Connect)
      else if \<not> is_token (to_bytes (rq_method r))
      then Inl (H2InvalidRequest (''method '' @ debug_text (rq_method r) @ '' is not an HTTP token''))
      else if rq_scheme r \<noteq> ''http'' \<and> rq_scheme r \<noteq> ''https''
      then Inl (H2InvalidRequest (''unsupported scheme '' @ debug_text (rq_scheme r)))
      else if rq_authority r = [] \<or> \<not> list_all is_ascii_graphic (to_bytes (rq_authority r))
      then Inl (H2InvalidRequest ''authority must be non-empty visible ASCII'')
      else if \<not> (case rq_path r of [] \<Rightarrow> False | ch # _ \<Rightarrow> ch = CHR ''/'') \<and> rq_path r \<noteq> ''*''
      then Inl (H2InvalidRequest (''path '' @ debug_text (rq_path r) @ '' must start with '' @
                  [CHR 0x27] @ ''/'' @ [CHR 0x27]))
      else if \<not> list_all is_ascii_graphic (to_bytes (rq_path r))
      then Inl (H2InvalidRequest ''path must be visible ASCII'')
      else validate_request_headers (rq_headers r))"

definition request_fields :: "request \<Rightarrow> header_field list" where
  "request_fields r =
     (let pseudo =
        [\<lparr>field_name = ascii '':method'', field_value = to_bytes (rq_method r)\<rparr>,
         \<lparr>field_name = ascii '':scheme'', field_value = to_bytes (rq_scheme r)\<rparr>,
         \<lparr>field_name = ascii '':authority'', field_value = to_bytes (rq_authority r)\<rparr>,
         \<lparr>field_name = ascii '':path'', field_value = to_bytes (rq_path r)\<rparr>];
          has_content_length =
            list_ex (\<lambda>f. eq_ignore_ascii_case (field_name f) (ascii ''content-length'')) (rq_headers r);
          content_length =
            (case rq_body r of
               None \<Rightarrow> []
             | Some body \<Rightarrow>
                 if has_content_length then []
                 else [\<lparr>field_name = ascii ''content-length'', field_value = to_bytes (dec_text (length body))\<rparr>])
      in (pseudo @ content_length) @ rq_headers r)"

definition parse_status :: "stream_id \<Rightarrow> bytes \<Rightarrow> h2_error + u16" where
  "parse_status s v =
     (if length v \<noteq> 3 \<or> \<not> list_all is_ascii_digit v
      then Inl (H2Stream s ProtocolError ''response :status must be exactly three digits'')
      else Inr (foldl (\<lambda>acc d. acc * 10 + ucast (d - 0x30)) 0 v))"

text \<open>The loop over the decoded fields: the status so far, the regular fields so far.\<close>

fun response_fields_loop :: "stream_id \<Rightarrow> bool \<Rightarrow> header_field list \<Rightarrow> u16 option \<Rightarrow> header_field list \<Rightarrow> bool \<Rightarrow>
    h2_error + u16 option \<times> header_field list" where
  "response_fields_loop s trailers [] status regular saw_regular = Inr (status, regular)"
| "response_fields_loop s trailers (f # rest) status regular saw_regular =
     (if first_is_colon (field_name f) then
        (if trailers then Inl (H2Stream s ProtocolError ''pseudo header in trailers'')
         else if saw_regular then Inl (H2Stream s ProtocolError ''pseudo header after regular header'')
         else if field_name f \<noteq> ascii '':status''
         then Inl (H2Stream s ProtocolError (''unexpected response pseudo header '' @ quoted_name (field_name f)))
         else if status \<noteq> None then Inl (H2Stream s ProtocolError ''duplicate :status'')
         else and_then (parse_status s (field_value f)) (\<lambda>code.
                response_fields_loop s trailers rest (Some code) regular saw_regular))
      else
        and_then (map_err (\<lambda>detail. H2Stream s ProtocolError detail) (validate_field_name (field_name f))) (\<lambda>_.
          if \<not> valid_field_value (field_value f)
          then Inl (H2Stream s ProtocolError ''response header value contains NUL, CR, or LF'')
          else response_fields_loop s trailers rest status (regular @ [f]) True))"

definition validate_response_fields :: "stream_id \<Rightarrow> header_field list \<Rightarrow> bool \<Rightarrow>
    h2_error + u16 option \<times> header_field list" where
  "validate_response_fields s fs trailers =
     and_then (response_fields_loop s trailers fs None [] False) (\<lambda>(status, regular).
       if \<not> trailers \<and> status = None
       then Inl (H2Stream s ProtocolError ''response HEADERS is missing :status'')
       else Inr (status, regular))"

subsection \<open>Reading the state\<close>

definition ensure_open :: "connection \<Rightarrow> (fault + unit) \<times> connection" where
  "ensure_open c =
     (case goaway c of
        Some (last_id, code, debug_data) \<Rightarrow> err (H2GoAway last_id code debug_data) c
      | None \<Rightarrow> if conn_state c = CClosed then err H2ConnectionClosed c else ok () c)"

definition last_stream_id :: "connection \<Rightarrow> stream_id" where
  "last_stream_id c = stream_new (if next_stream_id c < 2 then 0 else next_stream_id c - 2)"

definition completed_response :: "stream_id \<Rightarrow> connection \<Rightarrow> h2_error + response option" where
  "completed_response s c =
     and_then (ok_or (stream_of c s) (H2InvalidRequest (''unknown '' @ stream_text s))) (\<lambda>st.
       if \<not> st_end_received st then Inr None
       else and_then (ok_or (st_status st)
                        (H2Stream s ProtocolError ''response ended without a final :status'')) (\<lambda>status.
              Inr (Some \<lparr>rs_stream_id = s, rs_status = status, rs_headers = st_headers st,
                         rs_body = st_body st\<rparr>)))"

definition response_status :: "stream_id \<Rightarrow> connection \<Rightarrow> u16 option" where
  "response_status s c = Option.bind (stream_of c s) st_status"

definition response_body_len :: "stream_id \<Rightarrow> connection \<Rightarrow> nat option" where
  "response_body_len s c = map_option (\<lambda>st. length (st_body st)) (stream_of c s)"

definition is_closed :: "connection \<Rightarrow> bool" where
  "is_closed c \<longleftrightarrow> conn_state c = CClosed"

definition peer_initial_window_size :: "connection \<Rightarrow> u32" where
  "peer_initial_window_size c = peer_initial_window (peer c)"

definition peer_max_frame_size :: "connection \<Rightarrow> u32" where
  "peer_max_frame_size c = peer_max_frame (peer c)"

end
