(* ===== verification/H2Connection.thy ===== *)
theory H2Connection
  imports H2Model
begin

text \<open>
  The operations of an HTTP/2 client connection (\<^verbatim>\<open>crates/render-net/src/h2/connection.rs\<close>):
  writing frames, reading frames through the read buffer, dispatching a frame to its handler, reporting
  errors, and the operations the caller uses.  A handler that fails leaves the state as it was at the
  point of failure, as the code does.
\<close>

subsection \<open>Writing\<close>

definition write_frame :: "frame \<Rightarrow> connection \<Rightarrow> (fault + unit) \<times> connection" where
  "write_frame f c =
     (case frame_write_to f (io c) of
        (Inl (FrameIo message), t) \<Rightarrow> (Inl (Err (H2Io message)), c\<lparr>io := t, conn_state := CClosed\<rparr>)
      | (Inl e, t) \<Rightarrow> (Inl (Err (H2Frame e)), c\<lparr>io := t\<rparr>)
      | (Inr _, t) \<Rightarrow>
          (let c1 = bump (\<lambda>s. s\<lparr>frames_written := frames_written s + 1\<rparr>) (c\<lparr>io := t\<rparr>) in
           case io_flush (io c1) of
             (r, t') \<Rightarrow> (map_err (\<lambda>e. Err (H2Io (io_error_text e))) r, c1\<lparr>io := t'\<rparr>)))"

definition write_connection_preface :: "connection \<Rightarrow> (fault + unit) \<times> connection" where
  "write_connection_preface c =
     (case io_write_all CONNECTION_PREFACE (io c) of
        (Inl e, t) \<Rightarrow> (Inl (Err (H2Io (io_error_text e))), c\<lparr>io := t\<rparr>)
      | (Inr _, t) \<Rightarrow>
          (case io_flush t of
             (r, t') \<Rightarrow> (map_err (\<lambda>e. Err (H2Io (io_error_text e))) r, c\<lparr>io := t'\<rparr>)))"

definition send_window_update :: "stream_id \<Rightarrow> u32 \<Rightarrow> connection \<Rightarrow> (fault + unit) \<times> connection" where
  "send_window_update s increment c =
     (if increment = 0 then ok () c
      else and_do (write_frame (frame_window_update s increment)) (\<lambda>_.
             upd (bump (\<lambda>x. x\<lparr>window_updates_sent := window_updates_sent x + 1\<rparr>))) c)"

definition send_local_settings :: "connection \<Rightarrow> (fault + unit) \<times> connection" where
  "send_local_settings c =
     (let cfg = config c;
          settings =
            [\<lparr>setting_id = HeaderTableSize, setting_value = header_table_size cfg\<rparr>,
             \<lparr>setting_id = EnablePush, setting_value = 0\<rparr>,
             \<lparr>setting_id = InitialWindowSize, setting_value = initial_window_size cfg\<rparr>,
             \<lparr>setting_id = MaxFrameSize, setting_value = max_frame_size cfg\<rparr>,
             \<lparr>setting_id = MaxHeaderListSize, setting_value = max_header_list_size cfg\<rparr>]
      in and_do (write_frame (frame_settings settings)) (\<lambda>_ c1.
           if 65535 < initial_window_size cfg then
             (let increment = initial_window_size cfg - 65535 in
              and_do (write_frame (frame_window_update CONNECTION increment)) (\<lambda>_ c2.
                (Inr (), (bump (\<lambda>x. x\<lparr>window_updates_sent := window_updates_sent x + 1\<rparr>) c2)
                   \<lparr>conn_recv_window := uint (initial_window_size cfg)\<rparr>)) c1)
           else ok () c1) c)"

subsection \<open>Peer settings\<close>

text \<open>The new window of every active stream, stopping at the first that overflows.\<close>

fun shift_windows :: "int \<Rightarrow> (stream_id \<times> stream) list \<Rightarrow> bool \<times> (stream_id \<times> stream) list" where
  "shift_windows delta [] = (True, [])"
| "shift_windows delta ((s, st) # rest) =
     (if is_active st then
        (let st' = st\<lparr>st_send_window := st_send_window st + delta\<rparr> in
         if MAX_WINDOW_SIZE < st_send_window st' then (False, (s, st') # rest)
         else (case shift_windows delta rest of (fits, rest') \<Rightarrow> (fits, (s, st') # rest')))
      else (case shift_windows delta rest of (fits, rest') \<Rightarrow> (fits, (s, st) # rest')))"

definition apply_setting :: "setting \<Rightarrow> connection \<Rightarrow> (fault + unit) \<times> connection" where
  "apply_setting x c =
     (case setting_id x of
        HeaderTableSize \<Rightarrow>
          upd (\<lambda>c. c\<lparr>conn_encoder :=
                 set_max_table_size (min (unat (setting_value x)) MAX_ENCODER_TABLE_SIZE) (conn_encoder c)\<rparr>) c
      | EnablePush \<Rightarrow>
          if setting_value x \<noteq> 0 then err (H2Protocol ProtocolError ''server must not enable push'') c
          else ok () c
      | MaxConcurrentStreams \<Rightarrow>
          upd (\<lambda>c. c\<lparr>peer := (peer c)\<lparr>peer_max_concurrent := Some (setting_value x)\<rparr>\<rparr>) c
      | InitialWindowSize \<Rightarrow>
          (let delta = uint (setting_value x) - uint (peer_initial_window (peer c));
               c1 = c\<lparr>peer := (peer c)\<lparr>peer_initial_window := setting_value x\<rparr>\<rparr>
           in case shift_windows delta (streams c1) of
                (fits, ss) \<Rightarrow>
                  if fits then ok () (c1\<lparr>streams := ss\<rparr>)
                  else err (H2Protocol FlowControlError
                              ''SETTINGS_INITIAL_WINDOW_SIZE overflows a stream window'') (c1\<lparr>streams := ss\<rparr>))
      | MaxFrameSize \<Rightarrow> upd (\<lambda>c. c\<lparr>peer := (peer c)\<lparr>peer_max_frame := setting_value x\<rparr>\<rparr>) c
      | MaxHeaderListSize \<Rightarrow> ok () c
      | UnknownSetting _ \<Rightarrow> ok () c)"

fun apply_peer_settings :: "setting list \<Rightarrow> connection \<Rightarrow> (fault + unit) \<times> connection" where
  "apply_peer_settings [] c = ok () c"
| "apply_peer_settings (x # rest) c = and_do (apply_setting x) (\<lambda>_. apply_peer_settings rest) c"

definition acknowledge_settings :: "setting list \<Rightarrow> connection \<Rightarrow> (fault + unit) \<times> connection" where
  "acknowledge_settings settings =
     and_do (apply_peer_settings settings) (\<lambda>_.
     and_do (write_frame frame_settings_ack) (\<lambda>_.
       upd (bump (\<lambda>x. x\<lparr>settings_acks_sent := settings_acks_sent x + 1\<rparr>))))"

subsection \<open>Ends of streams\<close>

definition mark_local_end :: "stream_id \<Rightarrow> connection \<Rightarrow> (fault + unit) \<times> connection" where
  "mark_local_end s c =
     (case stream_of c s of
        None \<Rightarrow> err (H2InvalidRequest (''unknown '' @ stream_text s)) c
      | Some st \<Rightarrow>
          if st_end_sent st then ok () c
          else ok () (put_stream s (st\<lparr>st_end_sent := True, st_state :=
                 (case st_state st of SOpen \<Rightarrow> SHalfClosedLocal | SHalfClosedRemote \<Rightarrow> SClosed | other \<Rightarrow> other)\<rparr>) c))"

definition remote_end_state :: "stream_state \<Rightarrow> stream_state" where
  "remote_end_state x = (case x of SOpen \<Rightarrow> SHalfClosedRemote | SHalfClosedLocal \<Rightarrow> SClosed | other \<Rightarrow> other)"

definition mark_remote_end :: "stream_id \<Rightarrow> connection \<Rightarrow> (fault + unit) \<times> connection" where
  "mark_remote_end s c =
     (case stream_of c s of
        None \<Rightarrow> err (H2InvalidRequest (''unknown '' @ stream_text s)) c
      | Some st \<Rightarrow>
          if st_end_received st then err (H2Stream s StreamClosed ''duplicate END_STREAM'') c
          else ok () (put_stream s (st\<lparr>st_end_received := True,
                 st_state := remote_end_state (st_state st)\<rparr>) c))"

subsection \<open>Handlers of inbound frames\<close>

text \<open>The tail of \<open>handle_data\<close>: what was received is credited back at once.\<close>

definition credit_windows :: "stream_id \<Rightarrow> bool \<Rightarrow> u32 \<Rightarrow> connection \<Rightarrow> (fault + unit) \<times> connection" where
  "credit_windows s end_stream increment =
     (if increment \<noteq> 0 then
        and_do (send_window_update CONNECTION increment) (\<lambda>_.
        and_do (upd (\<lambda>c. c\<lparr>conn_recv_window := conn_recv_window c + uint increment\<rparr>)) (\<lambda>_.
          if \<not> end_stream then
            and_do (send_window_update s increment) (\<lambda>_.
              upd (update_stream s (\<lambda>x. x\<lparr>st_recv_window := st_recv_window x + uint increment\<rparr>)))
          else ok ()))
      else ok ())"

definition handle_data :: "stream_id \<Rightarrow> bool \<Rightarrow> u32 \<Rightarrow> bytes \<Rightarrow> connection \<Rightarrow> (fault + unit) \<times> connection" where
  "handle_data s end_stream flow_length body c =
     (case stream_of c s of
        None \<Rightarrow> err (H2Protocol ProtocolError (''DATA on idle '' @ stream_text s)) c
      | Some st \<Rightarrow>
          if st_end_received st then err (H2Stream s StreamClosed ''DATA after END_STREAM'') c
          else if st_status st = None
          then err (H2Stream s ProtocolError ''DATA arrived before response HEADERS'') c
          else
            (let flow = uint flow_length;
                 c1 = c\<lparr>conn_recv_window := conn_recv_window c - flow\<rparr> in
             if conn_recv_window c1 < 0
             then err (H2Protocol FlowControlError ''connection receive window exceeded'') c1
             else
               (let st1 = st\<lparr>st_recv_window := st_recv_window st - flow\<rparr>; c2 = put_stream s st1 c1 in
                if st_recv_window st1 < 0
                then err (H2Stream s FlowControlError ''stream receive window exceeded'') c2
                else if max_body_size (config c) < length (st_body st1) + length body
                then err (H2Stream s EnhanceYourCalm
                            (''response body exceeds limit '' @ dec_text (max_body_size (config c)))) c2
                else
                  (let st2 = st1\<lparr>st_body := st_body st1 @ body\<rparr>;
                       st3 = (if end_stream
                              then st2\<lparr>st_end_received := True, st_state := remote_end_state (st_state st2)\<rparr>
                              else st2);
                       c3 = put_stream s st3 c2 in
                   credit_windows s end_stream flow_length c3))))"

definition check_header_block_size :: "nat \<Rightarrow> connection \<Rightarrow> (fault + unit) \<times> connection" where
  "check_header_block_size n c =
     (if max_header_block_size (config c) < n
      then err (H2HeaderBlockTooLarge (max_header_block_size (config c))) c else ok () c)"

text \<open>\<open>get_mut(..).expect(..)\<close>: the stream must still be in the map.\<close>

definition expect_stream :: "stream_id \<Rightarrow> connection \<Rightarrow> (fault + stream) \<times> connection" where
  "expect_stream s c =
     (case stream_of c s of
        None \<Rightarrow> (Inl (Panic ''stream existence checked before decoding''), c)
      | Some st \<Rightarrow> ok st c)"

text \<open>The end of \<open>finish_header_block\<close>: the validated fields reach the stream.\<close>

definition store_fields :: "stream_id \<Rightarrow> bool \<Rightarrow> (stream \<Rightarrow> stream) \<Rightarrow> connection \<Rightarrow> (fault + unit) \<times> connection" where
  "store_fields s end_stream f =
     and_do (expect_stream s) (\<lambda>st.
     and_do (upd (put_stream s (f st))) (\<lambda>_.
       if end_stream then mark_remote_end s else ok ()))"

definition accept_fields :: "stream_id \<Rightarrow> bool \<Rightarrow> u16 option \<times> header_field list \<Rightarrow>
    connection \<Rightarrow> (fault + unit) \<times> connection" where
  "accept_fields s end_stream fs =
     (case fs of
        (Some code, regular) \<Rightarrow>
          if 100 \<le> code \<and> code \<le> 199 then
            (if end_stream
             then err (H2Stream s ProtocolError ''informational response ended the stream'')
             else ok ())
          else store_fields s end_stream (\<lambda>st. st\<lparr>st_status := Some code, st_headers := st_headers st @ regular\<rparr>)
      | (None, regular) \<Rightarrow>
          store_fields s end_stream (\<lambda>st. st\<lparr>st_headers := st_headers st @ regular\<rparr>))"

definition finish_decoded :: "stream_id \<Rightarrow> bool \<Rightarrow> bool \<Rightarrow> header_field list \<Rightarrow>
    connection \<Rightarrow> (fault + unit) \<times> connection" where
  "finish_decoded s trailers end_stream decoded c =
     (let limit = unat (max_header_list_size (config c)) in
      if limit < sum_list (map field_size decoded)
      then err (H2Stream s EnhanceYourCalm (''decoded header list exceeds limit '' @ dec_text limit)) c
      else if trailers \<and> \<not> end_stream
      then err (H2Stream s ProtocolError ''trailing HEADERS must carry END_STREAM'') c
      else and_do (lift_result (validate_response_fields s decoded trailers)) (accept_fields s end_stream) c)"

definition decode_block :: "bytes \<Rightarrow> connection \<Rightarrow> (fault + header_field list) \<times> connection" where
  "decode_block fragment c =
     (case hpack_decode (conn_decoder c) fragment of
        (Inl (HpackHeaderListTooLarge limit), d) \<Rightarrow> err (H2HeaderListTooLarge limit) (c\<lparr>conn_decoder := d\<rparr>)
      | (Inl e, d) \<Rightarrow> err (H2Hpack e) (c\<lparr>conn_decoder := d\<rparr>)
      | (Inr decoded, d) \<Rightarrow> ok decoded (c\<lparr>conn_decoder := d\<rparr>))"

definition finish_header_block :: "stream_id \<Rightarrow> bool \<Rightarrow> bool \<Rightarrow> bytes \<Rightarrow> connection \<Rightarrow> (fault + unit) \<times> connection" where
  "finish_header_block s trailers end_stream fragment =
     and_do (check_header_block_size (length fragment)) (\<lambda>_.
     and_do (decode_block fragment) (finish_decoded s trailers end_stream))"

definition handle_headers :: "stream_id \<Rightarrow> bool \<Rightarrow> bool \<Rightarrow> bytes \<Rightarrow> connection \<Rightarrow> (fault + unit) \<times> connection" where
  "handle_headers s end_stream end_headers fragment c =
     (case stream_of c s of
        None \<Rightarrow> err (H2Protocol ProtocolError (''HEADERS on idle '' @ stream_text s)) c
      | Some st \<Rightarrow>
          if st_end_received st then err (H2Stream s StreamClosed ''HEADERS after END_STREAM'') c
          else
            (let trailers = (st_status st \<noteq> None) in
             if end_headers then finish_header_block s trailers end_stream fragment c
             else and_do (check_header_block_size (length fragment)) (\<lambda>_ c1.
                    ok () (c1\<lparr>pending_inbound := Some \<lparr>pd_stream = s, pd_trailers = trailers,
                                 pd_end_stream = end_stream, pd_fragments = fragment\<rparr>\<rparr>)) c))"

definition handle_continuation :: "stream_id \<Rightarrow> bool \<Rightarrow> bytes \<Rightarrow> connection \<Rightarrow> (fault + unit) \<times> connection" where
  "handle_continuation s end_headers fragment c =
     (case pending_inbound c of
        None \<Rightarrow> err (H2Protocol ProtocolError ''CONTINUATION without an open header block'') c
      | Some pd \<Rightarrow>
          (let next_len = length (pd_fragments pd) + length fragment;
               pd' = pd\<lparr>pd_fragments := pd_fragments pd @ fragment\<rparr>;
               c1 = c\<lparr>pending_inbound := Some pd'\<rparr> in
           and_do (check_header_block_size next_len) (\<lambda>_ c2.
             if end_headers
             then finish_header_block (pd_stream pd') (pd_trailers pd') (pd_end_stream pd') (pd_fragments pd')
                    (c2\<lparr>pending_inbound := None\<rparr>)
             else ok () c2) c1))"

definition handle_rst_stream :: "stream_id \<Rightarrow> error_code \<Rightarrow> connection \<Rightarrow> (fault + unit) \<times> connection" where
  "handle_rst_stream s code c =
     (case stream_of c s of
        None \<Rightarrow> err (H2Protocol ProtocolError (''RST_STREAM on idle '' @ stream_text s)) c
      | Some st \<Rightarrow>
          if st_state st = SClosed then ok () c
          else err (H2StreamReset s code) (put_stream s (st\<lparr>st_state := SClosed\<rparr>) c))"

definition handle_window_update :: "stream_id \<Rightarrow> u32 \<Rightarrow> connection \<Rightarrow> (fault + unit) \<times> connection" where
  "handle_window_update s increment c =
     (let inc = uint increment in
      if is_connection s then
        (let c1 = c\<lparr>conn_send_window := conn_send_window c + inc\<rparr> in
         if MAX_WINDOW_SIZE < conn_send_window c1
         then err (H2Protocol FlowControlError ''connection send window overflow'') c1 else ok () c1)
      else case stream_of c s of
        None \<Rightarrow> err (H2Protocol ProtocolError (''WINDOW_UPDATE on idle '' @ stream_text s)) c
      | Some st \<Rightarrow>
          if st_state st = SClosed then ok () c
          else
            (let st1 = st\<lparr>st_send_window := st_send_window st + inc\<rparr>; c1 = put_stream s st1 c in
             if MAX_WINDOW_SIZE < st_send_window st1
             then err (H2Stream s FlowControlError ''stream send window overflow'') c1 else ok () c1))"

text \<open>The guard on an open header block, before any frame is dispatched.\<close>

definition check_continuation :: "frame \<Rightarrow> connection \<Rightarrow> h2_error option" where
  "check_continuation f c =
     (case pending_inbound c of
        Some pd \<Rightarrow>
          (case frame_kind f of
             KContinuation _ _ \<Rightarrow>
               if fh_stream (frame_header f) = pd_stream pd then None
               else Some (H2Protocol ProtocolError
                            ''CONTINUATION on a different stream than the open header block'')
           | _ \<Rightarrow> Some (H2Protocol ProtocolError ''header block was interrupted before END_HEADERS''))
      | None \<Rightarrow>
          (case frame_kind f of
             KContinuation _ _ \<Rightarrow>
               Some (H2Protocol ProtocolError ''CONTINUATION without a preceding HEADERS frame'')
           | _ \<Rightarrow> None))"

definition note_priority :: "connection \<Rightarrow> connection" where
  "note_priority = bump (\<lambda>x. x\<lparr>priority_frames_ignored := priority_frames_ignored x + 1\<rparr>)"

definition handle_frame :: "frame \<Rightarrow> connection \<Rightarrow> (fault + unit) \<times> connection" where
  "handle_frame f c =
     (case check_continuation f c of
        Some e \<Rightarrow> err e c
      | None \<Rightarrow>
          (let s = fh_stream (frame_header f) in
           case frame_kind f of
             KData body \<Rightarrow>
               handle_data s (fh_end_stream (frame_header f)) (fh_length (frame_header f)) body c
           | KHeaders end_stream end_headers prio fragment \<Rightarrow>
               handle_headers s end_stream end_headers fragment
                 (if prio \<noteq> None then note_priority c else c)
           | KPriority _ \<Rightarrow> ok () (note_priority c)
           | KRstStream code \<Rightarrow> handle_rst_stream s code c
           | KSettings ack settings \<Rightarrow> if ack then ok () c else acknowledge_settings settings c
           | KPushPromise _ _ _ \<Rightarrow> err (H2Unsupported ServerPush) c
           | KPing ack opaque \<Rightarrow> if \<not> ack then write_frame (frame_ping True opaque) c else ok () c
           | KGoAway last_id code debug_data \<Rightarrow>
               err (H2GoAway last_id code debug_data)
                 (c\<lparr>goaway := Some (last_id, code, debug_data), conn_state := CClosed\<rparr>)
           | KWindowUpdate increment \<Rightarrow> handle_window_update s increment c
           | KContinuation end_headers fragment \<Rightarrow> handle_continuation s end_headers fragment c
           | KUnknown _ _ \<Rightarrow>
               ok () (bump (\<lambda>x. x\<lparr>unknown_frames_ignored := unknown_frames_ignored x + 1\<rparr>) c)))"

subsection \<open>Reporting errors\<close>

definition fail_connection :: "h2_error \<Rightarrow> connection \<Rightarrow> connection" where
  "fail_connection e c =
     (if conn_state c = CClosed then c
      else
        (let code = (if h2_error_code e = NoError then InternalError else h2_error_code e);
             debug = take MAX_GOAWAY_DEBUG (to_bytes (h2_error_text e));
             c1 = snd (write_frame (frame_goaway (last_stream_id c) code debug) c)
         in (bump (\<lambda>x. x\<lparr>goaway_sent := goaway_sent x + 1\<rparr>) c1)\<lparr>conn_state := CClosed\<rparr>))"

definition report_error :: "h2_error \<Rightarrow> connection \<Rightarrow> connection" where
  "report_error e c =
     (let by_kind =
        (if h2_error_is_connection e then fail_connection e c
         else case h2_error_stream_id e of
             None \<Rightarrow> c
           | Some s \<Rightarrow>
               update_stream s (\<lambda>st. st\<lparr>st_state := SClosed\<rparr>)
                 (snd (write_frame (frame_rst_stream s (h2_error_code e)) c)))
      in case e of
           H2StreamReset s _ \<Rightarrow> update_stream s (\<lambda>st. st\<lparr>st_state := SClosed\<rparr>) c
         | H2GoAway _ _ _ \<Rightarrow> c\<lparr>conn_state := CClosed\<rparr>
         | H2ConnectionClosed \<Rightarrow> c\<lparr>conn_state := CClosed\<rparr>
         | H2Io _ \<Rightarrow> c\<lparr>conn_state := CClosed\<rparr>
         | _ \<Rightarrow> by_kind)"

text \<open>A fault that is not an error value is not reported: the code has unwound or hangs.\<close>

definition report_fault :: "fault \<Rightarrow> connection \<Rightarrow> connection" where
  "report_fault x c = (case x of Err e \<Rightarrow> report_error e c | _ \<Rightarrow> c)"

subsection \<open>Reading frames\<close>

definition buffered_frame :: "connection \<Rightarrow> ((fault + frame option) \<times> connection) option" where
  "buffered_frame c =
     (if 9 \<le> length (read_buffer c) then
        (let l = header_length (read_buffer c) in
         if max_frame_size (config c) < l
         then Some (err (H2Frame (frame_too_long l (max_frame_size (config c)))) (c\<lparr>conn_state := CClosed\<rparr>))
         else if 9 + unat l \<le> length (read_buffer c) then
           (let bs = take (9 + unat l) (read_buffer c);
                c1 = bump (\<lambda>x. x\<lparr>frames_read := frames_read x + 1\<rparr>)
                       (c\<lparr>read_buffer := drop (9 + unat l) (read_buffer c)\<rparr>)
            in Some (lift_result (map_err H2Frame (and_then (frame_decode bs (max_frame_size (config c)))
                                    (\<lambda>f. Inr (Some f)))) c1))
         else None)
      else None)"

function try_read_frame :: "connection \<Rightarrow> (fault + frame option) \<times> connection" where
  "try_read_frame c =
     (case buffered_frame c of
        Some r \<Rightarrow> r
      | None \<Rightarrow>
          (case io_read 16384 (io c) of
             (Inr [], t) \<Rightarrow>
               (let c1 = c\<lparr>io := t, conn_state := CClosed\<rparr> in
                if read_buffer c1 = [] then err H2ConnectionClosed c1
                else err (H2Io ''connection ended inside an HTTP/2 frame'') c1)
           | (Inr (b # bs), t) \<Rightarrow> try_read_frame (c\<lparr>io := t, read_buffer := read_buffer c @ b # bs\<rparr>)
           | (Inl WouldBlock, t) \<Rightarrow> ok None (c\<lparr>io := t\<rparr>)
           | (Inl TimedOut, t) \<Rightarrow> ok None (c\<lparr>io := t\<rparr>)
           | (Inl Interrupted, t) \<Rightarrow> try_read_frame (c\<lparr>io := t\<rparr>)
           | (Inl e, t) \<Rightarrow> err (H2Io (io_error_text e)) (c\<lparr>io := t, conn_state := CClosed\<rparr>)))"
  by pat_completeness auto
termination
  by (relation "measure (\<lambda>c. script_size (io c))")
     (auto dest: io_read_error_shrinks [OF sym] io_read_bytes_shrinks [OF sym])

declare try_read_frame.simps [simp del]

definition read_next_frame :: "connection \<Rightarrow> (fault + frame) \<times> connection" where
  "read_next_frame =
     and_do try_read_frame (\<lambda>f c.
       (case f of
          Some x \<Rightarrow> ok x c
        | None \<Rightarrow> err (H2Io ''timed out waiting for the next HTTP/2 frame'') (c\<lparr>conn_state := CClosed\<rparr>)))"

definition pump_one_frame :: "connection \<Rightarrow> (fault + unit) \<times> connection" where
  "pump_one_frame c =
     (case and_do read_next_frame handle_frame c of
        (Inl e, c1) \<Rightarrow> (Inl e, report_fault e c1)
      | (Inr u, c1) \<Rightarrow> (Inr u, c1))"

definition read_initial_settings :: "connection \<Rightarrow> (fault + unit) \<times> connection" where
  "read_initial_settings =
     and_do read_next_frame (\<lambda>f.
       (case frame_kind f of
          KSettings ack settings \<Rightarrow>
            if \<not> ack then acknowledge_settings settings
            else err (H2Protocol ProtocolError ''server preface must start with non-ACK SETTINGS'')
        | _ \<Rightarrow> err (H2Protocol ProtocolError ''server preface must start with SETTINGS'')))"

subsection \<open>What a step leaves alone\<close>

text \<open>
  What is still to be read and the configuration, and with them the log of what was written: only
  reading frames changes the first, only writing them the second.
\<close>

definition inputs :: "connection \<Rightarrow> read_event list \<times> bytes \<times> config" where
  "inputs c = (reads (io c), read_buffer c, config c)"

definition traffic :: "connection \<Rightarrow> (read_event list \<times> bytes \<times> config) \<times> bytes list" where
  "traffic c = (inputs c, sent (io c))"

lemma traffic_simps [simp]:
  "traffic (c\<lparr>streams := x1\<rparr>) = traffic c" "traffic (c\<lparr>conn_state := x2\<rparr>) = traffic c"
  "traffic (c\<lparr>stats := x3\<rparr>) = traffic c" "traffic (c\<lparr>peer := x4\<rparr>) = traffic c"
  "traffic (c\<lparr>conn_encoder := x5\<rparr>) = traffic c" "traffic (c\<lparr>conn_decoder := x6\<rparr>) = traffic c"
  "traffic (c\<lparr>conn_send_window := x7\<rparr>) = traffic c" "traffic (c\<lparr>conn_recv_window := x7\<rparr>) = traffic c"
  "traffic (c\<lparr>pending_inbound := x8\<rparr>) = traffic c" "traffic (c\<lparr>goaway := x9\<rparr>) = traffic c"
  "traffic (c\<lparr>stream_errors := x10\<rparr>) = traffic c" "traffic (c\<lparr>next_stream_id := x11\<rparr>) = traffic c"
  "traffic (put_stream s st c) = traffic c" "traffic (drop_stream s c) = traffic c"
  "traffic (bump f c) = traffic c" "traffic (note_priority c) = traffic c"
  by (simp_all add: traffic_def inputs_def put_stream_def drop_stream_def bump_def note_priority_def)

lemma traffic_update_stream [simp]: "traffic (update_stream s f c) = traffic c"
  by (simp add: update_stream_def split: option.split)

lemma frame_write_to_spec:
  assumes "frame_write_to f t = (r, t')"
  shows "reads t' = reads t \<and>
    (case r of Inl e \<Rightarrow> sent t' = sent t
     | Inr _ \<Rightarrow> \<exists>bs. frame_encode f = Inr bs \<and> sent t' = sent t @ [bs])"
proof (cases "frame_encode f")
  case (Inl e)
  then show ?thesis using assms by (auto simp: frame_write_to_def)
next
  case (Inr bs)
  obtain q t1 where "io_write_all bs t = (q, t1)" by fastforce
  with io_write_all_sent [OF this] Inr assms show ?thesis
    by (cases q) (auto simp: frame_write_to_def)
qed

text \<open>
  The whole effect of writing a frame: the log grows by the encoded frame when the step succeeds (and
  at most by it when the flush fails); apart from the transport only the counter and, on a failed
  write, the state change.
\<close>

lemma write_frame_spec:
  assumes "write_frame f c = (r, c')"
  shows "\<exists>t n st. c' = c\<lparr>io := t, stats := (stats c)\<lparr>frames_written := n\<rparr>, conn_state := st\<rparr> \<and>
    reads t = reads (io c) \<and> (st = conn_state c \<or> st = CClosed) \<and>
    (sent t = sent (io c) \<or> (\<exists>bs. frame_encode f = Inr bs \<and> sent t = sent (io c) @ [bs])) \<and>
    (r = Inr () \<longrightarrow> st = conn_state c \<and> (\<exists>bs. frame_encode f = Inr bs \<and> sent t = sent (io c) @ [bs])) \<and>
    (r \<noteq> Inr () \<longrightarrow> (\<exists>e. r = Inl (Err e)))"
proof -
  obtain q t where q: "frame_write_to f (io c) = (q, t)" by fastforce
  note spec = frame_write_to_spec [OF q]
  show ?thesis
  proof (cases q)
    case (Inl e)
    define st where "st = (case e of FrameIo _ \<Rightarrow> CClosed | _ \<Rightarrow> conn_state c)"
    have "c' = c\<lparr>io := t, stats := (stats c)\<lparr>frames_written := frames_written (stats c)\<rparr>, conn_state := st\<rparr>"
      using q assms Inl by (cases e) (auto simp: write_frame_def st_def intro!: connection.equality)
    moreover have "st = conn_state c \<or> st = CClosed" by (simp add: st_def split: frame_error.split)
    moreover have "\<exists>e. r = Inl (Err e)"
      using q assms Inl by (cases e) (auto simp: write_frame_def)
    ultimately show ?thesis using spec Inl
      by (intro exI [of _ t] exI [of _ "frames_written (stats c)"] exI [of _ st] conjI) auto
  next
    case (Inr u)
    obtain p t' where p: "io_flush t = (p, t')" by fastforce
    from io_flush_frame [OF this] p q Inr assms spec show ?thesis
      by (cases p) (auto simp: write_frame_def bump_def Let_def
        intro!: exI [of _ t'] exI [of _ "Suc (frames_written (stats c))"] exI [of _ "conn_state c"])
  qed
qed

text \<open>
  Handling a frame writes control frames only.  A relation between states that ignores everything but
  the traffic, composes, and holds across the writing of a control frame, holds across every handler.
\<close>

definition control_frame :: "frame \<Rightarrow> bool" where
  "control_frame f \<longleftrightarrow> (case frame_kind f of
     KData _ \<Rightarrow> False | KHeaders _ _ _ _ \<Rightarrow> False | KContinuation _ _ \<Rightarrow> False | _ \<Rightarrow> True)"

lemma control_frames [simp]:
  "control_frame (frame_window_update s n)" "control_frame frame_settings_ack"
  "control_frame (frame_settings ss)" "control_frame (frame_ping b bs)"
  "control_frame (frame_goaway s code bs)" "control_frame (frame_rst_stream s code)"
  by (simp_all add: control_frame_def frame_window_update_def frame_settings_ack_def frame_settings_def
      frame_ping_def frame_goaway_def frame_rst_stream_def mk_frame_def)

definition follows :: "('s \<Rightarrow> 's \<Rightarrow> bool) \<Rightarrow> ('s \<Rightarrow> 'r \<times> 's) \<Rightarrow> bool" where
  "follows R m \<longleftrightarrow> (\<forall>c. R c (snd (m c)))"

lemma followsD: "follows R m \<Longrightarrow> m c = (r, c') \<Longrightarrow> R c c'"
  by (metis follows_def snd_conv)

locale write_relation =
  fixes R :: "connection \<Rightarrow> connection \<Rightarrow> bool"
  assumes silent: "traffic c' = traffic c \<Longrightarrow> R c c'"
    and trans: "R a b \<Longrightarrow> R b c \<Longrightarrow> R a c"
    and writes: "control_frame f \<Longrightarrow> R c (snd (write_frame f c))"
begin

lemma followsI: "(\<And>c. R c (snd (m c))) \<Longrightarrow> follows R m"
  by (simp add: follows_def)

lemma follows_snd: "follows R m \<Longrightarrow> R c (snd (m c))"
  by (simp add: follows_def)

lemma after: "traffic c1 = traffic c \<Longrightarrow> R c1 c' \<Longrightarrow> R c c'"
  using silent trans by blast

lemma and_do_snd:
  assumes "R c (snd (m c))" "\<And>a c1. m c = (Inr a, c1) \<Longrightarrow> R c1 (snd (k a c1))"
  shows "R c (snd (and_do m k c))"
proof (cases "m c")
  case (Pair r c1)
  then show ?thesis using assms trans by (cases r) (auto simp: and_do_def)
qed

lemma if_snd: "(b \<Longrightarrow> R c (snd x)) \<Longrightarrow> (\<not> b \<Longrightarrow> R c (snd y)) \<Longrightarrow> R c (snd (if b then x else y))"
  by simp

lemma and_do [intro]: "follows R m \<Longrightarrow> (\<And>a. follows R (k a)) \<Longrightarrow> follows R (and_do m k)"
  by (simp add: follows_def and_do_snd)

lemma ok_err [intro, simp]: "follows R (ok a)" "follows R (err e)"
  by (simp_all add: follows_def silent)

lemma upd [intro]: "(\<And>c. traffic (f c) = traffic c) \<Longrightarrow> follows R (upd f)"
  by (simp add: follows_def silent)

lemma write_control: "control_frame f \<Longrightarrow> follows R (write_frame f)"
  by (simp add: follows_def writes)

lemma apply_setting: "follows R (apply_setting x)"
  by (rule followsI, rule silent) (simp add: apply_setting_def Let_def split: setting_id.split prod.split)

lemma apply_peer_settings: "follows R (apply_peer_settings ss)"
proof (induction ss)
  case Nil
  show ?case by (rule followsI) (simp add: silent)
next
  case (Cons x ss)
  have "apply_peer_settings (x # ss) = and_do (apply_setting x) (\<lambda>_. apply_peer_settings ss)"
    by (rule ext) simp
  then show ?case using Cons apply_setting by (simp add: and_do)
qed

lemma acknowledge_settings: "follows R (acknowledge_settings ss)"
  unfolding acknowledge_settings_def by (intro and_do apply_peer_settings write_control upd) simp_all

lemma send_window_update: "follows R (send_window_update s n)"
  unfolding send_window_update_def
  by (rule followsI, rule if_snd, simp add: silent, rule and_do_snd) (simp_all add: writes silent)

lemma mark_end: "follows R (mark_local_end s)" "follows R (mark_remote_end s)"
  by (auto intro!: followsI silent simp: mark_local_end_def mark_remote_end_def split: option.split)

lemma credit_windows: "follows R (credit_windows s es n)"
  unfolding credit_windows_def by (auto intro!: and_do upd send_window_update)

lemma handle_data: "follows R (handle_data s es n body)"
  using follows_snd [OF credit_windows]
  by (intro followsI) (auto simp: handle_data_def Let_def intro: silent after [OF _ follows_snd [OF credit_windows]]
      split: option.split)

lemma check_header_block_size: "follows R (check_header_block_size n)"
  by (rule followsI, rule silent) (simp add: check_header_block_size_def)

lemma expect_stream: "follows R (expect_stream s)"
  by (rule followsI, rule silent) (simp add: expect_stream_def split: option.split)

lemma decode_block: "follows R (decode_block fragment)"
  by (rule followsI, rule silent)
     (auto simp: decode_block_def split: prod.split sum.split hpack_error.split)

lemma store_fields: "follows R (store_fields s es f)"
  unfolding store_fields_def by (auto intro!: and_do upd expect_stream mark_end)

lemma accept_fields: "follows R (accept_fields s es fs)"
  unfolding accept_fields_def by (auto intro: store_fields split: prod.split option.split)

lemma finish_decoded: "follows R (finish_decoded s trailers es decoded)"
  unfolding finish_decoded_def Let_def
  by (rule followsI, (rule if_snd, simp add: silent)+, rule and_do_snd)
     (simp_all add: lift_result_def silent follows_snd [OF accept_fields])

lemma finish_header_block: "follows R (finish_header_block s trailers es fragment)"
  unfolding finish_header_block_def by (intro and_do check_header_block_size decode_block finish_decoded)

lemma handle_headers: "follows R (handle_headers s es eh fragment)"
proof (rule followsI)
  fix c
  show "R c (snd (handle_headers s es eh fragment c))"
  proof (cases "stream_of c s")
    case (Some st)
    then show ?thesis
      unfolding handle_headers_def Some option.case Let_def
      by (intro if_snd and_do_snd) (simp_all add: silent follows_snd [OF finish_header_block]
          follows_snd [OF check_header_block_size])
  qed (simp add: handle_headers_def silent)
qed

lemma handle_continuation: "follows R (handle_continuation s eh fragment)"
proof (rule followsI)
  fix c
  show "R c (snd (handle_continuation s eh fragment c))"
  proof (cases "pending_inbound c")
    case (Some pd)
    let ?c1 = "c\<lparr>pending_inbound := Some (pd\<lparr>pd_fragments := pd_fragments pd @ fragment\<rparr>)\<rparr>"
    have "R ?c1 (snd (handle_continuation s eh fragment c))"
      unfolding handle_continuation_def Some option.case Let_def
      by (rule and_do_snd)
         (auto intro: silent follows_snd [OF check_header_block_size] after [OF _ follows_snd [OF finish_header_block]])
    then show ?thesis by (rule after [rotated]) simp
  qed (simp add: handle_continuation_def silent)
qed

lemma handle_rst_window: "follows R (handle_rst_stream s code)" "follows R (handle_window_update s n)"
  by (auto intro!: followsI silent simp: handle_rst_stream_def handle_window_update_def Let_def
      split: option.split)

lemma handle_frame: "follows R (handle_frame f)"
proof (rule followsI)
  fix c
  have "traffic (c\<lparr>goaway := x, conn_state := y\<rparr>) = traffic c" for x y by simp
  then show "R c (snd (handle_frame f c))"
    using follows_snd [OF handle_data] follows_snd [OF handle_headers] follows_snd [OF handle_continuation]
      follows_snd [OF handle_rst_window(1)] follows_snd [OF handle_rst_window(2)]
      follows_snd [OF acknowledge_settings] writes after [OF _ follows_snd [OF handle_headers]] silent
    by (cases "check_continuation f c"; cases "frame_kind f") (simp_all add: handle_frame_def Let_def)
qed

lemma fail_connection: "R c (fail_connection e c)"
proof -
  let ?f = "frame_goaway (last_stream_id c) (if h2_error_code e = NoError then InternalError else h2_error_code e)
    (take MAX_GOAWAY_DEBUG (to_bytes (h2_error_text e)))"
  have "R c (snd (write_frame ?f c))" by (simp add: writes)
  then have "R c ((bump g (snd (write_frame ?f c)))\<lparr>conn_state := x\<rparr>)" for g x
    by (rule trans) (simp add: silent)
  then show ?thesis by (simp add: fail_connection_def Let_def silent)
qed

lemma report_error: "R c (report_error e c)"
proof -
  have "R c (update_stream s g (snd (write_frame (frame_rst_stream s code) c)))" for s g code
    by (rule trans [OF writes [of "frame_rst_stream s code"]]) (simp_all add: silent)
  then show ?thesis
    using fail_connection silent by (simp add: report_error_def Let_def split: h2_error.split option.split)
qed

lemma report_fault: "R c (report_fault x c)"
  by (simp add: report_fault_def report_error silent split: fault.split)

end

interpretation kept: write_relation "\<lambda>c c'. inputs c' = inputs c"
proof
  fix f c assume "control_frame f"
  obtain r c' where "write_frame f c = (r, c')" by fastforce
  from write_frame_spec [OF this] this show "inputs (snd (write_frame f c)) = inputs c"
    by (auto simp: inputs_def)
qed (auto simp: traffic_def)

text \<open>The log of a connection grew by the encodings of frames that satisfy \<open>P\<close>.\<close>

definition encodings :: "frame list \<Rightarrow> bytes list" where
  "encodings fs = map (\<lambda>f. projr (frame_encode f)) fs"

definition wrote :: "frame list \<Rightarrow> connection \<Rightarrow> connection \<Rightarrow> bool" where
  "wrote fs c c' \<longleftrightarrow> (\<forall>f \<in> set fs. is_ok (frame_encode f)) \<and> sent (io c') = sent (io c) @ encodings fs"

definition wrote_control :: "connection \<Rightarrow> connection \<Rightarrow> bool" where
  "wrote_control c c' \<longleftrightarrow> (\<exists>fs. wrote fs c c' \<and> (\<forall>f \<in> set fs. control_frame f))"

lemma wrote_Nil: "wrote [] c c' \<longleftrightarrow> sent (io c') = sent (io c)"
  by (simp add: wrote_def encodings_def)

lemma wrote_append: "wrote fs a b \<Longrightarrow> wrote gs b c \<Longrightarrow> wrote (fs @ gs) a c"
  by (auto simp: wrote_def encodings_def)

lemma write_frame_wrote: "write_frame f c = (Inr u, c') \<Longrightarrow> wrote [f] c c'"
  using write_frame_spec [of f c "Inr u" c'] by (auto simp: wrote_def encodings_def)

interpretation control: write_relation wrote_control
proof
  show "traffic c' = traffic c \<Longrightarrow> wrote_control c c'" for c c'
    by (auto simp: wrote_control_def traffic_def wrote_Nil intro!: exI [of _ "[]"])
  show "wrote_control a c" if "wrote_control a b" "wrote_control b c" for a b c
  proof -
    from that obtain fs gs where "wrote fs a b" "wrote gs b c" "\<forall>f \<in> set fs \<union> set gs. control_frame f"
      by (auto simp: wrote_control_def)
    then show ?thesis using wrote_append unfolding wrote_control_def by (intro exI [of _ "fs @ gs"]) auto
  qed
  fix f c assume f: "control_frame f"
  obtain r c' where w: "write_frame f c = (r, c')" by fastforce
  from write_frame_spec [OF w] have
    "sent (io c') = sent (io c) \<or> (\<exists>bs. frame_encode f = Inr bs \<and> sent (io c') = sent (io c) @ [bs])" by auto
  then have "wrote [] c c' \<or> wrote [f] c c'" by (auto simp: wrote_def encodings_def)
  with f w show "wrote_control c (snd (write_frame f c))"
    unfolding wrote_control_def by (metis list.set(1) empty_iff snd_conv set_ConsD)
qed

subsection \<open>Every frame that is read consumes input\<close>

definition input_size :: "connection \<Rightarrow> nat" where
  "input_size c = script_size (io c) + length (read_buffer c)"

lemma input_size_inputs: "inputs c' = inputs c \<Longrightarrow> input_size c' = input_size c"
  by (simp add: inputs_def input_size_def script_size_def)

lemma io_read_size: "io_read n t = (Inr bs, t') \<Longrightarrow> script_size t' + length bs \<le> script_size t"
  by (auto simp: io_read_def script_size_def event_size_def split: list.splits read_event.splits if_splits)

lemma try_read_frame_size:
  "try_read_frame c = (r, c') \<Longrightarrow>
     input_size c' \<le> input_size c \<and> (\<forall>f. r = Inr (Some f) \<longrightarrow> input_size c' < input_size c)"
proof (induction c arbitrary: r c' rule: try_read_frame.induct)
  case (1 c)
  show ?case
  proof (cases "buffered_frame c")
    case (Some q)
    with 1(3) have "q = (r, c')" by (simp add: try_read_frame.simps [of c])
    with Some show ?thesis
      by (auto simp: buffered_frame_def Let_def input_size_def bump_def lift_result_def split: if_splits)
  next
    case None
    obtain q t where q: "io_read 16384 (io c) = (q, t)" by fastforce
    show ?thesis
    proof (cases "(\<exists>b bs. q = Inr (b # bs)) \<or> q = Inl Interrupted")
      case False
      with q None 1(3) io_read_error_shrinks [of 16384 "io c"] io_read_size [of 16384 "io c"]
      show ?thesis
        by (subst (asm) try_read_frame.simps)
           (fastforce simp: input_size_def Let_def split: sum.splits list.splits io_error.splits if_splits)
    next
      case True
      then show ?thesis
      proof
        assume "\<exists>b bs. q = Inr (b # bs)"
        then obtain b bs where b: "q = Inr (b # bs)" by auto
        let ?c = "c\<lparr>io := t, read_buffer := read_buffer c @ b # bs\<rparr>"
        from b q None 1(3) have "try_read_frame ?c = (r, c')" by (simp add: try_read_frame.simps [of c])
        from 1(2) [OF None q [symmetric] b refl this] io_read_size [OF q [unfolded b]] show ?thesis
          by (auto simp: input_size_def)
      next
        assume i: "q = Inl Interrupted"
        with q None 1(3) have "try_read_frame (c\<lparr>io := t\<rparr>) = (r, c')" by (simp add: try_read_frame.simps [of c])
        from 1(1) [OF None q [symmetric] i refl this] io_read_error_shrinks [OF q [unfolded i]] show ?thesis
          by (auto simp: input_size_def)
      qed
    qed
  qed
qed

lemma pump_one_frame_size: "pump_one_frame c = (Inr u, c') \<Longrightarrow> input_size c' < input_size c"
proof -
  assume "pump_one_frame c = (Inr u, c')"
  then obtain f c1 where f: "try_read_frame c = (Inr (Some f), c1)" "handle_frame f c1 = (Inr u, c')"
    by (auto simp: pump_one_frame_def read_next_frame_def result_simps split: prod.splits sum.splits option.splits)
  from try_read_frame_size [OF f(1)] input_size_inputs [OF followsD [OF kept.handle_frame f(2)]]
  show ?thesis by simp
qed

end
