(* ===== verification/H2Client.thy ===== *)
theory H2Client
  imports H2Connection
begin

text \<open>
  What a caller of an HTTP/2 connection does with it
  (\<^verbatim>\<open>crates/render-net/src/h2/connection.rs\<close>): connecting, sending a request with its header
  block and its flow-controlled body, polling for frames, taking responses, cancelling and closing.
  \<open>h2_op\<close> collects the operations and \<open>reachable\<close> the states they lead to.
\<close>

subsection \<open>Connecting\<close>

definition connection_new :: "transport \<Rightarrow> config \<Rightarrow> connection" where
  "connection_new t cfg =
     \<lparr>io = t, config = cfg, conn_state = COpen,
      conn_encoder = encoder_new 4096,
      conn_decoder = with_header_list_limit (unat (max_header_list_size cfg))
                       (decoder_new (unat (header_table_size cfg))),
      peer = peer_default, next_stream_id = 1, streams = [], stream_errors = [],
      conn_send_window = INITIAL_CONNECTION_WINDOW, conn_recv_window = INITIAL_CONNECTION_WINDOW,
      pending_inbound = None, read_buffer = [], goaway = None, stats = stats_default\<rparr>"

definition connect :: "transport \<Rightarrow> config \<Rightarrow> (fault + unit) \<times> connection" where
  "connect t cfg =
     and_do (lift_result (config_validate cfg)) (\<lambda>_.
     and_do write_connection_preface (\<lambda>_.
     and_do send_local_settings (\<lambda>_ c.
       (case read_initial_settings c of
          (Inl (Err e), c1) \<Rightarrow>
            (Inl (Err e), if h2_error_is_connection e then fail_connection e c1 else c1)
        | r \<Rightarrow> r)))) (connection_new t cfg)"

subsection \<open>Sending a request\<close>

definition allocate_stream_id :: "connection \<Rightarrow> (fault + stream_id) \<times> connection" where
  "allocate_stream_id c =
     (let raw = next_stream_id c in
      if 0x7fffffff < raw then err H2StreamIdExhausted c
      else if 2 ^ 32 \<le> unat raw + 2 then err H2StreamIdExhausted c
      else ok (stream_new raw) (c\<lparr>next_stream_id := raw + 2\<rparr>))"

function send_continuations :: "stream_id \<Rightarrow> bytes \<Rightarrow> nat \<Rightarrow> nat \<Rightarrow> connection \<Rightarrow> (fault + unit) \<times> connection" where
  "send_continuations s block limit offset c =
     (if offset < length block then
        (let finish = min (offset + limit) (length block);
             end_headers = (finish = length block) in
         and_do (write_frame (frame_continuation s end_headers (take (finish - offset) (drop offset block)))) (\<lambda>_ c1.
           if finish \<le> offset then (Inl Hang, c1)
           else send_continuations s block limit finish c1) c)
      else ok () c)"
  by pat_completeness auto
termination
  by (relation "measure (\<lambda>(s, block, limit, offset, c). length block - offset)") auto

declare send_continuations.simps [simp del]

definition send_header_block :: "stream_id \<Rightarrow> bool \<Rightarrow> bytes \<Rightarrow> connection \<Rightarrow> (fault + unit) \<times> connection" where
  "send_header_block s end_stream block c =
     (let limit = unat (peer_max_frame (peer c));
          first_end = (length block \<le> limit);
          first_len = min (length block) limit in
      and_do (write_frame (frame_headers s end_stream first_end None (take first_len block))) (\<lambda>_.
        send_continuations s block limit first_len) c)"

definition send_available :: "stream_id \<Rightarrow> connection \<Rightarrow> int" where
  "send_available s c =
     max (min (conn_send_window c) (case stream_of c s of None \<Rightarrow> 0 | Some st \<Rightarrow> st_send_window st)) 0"

text \<open>The inner loop of \<open>send_body\<close>: frames are processed until both windows are open.\<close>

function wait_for_window :: "stream_id \<Rightarrow> connection \<Rightarrow> (fault + int) \<times> connection" where
  "wait_for_window s c =
     (if (case stream_of c s of None \<Rightarrow> False | Some st \<Rightarrow> st_end_received st)
      then err (H2Stream s StreamClosed ''peer ended the stream before the request body was sent'') c
      else if 0 < send_available s c then ok (send_available s c) c
      else and_do pump_one_frame (\<lambda>_. wait_for_window s) c)"
  by pat_completeness auto
termination
  by (relation "measure (\<lambda>(s, c). input_size c)") (auto dest: pump_one_frame_size)

declare wait_for_window.simps [simp del]

definition send_chunk :: "stream_id \<Rightarrow> bytes \<Rightarrow> nat \<Rightarrow> int \<Rightarrow> connection \<Rightarrow> (fault + nat) \<times> connection" where
  "send_chunk s body offset available c =
     (let max_frame = unat (peer_max_frame (peer c));
          remaining = length body - offset;
          chunk = min (min (nat available) max_frame) remaining;
          fin = (offset + chunk = length body) in
      and_do (write_frame (frame_data s fin (take chunk (drop offset body)))) (\<lambda>_.
      and_do (upd (\<lambda>c1. update_stream s (\<lambda>st. st\<lparr>st_send_window := st_send_window st - int chunk\<rparr>)
                          (c1\<lparr>conn_send_window := conn_send_window c1 - int chunk\<rparr>))) (\<lambda>_.
      and_do (if fin then mark_local_end s else ok ()) (\<lambda>_.
        ok (offset + chunk)))) c)"

function send_body_loop :: "stream_id \<Rightarrow> bytes \<Rightarrow> nat \<Rightarrow> connection \<Rightarrow> (fault + unit) \<times> connection" where
  "send_body_loop s body offset c =
     (if offset < length body then
        and_do (wait_for_window s) (\<lambda>available.
        and_do (send_chunk s body offset available) (\<lambda>offset' c1.
          if offset' \<le> offset then (Inl Hang, c1) else send_body_loop s body offset' c1)) c
      else ok () c)"
  by pat_completeness auto
termination
  by (relation "measure (\<lambda>(s, body, offset, c). length body - offset)") auto

declare send_body_loop.simps [simp del]

definition send_body :: "stream_id \<Rightarrow> bytes \<Rightarrow> connection \<Rightarrow> (fault + unit) \<times> connection" where
  "send_body s body = send_body_loop s body 0"

definition active_streams :: "connection \<Rightarrow> nat" where
  "active_streams c = length (filter (\<lambda>(s, st). is_active st) (streams c))"

text \<open>The part of \<open>send_request\<close> after the checks.\<close>

definition open_stream :: "request \<Rightarrow> connection \<Rightarrow> (fault + stream_id) \<times> connection" where
  "open_stream r c =
     (let (e, block) = hpack_encode (conn_encoder c) (request_fields r) in
      and_do allocate_stream_id (\<lambda>s.
        (let body = (case rq_body r of None \<Rightarrow> [] | Some b \<Rightarrow> b); end_on_headers = (body = []) in
         and_do (upd (\<lambda>c1. put_stream s
                   (stream_init (peer_initial_window (peer c1)) (initial_window_size (config c1))) c1)) (\<lambda>_.
         and_do (send_header_block s end_on_headers block) (\<lambda>_.
         and_do (if end_on_headers then mark_local_end s else send_body s body) (\<lambda>_.
           ok s))))) (c\<lparr>conn_encoder := e\<rparr>))"

definition send_request :: "request \<Rightarrow> connection \<Rightarrow> (fault + stream_id) \<times> connection" where
  "send_request r =
     and_do ensure_open (\<lambda>_.
     and_do (lift_result (validate_request r)) (\<lambda>_ c.
       (case peer_max_concurrent (peer c) of
          Some limit \<Rightarrow>
            if unat limit \<le> active_streams c then err (H2ConcurrentStreamLimit limit) c
            else open_stream r c
        | None \<Rightarrow> open_stream r c)))"

subsection \<open>Receiving\<close>

function read_response_loop :: "stream_id \<Rightarrow> connection \<Rightarrow> (fault + response) \<times> connection" where
  "read_response_loop s c =
     (case completed_response s c of
        Inl e \<Rightarrow> err e c
      | Inr (Some r) \<Rightarrow> ok r c
      | Inr None \<Rightarrow> and_do pump_one_frame (\<lambda>_. read_response_loop s) c)"
  by pat_completeness auto
termination
  by (relation "measure (\<lambda>(s, c). input_size c)") (auto dest: pump_one_frame_size)

declare read_response_loop.simps [simp del]

definition read_response :: "stream_id \<Rightarrow> connection \<Rightarrow> (fault + response) \<times> connection" where
  "read_response s =
     and_do ensure_open (\<lambda>_ c.
       if stream_of c s = None
       then err (H2InvalidRequest (stream_text s @ '' was not opened by this connection'')) c
       else read_response_loop s c)"

definition fatal_error :: "h2_error \<Rightarrow> bool" where
  "fatal_error e \<longleftrightarrow> h2_error_is_connection e \<or>
     (case e of H2GoAway _ _ _ \<Rightarrow> True | H2ConnectionClosed \<Rightarrow> True | H2Io _ \<Rightarrow> True | _ \<Rightarrow> False)"

definition poll_frame :: "connection \<Rightarrow> (fault + bool) \<times> connection" where
  "poll_frame =
     and_do ensure_open (\<lambda>_.
     and_do try_read_frame (\<lambda>f c.
       (case f of
          None \<Rightarrow> ok False c
        | Some frame \<Rightarrow>
            (case handle_frame frame c of
               (Inr _, c1) \<Rightarrow> ok True c1
             | (Inl (Err e), c1) \<Rightarrow>
                 (let c2 = report_error e c1 in
                  if fatal_error e then err e c2
                  else case h2_error_stream_id e of
                      Some s \<Rightarrow> ok True (c2\<lparr>stream_errors := AList.update s e (stream_errors c2)\<rparr>)
                    | None \<Rightarrow> err e c2)
             | (Inl x, c1) \<Rightarrow> (Inl x, c1)))))"

definition take_response :: "stream_id \<Rightarrow> connection \<Rightarrow> (fault + response option) \<times> connection" where
  "take_response s c =
     (case map_of (stream_errors c) s of
        Some e \<Rightarrow> err e (drop_stream s (c\<lparr>stream_errors := AList.delete s (stream_errors c)\<rparr>))
      | None \<Rightarrow>
          (case completed_response s c of
             Inl e \<Rightarrow> err e c
           | Inr None \<Rightarrow> ok None c
           | Inr (Some r) \<Rightarrow> ok (Some r) (drop_stream s c)))"

subsection \<open>Cancelling and closing\<close>

definition cancel_stream :: "stream_id \<Rightarrow> connection \<Rightarrow> (fault + unit) \<times> connection" where
  "cancel_stream s c =
     (case stream_of c s of
        None \<Rightarrow> ok () c
      | Some st \<Rightarrow>
          (let already_closed = (st_state st = SClosed);
               connection_closed = (conn_state c = CClosed);
               c1 = (drop_stream s c)\<lparr>stream_errors := AList.delete s (stream_errors c)\<rparr> in
           if already_closed \<or> connection_closed then ok () c1
           else write_frame (frame_rst_stream s Cancel) c1))"

definition close :: "connection \<Rightarrow> (fault + unit) \<times> connection" where
  "close c =
     (if conn_state c = COpen then
        (case write_frame (frame_goaway (last_stream_id c) NoError []) c of
           (r, c1) \<Rightarrow> (r, (bump (\<lambda>x. x\<lparr>goaway_sent := goaway_sent x + 1\<rparr>) c1)\<lparr>conn_state := CClosed\<rparr>))
      else ok () c)"

subsection \<open>Runs\<close>

datatype h2_op = OpRequest request | OpRead stream_id | OpPoll | OpTake stream_id | OpCancel stream_id | OpClose

fun apply_op :: "h2_op \<Rightarrow> connection \<Rightarrow> (fault + unit) \<times> connection" where
  "apply_op (OpRequest r) = and_do (send_request r) (\<lambda>_. ok ())"
| "apply_op (OpRead s) = and_do (read_response s) (\<lambda>_. ok ())"
| "apply_op OpPoll = and_do poll_frame (\<lambda>_. ok ())"
| "apply_op (OpTake s) = and_do (take_response s) (\<lambda>_. ok ())"
| "apply_op (OpCancel s) = cancel_stream s"
| "apply_op OpClose = close"

text \<open>
  The states a caller can see: a connection that was made, and what any operation leaves behind,
  whether it succeeds or returns an error; after a panic there is no state.
\<close>

inductive reachable :: "connection \<Rightarrow> bool" where
  connected: "connect t cfg = (Inr (), c) \<Longrightarrow> reachable c"
| operated: "reachable c \<Longrightarrow> apply_op x c = (r, c') \<Longrightarrow> (\<forall>p. r \<noteq> Inl (Panic p)) \<Longrightarrow> reachable c'"

end
