(* ===== verification/H2Invariant.thy ===== *)
theory H2Invariant
  imports H2Client
begin

text \<open>
  The invariant of an HTTP/2 connection and that every operation keeps it: the configuration and the
  peer's settings stay legal, stream identifiers are client-initiated, distinct and below the next
  one, every stream's state agrees with its end flags, bodies and the read buffer are bounded, a
  stream only ends with a status, the HPACK tables are bounded, and while the connection is open its
  windows and the open header block are within their limits.
\<close>

subsection \<open>What the parser guarantees of a frame\<close>

definition wire_frame :: "frame \<Rightarrow> bool" where
  "wire_frame f \<longleftrightarrow> (\<exists>bs limit. frame_decode bs limit = Inr f)"

lemma wire_frame_kind:
  assumes "wire_frame f"
  shows "frame_kind f = KSettings ack ss \<Longrightarrow> x \<in> set ss \<Longrightarrow> setting_valid x"
    and "frame_kind f = KWindowUpdate n \<Longrightarrow> n \<noteq> 0 \<and> uint n \<le> 0x7fffffff"
proof -
  obtain bs l t flags s p where f: "decode_frame l t flags s p = Inr f"
    using assms by (auto simp: wire_frame_def frame_decode_def Let_def split: if_splits)
  show "setting_valid x" if k: "frame_kind f = KSettings ack ss" and x: "x \<in> set ss"
  proof (cases t)
    case TSettings
    with f k x show ?thesis
      by (auto simp: decode_frame_def result_simps Let_def dest: decode_settings_valid split: if_splits)
  qed (use f k in \<open>auto simp: decode_frame_def result_simps Let_def split: if_splits\<close>)
  have small: "uint (take_bit 31 w) \<le> 0x7fffffff" for w :: u32
    using take_bit_int_less_exp [of 31 "uint w"] by (simp add: unsigned_take_bit_eq)
  show "n \<noteq> 0 \<and> uint n \<le> 0x7fffffff" if k: "frame_kind f = KWindowUpdate n"
  proof (cases t)
    case TWindowUpdate
    with f k small show ?thesis
      by (auto simp: decode_frame_def result_simps Let_def and_31 split: if_splits)
  qed (use f k in \<open>auto simp: decode_frame_def result_simps Let_def split: if_splits\<close>)
qed

text \<open>
  What reading a frame can do: it moves octets from the transport to the buffer, and ends with a frame
  (or a parse error) from the buffer, with nothing, or with an error that closes the connection.
\<close>

definition grown :: "connection \<Rightarrow> bytes \<Rightarrow> bool" where
  "grown c buf \<longleftrightarrow> buf = read_buffer c \<or> length buf < 9 + unat (max_frame_size (config c)) + 16384"

lemma buffered_frame_None_length:
  "buffered_frame c = None \<Longrightarrow> length (read_buffer c) < 9 + unat (max_frame_size (config c))"
  by (auto simp: buffered_frame_def Let_def word_less_nat_alt not_less split: if_splits)

lemma try_read_frame_spec:
  "try_read_frame c = (r, c') \<Longrightarrow> \<exists>t buf. grown c buf \<and>
     (let c1 = c\<lparr>io := t, read_buffer := buf\<rparr> in
      buffered_frame c1 = Some (r, c') \<or> (r = Inr None \<and> c' = c1) \<or>
      (\<exists>e. r = Inl (Err e) \<and> c' = c1\<lparr>conn_state := CClosed\<rparr> \<and> (e = H2ConnectionClosed \<or> (\<exists>m. e = H2Io m))))"
proof (induction c arbitrary: r c' rule: try_read_frame.induct)
  case (1 c)
  show ?case
  proof (cases "buffered_frame c")
    case (Some q)
    with 1(3) have "buffered_frame c = Some (r, c')" by (simp add: try_read_frame.simps [of c])
    then show ?thesis
      by (intro exI [of _ "io c"] exI [of _ "read_buffer c"]) (simp add: grown_def)
  next
    case None
    obtain q t where q: "io_read 16384 (io c) = (q, t)" by fastforce
    have same: "c\<lparr>io := t, read_buffer := read_buffer c\<rparr> = c\<lparr>io := t\<rparr>" by simp
    show ?thesis
    proof (cases "(\<exists>b bs. q = Inr (b # bs)) \<or> q = Inl Interrupted")
      case False
      with q None 1(3) have
        "(r = Inr None \<and> c' = c\<lparr>io := t\<rparr>) \<or> (\<exists>e. r = Inl (Err e) \<and> c' = c\<lparr>io := t, conn_state := CClosed\<rparr> \<and>
           (e = H2ConnectionClosed \<or> (\<exists>m. e = H2Io m)))"
        by (subst (asm) try_read_frame.simps)
           (auto simp: Let_def split: sum.splits list.splits io_error.splits if_splits)
      then show ?thesis by (intro exI [of _ t] exI [of _ "read_buffer c"]) (auto simp: grown_def)
    next
      case True
      then show ?thesis
      proof
        assume "\<exists>b bs. q = Inr (b # bs)"
        then obtain b bs where b: "q = Inr (b # bs)" by auto
        let ?c = "c\<lparr>io := t, read_buffer := read_buffer c @ b # bs\<rparr>"
        from b q None 1(3) have "try_read_frame ?c = (r, c')" by (simp add: try_read_frame.simps [of c])
        from 1(2) [OF None q [symmetric] b refl this] obtain t1 buf where
          "grown ?c buf" "let c1 = c\<lparr>io := t1, read_buffer := buf\<rparr> in
            buffered_frame c1 = Some (r, c') \<or> (r = Inr None \<and> c' = c1) \<or>
            (\<exists>e. r = Inl (Err e) \<and> c' = c1\<lparr>conn_state := CClosed\<rparr> \<and> (e = H2ConnectionClosed \<or> (\<exists>m. e = H2Io m)))"
          by auto
        moreover from this have "grown c buf"
          using buffered_frame_None_length [OF None] io_read_length [OF q [unfolded b]]
          by (auto simp: grown_def)
        ultimately show ?thesis by blast
      next
        assume i: "q = Inl Interrupted"
        with q None 1(3) have "try_read_frame (c\<lparr>io := t\<rparr>) = (r, c')" by (simp add: try_read_frame.simps [of c])
        from 1(1) [OF None q [symmetric] i refl this] show ?thesis by (auto simp: grown_def)
      qed
    qed
  qed
qed

lemma buffered_frame_cases:
  assumes "buffered_frame c = Some (r, c')"
  obtains (too_long) e where "r = Inl (Err (H2Frame e))" "frame_error_is_connection e"
      "c' = c\<lparr>conn_state := CClosed\<rparr>"
  | (split) n where "c' = bump (\<lambda>x. x\<lparr>frames_read := frames_read x + 1\<rparr>)
        (c\<lparr>read_buffer := drop n (read_buffer c)\<rparr>)"
      "(\<exists>f. r = Inr (Some f) \<and> wire_frame f) \<or> (\<exists>e. r = Inl (Err (H2Frame e)))"
proof -
  let ?l = "header_length (read_buffer c)"
  show thesis
  proof (cases "max_frame_size (config c) < ?l")
    case True
    with assms show thesis
      by (intro too_long [of "frame_too_long ?l (max_frame_size (config c))"])
         (auto simp: buffered_frame_def Let_def frame_too_long_def frame_error_connection_def split: if_splits)
  next
    case False
    let ?bs = "take (9 + unat ?l) (read_buffer c)"
    show thesis
    proof (cases "frame_decode ?bs (max_frame_size (config c))")
      case (Inl e)
      with False assms show thesis
        by (intro split [of "9 + unat ?l"])
           (auto simp: buffered_frame_def Let_def lift_result_def split: if_splits)
    next
      case (Inr f)
      then have "wire_frame f" by (auto simp: wire_frame_def)
      with Inr False assms show thesis
        by (intro split [of "9 + unat ?l"])
           (auto simp: buffered_frame_def Let_def lift_result_def split: if_splits)
    qed
  qed
qed

lemma try_read_frame_wire: "try_read_frame c = (Inr (Some f), c') \<Longrightarrow> wire_frame f"
  by (drule try_read_frame_spec) (auto simp: Let_def elim!: buffered_frame_cases)

subsection \<open>The invariant\<close>

definition peer_ok :: "peer_settings \<Rightarrow> bool" where
  "peer_ok p \<longleftrightarrow> 16384 \<le> unat (peer_max_frame p) \<and> unat (peer_max_frame p) \<le> 16777215 \<and>
     unat (peer_initial_window p) < 2 ^ 31"

definition stream_wf :: "config \<Rightarrow> stream \<Rightarrow> bool" where
  "stream_wf cfg st \<longleftrightarrow>
     (case st_state st of
        SOpen \<Rightarrow> \<not> st_end_sent st \<and> \<not> st_end_received st
      | SHalfClosedLocal \<Rightarrow> st_end_sent st \<and> \<not> st_end_received st
      | SHalfClosedRemote \<Rightarrow> \<not> st_end_sent st \<and> st_end_received st
      | SClosed \<Rightarrow> True) \<and>
     length (st_body st) \<le> max_body_size cfg \<and>
     (st_end_received st \<longrightarrow> st_status st \<noteq> None)"

definition key_ok :: "u32 \<Rightarrow> stream_id \<Rightarrow> bool" where
  "key_ok n s \<longleftrightarrow> is_client_initiated s \<and> stream_ok s \<and> unat (sid_raw s) < unat n"

definition streams_ok :: "config \<Rightarrow> u32 \<Rightarrow> (stream_id \<times> stream) list \<Rightarrow> bool" where
  "streams_ok cfg n ss \<longleftrightarrow> distinct (map fst ss) \<and>
     (\<forall>x \<in> set ss. key_ok n (fst x) \<and> stream_wf cfg (snd x))"

definition pending_ok :: "connection \<Rightarrow> bool" where
  "pending_ok c \<longleftrightarrow> (\<forall>pd. pending_inbound c = Some pd \<longrightarrow>
     unat (sid_raw (pd_stream pd)) < unat (next_stream_id c) \<and>
     (\<forall>st. pd_trailers pd \<longrightarrow> stream_of c (pd_stream pd) = Some st \<longrightarrow> st_status st \<noteq> None))"

definition enc_ok :: "encoder \<Rightarrow> bool" where
  "enc_ok e \<longleftrightarrow> table_ok (enc_table e) \<and> max_size (enc_table e) \<le> MAX_ENCODER_TABLE_SIZE"

definition wf :: "connection \<Rightarrow> bool" where
  "wf c \<longleftrightarrow> config_validate (config c) = Inr () \<and> peer_ok (peer c) \<and>
     odd (unat (next_stream_id c)) \<and> unat (next_stream_id c) \<le> 2 ^ 31 + 1 \<and>
     streams_ok (config c) (next_stream_id c) (streams c) \<and> pending_ok c \<and>
     dec_bounded (conn_decoder c) \<and> enc_ok (conn_encoder c) \<and>
     length (read_buffer c) < 9 + unat (max_frame_size (config c)) + 16384"

text \<open>The bounds that hold as long as the connection is open.\<close>

definition soft :: "connection \<Rightarrow> bool" where
  "soft c \<longleftrightarrow> 0 \<le> conn_send_window c \<and> conn_send_window c \<le> MAX_WINDOW_SIZE \<and> 0 \<le> conn_recv_window c \<and>
     (\<forall>pd. pending_inbound c = Some pd \<longrightarrow> length (pd_fragments pd) \<le> max_header_block_size (config c))"

definition good :: "connection \<Rightarrow> bool" where
  "good c \<longleftrightarrow> wf c \<and> (conn_state c = COpen \<longrightarrow> soft c)"

text \<open>
  A step is safe when from a well-formed state within its bounds it stays well-formed, and leaves the
  bounds only with an error that will close the connection.
\<close>

definition safe :: "(fault + 'a) \<times> connection \<Rightarrow> bool" where
  "safe x \<longleftrightarrow> fst x \<noteq> Inl Hang \<and> wf (snd x) \<and> (soft (snd x) \<or> (\<exists>e. fst x = Inl (Err e) \<and> h2_error_is_connection e))"

lemma safe_simps [simp]:
  "safe (Inr a, c) \<longleftrightarrow> wf c \<and> soft c"
  "safe (Inl (Err e), c) \<longleftrightarrow> wf c \<and> (soft c \<or> h2_error_is_connection e)"
  "safe (Inl (Panic p), c) \<longleftrightarrow> wf c \<and> soft c"
  "\<not> safe (Inl Hang, c)"
  by (auto simp: safe_def)

lemma safe_and_do [intro]:
  assumes "safe (m c)" "\<And>a c1. m c = (Inr a, c1) \<Longrightarrow> wf c1 \<Longrightarrow> soft c1 \<Longrightarrow> safe (k a c1)"
  shows "safe (and_do m k c)"
proof (cases "m c")
  case (Pair r c1)
  then show ?thesis using assms by (cases r) (auto simp: safe_def and_do_def)
qed

lemma safe_map_err [simp]: "wf c \<Longrightarrow> soft c \<Longrightarrow> safe (map_err Err r, c)"
  by (cases r) simp_all

lemma safeD: "safe (m c) \<Longrightarrow> m c = (Inr a, c') \<Longrightarrow> wf c' \<and> soft c'"
  by (auto simp: safe_def)

subsection \<open>What the invariant does not read\<close>

lemma wf_simps [simp]:
  "wf (c\<lparr>io := a\<rparr>) = wf c" "wf (c\<lparr>stats := b\<rparr>) = wf c" "wf (c\<lparr>conn_state := d\<rparr>) = wf c"
  "wf (c\<lparr>conn_send_window := w\<rparr>) = wf c" "wf (c\<lparr>conn_recv_window := w\<rparr>) = wf c"
  "wf (c\<lparr>goaway := g\<rparr>) = wf c" "wf (c\<lparr>stream_errors := se\<rparr>) = wf c" "wf (bump f c) = wf c"
  "wf (note_priority c) = wf c"
  by (simp_all add: wf_def pending_ok_def bump_def note_priority_def)

lemma soft_simps [simp]:
  "soft (c\<lparr>io := a\<rparr>) = soft c" "soft (c\<lparr>stats := b\<rparr>) = soft c" "soft (c\<lparr>conn_state := d\<rparr>) = soft c"
  "soft (c\<lparr>goaway := g\<rparr>) = soft c" "soft (c\<lparr>stream_errors := se\<rparr>) = soft c" "soft (bump f c) = soft c"
  "soft (note_priority c) = soft c" "soft (c\<lparr>streams := ss\<rparr>) = soft c" "soft (c\<lparr>peer := p\<rparr>) = soft c"
  "soft (c\<lparr>conn_encoder := en\<rparr>) = soft c" "soft (c\<lparr>conn_decoder := de\<rparr>) = soft c"
  "soft (c\<lparr>read_buffer := rb\<rparr>) = soft c" "soft (c\<lparr>next_stream_id := n\<rparr>) = soft c"
  "soft (put_stream s st c) = soft c" "soft (drop_stream s c) = soft c"
  by (simp_all add: soft_def bump_def note_priority_def put_stream_def drop_stream_def)

lemma soft_update_stream [simp]: "soft (update_stream s f c) = soft c"
  by (simp add: update_stream_def split: option.split)

lemma put_stream_sel [simp]:
  "stream_of (put_stream s st c) = (stream_of c)(s \<mapsto> st)" "config (put_stream s st c) = config c"
  "conn_recv_window (put_stream s st c) = conn_recv_window c"
  "conn_send_window (put_stream s st c) = conn_send_window c"
  "pending_inbound (put_stream s st c) = pending_inbound c" "conn_state (put_stream s st c) = conn_state c"
  by (simp_all add: put_stream_def update_conv' fun_upd_def)

lemma streams_ok_stream: "streams_ok cfg n ss \<Longrightarrow> map_of ss s = Some st \<Longrightarrow> stream_wf cfg st \<and> key_ok n s"
  by (auto simp: streams_ok_def dest!: map_of_SomeD)

lemma wf_stream: "wf c \<Longrightarrow> stream_of c s = Some st \<Longrightarrow> stream_wf (config c) st"
  by (auto simp: wf_def dest: streams_ok_stream)

lemma wf_key: "wf c \<Longrightarrow> stream_of c s = Some st \<Longrightarrow> unat (sid_raw s) < unat (next_stream_id c)"
  by (auto simp: wf_def key_ok_def dest: streams_ok_stream)

lemma streams_ok_update:
  assumes "streams_ok cfg n ss" "key_ok n s" "stream_wf cfg st"
  shows "streams_ok cfg n (AList.update s st ss)"
proof -
  have "set (AList.update s st ss) \<subseteq> insert (s, st) (set ss)"
    by (induction ss) auto
  then show ?thesis using assms by (auto simp: streams_ok_def distinct_update)
qed

lemma wf_put_stream:
  assumes "wf c" "stream_of c s = Some st0" "stream_wf (config c) st"
    and "st_status st0 \<noteq> None \<Longrightarrow> st_status st \<noteq> None"
  shows "wf (put_stream s st c)"
proof -
  have "key_ok (next_stream_id c) s" using assms(1,2) by (auto simp: wf_def dest: streams_ok_stream)
  then show ?thesis
    using assms by (auto simp: wf_def pending_ok_def put_stream_def streams_ok_update update_conv')
qed

lemma wf_update_stream:
  assumes "wf c" "\<And>st. stream_wf (config c) st \<Longrightarrow> stream_wf (config c) (f st)" "\<And>st. st_status (f st) = st_status st"
  shows "wf (update_stream s f c)"
proof (cases "stream_of c s")
  case (Some st)
  show ?thesis
    using wf_put_stream [OF assms(1) Some assms(2) [OF wf_stream [OF assms(1) Some]]] assms(3)
    by (simp add: update_stream_def Some)
qed (simp add: update_stream_def assms(1))

lemma streams_ok_delete: "streams_ok cfg n ss \<Longrightarrow> streams_ok cfg n (AList.delete s ss)"
  by (auto simp: streams_ok_def AList.delete_eq distinct_map_filter)

lemma wf_drop_stream: "wf c \<Longrightarrow> wf (drop_stream s c)"
  by (auto simp: wf_def drop_stream_def streams_ok_delete pending_ok_def delete_conv' split: if_splits)

subsection \<open>Every step is safe\<close>

lemma write_frame_safe: "wf c \<Longrightarrow> soft c \<Longrightarrow> safe (write_frame f c)"
proof -
  assume "wf c" "soft c"
  moreover obtain r c' where w: "write_frame f c = (r, c')" by fastforce
  moreover from write_frame_spec [OF w] obtain t n st where
    "c' = c\<lparr>io := t, stats := (stats c)\<lparr>frames_written := n\<rparr>, conn_state := st\<rparr>"
    "r \<noteq> Inl Hang" by auto
  ultimately show ?thesis by (simp add: safe_def)
qed

lemma send_window_update_safe: "wf c \<Longrightarrow> soft c \<Longrightarrow> safe (send_window_update s n c)"
  by (auto simp: send_window_update_def intro!: safe_and_do write_frame_safe)

lemma stream_wf_send [simp]: "stream_wf cfg (st\<lparr>st_send_window := w\<rparr>) = stream_wf cfg st"
  by (auto simp: stream_wf_def split: stream_state.splits)

lemma stream_wf_recv [simp]: "stream_wf cfg (st\<lparr>st_recv_window := w\<rparr>) = stream_wf cfg st"
  by (auto simp: stream_wf_def split: stream_state.splits)

lemma stream_wf_closed: "stream_wf cfg st \<Longrightarrow> stream_wf cfg (st\<lparr>st_state := SClosed\<rparr>)"
  by (simp add: stream_wf_def)

lemma stream_wf_headers: "stream_wf cfg st \<Longrightarrow> stream_wf cfg (st\<lparr>st_headers := hs\<rparr>)"
  by (auto simp: stream_wf_def split: stream_state.splits)

lemma stream_wf_status: "stream_wf cfg st \<Longrightarrow> stream_wf cfg (st\<lparr>st_status := Some v\<rparr>)"
  by (auto simp: stream_wf_def split: stream_state.splits)

lemma stream_wf_remote_end:
  "stream_wf cfg st \<Longrightarrow> \<not> st_end_received st \<Longrightarrow> st_status st \<noteq> None \<Longrightarrow>
   stream_wf cfg (st\<lparr>st_end_received := True, st_state := remote_end_state (st_state st)\<rparr>)"
  by (cases "st_state st") (auto simp: stream_wf_def remote_end_state_def)

lemma stream_wf_local_end:
  "stream_wf cfg st \<Longrightarrow> \<not> st_end_sent st \<Longrightarrow>
   stream_wf cfg (st\<lparr>st_end_sent := True, st_state :=
     (case st_state st of SOpen \<Rightarrow> SHalfClosedLocal | SHalfClosedRemote \<Rightarrow> SClosed | other \<Rightarrow> other)\<rparr>)"
  by (cases "st_state st") (auto simp: stream_wf_def)

lemma stream_wf_body:
  "stream_wf cfg st \<Longrightarrow> length b \<le> max_body_size cfg \<Longrightarrow> stream_wf cfg (st\<lparr>st_body := b\<rparr>)"
  by (auto simp: stream_wf_def split: stream_state.splits)

lemma stream_wf_init: "stream_wf cfg (stream_init a b)"
  by (simp add: stream_wf_def stream_init_def)

lemma mark_local_end_safe: "wf c \<Longrightarrow> soft c \<Longrightarrow> safe (mark_local_end s c)"
  by (auto simp: mark_local_end_def intro!: wf_put_stream stream_wf_local_end dest: wf_stream split: option.split)

lemma mark_remote_end_safe:
  "wf c \<Longrightarrow> soft c \<Longrightarrow> (\<And>st. stream_of c s = Some st \<Longrightarrow> st_status st \<noteq> None) \<Longrightarrow> safe (mark_remote_end s c)"
  by (auto simp: mark_remote_end_def intro!: wf_put_stream stream_wf_remote_end dest: wf_stream split: option.split)

lemma credit_windows_safe: "wf c \<Longrightarrow> soft c \<Longrightarrow> safe (credit_windows s es n c)"
proof -
  have recv: "soft (c\<lparr>conn_recv_window := conn_recv_window c + uint n\<rparr>)" if "soft c" for c
    using that by (auto simp: soft_def add_nonneg_nonneg)
  assume "wf c" "soft c"
  then show ?thesis
    by (auto simp: credit_windows_def intro!: safe_and_do send_window_update_safe recv wf_update_stream)
qed

lemma handle_data_safe: "wf c \<Longrightarrow> soft c \<Longrightarrow> safe (handle_data s es n body c)"
proof (cases "stream_of c s")
  case (Some st)
  assume wf: "wf c" and soft: "soft c"
  let ?c1 = "c\<lparr>conn_recv_window := conn_recv_window c - uint n\<rparr>"
  let ?st1 = "st\<lparr>st_recv_window := st_recv_window st - uint n\<rparr>"
  let ?c2 = "put_stream s ?st1 ?c1"
  have wf2: "wf ?c2" using wf Some by (intro wf_put_stream) (auto intro: wf_stream)
  show ?thesis
  proof (cases "st_end_received st \<or> st_status st = None \<or> conn_recv_window ?c1 < 0 \<or>
      st_recv_window ?st1 < 0 \<or> max_body_size (config c) < length (st_body ?st1) + length body")
    case True
    then show ?thesis using wf soft wf2 Some
      by (auto simp: handle_data_def Let_def) (auto simp: soft_def)
  next
    case False
    let ?st2 = "?st1\<lparr>st_body := st_body ?st1 @ body\<rparr>"
    let ?st3 = "if es then ?st2\<lparr>st_end_received := True, st_state := remote_end_state (st_state ?st2)\<rparr> else ?st2"
    have soft2: "soft ?c2" using soft False by (auto simp: soft_def)
    have "stream_wf (config c) ?st2"
      using False wf_stream [OF wf Some] by (intro stream_wf_body) auto
    then have "stream_wf (config c) ?st3"
      using False stream_wf_remote_end [of "config c" ?st2] by auto
    then have "wf (put_stream s ?st3 ?c2)" using False by (intro wf_put_stream [OF wf2, of s ?st1]) auto
    moreover have "soft (put_stream s ?st3 ?c2)" using soft2 by simp
    ultimately have "safe (credit_windows s es n (put_stream s ?st3 ?c2))" by (rule credit_windows_safe)
    then show ?thesis using False Some by (clarsimp simp: handle_data_def Let_def cong: if_cong)
  qed
qed (simp add: handle_data_def)

lemma check_header_block_size_safe: "wf c \<Longrightarrow> soft c \<Longrightarrow> safe (check_header_block_size n c)"
  by (simp add: check_header_block_size_def)

lemma wf_decoder:
  assumes "wf c" "hpack_decode (conn_decoder c) block = (r, d)"
  shows "wf (c\<lparr>conn_decoder := d\<rparr>)"
proof -
  have "decode_loop (conn_decoder c) block 0 [] 0 False = (r, d)"
    using assms(2) by (simp add: hpack_decode_def)
  with decode_loop_bounded [OF _ _ _ this] assms(1) show ?thesis by (auto simp: wf_def pending_ok_def)
qed

lemma decode_block_safe: "wf c \<Longrightarrow> soft c \<Longrightarrow> safe (decode_block block c)"
  by (auto simp: decode_block_def intro: wf_decoder split: prod.split sum.split hpack_error.split)

lemma decode_block_stream: "decode_block block c = (r, c') \<Longrightarrow> streams c' = streams c"
  by (auto simp: decode_block_def split: prod.splits sum.splits hpack_error.splits)

lemma store_fields_safe:
  assumes "wf c" "soft c"
    and "\<And>st. stream_of c s = Some st \<Longrightarrow> stream_wf (config c) st \<Longrightarrow> stream_wf (config c) (f st)"
    and "\<And>st. stream_of c s = Some st \<Longrightarrow> st_status st \<noteq> None \<or> es \<Longrightarrow> st_status (f st) \<noteq> None"
  shows "safe (store_fields s es f c)"
proof (cases "stream_of c s")
  case (Some st)
  have "wf (put_stream s (f st) c)"
    using assms(4) Some assms(3) [OF Some wf_stream [OF assms(1) Some]]
    by (intro wf_put_stream [OF assms(1) Some]) auto
  moreover have "safe (mark_remote_end s (put_stream s (f st) c))" if es
    using that assms(2,4) Some calculation by (intro mark_remote_end_safe) auto
  ultimately show ?thesis
    using assms(1,2) Some by (auto simp: store_fields_def expect_stream_def intro!: safe_and_do)
qed (use assms(1,2) in \<open>auto simp: store_fields_def expect_stream_def safe_def and_do_def\<close>)

text \<open>Without trailers the block has a status; with trailers the stream has one.\<close>

lemma response_fields_trailers:
  "response_fields_loop s trailers fs status regular saw = Inr (st, hs) \<Longrightarrow> trailers \<Longrightarrow> st = status"
  by (induction s trailers fs status regular saw rule: response_fields_loop.induct)
     (auto simp: result_simps split: if_splits)

lemma validate_response_status:
  "validate_response_fields s fs trailers = Inr (st, hs) \<Longrightarrow> (st = None \<longleftrightarrow> trailers)"
  by (auto simp: validate_response_fields_def result_simps dest: response_fields_trailers split: if_splits)

lemma finish_decoded_safe:
  assumes "wf c" "soft c" "\<And>st. trailers \<Longrightarrow> stream_of c s = Some st \<Longrightarrow> st_status st \<noteq> None"
  shows "safe (finish_decoded s trailers es decoded c)"
proof -
  have "safe (accept_fields s es (status, regular) c)"
    if "validate_response_fields s decoded trailers = Inr (status, regular)" for status regular
    using assms validate_response_status [OF that]
    by (auto simp: accept_fields_def intro!: store_fields_safe stream_wf_headers stream_wf_status split: option.split)
  with assms(1,2) show ?thesis
    by (auto simp: finish_decoded_def Let_def lift_result_def result_simps intro!: safe_and_do
        split: sum.splits prod.splits)
qed

lemma finish_header_block_safe:
  assumes "wf c" "soft c" "\<And>st. trailers \<Longrightarrow> stream_of c s = Some st \<Longrightarrow> st_status st \<noteq> None"
  shows "safe (finish_header_block s trailers es block c)"
  unfolding finish_header_block_def
proof (intro safe_and_do check_header_block_size_safe decode_block_safe finish_decoded_safe assms(1,2))
  fix a c1 d c2 st
  assume "check_header_block_size (length block) c = (Inr a, c1)" "decode_block block c1 = (Inr d, c2)"
    "trailers" "stream_of c2 s = Some st"
  then show "st_status st \<noteq> None"
    using assms(3) decode_block_stream [of block c1] by (auto simp: check_header_block_size_def split: if_splits)
qed

lemma wf_pending:
  "wf c \<Longrightarrow> (\<And>pd. p = Some pd \<Longrightarrow> unat (sid_raw (pd_stream pd)) < unat (next_stream_id c)) \<Longrightarrow> (\<And>pd st. p = Some pd \<Longrightarrow> pd_trailers pd \<Longrightarrow> stream_of c (pd_stream pd) = Some st \<Longrightarrow> st_status st \<noteq> None) \<Longrightarrow>
   wf (c\<lparr>pending_inbound := p\<rparr>)"
  by (simp add: wf_def pending_ok_def)

lemma handle_headers_safe: "wf c \<Longrightarrow> soft c \<Longrightarrow> safe (handle_headers s es eh block c)"
proof -
  assume wf: "wf c" and soft: "soft c"
  have "safe (and_do (check_header_block_size (length block)) (\<lambda>_ c1.
      ok () (c1\<lparr>pending_inbound := Some \<lparr>pd_stream = s, pd_trailers = st_status st \<noteq> None,
        pd_end_stream = es, pd_fragments = block\<rparr>\<rparr>)) c)" if "stream_of c s = Some st" for st
    using wf soft that wf_key [OF wf that]
    by (auto simp: check_header_block_size_def and_do_def safe_def soft_def intro!: wf_pending)
  with wf soft show ?thesis
    by (auto simp: handle_headers_def Let_def intro!: finish_header_block_safe split: option.split)
qed

lemma handle_continuation_safe: "wf c \<Longrightarrow> soft c \<Longrightarrow> safe (handle_continuation s eh block c)"
proof (cases "pending_inbound c")
  case (Some pd)
  assume wf: "wf c" and soft: "soft c"
  let ?pd = "pd\<lparr>pd_fragments := pd_fragments pd @ block\<rparr>"
  let ?c1 = "c\<lparr>pending_inbound := Some ?pd\<rparr>"
  have st: "st_status st \<noteq> None" if "pd_trailers pd" "stream_of c (pd_stream pd) = Some st" for st
    using wf Some that by (auto simp: wf_def pending_ok_def)
  have below: "unat (sid_raw (pd_stream pd)) < unat (next_stream_id c)"
    using wf Some by (auto simp: wf_def pending_ok_def)
  have wf1: "wf ?c1" using wf st below by (intro wf_pending) auto
  show ?thesis
  proof (cases "max_header_block_size (config c) < length (pd_fragments pd) + length block")
    case True
    with wf1 Some show ?thesis
      by (simp add: handle_continuation_def Let_def check_header_block_size_def safe_def and_do_def)
  next
    case False
    then have soft1: "soft ?c1" using soft by (auto simp: soft_def)
    have "safe (finish_header_block (pd_stream pd) (pd_trailers pd) (pd_end_stream pd) (pd_fragments pd @ block) (c\<lparr>pending_inbound := None\<rparr>))"
      using wf soft st by (intro finish_header_block_safe wf_pending) (auto simp: soft_def)
    with False Some wf1 soft1 show ?thesis
      by (auto simp: handle_continuation_def Let_def check_header_block_size_def safe_def and_do_def)
  qed
qed (simp add: handle_continuation_def)

lemma handle_rst_stream_safe: "wf c \<Longrightarrow> soft c \<Longrightarrow> safe (handle_rst_stream s code c)"
  by (auto simp: handle_rst_stream_def intro!: wf_put_stream stream_wf_closed dest: wf_stream split: option.split)

lemma handle_window_update_safe:
  assumes "wf c" "soft c"
  shows "safe (handle_window_update s n c)"
proof -
  have "0 \<le> conn_send_window c + uint n" using assms(2) by (auto simp: soft_def)
  then show ?thesis using assms
    by (auto simp: handle_window_update_def Let_def soft_def intro!: wf_put_stream dest: wf_stream
        split: option.split)
qed

lemma shift_windows_spec:
  assumes "shift_windows delta ss = (fits, ss')"
  shows "map fst ss' = map fst ss" "streams_ok cfg n ss \<Longrightarrow> streams_ok cfg n ss'"
    "\<And>s. map_of ss' s = None \<longleftrightarrow> map_of ss s = None"
    "\<And>s st'. map_of ss' s = Some st' \<Longrightarrow> \<exists>st. map_of ss s = Some st \<and> st_status st' = st_status st"
proof -
  have *: "list_all2 (\<lambda>x y. fst y = fst x \<and> (\<exists>w. snd y = (snd x)\<lparr>st_send_window := w\<rparr>)) ss ss'"
    using assms
  proof (induction delta ss arbitrary: fits ss' rule: shift_windows.induct)
    case (2 delta s st rest)
    have same: "\<exists>w. st = st\<lparr>st_send_window := w\<rparr>" for st :: stream
      by (rule exI [of _ "st_send_window st"]) simp
    have refl: "list_all2 (\<lambda>x y. fst y = fst x \<and> (\<exists>w. snd y = (snd x)\<lparr>st_send_window := w\<rparr>)) rest rest"
      using same by (intro list_all2_refl) simp
    obtain f r where "shift_windows delta rest = (f, r)" by fastforce
    with 2 same refl show ?case by (auto simp: Let_def split: if_splits)
  qed simp
  then show keys: "map fst ss' = map fst ss"
    by (induction rule: list_all2_induct) auto
  show "streams_ok cfg n ss \<Longrightarrow> streams_ok cfg n ss'"
  proof -
    assume ok: "streams_ok cfg n ss"
    have "key_ok n (fst y) \<and> stream_wf cfg (snd y)" if y: "y \<in> set ss'" for y
    proof -
      obtain i where i: "i < length ss'" "y = ss' ! i" using y by (metis in_set_conv_nth)
      with * have "fst y = fst (ss ! i)" "\<exists>w. snd y = (snd (ss ! i))\<lparr>st_send_window := w\<rparr>" "ss ! i \<in> set ss"
        by (auto simp: list_all2_conv_all_nth)
      with ok show ?thesis by (auto simp: streams_ok_def)
    qed
    with ok keys show "streams_ok cfg n ss'" by (simp add: streams_ok_def)
  qed
  show "map_of ss' s = None \<longleftrightarrow> map_of ss s = None" for s
    using keys by (metis map_of_eq_None_iff list.set_map)
  show "\<exists>st. map_of ss s = Some st \<and> st_status st' = st_status st" if "map_of ss' s = Some st'" for s st'
    using * that by (induction rule: list_all2_induct) (auto split: if_splits)
qed

lemma apply_setting_safe:
  assumes wf: "wf c" and soft: "soft c" and valid: "setting_valid x"
  shows "safe (apply_setting x c)"
proof (cases "setting_id x")
  case HeaderTableSize
  have "enc_ok (set_max_table_size m (conn_encoder c))" if "m \<le> MAX_ENCODER_TABLE_SIZE" for m
    using wf that by (auto simp: wf_def enc_ok_def set_max_table_size_def)
  then have "wf (c\<lparr>conn_encoder := set_max_table_size (min (unat (setting_value x)) MAX_ENCODER_TABLE_SIZE)
      (conn_encoder c)\<rparr>)"
    using wf by (auto simp: wf_def pending_ok_def)
  then show ?thesis using soft HeaderTableSize by (simp add: apply_setting_def)
next
  case InitialWindowSize
  let ?c1 = "c\<lparr>peer := (peer c)\<lparr>peer_initial_window := setting_value x\<rparr>\<rparr>"
  have "unat (setting_value x) < 2 ^ 31"
    using valid InitialWindowSize
    by (simp add: setting_valid_def validate_setting_def word_less_nat_alt split: if_splits)
  then have wf1: "wf ?c1" using wf by (auto simp: wf_def peer_ok_def pending_ok_def)
  obtain fits ss where sh: "shift_windows (uint (setting_value x) - uint (peer_initial_window (peer c)))
      (streams c) = (fits, ss)" by fastforce
  note spec = shift_windows_spec [OF sh]
  have "wf (?c1\<lparr>streams := ss\<rparr>)"
    using wf1 spec(2) spec(4) by (fastforce simp: wf_def pending_ok_def)
  then show ?thesis using soft InitialWindowSize sh by (simp add: apply_setting_def Let_def)
next
  case MaxFrameSize
  have "16384 \<le> unat (setting_value x)" "unat (setting_value x) \<le> 16777215"
    using valid MaxFrameSize
    by (simp_all add: setting_valid_def validate_setting_def DEFAULT_MAX_FRAME_SIZE_def MAX_MAX_FRAME_SIZE_def
        word_le_nat_alt split: if_splits)
  then have "wf (c\<lparr>peer := (peer c)\<lparr>peer_max_frame := setting_value x\<rparr>\<rparr>)"
    using wf by (auto simp: wf_def peer_ok_def pending_ok_def)
  then show ?thesis using soft MaxFrameSize by (simp add: apply_setting_def)
qed (use wf soft in \<open>auto simp: apply_setting_def wf_def peer_ok_def pending_ok_def\<close>)

lemma apply_peer_settings_safe:
  "wf c \<Longrightarrow> soft c \<Longrightarrow> (\<And>x. x \<in> set ss \<Longrightarrow> setting_valid x) \<Longrightarrow> safe (apply_peer_settings ss c)"
  by (induction ss arbitrary: c) (auto intro!: safe_and_do apply_setting_safe)

lemma acknowledge_settings_safe:
  "wf c \<Longrightarrow> soft c \<Longrightarrow> (\<And>x. x \<in> set ss \<Longrightarrow> setting_valid x) \<Longrightarrow> safe (acknowledge_settings ss c)"
  by (auto simp: acknowledge_settings_def intro!: safe_and_do apply_peer_settings_safe write_frame_safe)

lemma check_continuation_connection: "check_continuation f c = Some e \<Longrightarrow> h2_error_is_connection e"
  by (auto simp: check_continuation_def split: option.splits frame_kind.splits if_splits)

lemma handle_frame_safe:
  assumes "wf c" "soft c" "wire_frame f"
  shows "safe (handle_frame f c)"
proof (cases "check_continuation f c")
  case (Some e)
  then show ?thesis using assms(1) check_continuation_connection by (simp add: handle_frame_def)
next
  case None
  have pri: "wf (note_priority c)" "soft (note_priority c)" using assms by simp_all
  show ?thesis
    using None assms handle_data_safe [OF assms(1,2)] handle_headers_safe [OF assms(1,2)]
      handle_headers_safe [OF pri] handle_rst_stream_safe [OF assms(1,2)] write_frame_safe [OF assms(1,2)]
      handle_window_update_safe [OF assms(1,2)] handle_continuation_safe [OF assms(1,2)]
      acknowledge_settings_safe [OF assms(1,2)] wire_frame_kind(1) [OF assms(3)]
    by (cases "frame_kind f") (auto simp: handle_frame_def Let_def)
qed

subsection \<open>Reporting an error restores the invariant\<close>

lemma write_frame_wf: "wf c \<Longrightarrow> wf (snd (write_frame f c))"
  by (cases "write_frame f c") (auto dest!: write_frame_spec)

lemma write_frame_soft: "soft c \<Longrightarrow> soft (snd (write_frame f c))"
  by (cases "write_frame f c") (auto dest!: write_frame_spec)

lemma fail_connection_good: "wf c \<Longrightarrow> good (fail_connection e c)"
  by (auto simp: fail_connection_def Let_def good_def write_frame_wf)

lemma close_stream_good: "good c \<Longrightarrow> good (update_stream s (\<lambda>st. st\<lparr>st_state := SClosed\<rparr>) c)"
proof -
  have "conn_state (update_stream s g c) = conn_state c" for g
    by (simp add: update_stream_def split: option.split)
  then show "good c \<Longrightarrow> good (update_stream s (\<lambda>st. st\<lparr>st_state := SClosed\<rparr>) c)"
    by (auto simp: good_def intro!: wf_update_stream stream_wf_closed)
qed

lemma report_error_good:
  assumes "safe (Inl (Err e) :: fault + 'a, c)"
  shows "good (report_error e c)"
proof (cases "h2_error_is_connection e")
  case True
  then have "report_error e c = fail_connection e c"
    by (cases e) (auto simp: report_error_def Let_def)
  then show ?thesis using assms fail_connection_good by simp
next
  case False
  with assms have wf: "wf c" and soft: "soft c" by auto
  have good: "good (c\<lparr>conn_state := CClosed\<rparr>)" "good c" using wf soft by (auto simp: good_def)
  have "good (snd (write_frame f c))" for f using wf soft write_frame_wf write_frame_soft by (auto simp: good_def)
  with False good show ?thesis
    by (auto simp: report_error_def Let_def intro!: close_stream_good split: h2_error.split option.split)
qed

subsection \<open>Reading and pumping\<close>

lemma wf_read_buffer:
  "wf c \<Longrightarrow> length buf < 9 + unat (max_frame_size (config c)) + 16384 \<Longrightarrow> wf (c\<lparr>read_buffer := buf\<rparr>)"
  by (simp add: wf_def pending_ok_def)

lemma try_read_frame_keeps:
  assumes "try_read_frame c = (r, c')" "wf c"
  shows "wf c' \<and> (soft c \<longrightarrow> soft c') \<and> (\<forall>x. r = Inl x \<longrightarrow> (\<exists>e. x = Err e))"
proof -
  from try_read_frame_spec [OF assms(1)] obtain t buf where grown: "grown c buf"
    and res: "buffered_frame (c\<lparr>io := t, read_buffer := buf\<rparr>) = Some (r, c') \<or>
      (r = Inr None \<and> c' = c\<lparr>io := t, read_buffer := buf\<rparr>) \<or>
      (\<exists>e. r = Inl (Err e) \<and> c' = c\<lparr>io := t, read_buffer := buf, conn_state := CClosed\<rparr>)"
    by (auto simp: Let_def)
  let ?c1 = "c\<lparr>io := t, read_buffer := buf\<rparr>"
  have len: "length buf < 9 + unat (max_frame_size (config c)) + 16384"
    using grown assms(2) by (auto simp: grown_def wf_def)
  have "?c1 = (c\<lparr>read_buffer := buf\<rparr>)\<lparr>io := t\<rparr>" by simp
  then have wf1: "wf ?c1" "soft ?c1 = soft c" using wf_read_buffer [OF assms(2) len] wf_simps(1) by (metis, simp)
  show ?thesis
  proof (cases "buffered_frame ?c1 = Some (r, c')")
    case True
    from this wf1 show ?thesis
    proof (cases rule: buffered_frame_cases)
      case (split n)
      have "wf (?c1\<lparr>read_buffer := drop n buf\<rparr>)" using assms(2) len by (intro wf_read_buffer) auto
      with split wf1 show ?thesis by auto
    qed auto
  next
    case False
    with res wf1 show ?thesis by auto
  qed
qed

text \<open>
  The outcome of an operation: success keeps the bounds, an error leaves a good connection, and no
  loop spins; a panic is left open here.
\<close>

definition outcome :: "(fault + 'a) \<times> connection \<Rightarrow> bool" where
  "outcome x \<longleftrightarrow> (case fst x of
     Inr _ \<Rightarrow> wf (snd x) \<and> soft (snd x)
   | Inl (Err _) \<Rightarrow> good (snd x)
   | Inl (Panic _) \<Rightarrow> True
   | Inl Hang \<Rightarrow> False)"

lemma outcome_simps [simp]:
  "outcome (Inr a, c) \<longleftrightarrow> wf c \<and> soft c" "outcome (Inl (Err e), c) \<longleftrightarrow> good c"
  "outcome (Inl (Panic p), c)" "\<not> outcome (Inl Hang, c)"
  by (simp_all add: outcome_def)

lemma wf_soft_good: "wf c \<Longrightarrow> soft c \<Longrightarrow> good c"
  by (simp add: good_def)

lemma outcome_and_do [intro]:
  assumes "outcome (m c)" "\<And>a c1. m c = (Inr a, c1) \<Longrightarrow> wf c1 \<Longrightarrow> soft c1 \<Longrightarrow> outcome (k a c1)"
  shows "outcome (and_do m k c)"
proof (cases "m c")
  case (Pair r c1)
  then show ?thesis using assms by (cases r) (auto simp: outcome_def and_do_def split: fault.splits)
qed

lemma outcome_lift: "wf c \<Longrightarrow> soft c \<Longrightarrow> outcome (lift_result r c)"
  by (cases r) (simp_all add: lift_result_def wf_soft_good)

lemma write_frame_outcome: "wf c \<Longrightarrow> soft c \<Longrightarrow> outcome (write_frame f c)"
proof -
  assume ws: "wf c" "soft c"
  obtain r c' where w: "write_frame f c = (r, c')" by fastforce
  have "wf c'" "soft c'" using write_frame_wf [OF ws(1), of f] write_frame_soft [OF ws(2), of f] w by auto
  moreover have "r = Inr () \<or> (\<exists>e. r = Inl (Err e))" using write_frame_spec [OF w] by auto
  ultimately show ?thesis by (auto simp: w wf_soft_good)
qed

lemma mark_local_end_outcome: "wf c \<Longrightarrow> soft c \<Longrightarrow> outcome (mark_local_end s c)"
proof -
  assume "wf c" "soft c"
  then have "safe (mark_local_end s c)" by (rule mark_local_end_safe)
  then show ?thesis using \<open>wf c\<close> \<open>soft c\<close>
    by (auto simp: mark_local_end_def wf_soft_good split: option.splits if_splits)
qed

lemma read_next_frame_spec:
  assumes "wf c" "soft c" "read_next_frame c = (r, c')"
  shows "wf c' \<and> soft c' \<and> (\<forall>x. r = Inl x \<longrightarrow> (\<exists>e. x = Err e)) \<and> (\<forall>f. r = Inr f \<longrightarrow> wire_frame f)"
proof -
  obtain q c1 where q: "try_read_frame c = (q, c1)" by fastforce
  from try_read_frame_keeps [OF q] assms(1,2) have k: "wf c1" "soft c1" "\<forall>x. q = Inl x \<longrightarrow> (\<exists>e. x = Err e)" by auto
  with q assms(3) try_read_frame_wire [of c] show ?thesis
    by (cases q) (auto simp: read_next_frame_def and_do_def split: option.splits)
qed

lemma reported_outcome:
  assumes "safe (Inl x :: fault + 'a, c)"
  shows "outcome (Inl x :: fault + 'b, report_fault x c)"
  using assms report_error_good [where ?'a = 'a] by (cases x) (auto simp: report_fault_def)

lemma pump_one_frame_outcome:
  assumes "wf c" "soft c"
  shows "outcome (pump_one_frame c)"
proof -
  obtain r c1 where r: "read_next_frame c = (r, c1)" by fastforce
  note read = read_next_frame_spec [OF assms r]
  show ?thesis
  proof (cases r)
    case (Inl x)
    with read have "safe (Inl x :: fault + unit, c1)" by auto
    from reported_outcome [OF this, where ?'b = unit] Inl r show ?thesis
      by (simp add: pump_one_frame_def and_do_def)
  next
    case (Inr f)
    with read have "safe (handle_frame f c1)" by (intro handle_frame_safe) auto
    then obtain q c2 where q: "handle_frame f c1 = (q, c2)" "safe (q, c2)" by (cases "handle_frame f c1") auto
    show ?thesis
    proof (cases q)
      case (Inl x)
      with q(2) have "safe (Inl x :: fault + unit, c2)" by simp
      from reported_outcome [OF this, where ?'b = unit] Inl Inr r q(1) show ?thesis
        by (simp add: pump_one_frame_def and_do_def)
    next
      case (Inr u)
      with q \<open>r = Inr f\<close> r show ?thesis by (simp add: pump_one_frame_def and_do_def)
    qed
  qed
qed

end
