(* ===== verification/H2Safety.thy ===== *)
theory H2Safety
  imports H2Invariant
begin

text \<open>
  Every operation of an HTTP/2 connection keeps the invariant of \<open>H2Invariant\<close>, and none of its loops
  spins: sending with flow control, receiving, cancelling, closing, and connecting, and with them
  every reachable state.
\<close>

subsection \<open>Sending\<close>

lemma wait_for_window_outcome:
  "wf c \<Longrightarrow> soft c \<Longrightarrow> outcome (wait_for_window s c) \<and>
     (\<forall>a c'. wait_for_window s c = (Inr a, c') \<longrightarrow> 0 < a \<and> a = send_available s c')"
proof (induction s c rule: wait_for_window.induct)
  case (1 s c)
  show ?case
  proof (cases "(case stream_of c s of None \<Rightarrow> False | Some st \<Rightarrow> st_end_received st) \<or> 0 < send_available s c")
    case True
    with 1(2,3) show ?thesis by (subst (1 2) wait_for_window.simps) (auto simp: wf_soft_good)
  next
    case False
    then have eq: "wait_for_window s c = and_do pump_one_frame (\<lambda>_. wait_for_window s) c"
      by (subst wait_for_window.simps) simp
    have pump: "outcome (pump_one_frame c)" by (rule pump_one_frame_outcome [OF 1(2,3)])
    have "outcome (wait_for_window s c1) \<and> (\<forall>a c'. wait_for_window s c1 = (Inr a, c') \<longrightarrow> 0 < a \<and> a = send_available s c')"
      if "pump_one_frame c = (Inr u, c1)" for u c1
      using 1(1) [OF _ _ that] False that pump by (auto split: option.splits)
    with pump show ?thesis unfolding eq by (auto simp: result_simps intro!: outcome_and_do)
  qed
qed

lemma peer_frame_pos: "wf c \<Longrightarrow> 0 < unat (peer_max_frame (peer c))"
  by (simp add: wf_def peer_ok_def)

lemma write_frame_windows:
  "write_frame f c = (r, c') \<Longrightarrow> conn_send_window c' = conn_send_window c \<and> streams c' = streams c \<and> peer c' = peer c"
  by (auto dest!: write_frame_spec)

lemma soft_spend:
  "soft c \<Longrightarrow> 0 \<le> n \<Longrightarrow> n \<le> w \<Longrightarrow> conn_send_window c = w \<Longrightarrow> soft (c\<lparr>conn_send_window := w - n\<rparr>)"
  by (auto simp: soft_def)

lemma send_chunk_outcome:
  assumes "wf c" "soft c" "a = send_available s c" "0 < a" "offset < length body"
  shows "outcome (send_chunk s body offset a c) \<and>
    (\<forall>n c'. send_chunk s body offset a c = (Inr n, c') \<longrightarrow> offset < n \<and> n \<le> length body)"
proof -
  let ?chunk = "min (min (nat a) (unat (peer_max_frame (peer c)))) (length body - offset)"
  let ?frame = "frame_data s (offset + ?chunk = length body) (take ?chunk (drop offset body))"
  have pos: "0 < ?chunk" using assms peer_frame_pos [OF assms(1)] by auto
  have "a \<le> conn_send_window c"
    using assms(3,4) unfolding send_available_def max_def by (auto split: if_splits)
  moreover have "int ?chunk \<le> a" using assms(4) by linarith
  ultimately have le: "int ?chunk \<le> conn_send_window c" by linarith
  have upd: "wf (update_stream s (\<lambda>st. st\<lparr>st_send_window := st_send_window st - int ?chunk\<rparr>)
        (c1\<lparr>conn_send_window := conn_send_window c1 - int ?chunk\<rparr>)) \<and>
      soft (update_stream s (\<lambda>st. st\<lparr>st_send_window := st_send_window st - int ?chunk\<rparr>)
        (c1\<lparr>conn_send_window := conn_send_window c1 - int ?chunk\<rparr>))"
    if "write_frame ?frame c = (Inr u, c1)" "wf c1" "soft c1" for u c1
  proof
    have w: "conn_send_window c1 = conn_send_window c" using write_frame_windows [OF that(1)] by simp
    show "wf (update_stream s (\<lambda>st. st\<lparr>st_send_window := st_send_window st - int ?chunk\<rparr>)
        (c1\<lparr>conn_send_window := conn_send_window c1 - int ?chunk\<rparr>))"
      by (rule wf_update_stream) (simp_all add: that(2))
    have "soft (c1\<lparr>conn_send_window := conn_send_window c1 - int ?chunk\<rparr>)"
      by (rule soft_spend [OF that(3) _ _ refl]) (use le w in simp_all)
    then show "soft (update_stream s (\<lambda>st. st\<lparr>st_send_window := st_send_window st - int ?chunk\<rparr>)
        (c1\<lparr>conn_send_window := conn_send_window c1 - int ?chunk\<rparr>))"
      by (simp only: soft_update_stream)
  qed
  let ?upd = "\<lambda>c1. update_stream s (\<lambda>st. st\<lparr>st_send_window := st_send_window st - int ?chunk\<rparr>)
        (c1\<lparr>conn_send_window := conn_send_window c1 - int ?chunk\<rparr>)"
  have "outcome (and_do (write_frame ?frame) (\<lambda>_. and_do (upd ?upd) (\<lambda>_.
      and_do (if offset + ?chunk = length body then mark_local_end s else ok ()) (\<lambda>_. ok (offset + ?chunk)))) c)"
  proof (rule outcome_and_do [where m = "write_frame ?frame"])
    show "outcome (write_frame ?frame c)" by (rule write_frame_outcome [OF assms(1,2)])
    fix u c1 assume w: "write_frame ?frame c = (Inr u, c1)" "wf c1" "soft c1"
    note ws = conjunct1 [OF upd [OF w]] conjunct2 [OF upd [OF w]]
    have fin: "outcome ((if offset + ?chunk = length body then mark_local_end s else ok ()) (?upd c1))"
      using ws mark_local_end_outcome [OF ws] by simp
    have last: "outcome (and_do (if offset + ?chunk = length body then mark_local_end s else ok ())
        (\<lambda>_. ok (offset + ?chunk)) (?upd c1))"
      by (rule outcome_and_do, rule fin) simp
    show "outcome (and_do (upd ?upd) (\<lambda>_.
      and_do (if offset + ?chunk = length body then mark_local_end s else ok ()) (\<lambda>_. ok (offset + ?chunk))) c1)"
      using last by (simp only: and_do_def [of "upd ?upd"] step_simps plain_step_simps prod.case sum.case)
  qed
  then have "outcome (send_chunk s body offset a c)" by (simp only: send_chunk_def Let_def)
  moreover have "offset < n \<and> n \<le> length body" if "send_chunk s body offset a c = (Inr n, c')" for n c'
  proof -
    from that have "n = offset + ?chunk" by (auto simp: send_chunk_def Let_def result_simps)
    then show ?thesis using pos assms(5) by linarith
  qed
  ultimately show ?thesis by blast
qed

lemma send_body_loop_outcome:
  "wf c \<Longrightarrow> soft c \<Longrightarrow> outcome (send_body_loop s body offset c)"
proof (induction s body offset c rule: send_body_loop.induct)
  case (1 s body offset c)
  show ?case
  proof (cases "offset < length body")
    case False
    with 1 show ?thesis by (simp add: send_body_loop.simps [of s body offset])
  next
    case True
    note wait = wait_for_window_outcome [OF 1(2,3), of s]
    have "outcome (and_do (send_chunk s body offset a) (\<lambda>offset' c1.
        if offset' \<le> offset then (Inl Hang, c1) else send_body_loop s body offset' c1) c1)"
      if w: "wait_for_window s c = (Inr a, c1)" "wf c1" "soft c1" for a c1
    proof -
      from wait w(1) have "a = send_available s c1" "0 < a" by auto
      note chunk = send_chunk_outcome [OF w(2,3) this True]
      show ?thesis
      proof (rule outcome_and_do)
        fix n c2
        assume n: "send_chunk s body offset a c1 = (Inr n, c2)" "wf c2" "soft c2"
        with chunk have "offset < n" by auto
        with 1(1) [OF True w(1) n(1) _ n(2,3)] show
          "outcome (if n \<le> offset then (Inl Hang, c2) else send_body_loop s body n c2)" by simp
      qed (use chunk in simp)
    qed
    then have "outcome (and_do (wait_for_window s) (\<lambda>a. and_do (send_chunk s body offset a) (\<lambda>offset' c1.
        if offset' \<le> offset then (Inl Hang, c1) else send_body_loop s body offset' c1)) c)"
      by (rule outcome_and_do [where m = "wait_for_window s", OF conjunct1 [OF wait]])
    with True show ?thesis by (simp add: send_body_loop.simps [of s body offset])
  qed
qed

lemma send_continuations_outcome:
  "0 < limit \<Longrightarrow> wf c \<Longrightarrow> soft c \<Longrightarrow> outcome (send_continuations s block limit offset c)"
proof (induction s block limit offset c rule: send_continuations.induct)
  case (1 s block limit offset c)
  show ?case
  proof (cases "offset < length block")
    case False
    with 1 show ?thesis by (simp add: send_continuations.simps [of s block limit offset])
  next
    case True
    have less: "\<not> min (offset + limit) (length block) \<le> offset" using True 1(2) by auto
    show ?thesis
      unfolding send_continuations.simps [of s block limit offset] Let_def
      using True less 1(1) [OF True refl refl _ less 1(2)] 1(3,4)
      by (auto intro!: outcome_and_do write_frame_outcome)
  qed
qed

lemma send_header_block_outcome:
  "wf c \<Longrightarrow> soft c \<Longrightarrow> outcome (send_header_block s es block c)"
  unfolding send_header_block_def Let_def
  by (intro outcome_and_do write_frame_outcome send_continuations_outcome peer_frame_pos)

lemma hpack_encode_enc_ok:
  assumes "enc_ok e" "hpack_encode e hs = (e', block)"
  shows "enc_ok e'"
proof -
  have "table_ok (enc_table e') \<and> max_size (enc_table e') = max_size (enc_table e)"
    if "encode_fields e fs huffman out = (e', out')" "table_ok (enc_table e)" for e fs huffman out e' out'
    using that
  proof (induction e fs huffman out rule: encode_fields.induct)
    case (2 e f i rest huffman out)
    obtain e1 out1 where one: "encode_field e f i huffman out = (e1, out1)" by fastforce
    then have "e1 = e \<or> e1 = e\<lparr>enc_table := table_insert f (enc_table e)\<rparr>"
      by (auto simp: encode_field_def encode_literal_eq split: option.splits if_splits)
    then have "table_ok (enc_table e1) \<and> max_size (enc_table e1) = max_size (enc_table e)"
      using 2(3) table_ok_insert by auto
    with 2(1) [OF one [symmetric] refl] 2(2) one show ?case by (simp add: encode_fields.simps)
  qed simp
  moreover obtain e1 out where "emit_size_updates e [] = (e1, out)" by fastforce
  moreover from this have "enc_table e1 = enc_table e" by (auto simp: emit_size_updates_def Let_def)
  ultimately show ?thesis using assms by (auto simp: hpack_encode_def encode_with_def enc_ok_def)
qed

lemma streams_ok_later: "streams_ok cfg n ss \<Longrightarrow> unat n \<le> unat n' \<Longrightarrow> streams_ok cfg n' ss"
  by (auto simp: streams_ok_def key_ok_def)

text \<open>A new stream: its identifier is the next odd one, and it is not in the map.\<close>

lemma allocate_stream_id_spec:
  assumes "allocate_stream_id c = (Inr s, c')" "wf c"
  shows "s = StreamId (next_stream_id c)" "c' = c\<lparr>next_stream_id := next_stream_id c + 2\<rparr>"
    "unat (next_stream_id c + 2) = unat (next_stream_id c) + 2" "unat (next_stream_id c) < 2 ^ 31"
    "stream_of c s = None" "wf c'" "key_ok (next_stream_id c') s"
proof -
  let ?n = "next_stream_id c"
  show small: "unat ?n < 2 ^ 31" and c': "c' = c\<lparr>next_stream_id := ?n + 2\<rparr>"
    using assms(1) by (auto simp: allocate_stream_id_def Let_def word_less_nat_alt split: if_splits)
  then show n2: "unat (?n + 2) = unat ?n + 2" by (simp add: unat_word_ariths)
  have "take_bit 31 ?n = ?n"
    using small by (simp add: word_unat_eq_iff unsigned_take_bit_eq take_bit_nat_eq_self)
  then show s: "s = StreamId ?n"
    using assms(1) by (auto simp: allocate_stream_id_def Let_def stream_new_def and_31 split: if_splits)
  have ok: "streams_ok (config c) ?n (streams c)" "odd (unat ?n)" using assms(2) by (auto simp: wf_def)
  show "stream_of c s = None"
  proof (rule ccontr)
    assume "stream_of c s \<noteq> None"
    then obtain st where "stream_of c s = Some st" by auto
    from streams_ok_stream [OF ok(1) this] s show False by (simp add: key_ok_def)
  qed
  show "key_ok (next_stream_id c') s"
    using ok(2) small n2 by (simp add: key_ok_def s c' is_client_initiated_def stream_ok_def
        word_unat_eq_iff unat_mod odd_iff_mod_2_eq_one)
  show "wf c'"
    using assms(2) small n2 streams_ok_later [OF ok(1), of "?n + 2"] unfolding c'
    by (auto simp: wf_def pending_ok_def)
qed

lemma open_stream_outcome:
  assumes wf: "wf c" and soft: "soft c"
  shows "outcome (open_stream r c)"
proof -
  obtain e block where enc: "hpack_encode (conn_encoder c) (request_fields r) = (e, block)" by fastforce
  let ?c = "c\<lparr>conn_encoder := e\<rparr>"
  have ws: "wf ?c" "soft ?c"
    using wf soft hpack_encode_enc_ok [OF _ enc] by (auto simp: wf_def pending_ok_def)
  have alloc: "outcome (allocate_stream_id ?c)"
  proof (cases "allocate_stream_id ?c")
    case (Pair q c1)
    then show ?thesis
    proof (cases q)
      case (Inl x)
      with Pair ws show ?thesis by (auto simp: allocate_stream_id_def Let_def wf_soft_good split: if_splits)
    next
      case (Inr s)
      with allocate_stream_id_spec [OF Pair [unfolded Inr] ws(1)] ws(2) Pair show ?thesis by simp
    qed
  qed
  have new: "wf (put_stream s (stream_init a b) c1)" if "allocate_stream_id ?c = (Inr s, c1)" for s c1 a b
  proof -
    note spec = allocate_stream_id_spec [OF that ws(1)]
    have "pending_ok (put_stream s (stream_init a b) c1)"
      unfolding pending_ok_def
    proof (intro allI impI conjI)
      fix pd assume "pending_inbound (put_stream s (stream_init a b) c1) = Some pd"
      then have "pending_inbound ?c = Some pd" by (simp add: spec(2))
      with ws(1) have old: "unat (sid_raw (pd_stream pd)) < unat (next_stream_id ?c)"
        "\<And>st. pd_trailers pd \<Longrightarrow> stream_of ?c (pd_stream pd) = Some st \<Longrightarrow> st_status st \<noteq> None"
        unfolding wf_def pending_ok_def by blast+
      then show "unat (sid_raw (pd_stream pd)) < unat (next_stream_id (put_stream s (stream_init a b) c1))"
        using spec(3) by (simp add: spec(2) put_stream_def)
      fix st assume "pd_trailers pd" "stream_of (put_stream s (stream_init a b) c1) (pd_stream pd) = Some st"
      moreover have "pd_stream pd \<noteq> s" using old(1) spec(1) by auto
      ultimately show "st_status st \<noteq> None" using old(2) by (simp add: spec(2))
    qed
    moreover have "streams_ok (config c1) (next_stream_id c1) (AList.update s (stream_init a b) (streams c1))"
      using spec(6,7) stream_wf_init by (intro streams_ok_update) (auto simp: wf_def)
    ultimately show ?thesis using spec(6) by (simp add: wf_def put_stream_def)
  qed
  show ?thesis
    unfolding open_stream_def enc Let_def prod.case
  proof (rule outcome_and_do [where m = allocate_stream_id, OF alloc])
    fix s c1 assume a: "allocate_stream_id ?c = (Inr s, c1)" "wf c1" "soft c1"
    let ?body = "case rq_body r of None \<Rightarrow> [] | Some b \<Rightarrow> b"
    show "outcome (and_do (upd (\<lambda>c1. put_stream s
          (stream_init (peer_initial_window (peer c1)) (initial_window_size (config c1))) c1)) (\<lambda>_.
        and_do (send_header_block s (?body = []) block) (\<lambda>_.
        and_do (if ?body = [] then mark_local_end s else send_body s ?body) (\<lambda>_. ok s))) c1)"
      using new [OF a(1)] a(3)
      by (intro outcome_and_do)
         (auto intro!: send_header_block_outcome mark_local_end_outcome send_body_loop_outcome
           simp: send_body_def split: if_splits)
  qed
qed

lemma good_open: "good c \<Longrightarrow> conn_state c = COpen \<Longrightarrow> wf c \<and> soft c"
  by (simp add: good_def)

lemma ensure_open_ok: "ensure_open c = (Inr u, c') \<Longrightarrow> c' = c \<and> conn_state c = COpen \<and> goaway c = None"
  by (cases "conn_state c") (auto simp: ensure_open_def split: option.splits)

lemma ensure_open_err: "ensure_open c = (Inl x, c') \<Longrightarrow> c' = c \<and> (\<exists>e. x = Err e)"
  by (auto simp: ensure_open_def split: option.splits if_splits)

text \<open>What an operation on a good connection may leave behind.\<close>

definition settled :: "(fault + 'a) \<times> connection \<Rightarrow> bool" where
  "settled x \<longleftrightarrow> fst x \<noteq> Inl Hang \<and> ((\<exists>p. fst x = Inl (Panic p)) \<or> good (snd x))"

lemma settled_outcome: "outcome x \<Longrightarrow> settled x"
  by (cases "fst x") (auto simp: settled_def outcome_def wf_soft_good split: fault.splits)

lemma settled_unit: "settled (m c) \<Longrightarrow> settled (and_do m (\<lambda>_. ok ()) c)"
  by (cases "m c") (auto simp: settled_def and_do_def split: sum.split)

lemma settled_open:
  assumes "good c" "\<And>c. wf c \<Longrightarrow> soft c \<Longrightarrow> outcome (k () c)"
  shows "settled (and_do ensure_open k c)"
proof (cases "ensure_open c")
  case (Pair r c1)
  show ?thesis
  proof (cases r)
    case (Inl x)
    with Pair ensure_open_err [of c x c1] assms(1) show ?thesis by (auto simp: and_do_def settled_def)
  next
    case (Inr u)
    with Pair ensure_open_ok [of c u c1] good_open [OF assms(1)] assms(2) [of c]
    show ?thesis by (auto simp: and_do_def intro: settled_outcome)
  qed
qed

lemma send_request_settled: "good c \<Longrightarrow> settled (send_request r c)"
  unfolding send_request_def
  by (rule settled_open)
     (auto intro!: outcome_and_do outcome_lift open_stream_outcome wf_soft_good split: option.split)

lemma read_response_loop_outcome: "wf c \<Longrightarrow> soft c \<Longrightarrow> outcome (read_response_loop s c)"
proof (induction s c rule: read_response_loop.induct)
  case (1 s c)
  show ?case
  proof (cases "completed_response s c = Inr None")
    case True
    have "outcome (and_do pump_one_frame (\<lambda>_. read_response_loop s) c)"
      using 1(1) [OF True refl] 1(2,3) by (intro outcome_and_do pump_one_frame_outcome) auto
    with True show ?thesis by (simp add: read_response_loop.simps [of s c])
  next
    case False
    with 1(2,3) show ?thesis
      by (subst read_response_loop.simps) (auto simp: wf_soft_good split: sum.split option.split)
  qed
qed

lemma read_response_settled: "good c \<Longrightarrow> settled (read_response s c)"
  unfolding read_response_def
  by (rule settled_open) (auto intro!: read_response_loop_outcome wf_soft_good)

lemma report_error_soft: "\<not> h2_error_is_connection e \<Longrightarrow> soft c \<Longrightarrow> soft (report_error e c)"
  using write_frame_soft
  by (auto simp: report_error_def Let_def split: h2_error.split option.split)

definition dispatch :: "frame \<Rightarrow> connection \<Rightarrow> (fault + bool) \<times> connection" where
  "dispatch frame c =
     (case handle_frame frame c of
        (Inr _, c1) \<Rightarrow> ok True c1
      | (Inl (Err e), c1) \<Rightarrow>
          (let c2 = report_error e c1 in
           if fatal_error e then err e c2
           else case h2_error_stream_id e of
               Some s \<Rightarrow> ok True (c2\<lparr>stream_errors := AList.update s e (stream_errors c2)\<rparr>)
             | None \<Rightarrow> err e c2)
      | (Inl x, c1) \<Rightarrow> (Inl x, c1))"

lemma poll_frame_eq:
  "poll_frame = and_do ensure_open (\<lambda>_. and_do try_read_frame (\<lambda>f c.
     case f of None \<Rightarrow> ok False c | Some frame \<Rightarrow> dispatch frame c))"
  unfolding poll_frame_def dispatch_def by (rule refl)

lemma dispatch_outcome:
  assumes "wf c" "soft c" "wire_frame f"
  shows "outcome (dispatch f c)"
proof -
  obtain q c1 where q: "handle_frame f c = (q, c1)" "safe (q, c1)"
    using handle_frame_safe [OF assms] by (cases "handle_frame f c") auto
  show ?thesis
  proof (cases q)
    case (Inl x)
    show ?thesis
    proof (cases x)
      case (Err e)
      have good: "good (report_error e c1)"
        using q(2) Inl Err by (intro report_error_good [where ?'a = unit]) simp
      moreover have "soft (report_error e c1)" if "\<not> fatal_error e"
        using that q(2) Inl Err by (intro report_error_soft) (auto simp: fatal_error_def)
      ultimately show ?thesis
        using q Inl Err by (auto simp: dispatch_def Let_def good_def split: option.split)
    qed (use q Inl in \<open>auto simp: dispatch_def\<close>)
  next
    case (Inr u)
    with q show ?thesis by (simp add: dispatch_def)
  qed
qed

lemma poll_frame_settled: "good c \<Longrightarrow> settled (poll_frame c)"
  unfolding poll_frame_eq
proof (rule settled_open)
  fix c assume ws: "wf c" "soft c"
  obtain q c1 where q: "try_read_frame c = (q, c1)" by fastforce
  from try_read_frame_keeps [OF q ws(1)] ws have k: "wf c1" "soft c1" "\<forall>x. q = Inl x \<longrightarrow> (\<exists>e. x = Err e)" by auto
  show "outcome (and_do try_read_frame (\<lambda>f c. case f of None \<Rightarrow> ok False c | Some frame \<Rightarrow> dispatch frame c) c)"
  proof (cases q)
    case (Inl x)
    with k q show ?thesis by (auto simp: and_do_def wf_soft_good)
  next
    case (Inr fo)
    with k q try_read_frame_wire [of c] dispatch_outcome show ?thesis
      by (cases fo) (auto simp: and_do_def)
  qed
qed

lemma good_drop_stream: "good c \<Longrightarrow> good (drop_stream s c)"
  by (auto simp: good_def wf_drop_stream) (simp add: drop_stream_def)

lemma good_simps [simp]: "good (c\<lparr>stream_errors := x\<rparr>) = good c" "good (bump f c) = good c"
  by (simp_all add: good_def) (simp add: bump_def)

lemma take_response_settled: "good c \<Longrightarrow> settled (take_response s c)"
  by (auto simp: take_response_def settled_def good_drop_stream split: option.split sum.split)

lemma write_frame_good: "good c \<Longrightarrow> good (snd (write_frame f c))"
  by (cases "write_frame f c") (auto simp: good_def dest!: write_frame_spec)

lemma write_frame_settled: "good c \<Longrightarrow> settled (write_frame f c)"
  using write_frame_good [of c f] by (cases "write_frame f c") (auto simp: settled_def dest!: write_frame_spec)

lemma cancel_stream_settled: "good c \<Longrightarrow> settled (cancel_stream s c)"
proof -
  assume g: "good c"
  have "good ((drop_stream s c)\<lparr>stream_errors := x\<rparr>)" for x using good_drop_stream [OF g] by simp
  with g write_frame_settled show ?thesis
    by (auto simp: cancel_stream_def Let_def settled_def split: option.split)
qed

lemma close_settled: "good c \<Longrightarrow> settled (close c)"
proof -
  assume g: "good c"
  obtain r c1 where w: "write_frame (frame_goaway (last_stream_id c) NoError []) c = (r, c1)" by fastforce
  have "wf c1" using g write_frame_wf [of c] w by (metis good_def snd_conv)
  with g w write_frame_spec [OF w] show ?thesis by (auto simp: close_def settled_def good_def)
qed

lemma apply_op_settled: "good c \<Longrightarrow> settled (apply_op x c)"
  by (cases x)
     (auto intro: send_request_settled read_response_settled poll_frame_settled take_response_settled
       cancel_stream_settled close_settled settled_unit)

subsection \<open>Connecting\<close>

lemma wf_connection_new:
  "config_validate cfg = Inr () \<Longrightarrow> wf (connection_new t cfg) \<and> soft (connection_new t cfg)"
  by (auto simp: wf_def soft_def connection_new_def peer_ok_def peer_default_def DEFAULT_MAX_FRAME_SIZE_def
      streams_ok_def pending_ok_def dec_bounded_def decoder_new_def with_header_list_limit_def enc_ok_def
      encoder_new_def MAX_ENCODER_TABLE_SIZE_def INITIAL_CONNECTION_WINDOW_def MAX_WINDOW_SIZE_def)

lemma preface_outcome: "wf c \<Longrightarrow> soft c \<Longrightarrow> outcome (write_connection_preface c)"
proof -
  assume ws: "wf c" "soft c"
  have "good (c\<lparr>io := t\<rparr>)" for t using ws by (simp add: good_def)
  with ws show ?thesis
    by (auto simp: write_connection_preface_def split: prod.split sum.split)
      (metis map_err_simps outcome_simps(1,2) soft_simps(1) sum.exhaust unit_all_eq1 wf_simps(1))
qed

lemma config_validate_window: "config_validate cfg = Inr () \<Longrightarrow> unat (initial_window_size cfg) < 2 ^ 31"
  by (auto simp: config_validate_def word_less_nat_alt split: if_splits)

lemma send_local_settings_outcome:
  assumes "wf c" "soft c"
  shows "outcome (send_local_settings c)"
proof -
  have "soft (c'\<lparr>conn_recv_window := uint w\<rparr>)" if "soft c'" for c' :: connection and w :: u32
    using that by (auto simp: soft_def)
  with assms show ?thesis
    unfolding send_local_settings_def Let_def
    by (intro outcome_and_do write_frame_outcome) (auto intro!: outcome_and_do write_frame_outcome)
qed

lemma read_initial_settings_safe:
  assumes "wf c" "soft c"
  shows "safe (read_initial_settings c)"
proof -
  obtain r c1 where r: "read_next_frame c = (r, c1)" by fastforce
  note spec = read_next_frame_spec [OF assms r]
  show ?thesis
  proof (cases r)
    case (Inl x)
    with r spec show ?thesis by (auto simp: read_initial_settings_def and_do_def)
  next
    case (Inr f)
    with spec have ws: "wf c1" "soft c1" "wire_frame f" by auto
    have "safe (case frame_kind f of
          KSettings ack settings \<Rightarrow>
            if \<not> ack then acknowledge_settings settings c1
            else err (H2Protocol ProtocolError ''server preface must start with non-ACK SETTINGS'') c1
        | _ \<Rightarrow> err (H2Protocol ProtocolError ''server preface must start with SETTINGS'') c1)"
      using ws acknowledge_settings_safe [OF ws(1,2)] wire_frame_kind(1) [OF ws(3)]
      by (auto split: frame_kind.split)
    with Inr r show ?thesis
      by (auto simp: read_initial_settings_def and_do_def split: frame_kind.splits)
  qed
qed

lemma connect_outcome:
  assumes "config_validate cfg = Inr ()"
  shows "outcome (connect t cfg)"
proof -
  note new = wf_connection_new [OF assms, of t]
  have last: "outcome (case read_initial_settings c of
          (Inl (Err e), c1) \<Rightarrow>
            (Inl (Err e), if h2_error_is_connection e then fail_connection e c1 else c1)
        | r \<Rightarrow> r)" if "wf c" "soft c" for c
  proof -
    obtain r c1 where r: "read_initial_settings c = (r, c1)" by fastforce
    with read_initial_settings_safe [OF that] have "safe (r, c1)" by simp
    with r show ?thesis
      by (cases r; cases "\<exists>e. r = Inl (Err e)") (auto intro: fail_connection_good wf_soft_good split: fault.split)
  qed
  show ?thesis
    unfolding connect_def using new assms
    by (intro outcome_and_do preface_outcome send_local_settings_outcome)
       (auto simp: last)
qed

lemma connect_good: "connect t cfg = (Inr (), c) \<Longrightarrow> good c"
proof -
  assume c: "connect t cfg = (Inr (), c)"
  then have "config_validate cfg = Inr ()" by (auto simp: connect_def result_simps lift_result_def)
  from connect_outcome [OF this, of t] c show "good c" by (simp add: wf_soft_good)
qed

lemma connect_no_hang: "fst (connect t cfg) \<noteq> Inl Hang"
proof (cases "config_validate cfg")
  case (Inl e)
  then show ?thesis by (simp add: connect_def and_do_def)
next
  case (Inr u)
  then have "outcome (connect t cfg)" by (intro connect_outcome) simp
  then show ?thesis by (auto simp: outcome_def)
qed

lemma reachable_good: "reachable c \<Longrightarrow> good c"
proof (induction rule: reachable.induct)
  case (connected t cfg c)
  then show ?case by (rule connect_good)
next
  case (operated c x r c')
  with apply_op_settled [of c x] show ?case by (auto simp: settled_def)
qed

end
