(* ===== verification/H2Sending.thy ===== *)
theory H2Sending
  imports H2Safety
begin

text \<open>
  What the operations of a connection put on the wire (\<^verbatim>\<open>crates/render-net/src/h2/connection.rs\<close>):
  the fragments of a header block, the DATA frames of a request body and the flow control around
  them, and the WINDOW_UPDATE frames that answer inbound DATA.
\<close>

subsection \<open>Reading writes nothing\<close>

lemma io_read_sent: "io_read n t = (r, t') \<Longrightarrow> sent t' = sent t"
  using io_read_frame by blast

lemma buffered_frame_sent: "buffered_frame c = Some (r, c') \<Longrightarrow> sent (io c') = sent (io c)"
  by (auto simp: buffered_frame_def Let_def bump_def lift_result_def split: if_splits)

lemma try_read_frame_sent: "try_read_frame c = (r, c') \<Longrightarrow> sent (io c') = sent (io c)"
proof (induction c arbitrary: r c' rule: try_read_frame.induct)
  case (1 c)
  show ?case
  proof (cases "buffered_frame c")
    case (Some q)
    with 1(3) buffered_frame_sent [of c r c'] show ?thesis by (simp add: try_read_frame.simps [of c])
  next
    case None
    obtain q t where q: "io_read 16384 (io c) = (q, t)" by fastforce
    note s = io_read_sent [OF q]
    consider (more) b bs where "q = Inr (b # bs)" | (again) "q = Inl Interrupted"
      | (stop) "\<nexists>b bs. q = Inr (b # bs)" "q \<noteq> Inl Interrupted" by blast
    then show ?thesis
    proof cases
      case more
      with q None 1(3) have "try_read_frame (c\<lparr>io := t, read_buffer := read_buffer c @ b # bs\<rparr>) = (r, c')"
        by (simp add: try_read_frame.simps [of c])
      from 1(2) [OF None q [symmetric] more refl this] s show ?thesis by simp
    next
      case again
      with q None 1(3) have "try_read_frame (c\<lparr>io := t\<rparr>) = (r, c')" by (simp add: try_read_frame.simps [of c])
      from 1(1) [OF None q [symmetric] again refl this] s show ?thesis by simp
    next
      case stop
      with q None 1(3) s show ?thesis
        by (subst (asm) try_read_frame.simps)
           (fastforce simp: Let_def split: sum.splits list.splits io_error.splits if_splits)
    qed
  qed
qed

lemma wrote_control_silent: "sent (io c') = sent (io c) \<Longrightarrow> wrote_control c c'"
  by (auto simp: wrote_control_def wrote_Nil intro!: exI [of _ "[]"])

lemma read_next_frame_control: "wrote_control c (snd (read_next_frame c))"
proof -
  obtain q c1 where q: "try_read_frame c = (q, c1)" by fastforce
  with try_read_frame_sent [OF q] show ?thesis
    by (auto simp: read_next_frame_def and_do_def intro!: wrote_control_silent split: sum.split option.split)
qed

lemma pump_one_frame_control: "wrote_control c (snd (pump_one_frame c))"
proof -
  have "wrote_control c (snd (and_do read_next_frame handle_frame c))"
    by (rule control.and_do_snd [OF read_next_frame_control control.follows_snd [OF control.handle_frame]])
  then show ?thesis
    using control.report_fault control.trans
    by (fastforce simp: pump_one_frame_def split: prod.split sum.split)
qed

subsection \<open>Header blocks\<close>

text \<open>The CONTINUATION frames that carry a list of fragments; the last ends the block.\<close>

fun continuations :: "stream_id \<Rightarrow> bytes list \<Rightarrow> frame list" where
  "continuations s [] = []"
| "continuations s (x # xs) = frame_continuation s (xs = []) x # continuations s xs"

lemma send_continuations_wrote:
  "send_continuations s block limit offset c = (Inr u, c') \<Longrightarrow> offset \<le> length block \<Longrightarrow>
     \<exists>xs. wrote (continuations s xs) c c' \<and> concat xs = drop offset block \<and>
       (\<forall>x \<in> set xs. x \<noteq> [] \<and> length x \<le> limit)"
proof (induction s block limit offset c rule: send_continuations.induct)
  case (1 s block limit offset c)
  show ?case
  proof (cases "offset < length block")
    case False
    with 1(2,3) show ?thesis
      by (auto simp: send_continuations.simps [of s block limit offset c] wrote_Nil intro!: exI [of _ "[]"])
  next
    case True
    define finish where "finish = min (offset + limit) (length block)"
    define x where "x = take (finish - offset) (drop offset block)"
    from 1(2) True obtain v c1 where w: "write_frame (frame_continuation s (finish = length block) x) c = (Inr v, c1)"
      and rest: "\<not> finish \<le> offset" "send_continuations s block limit finish c1 = (Inr u, c')"
      by (auto simp: send_continuations.simps [of s block limit offset c] Let_def result_simps finish_def [symmetric]
          x_def [symmetric] split: if_splits)
    have "finish \<le> length block" by (simp add: finish_def)
    from 1(1) [OF True finish_def refl _ rest this, of v] w obtain xs
      where xs: "wrote (continuations s xs) c1 c'" "concat xs = drop finish block"
        "\<forall>x \<in> set xs. x \<noteq> [] \<and> length x \<le> limit"
      by (auto simp: x_def)
    have "(finish = length block) = (xs = [])"
      using xs \<open>finish \<le> length block\<close> by (cases xs) auto
    then have "wrote (continuations s (x # xs)) c c'"
      using wrote_append [OF write_frame_wrote [OF w] xs(1)] by simp
    moreover have "concat (x # xs) = drop offset block"
    proof -
      have "drop offset block = x @ drop (finish - offset) (drop offset block)" unfolding x_def by (rule append_take_drop_id [symmetric])
      with rest(1) xs(2) show ?thesis by simp
    qed
    moreover have "x \<noteq> []" "length x \<le> limit" using rest(1) True by (auto simp: x_def finish_def)
    ultimately show ?thesis using xs(3) by (intro exI [of _ "x # xs"]) auto
  qed
qed

lemma header_block_wrote:
  assumes "send_header_block s end_stream block c = (Inr u, c')"
  shows "\<exists>x xs. wrote (frame_headers s end_stream (xs = []) None x # continuations s xs) c c' \<and>
    concat (x # xs) = block \<and> (\<forall>y \<in> set (x # xs). length y \<le> unat (peer_max_frame (peer c))) \<and> [] \<notin> set xs"
proof -
  let ?limit = "unat (peer_max_frame (peer c))"
  let ?x = "take (min (length block) ?limit) block"
  from assms obtain v c1 where w: "write_frame (frame_headers s end_stream (length block \<le> ?limit) None ?x) c = (Inr v, c1)"
    and rest: "send_continuations s block ?limit (min (length block) ?limit) c1 = (Inr u, c')"
    by (auto simp: send_header_block_def Let_def result_simps)
  from send_continuations_wrote [OF rest] obtain xs where
    xs: "wrote (continuations s xs) c1 c'" "concat xs = drop (min (length block) ?limit) block"
      "\<forall>x \<in> set xs. x \<noteq> [] \<and> length x \<le> ?limit" by auto
  have "(length block \<le> ?limit) = (xs = [])" using xs(2,3) by (cases xs) auto
  then have "wrote (frame_headers s end_stream (xs = []) None ?x # continuations s xs) c c'"
    using wrote_append [OF write_frame_wrote [OF w] xs(1)] by simp
  moreover have "concat (?x # xs) = block" using xs(2) by (simp add: append_take_drop_id)
  ultimately show ?thesis using xs(3) by (intro exI [of _ ?x] exI [of _ xs]) auto
qed

text \<open>
  header_block_sent: when sending a header block succeeds, the octets written are exactly one
  HEADERS frame followed at once by CONTINUATION frames on the same stream, none larger than the peer's
  maximum frame size; their fragments concatenate to the block, and only the last frame carries
  END_HEADERS.
\<close>

theorem header_block_sent:
  assumes "send_header_block s end_stream block c = (Inr u, c')"
  shows "\<exists>x xs. wrote (frame_headers s end_stream (xs = []) None x # continuations s xs) c c' \<and>
    concat (x # xs) = block \<and> (\<forall>y \<in> set (x # xs). length y \<le> unat (peer_max_frame (peer c))) \<and> [] \<notin> set xs"
  using assms by (rule header_block_wrote)

subsection \<open>Request bodies\<close>

text \<open>The DATA frames that carry a list of chunks; the last ends the stream.\<close>

fun data_frames :: "stream_id \<Rightarrow> bytes list \<Rightarrow> frame list" where
  "data_frames s [] = []"
| "data_frames s (x # xs) = frame_data s (xs = []) x # data_frames s xs"

lemma not_control_data [simp]: "\<not> control_frame (frame_data s fin d)"
  by (simp add: control_frame_def frame_data_def mk_frame_def)

lemma wait_for_window_spec:
  "wait_for_window s c = (Inr a, c') \<Longrightarrow> wrote_control c c' \<and> a = send_available s c' \<and> 0 < a"
proof (induction s c rule: wait_for_window.induct)
  case (1 s c)
  show ?case
  proof (cases "0 < send_available s c")
    case True
    with 1(2) show ?thesis by (auto simp: wait_for_window.simps [of s c] control.silent split: if_splits)
  next
    case False
    with 1(2) obtain u c1 where p: "\<not> (case stream_of c s of None \<Rightarrow> False | Some st \<Rightarrow> st_end_received st)"
      "pump_one_frame c = (Inr u, c1)" "wait_for_window s c1 = (Inr a, c')"
      by (auto simp: wait_for_window.simps [of s c] result_simps split: if_splits)
    have "wrote_control c c1" using pump_one_frame_control [of c] p(2) by simp
    with 1(1) [OF p(1) False p(2,3)] show ?thesis using control.trans by blast
  qed
qed

lemma mark_local_end_wrote: "mark_local_end s c = (r, c') \<Longrightarrow> wrote [] c c'"
  by (auto simp: mark_local_end_def wrote_Nil put_stream_def split: option.splits if_splits)

lemma mark_local_end_windows:
  "mark_local_end s c = (r, c') \<Longrightarrow> conn_send_window c' = conn_send_window c \<and>
     map_option st_send_window (stream_of c' t) = map_option st_send_window (stream_of c t)"
  by (auto simp: mark_local_end_def put_stream_def update_conv' split: option.splits if_splits)

lemma send_chunk_spec:
  assumes "send_chunk s body offset a c = (Inr offset', c')"
  shows "offset' = offset + min (min (nat a) (unat (peer_max_frame (peer c)))) (length body - offset)"
    and "wrote [frame_data s (offset' = length body) (take (offset' - offset) (drop offset body))] c c'"
    and "conn_send_window c' = conn_send_window c - int (offset' - offset)"
    and "map_option st_send_window (stream_of c' s) =
      map_option (\<lambda>st. st_send_window st - int (offset' - offset)) (stream_of c s)"
proof -
  define n where "n = min (min (nat a) (unat (peer_max_frame (peer c)))) (length body - offset)"
  let ?f = "frame_data s (offset + n = length body) (take n (drop offset body))"
  let ?spend = "\<lambda>c1. update_stream s (\<lambda>st. st\<lparr>st_send_window := st_send_window st - int n\<rparr>)
                  (c1\<lparr>conn_send_window := conn_send_window c1 - int n\<rparr>)"
  from assms obtain u c1 v c2 where w: "write_frame ?f c = (Inr u, c1)"
    and m: "(if offset + n = length body then mark_local_end s else ok ()) (?spend c1) = (Inr v, c')"
    and o: "offset' = offset + n"
    by (auto simp: send_chunk_def Let_def result_simps n_def [symmetric])
  show "offset' = offset + n" by (rule o)
  have m': "sent (io c') = sent (io (?spend c1))" "conn_send_window c' = conn_send_window (?spend c1)"
    "map_option st_send_window (stream_of c' s) = map_option st_send_window (stream_of (?spend c1) s)"
    using mark_local_end_wrote [of s "?spend c1"] mark_local_end_windows [of s "?spend c1"] m
    by (auto simp: wrote_Nil split: if_splits)
  from write_frame_spec [OF w] have c1: "streams c1 = streams c" "conn_send_window c1 = conn_send_window c"
    by auto
  show "wrote [frame_data s (offset' = length body) (take (offset' - offset) (drop offset body))] c c'"
    using write_frame_wrote [OF w] m'(1) o
    by (auto simp: wrote_def update_stream_def put_stream_def split: option.splits)
  show "conn_send_window c' = conn_send_window c - int (offset' - offset)"
    using m'(2) c1 o by (auto simp: update_stream_def put_stream_def split: option.splits)
  show "map_option st_send_window (stream_of c' s) =
      map_option (\<lambda>st. st_send_window st - int (offset' - offset)) (stream_of c s)"
    using m'(3) c1 o by (auto simp: update_stream_def put_stream_def update_conv' split: option.splits)
qed

lemma send_body_loop_wrote:
  "send_body_loop s body offset c = (Inr u, c') \<Longrightarrow> offset \<le> length body \<Longrightarrow>
     \<exists>fs xs. wrote fs c c' \<and> filter (\<lambda>f. \<not> control_frame f) fs = data_frames s xs \<and>
       concat xs = drop offset body \<and> [] \<notin> set xs"
proof (induction s body offset c rule: send_body_loop.induct)
  case (1 s body offset c)
  show ?case
  proof (cases "offset < length body")
    case False
    with 1(2,3) show ?thesis
      by (intro exI [of _ "[]"]) (auto simp: send_body_loop.simps [of s body offset c] wrote_Nil)
  next
    case True
    with 1(2) obtain a c1 offset' c2 where wt: "wait_for_window s c = (Inr a, c1)"
      and ch: "send_chunk s body offset a c1 = (Inr offset', c2)"
      and rest: "\<not> offset' \<le> offset" "send_body_loop s body offset' c2 = (Inr u, c')"
      by (auto simp: send_body_loop.simps [of s body offset c] result_simps split: if_splits)
    note spec = send_chunk_spec [OF ch]
    have le: "offset' \<le> length body" using spec(1) True by simp
    from 1(1) [OF True wt ch rest le] obtain fs xs where
      ih: "wrote fs c2 c'" "filter (\<lambda>f. \<not> control_frame f) fs = data_frames s xs"
        "concat xs = drop offset' body" "[] \<notin> set xs" by auto
    from wait_for_window_spec [OF wt] obtain gs where
      gs: "wrote gs c c1" "\<forall>f \<in> set gs. control_frame f" by (auto simp: wrote_control_def)
    let ?x = "take (offset' - offset) (drop offset body)"
    have ends: "(offset' = length body) = (xs = [])" using ih(3,4) le by (cases xs) auto
    have "wrote (gs @ [frame_data s (xs = []) ?x] @ fs) c c'"
      using wrote_append [OF gs(1) wrote_append [OF spec(2) ih(1)]] ends by simp
    moreover have "filter (\<lambda>f. \<not> control_frame f) (gs @ [frame_data s (xs = []) ?x] @ fs) = data_frames s (?x # xs)"
      using gs(2) ih(2) by (simp add: filter_empty_conv)
    moreover have "concat (?x # xs) = drop offset body"
    proof -
      have "drop offset body = ?x @ drop (offset' - offset) (drop offset body)" by (rule append_take_drop_id [symmetric])
      with rest(1) ih(3) show ?thesis by simp
    qed
    moreover have "?x \<noteq> []" using rest(1) True by auto
    ultimately show ?thesis using ih(4) by (intro exI [of _ "gs @ [frame_data s (xs = []) ?x] @ fs"] exI [of _ "?x # xs"]) auto
  qed
qed

lemma body_wrote:
  assumes "send_body s body c = (Inr u, c')"
  shows "\<exists>fs xs. wrote fs c c' \<and> filter (\<lambda>f. \<not> control_frame f) fs = data_frames s xs \<and>
    concat xs = body \<and> [] \<notin> set xs"
  using send_body_loop_wrote [of s body 0 c u c'] assms by (simp add: send_body_def)

text \<open>
  C25: when sending a body succeeds, the frames written are DATA frames of the stream and, in
  between, control frames that answer what arrived meanwhile; the payloads of the DATA frames are
  non-empty and concatenate to the body, and only the last carries END_STREAM.
\<close>

theorem body_sent:
  assumes "send_body s body c = (Inr u, c')"
  shows "\<exists>fs xs. wrote fs c c' \<and> filter (\<lambda>f. \<not> control_frame f) fs = data_frames s xs \<and>
    concat xs = body \<and> [] \<notin> set xs"
  using assms by (rule body_wrote)


end
