(* ===== verification/H2Receiving.thy ===== *)
theory H2Receiving
  imports H2Sending
begin

text \<open>
  What a connection makes of the octets it receives
  (\<^verbatim>\<open>crates/render-net/src/h2/connection.rs\<close>): the frame boundaries of the read buffer, the
  effect of a DATA frame on the windows, and the frames that a connection mishandles after a stream
  was removed.
\<close>

subsection \<open>Frame boundaries\<close>

text \<open>The octets that were received and not yet parsed, and those still to be received.\<close>

definition unparsed :: "connection \<Rightarrow> bytes" where
  "unparsed c = read_buffer c @ octets (reads (io c))"

text \<open>
  C7: however the transport cuts the stream of octets into reads, and however many
  timeouts and interruptions come in between, reading a frame takes exactly the octets of one frame
  off the stream and returns what they decode to; a timeout takes nothing.
\<close>

theorem frame_boundaries:
  assumes "try_read_frame c = (Inr r, c')"
  shows "case r of None \<Rightarrow> unparsed c' = unparsed c
    | Some f \<Rightarrow> \<exists>bs. unparsed c = bs @ unparsed c' \<and> frame_decode bs (max_frame_size (config c)) = Inr f"
  using assms
proof (induction c arbitrary: r c' rule: try_read_frame.induct)
  case (1 c)
  show ?case
  proof (cases "buffered_frame c")
    case (Some q)
    with 1(3) have "q = (Inr r, c')" by (simp add: try_read_frame.simps [of c])
    with Some show ?thesis
      by (auto simp: buffered_frame_def Let_def unparsed_def bump_def lift_result_def result_simps map_err_def
          intro!: exI conjI append_take_drop_id [symmetric] split: if_splits sum.splits)
  next
    case None
    obtain q t where q: "io_read 16384 (io c) = (q, t)" by fastforce
    consider (more) b bs where "q = Inr (b # bs)" | (again) "q = Inl Interrupted"
      | (stop) "\<nexists>b bs. q = Inr (b # bs)" "q \<noteq> Inl Interrupted" by blast
    then show ?thesis
    proof cases
      case more
      let ?c = "c\<lparr>io := t, read_buffer := read_buffer c @ b # bs\<rparr>"
      from more q None 1(3) have "try_read_frame ?c = (Inr r, c')" by (simp add: try_read_frame.simps [of c])
      moreover have "unparsed ?c = unparsed c"
        using io_read_octets [OF q [unfolded more]] by (simp add: unparsed_def)
      ultimately show ?thesis using 1(2) [OF None q [symmetric] more refl] by (auto split: option.splits)
    next
      case again
      with q None 1(3) have "try_read_frame (c\<lparr>io := t\<rparr>) = (Inr r, c')" by (simp add: try_read_frame.simps [of c])
      moreover have "unparsed (c\<lparr>io := t\<rparr>) = unparsed c"
        using io_read_error_octets [OF q [unfolded again]] by (simp add: unparsed_def)
      ultimately show ?thesis using 1(1) [OF None q [symmetric] again refl] by (auto split: option.splits)
    next
      case stop
      with q None 1(3) have "r = None" "c' = c\<lparr>io := t\<rparr>" "\<exists>e. q = Inl e"
        by (subst (asm) try_read_frame.simps; fastforce simp: Let_def split: sum.splits list.splits io_error.splits if_splits)+
      with io_read_error_octets q show ?thesis by (auto simp: unparsed_def)
    qed
  qed
qed

text \<open>
  poll_decode_error_keeps_open: when a complete frame does not decode, polling returns the error and
  does nothing else with it: no RST_STREAM or GOAWAY is written, no stream error is recorded and the
  connection stays open, also for an error of the connection.
\<close>

theorem poll_decode_error_keeps_open:
  assumes "conn_state c = COpen" "goaway c = None"
    and "read_buffer c = bs @ rest" "9 \<le> length bs" "length bs = 9 + unat (header_length bs)"
    and "header_length bs \<le> max_frame_size (config c)" "frame_decode bs (max_frame_size (config c)) = Inl e"
  shows "\<exists>c'. poll_frame c = (Inl (Err (H2Frame e)), c') \<and> conn_state c' = COpen \<and>
    sent (io c') = sent (io c) \<and> stream_errors c' = stream_errors c \<and> read_buffer c' = rest"
proof -
  have "header_length (read_buffer c) = header_length bs"
    using assms(3,4) by (cases bs) (auto simp: header_length_def nth_append)
  moreover have "\<not> max_frame_size (config c) < header_length bs" using assms(6) by simp
  ultimately have "buffered_frame c = Some (Inl (Err (H2Frame e)),
      bump (\<lambda>x. x\<lparr>frames_read := frames_read x + 1\<rparr>) (c\<lparr>read_buffer := rest\<rparr>))"
    using assms by (simp add: buffered_frame_def Let_def)
  then have "try_read_frame c = (Inl (Err (H2Frame e)),
      bump (\<lambda>x. x\<lparr>frames_read := frames_read x + 1\<rparr>) (c\<lparr>read_buffer := rest\<rparr>))"
    by (simp add: try_read_frame.simps)
  with assms(1,2) show ?thesis
    by (auto simp: poll_frame_def ensure_open_def and_do_def bump_def)
qed

subsection \<open>Inbound DATA\<close>

lemma send_window_update_spec:
  assumes "send_window_update s n c = (Inr u, c')"
  shows "wrote (if n = 0 then [] else [frame_window_update s n]) c c'"
    and "\<exists>t x. c' = c\<lparr>io := t, stats := x\<rparr>"
proof -
  have "wrote (if n = 0 then [] else [frame_window_update s n]) c c' \<and> (\<exists>t x. c' = c\<lparr>io := t, stats := x\<rparr>)"
  proof (cases "n = 0")
    case True
    with assms have "c' = c\<lparr>io := io c, stats := stats c\<rparr>" by (simp add: send_window_update_def)
    then have "\<exists>t x. c' = c\<lparr>io := t, stats := x\<rparr>" by blast
    with True assms show ?thesis by (simp add: send_window_update_def wrote_Nil)
  next
    case False
    with assms obtain v c1 where w: "write_frame (frame_window_update s n) c = (Inr v, c1)"
      and c': "c' = bump (\<lambda>x. x\<lparr>window_updates_sent := window_updates_sent x + 1\<rparr>) c1"
      by (auto simp: send_window_update_def result_simps)
    from write_frame_wrote [OF w] c' have "wrote [frame_window_update s n] c c'"
      by (simp add: wrote_def bump_def)
    moreover have "\<exists>t x. c' = c\<lparr>io := t, stats := x\<rparr>"
    proof -
      from write_frame_spec [OF w] obtain t k where
        "c1 = c\<lparr>io := t, stats := (stats c)\<lparr>frames_written := k\<rparr>, conn_state := conn_state c\<rparr>" by auto
      then have "c' = c\<lparr>io := t, stats := stats c'\<rparr>" by (simp add: c' bump_def)
      then show ?thesis by blast
    qed
    ultimately show ?thesis using False by simp
  qed
  note * = this
  show "wrote (if n = 0 then [] else [frame_window_update s n]) c c'" by (rule conjunct1 [OF *])
  show "\<exists>t x. c' = c\<lparr>io := t, stats := x\<rparr>" by (rule conjunct2 [OF *])
qed

lemma credit_windows_spec:
  assumes "credit_windows s es n c = (Inr u, c')" "stream_of c s = Some st"
  shows "wrote (if n = 0 then [] else frame_window_update CONNECTION n # (if es then [] else [frame_window_update s n])) c c'"
    and "conn_recv_window c' = conn_recv_window c + uint n"
    and "stream_of c' s = Some (if es then st else st\<lparr>st_recv_window := st_recv_window st + uint n\<rparr>)"
    and "t \<noteq> s \<Longrightarrow> stream_of c' t = stream_of c t"
proof -
  have "wrote (if n = 0 then [] else frame_window_update CONNECTION n # (if es then [] else [frame_window_update s n])) c c' \<and>
    conn_recv_window c' = conn_recv_window c + uint n \<and>
    stream_of c' s = Some (if es then st else st\<lparr>st_recv_window := st_recv_window st + uint n\<rparr>) \<and>
    (t \<noteq> s \<longrightarrow> stream_of c' t = stream_of c t)"
  proof (cases "n = 0")
    case True
    with assms show ?thesis by (simp add: credit_windows_def wrote_Nil)
  next
    case False
    with assms(1) obtain v c1 where w1: "send_window_update CONNECTION n c = (Inr v, c1)"
      and k: "(if \<not> es then and_do (send_window_update s n) (\<lambda>_.
              upd (update_stream s (\<lambda>x. x\<lparr>st_recv_window := st_recv_window x + uint n\<rparr>))) else ok ())
           (c1\<lparr>conn_recv_window := conn_recv_window c1 + uint n\<rparr>) = (Inr u, c')"
      by (auto simp: credit_windows_def result_simps)
    from send_window_update_spec(1) [OF w1] False have l1: "wrote [frame_window_update CONNECTION n] c c1" by simp
    from send_window_update_spec(2) [OF w1] obtain t1 x1 where c1: "c1 = c\<lparr>io := t1, stats := x1\<rparr>" by auto
    show ?thesis
    proof (cases es)
      case True
      with k c1 l1 False assms(2) show ?thesis by (auto simp: wrote_def)
    next
      case es: False
      with k obtain v2 c2 where
        w2: "send_window_update s n (c1\<lparr>conn_recv_window := conn_recv_window c1 + uint n\<rparr>) = (Inr v2, c2)"
        and c': "c' = update_stream s (\<lambda>x. x\<lparr>st_recv_window := st_recv_window x + uint n\<rparr>) c2"
        by (auto simp: result_simps)
      from send_window_update_spec(1) [OF w2] False
      have l2: "wrote [frame_window_update s n] c1 c2" by (simp add: wrote_def)
      from send_window_update_spec(2) [OF w2] obtain t2 x2 where
        c2: "c2 = c1\<lparr>conn_recv_window := conn_recv_window c1 + uint n, io := t2, stats := x2\<rparr>" by auto
      have "wrote [] c2 c'" using c' by (simp add: wrote_Nil update_stream_def put_stream_def split: option.split)
      with wrote_append [OF wrote_append [OF l1 l2]] es False c' c1 c2 assms(2) show ?thesis
        by (simp add: update_stream_def put_stream_def update_conv')
    qed
  qed
  then show "wrote (if n = 0 then [] else frame_window_update CONNECTION n # (if es then [] else [frame_window_update s n])) c c'"
    "conn_recv_window c' = conn_recv_window c + uint n"
    "stream_of c' s = Some (if es then st else st\<lparr>st_recv_window := st_recv_window st + uint n\<rparr>)"
    "t \<noteq> s \<Longrightarrow> stream_of c' t = stream_of c t"
    by auto
qed

text \<open>
  C8: an accepted DATA frame belongs to a stream whose response headers have arrived and
  that has not ended, fits into both receive windows and keeps the body within its limit; its octets are
  appended to the body, the end of the stream is recorded, no other stream changes, and the flow-control
  length, padding included, is credited back at once by WINDOW_UPDATE frames on the connection and, unless the
  stream ended, on the stream.
\<close>

theorem data_accepted:
  assumes "handle_data s end_stream n body c = (Inr u, c')"
  shows "\<exists>st. stream_of c s = Some st \<and> \<not> st_end_received st \<and> st_status st \<noteq> None \<and>
    uint n \<le> conn_recv_window c \<and> uint n \<le> st_recv_window st \<and>
    length (st_body st) + length body \<le> max_body_size (config c) \<and>
    wrote (if n = 0 then [] else frame_window_update CONNECTION n #
      (if end_stream then [] else [frame_window_update s n])) c c' \<and>
    conn_recv_window c' = conn_recv_window c \<and>
    stream_of c' s = Some (st\<lparr>st_body := st_body st @ body,
      st_recv_window := (if end_stream then st_recv_window st - uint n else st_recv_window st),
      st_end_received := end_stream,
      st_state := (if end_stream then remote_end_state (st_state st) else st_state st)\<rparr>) \<and>
    (\<forall>t. t \<noteq> s \<longrightarrow> stream_of c' t = stream_of c t)"
proof -
  from assms obtain st where st: "stream_of c s = Some st" by (auto simp: handle_data_def split: option.splits)
  define c1 where "c1 = c\<lparr>conn_recv_window := conn_recv_window c - uint n\<rparr>"
  define st1 where "st1 = st\<lparr>st_recv_window := st_recv_window st - uint n, st_body := st_body st @ body\<rparr>"
  define st2 where "st2 = (if end_stream
    then st1\<lparr>st_end_received := True, st_state := remote_end_state (st_state st1)\<rparr> else st1)"
  define c3 where "c3 = put_stream s st2 (put_stream s (st\<lparr>st_recv_window := st_recv_window st - uint n\<rparr>) c1)"
  from assms st have guards: "\<not> st_end_received st" "st_status st \<noteq> None"
      "uint n \<le> conn_recv_window c" "uint n \<le> st_recv_window st"
      "length (st_body st) + length body \<le> max_body_size (config c)"
    and credit: "credit_windows s end_stream n c3 = (Inr u, c')"
    by (auto simp: handle_data_def Let_def c3_def st2_def st1_def c1_def split: if_splits)
  have c3: "stream_of c3 s = Some st2" "conn_recv_window c3 = conn_recv_window c - uint n"
    "\<And>t. t \<noteq> s \<Longrightarrow> stream_of c3 t = stream_of c t" "io c3 = io c"
    by (simp_all add: c3_def c1_def put_stream_def update_conv')
  have l: "wrote (if n = 0 then [] else frame_window_update CONNECTION n #
      (if end_stream then [] else [frame_window_update s n])) c c'"
    using credit_windows_spec(1) [OF credit c3(1)] c3(4) unfolding wrote_def by simp
  have "(if end_stream then st2 else st2\<lparr>st_recv_window := st_recv_window st2 + uint n\<rparr>) =
      st\<lparr>st_body := st_body st @ body,
      st_recv_window := (if end_stream then st_recv_window st - uint n else st_recv_window st),
      st_end_received := end_stream,
      st_state := (if end_stream then remote_end_state (st_state st) else st_state st)\<rparr>"
    using guards(1) by (simp add: st2_def st1_def)
  with credit_windows_spec(2-) [OF credit c3(1)] c3 guards st l show ?thesis
    by (intro exI [of _ st]) simp
qed

text \<open>
  C34: when a DATA frame takes a response body over its limit, the stream is
  reset but the octets are never credited back to the connection: no WINDOW_UPDATE is sent and the
  connection's receive window stays smaller by the length of the frame, for every stream that shares it.
\<close>

theorem data_error_leaks_window:
  assumes "stream_of c s = Some st" "\<not> st_end_received st" "st_status st \<noteq> None"
    and "uint n \<le> conn_recv_window c" "uint n \<le> st_recv_window st"
    and "max_body_size (config c) < length (st_body st) + length body"
  shows "\<exists>e c1. handle_data s end_stream n body c = (Inl (Err e), c1) \<and> \<not> fatal_error e \<and>
    conn_recv_window (report_error e c1) = conn_recv_window c - uint n \<and>
    (wrote [] c (report_error e c1) \<or> wrote [frame_rst_stream s EnhanceYourCalm] c (report_error e c1))"
proof -
  let ?e = "H2Stream s EnhanceYourCalm (''response body exceeds limit '' @ dec_text (max_body_size (config c)))"
  let ?c1 = "put_stream s (st\<lparr>st_recv_window := st_recv_window st - uint n\<rparr>)
    (c\<lparr>conn_recv_window := conn_recv_window c - uint n\<rparr>)"
  have h: "handle_data s end_stream n body c = (Inl (Err ?e), ?c1)"
    using assms by (simp add: handle_data_def Let_def)
  obtain r c2 where w: "write_frame (frame_rst_stream s EnhanceYourCalm) ?c1 = (r, c2)" by fastforce
  have rep: "report_error ?e ?c1 = update_stream s (\<lambda>st. st\<lparr>st_state := SClosed\<rparr>) c2"
    using w by (simp add: report_error_def Let_def)
  from write_frame_spec [OF w] have "conn_recv_window c2 = conn_recv_window c - uint n"
    and "wrote [] c c2 \<or> wrote [frame_rst_stream s EnhanceYourCalm] c c2"
    by (auto simp: put_stream_def wrote_def encodings_def)
  then have "conn_recv_window (report_error ?e ?c1) = conn_recv_window c - uint n"
    "wrote [] c (report_error ?e ?c1) \<or> wrote [frame_rst_stream s EnhanceYourCalm] c (report_error ?e ?c1)"
    unfolding rep by (auto simp: update_stream_def put_stream_def wrote_def split: option.split)
  moreover have "\<not> fatal_error ?e" by (simp add: fatal_error_def)
  ultimately show ?thesis using h by blast
qed

subsection \<open>Frames for a stream that was removed\<close>

text \<open>
  removed_stream_is_fatal: once a stream was cancelled, a DATA, HEADERS, RST_STREAM or WINDOW_UPDATE
  frame that the peer had sent for it before it saw the reset is taken for a frame on an idle stream: a
  connection error, which closes the connection for all other requests.
\<close>

theorem removed_stream_is_fatal:
  assumes "cancel_stream s c = (Inr u, c1)" "pending_inbound c = None" "stream_of c s \<noteq> None" "\<not> is_connection s"
    and "f \<in> {frame_data s es d, frame_headers s es True None d, frame_rst_stream s code, frame_window_update s n}"
    and "distinct (map fst (streams c))"
  shows "\<exists>msg. handle_frame f c1 = (Inl (Err (H2Protocol ProtocolError msg)), c1) \<and>
    conn_state (report_error (H2Protocol ProtocolError msg) c1) = CClosed"
proof -
  obtain st where st: "stream_of c s = Some st" using assms(3) by auto
  let ?c0 = "(drop_stream s c)\<lparr>stream_errors := AList.delete s (stream_errors c)\<rparr>"
  have "\<exists>t x n. c1 = ?c0\<lparr>io := t, stats := x, conn_state := n\<rparr>"
  proof (cases "st_state st = SClosed \<or> conn_state c = CClosed")
    case True
    with assms(1) st have "c1 = ?c0\<lparr>io := io ?c0, stats := stats ?c0, conn_state := conn_state ?c0\<rparr>"
      by (simp add: cancel_stream_def Let_def)
    then show ?thesis by blast
  next
    case False
    with assms(1) st have "write_frame (frame_rst_stream s Cancel) ?c0 = (Inr u, c1)"
      by (simp add: cancel_stream_def Let_def)
    from write_frame_spec [OF this] show ?thesis by blast
  qed
  then have none: "stream_of c1 s = None" and pend: "pending_inbound c1 = None"
    using assms(2) by (auto simp: drop_stream_def delete_conv)
  have "\<exists>msg. handle_frame f c1 = (Inl (Err (H2Protocol ProtocolError msg)), c1)"
    using assms(4,5) none pend
    by (auto simp: handle_frame_def check_continuation_def Let_def frame_data_def frame_headers_def
        frame_rst_stream_def frame_window_update_def mk_frame_def handle_data_def handle_headers_def
        handle_rst_stream_def handle_window_update_def)
  moreover have "conn_state (report_error (H2Protocol ProtocolError msg) c1) = CClosed" for msg
    by (simp add: report_error_def fail_connection_def Let_def)
  ultimately show ?thesis by blast
qed

end
