(* ===== verification/H2Session.thy ===== *)
theory H2Session
  imports H2Receiving "HOL-Library.Code_Target_Nat"
begin

text \<open>
  The properties of a whole HTTP/2 session, stated over \<open>reachable\<close>: the invariant, the absence of
  hangs, where the code can panic, and what a closed connection does.
\<close>

subsection \<open>A connection to run the theorems on\<close>

text \<open>A server that sends an empty SETTINGS frame, and the connection that results.\<close>

definition demo_transport :: transport where
  "demo_transport = \<lparr>reads = [ReadBytes [0, 0, 0, 4, 0, 0, 0, 0, 0]], write_results = [], sent = []\<rparr>"

definition demo_connection :: connection where
  "demo_connection = snd (connect demo_transport config_default)"

lemma demo_connected: "fst (connect demo_transport config_default) = Inr ()"
proof -
  have "case fst (connect demo_transport config_default) of Inr _ \<Rightarrow> True | _ \<Rightarrow> False" by code_simp
  then show ?thesis by (simp split: sum.splits)
qed

lemma demo_reachable: "reachable demo_connection"
  unfolding demo_connection_def
  by (rule reachable.connected [of demo_transport config_default]) (metis demo_connected prod.collapse)

subsection \<open>The invariant\<close>

text \<open>
  C1: every connection a caller can reach is well formed: its configuration is legal, the
  peer's settings are within the protocol's limits, the identifiers of its streams are distinct, odd and
  below the next one to be allocated, every stream's state agrees with the ends it has seen, no body is larger
  than its limit and no stream ended without a status, both HPACK tables respect their limits, and the read
  buffer is bounded; while it is open both connection windows are within range and the open header block is
  within its limit.
\<close>

theorem connection_invariant:
  assumes "reachable c"
  shows "wf c \<and> (conn_state c = COpen \<longrightarrow> soft c)"
  using reachable_good [OF assms] by (simp_all add: good_def)

theorem connection_invariant_witness:
  "if conn_state demo_connection = COpen then wf demo_connection \<and> soft demo_connection else wf demo_connection"
  using connection_invariant [OF demo_reachable] by simp



subsection \<open>Panics\<close>

definition calm :: "(fault + 'a) \<times> 's \<Rightarrow> bool" where
  "calm x \<longleftrightarrow> (\<forall>p. fst x \<noteq> Inl (Panic p))"

lemma calm_simps [simp]: "calm (Inr a, c)" "calm (Inl (Err e), c)" "\<not> calm (Inl (Panic p), c)"
  by (simp_all add: calm_def)

lemma calm_and_do:
  "calm (m c) \<Longrightarrow> (\<And>a c1. m c = (Inr a, c1) \<Longrightarrow> calm (k a c1)) \<Longrightarrow> calm (and_do m k c)"
  by (auto simp: and_do_def calm_def split: prod.splits sum.splits)

lemma calm_write_frame: "calm (write_frame f c)"
  using write_frame_spec [of f c "fst (write_frame f c)" "snd (write_frame f c)"]
  by (auto simp: calm_def)

lemma calm_send_window_update: "calm (send_window_update s n c)"
  by (auto simp: send_window_update_def intro!: calm_and_do calm_write_frame)

lemma calm_credit: "calm (credit_windows s es n c)"
  by (auto simp: credit_windows_def intro!: calm_and_do calm_send_window_update)

lemma calm_mark: "calm (mark_remote_end s c)"
  by (auto simp: mark_remote_end_def split: option.split)

lemma calm_lift: "calm (lift_result r c)"
  by (cases r) simp_all

lemma calm_settings: "calm (apply_peer_settings ss c)"
proof (induction ss arbitrary: c)
  case (Cons x ss)
  have "calm (apply_setting x c)"
    by (auto simp: apply_setting_def Let_def split: setting_id.split prod.split)
  with Cons show ?case by (auto intro: calm_and_do)
qed simp

lemma calm_finish_header_block:
  assumes "stream_of c s \<noteq> None"
  shows "calm (finish_header_block s tr es block c)"
proof -
  have store: "calm (store_fields s es f c1)" if "streams c1 = streams c" for f and c1 :: connection
    using assms that unfolding store_fields_def
    by (intro calm_and_do) (auto simp: expect_stream_def result_simps intro: calm_mark split: option.splits)
  have accept: "calm (accept_fields s es fs c1)" if "streams c1 = streams c" for fs and c1 :: connection
    using store [OF that] by (auto simp: accept_fields_def split: prod.split option.split)
  have decoded: "calm (finish_decoded s tr es fs c1)" if "streams c1 = streams c" for fs and c1 :: connection
    using that accept unfolding finish_decoded_def Let_def
    by (auto intro!: calm_and_do calm_lift simp: lift_result_def)
  have "calm (check_header_block_size (length block) c)"
    by (simp add: check_header_block_size_def)
  moreover have "calm (decode_block block c1)" for c1
    by (auto simp: decode_block_def split: prod.split sum.split hpack_error.split)
  moreover have "streams c1 = streams c" if "check_header_block_size (length block) c = (Inr u, c1)" for u c1
    using that by (simp add: check_header_block_size_def split: if_splits)
  ultimately show ?thesis
    unfolding finish_header_block_def
    by (intro calm_and_do decoded) (auto dest: decode_block_stream)
qed

lemma calm_handle_frame:
  assumes "\<And>pd. pending_inbound c = Some pd \<Longrightarrow> stream_of c (pd_stream pd) \<noteq> None"
  shows "calm (handle_frame f c)"
proof (cases "check_continuation f c")
  case (Some e)
  then show ?thesis by (simp add: handle_frame_def)
next
  case None
  let ?s = "fh_stream (frame_header f)"
  have data: "calm (handle_data s es n d c)" for s es n d
    by (auto simp: handle_data_def Let_def intro: calm_credit split: option.split)
  have head: "calm (handle_headers s es eh d c1)" for s es eh d c1
    by (auto simp: handle_headers_def Let_def check_header_block_size_def
        intro!: calm_and_do calm_finish_header_block split: option.split)
  have cont: "calm (handle_continuation s eh d c)" for s eh d
  proof (cases "pending_inbound c")
    case (Some pd)
    then show ?thesis using assms [OF Some]
      by (auto simp: handle_continuation_def Let_def check_header_block_size_def
          intro!: calm_and_do calm_finish_header_block split: if_splits)
  qed (simp add: handle_continuation_def)
  have settings: "calm (acknowledge_settings ss c)" for ss
    unfolding acknowledge_settings_def by (intro calm_and_do calm_settings calm_write_frame) simp
  have others: "calm (handle_rst_stream s code c)" "calm (handle_window_update s n c)" for s code n
    by (auto simp: handle_rst_stream_def handle_window_update_def Let_def split: option.split)
  show ?thesis
    using None data head cont settings others calm_write_frame
    by (cases "frame_kind f") (simp_all add: handle_frame_def Let_def)
qed

text \<open>
  C32: polling never panics on what the peer sends, as long as the stream whose header block
  is open is still there.
\<close>

theorem poll_never_panics:
  assumes "reachable c"
    and "\<And>pd. pending_inbound c = Some pd \<Longrightarrow> stream_of c (pd_stream pd) \<noteq> None"
  shows "fst (poll_frame c) \<noteq> Inl (Panic p)"
proof (cases "ensure_open c")
  case (Pair r c0)
  show ?thesis
  proof (cases r)
    case (Inl e)
    with Pair ensure_open_err [of c e c0] show ?thesis by (auto simp: poll_frame_def and_do_def)
  next
    case (Inr u)
    with Pair ensure_open_ok [of c u c0] have c0: "ensure_open c = (Inr u, c)" "conn_state c = COpen" by auto
    from good_open [OF reachable_good [OF assms(1)] c0(2)] have ws: "wf c" "soft c" by auto
    obtain q c1 where q: "try_read_frame c = (q, c1)" by fastforce
    from try_read_frame_keeps [OF q ws(1)] ws have errs: "\<forall>x. q = Inl x \<longrightarrow> (\<exists>e. x = Err e)" by auto
    show ?thesis
    proof (cases q)
      case (Inl x)
      with errs q c0 show ?thesis by (auto simp: poll_frame_def and_do_def)
    next
      case (Inr fo)
      show ?thesis
      proof (cases fo)
        case None
        with Inr q c0 show ?thesis by (simp add: poll_frame_def and_do_def)
      next
        case (Some f)
        from try_read_frame_spec [OF q] have "pending_inbound c1 = pending_inbound c \<and> streams c1 = streams c"
          by (auto simp: Let_def bump_def elim!: buffered_frame_cases)
        then have "calm (handle_frame f c1)" by (intro calm_handle_frame) (simp add: assms(2))
        with Some Inr q c0 show ?thesis
          by (cases "handle_frame f c1"; cases "fst (handle_frame f c1)")
             (auto simp: poll_frame_def and_do_def Let_def calm_def split: fault.split option.split)
      qed
    qed
  qed
qed

theorem poll_never_panics_witness: "\<forall>p. fst (poll_frame demo_connection) \<noteq> Inl (Panic p)"
proof (rule allI, rule poll_never_panics [OF demo_reachable])
  have "case pending_inbound demo_connection of None \<Rightarrow> True | Some _ \<Rightarrow> False"
    unfolding demo_connection_def by code_simp
  then have "pending_inbound demo_connection = None" by (simp split: option.splits)
  then show "pending_inbound demo_connection = Some pd \<Longrightarrow> stream_of demo_connection (pd_stream pd) \<noteq> None" for pd
    by simp
qed

text \<open>
  C33: the exception: if the caller cancels a stream between a HEADERS frame without
  END_HEADERS and the CONTINUATION frame that completes the block, then that frame, however correct, makes
  the client panic.
\<close>

theorem cancel_mid_block_panics:
  assumes "pending_inbound c = Some pd" "\<not> pd_trailers pd" "distinct (map fst (streams c))"
    and "cancel_stream (pd_stream pd) c = (Inr u, c1)" "stream_of c (pd_stream pd) \<noteq> None"
    and "length (pd_fragments pd) + length fragment \<le> max_header_block_size (config c)"
    and "fst (hpack_decode (conn_decoder c) (pd_fragments pd @ fragment)) = Inr fs"
    and "sum_list (map field_size fs) \<le> unat (max_header_list_size (config c))"
    and "validate_response_fields (pd_stream pd) fs False = Inr (Some code, regular)" "\<not> (100 \<le> code \<and> code \<le> 199)"
  shows "\<exists>p c2. handle_frame (frame_continuation (pd_stream pd) True fragment) c1 = (Inl (Panic p), c2)"
proof -
  let ?s = "pd_stream pd"
  let ?c0 = "(drop_stream ?s c)\<lparr>stream_errors := AList.delete ?s (stream_errors c)\<rparr>"
  obtain st where st: "stream_of c ?s = Some st" using assms(5) by auto
  have "\<exists>t x n. c1 = ?c0\<lparr>io := t, stats := x, conn_state := n\<rparr>"
  proof (cases "st_state st = SClosed \<or> conn_state c = CClosed")
    case True
    with assms(4) st have "c1 = ?c0\<lparr>io := io ?c0, stats := stats ?c0, conn_state := conn_state ?c0\<rparr>"
      by (simp add: cancel_stream_def Let_def)
    then show ?thesis by blast
  next
    case False
    with assms(4) st have "write_frame (frame_rst_stream ?s Cancel) ?c0 = (Inr u, c1)"
      by (simp add: cancel_stream_def Let_def)
    from write_frame_spec [OF this] show ?thesis by blast
  qed
  then have c1: "stream_of c1 ?s = None" "pending_inbound c1 = Some pd" "config c1 = config c"
    "conn_decoder c1 = conn_decoder c"
    using assms(1) by (auto simp: drop_stream_def delete_conv)
  obtain d where d: "hpack_decode (conn_decoder c) (pd_fragments pd @ fragment) = (Inr fs, d)"
    using assms(7) by (metis prod.collapse)
  have "handle_continuation ?s True fragment c1 =
    finish_decoded ?s False (pd_end_stream pd) fs (c1\<lparr>pending_inbound := None, conn_decoder := d\<rparr>)"
    using c1 assms(2,6) d
    by (simp add: handle_continuation_def check_header_block_size_def finish_header_block_def decode_block_def
        and_do_def Let_def)
  also have "\<dots> = (Inl (Panic ''stream existence checked before decoding''), c1\<lparr>pending_inbound := None, conn_decoder := d\<rparr>)"
    using c1 assms(8-10)
    by (auto simp: finish_decoded_def accept_fields_def store_fields_def expect_stream_def and_do_def Let_def)
  finally show ?thesis
    using c1 by (simp add: handle_frame_def check_continuation_def frame_continuation_def mk_frame_def Let_def)
qed

definition interrupted_connection :: connection where
  "interrupted_connection = (connection_new demo_transport config_default)\<lparr>streams := [(StreamId 1, stream_init 65535 65535)], next_stream_id := 3,
     pending_inbound := Some \<lparr>pd_stream = StreamId 1, pd_trailers = False, pd_end_stream = False, pd_fragments = []\<rparr>\<rparr>"

theorem cancel_mid_block_panics_witness:
  "\<exists>c1 p c2. cancel_stream (StreamId 1) interrupted_connection = (Inr (), c1) \<and>
     handle_frame (frame_continuation (StreamId 1) True [0x10, 7, 58, 115, 116, 97, 116, 117, 115, 3, 50, 48, 48]) c1 = (Inl (Panic p), c2)"
proof -
  let ?c = interrupted_connection
  let ?pd = "\<lparr>pd_stream = StreamId 1, pd_trailers = False, pd_end_stream = False, pd_fragments = []\<rparr>"
  have "case cancel_stream (StreamId 1) ?c of (Inr _, _) \<Rightarrow> True | _ \<Rightarrow> False"
    by code_simp
  then obtain c1 where c1: "cancel_stream (StreamId 1) ?c = (Inr (), c1)"
    by (auto split: prod.splits sum.splits)
  let ?fs = "[\<lparr>field_name = ascii '':status'', field_value = ascii ''200''\<rparr>]"
  have "length ([] :: bytes) + length ([0x10, 7, 58, 115, 116, 97, 116, 117, 115, 3, 50, 48, 48] :: bytes) \<le> max_header_block_size (config ?c)"
    and "case fst (hpack_decode (conn_decoder ?c) ([] @ [0x10, 7, 58, 115, 116, 97, 116, 117, 115, 3, 50, 48, 48])) of Inr fs \<Rightarrow> fs = ?fs | _ \<Rightarrow> False"
    and "sum_list (map field_size ?fs) \<le> unat (max_header_list_size (config ?c))"
    and "case validate_response_fields (StreamId 1) ?fs False of Inr (Some x, regular) \<Rightarrow> x = 200 | _ \<Rightarrow> False"
       apply code_simp
      apply code_simp
     apply code_simp
    apply code_simp
    done
  then show ?thesis
    using cancel_mid_block_panics [of ?c ?pd "()" c1 "[0x10, 7, 58, 115, 116, 97, 116, 117, 115, 3, 50, 48, 48]" ?fs 200] c1
    by (fastforce simp: interrupted_connection_def split: sum.splits prod.splits option.splits)
qed

subsection \<open>Closed connections and responses\<close>

lemma bind_unit_sent: "snd (and_do m (\<lambda>_. ok ()) c) = snd (m c)"
  by (simp add: and_do_def split: prod.split sum.split)

text \<open>
  closed_connection_silent: after a connection was closed, by either side, no operation writes anything to it
  and it never opens again.
\<close>

theorem closed_connection_silent:
  assumes "conn_state c = CClosed"
  shows "sent (io (snd (apply_op x c))) = sent (io c) \<and> conn_state (snd (apply_op x c)) = CClosed"
proof -
  obtain e where e: "ensure_open c = (Inl e, c)" 
    using assms by (cases "goaway c") (auto simp: ensure_open_def)
  show ?thesis
  proof (cases x)
    case (OpTake s)
    have "sent (io (snd (take_response s c))) = sent (io c) \<and> conn_state (snd (take_response s c)) = CClosed"
      using assms by (auto simp: take_response_def drop_stream_def split: option.split sum.split)
    with OpTake show ?thesis by (simp add: bind_unit_sent)
  next
    case (OpCancel s)
    then show ?thesis using assms by (auto simp: cancel_stream_def Let_def drop_stream_def split: option.split)
  qed (use assms e in \<open>simp_all add: bind_unit_sent and_do_def send_request_def read_response_def poll_frame_def close_def\<close>)
qed

theorem closed_connection_silent_witness:
  "conn_state (snd (apply_op OpPoll (demo_connection\<lparr>conn_state := CClosed\<rparr>))) = CClosed"
  using closed_connection_silent [of "demo_connection\<lparr>conn_state := CClosed\<rparr>" OpPoll] by simp

text \<open>
  take_response_once: a response is handed out only when the peer ended the stream and sent a final
  status; it carries what the stream collected, and it is handed out once: the stream is gone afterwards.
\<close>

theorem take_response_once:
  assumes "take_response s c = (Inr (Some r), c')" "distinct (map fst (streams c))"
  shows "\<exists>st. stream_of c s = Some st \<and> st_end_received st \<and> st_status st = Some (rs_status r) \<and>
    rs_headers r = st_headers st \<and> rs_body r = st_body st \<and> rs_stream_id r = s \<and>
    stream_of c' s = None \<and> (\<exists>e. take_response s c' = (Inl (Err (H2InvalidRequest e)), c'))"
proof -
  from assms(1) have none: "map_of (stream_errors c) s = None" and c': "c' = drop_stream s c"
    and fin: "completed_response s c = Inr (Some r)"
    by (auto simp: take_response_def split: option.splits sum.splits)
  have gone: "stream_of c' s = None" by (simp add: c' drop_stream_def delete_conv)
  with none c' have "\<exists>e. take_response s c' = (Inl (Err (H2InvalidRequest e)), c')"
    by (simp add: take_response_def completed_response_def drop_stream_def)
  with fin gone show ?thesis
    by (auto simp: completed_response_def ok_or_def and_then_def split: option.splits if_splits)
qed

definition finished_stream :: stream where
  "finished_stream = \<lparr>st_state = SClosed, st_send_window = 0, st_recv_window = 0, st_end_sent = True,
     st_end_received = True, st_status = Some 204, st_headers = [], st_body = []\<rparr>"

theorem take_response_once_witness:
  "\<exists>r c'. take_response (StreamId 1) ((connection_new demo_transport config_default)\<lparr>streams := [(StreamId 1, finished_stream)]\<rparr>) = (Inr (Some r), c') \<and>
     stream_of c' (StreamId 1) = None"
proof -
  let ?c = "(connection_new demo_transport config_default)\<lparr>streams := [(StreamId 1, finished_stream)]\<rparr>"
  have "case take_response (StreamId 1) ?c of (Inr (Some _), _) \<Rightarrow> True | _ \<Rightarrow> False"
    by code_simp
  then obtain r c' where "take_response (StreamId 1) ?c = (Inr (Some r), c')"
    by (auto split: prod.splits sum.splits option.splits)
  with take_response_once [of "StreamId 1" ?c r c'] show ?thesis by auto
qed

end
