(* ===== verification/H2Messages.thy ===== *)
theory H2Messages
  imports H2Receiving
begin

text \<open>
  Requests and responses (\<^verbatim>\<open>crates/render-net/src/h2/connection.rs\<close>: \<open>validate_request\<close>,
  \<open>request_fields\<close>, \<open>validate_response_fields\<close>, \<open>parse_status\<close>, \<open>send_request\<close>): what passes the
  checks, and what a request puts on the wire.
\<close>

subsection \<open>Fields\<close>

text \<open>A regular field: a non-empty lowercase token for a name, and no NUL, CR or LF in the value.\<close>

definition regular_field :: "header_field \<Rightarrow> bool" where
  "regular_field f \<longleftrightarrow> field_name f \<noteq> [] \<and> (\<forall>b \<in> set (field_name f). is_token_byte b \<and> \<not> is_ascii_uppercase b) \<and>
     (\<forall>b \<in> set (field_value f). b \<noteq> 0x00 \<and> b \<noteq> 0x0a \<and> b \<noteq> 0x0d)"

lemma colon_not_token: "\<not> is_token_byte 0x3a"
  by (simp add: is_token_byte_def is_ascii_alphanumeric_def is_ascii_digit_def is_ascii_uppercase_def
      is_ascii_lowercase_def)

lemma validate_field_name_ok:
  "validate_field_name n = Inr u \<longleftrightarrow> n \<noteq> [] \<and> (\<forall>b \<in> set n. is_token_byte b \<and> \<not> is_ascii_uppercase b)"
  by (auto simp: validate_field_name_def list_ex_iff list_all_iff)

lemma valid_field_value_iff: "valid_field_value v \<longleftrightarrow> (\<forall>b \<in> set v. b \<noteq> 0x00 \<and> b \<noteq> 0x0a \<and> b \<noteq> 0x0d)"
  by (auto simp: valid_field_value_def list_ex_iff)

lemma regular_field_iff:
  "regular_field f \<longleftrightarrow> validate_field_name (field_name f) = Inr () \<and> valid_field_value (field_value f)"
  by (simp add: regular_field_def validate_field_name_ok valid_field_value_iff)

lemma regular_not_pseudo: "regular_field f \<Longrightarrow> \<not> first_is_colon (field_name f)"
  using colon_not_token by (cases "field_name f") (auto simp: regular_field_def first_is_colon_def)

subsection \<open>Responses\<close>

lemma regular_step:
  "\<not> first_is_colon (field_name f) \<Longrightarrow>
   response_fields_loop s t (f # rest) st reg saw = Inr x \<longleftrightarrow>
     regular_field f \<and> response_fields_loop s t rest st (reg @ [f]) True = Inr x"
  by (cases "validate_field_name (field_name f)") (auto simp: regular_field_iff)

lemma response_fields_regular:
  "t \<or> saw \<Longrightarrow> response_fields_loop s t fs st reg saw = Inr (st', reg') \<longleftrightarrow>
     st' = st \<and> reg' = reg @ fs \<and> (\<forall>f \<in> set fs. regular_field f)"
proof (induction fs arbitrary: reg saw)
  case (Cons f fs)
  show ?case
  proof (cases "first_is_colon (field_name f)")
    case True
    with Cons.prems regular_not_pseudo [of f] show ?thesis by auto
  next
    case False
    with Cons.IH [of True "reg @ [f]"] show ?thesis
      by (auto simp: regular_step simp del: response_fields_loop.simps(2))
  qed
qed auto

lemma response_fields_status:
  "response_fields_loop s False fs (Some code) [] False = Inr (st', reg') \<longleftrightarrow>
     st' = Some code \<and> reg' = fs \<and> (\<forall>f \<in> set fs. regular_field f)"
proof (cases fs)
  case (Cons f fs')
  show ?thesis
  proof (cases "first_is_colon (field_name f)")
    case True
    with Cons regular_not_pseudo [of f] show ?thesis by auto
  next
    case False
    with Cons show ?thesis
      by (auto simp: regular_step response_fields_regular simp del: response_fields_loop.simps(2))
  qed
qed auto

text \<open>
  C26: the check of a decoded header list accepts exactly the well-formed ones and
  takes them apart correctly: trailers consist of regular fields only; a response starts with one
  \<open>:status\<close> field, whose value is a status code, and goes on with regular fields only.
\<close>

theorem response_fields_exact:
  "validate_response_fields s fs trailers = Inr (status, regular) \<longleftrightarrow>
     (\<forall>f \<in> set regular. regular_field f) \<and>
     (if trailers then status = None \<and> fs = regular
      else \<exists>v code. parse_status s v = Inr code \<and> status = Some code \<and>
        fs = \<lparr>field_name = ascii '':status'', field_value = v\<rparr> # regular)"
proof (cases trailers)
  case True
  have "response_fields_loop s True fs None [] False = Inr (st', reg') \<longleftrightarrow>
      st' = None \<and> reg' = fs \<and> (\<forall>f \<in> set fs. regular_field f)" for st' reg'
    by (simp add: response_fields_regular)
  with True show ?thesis by (auto simp: validate_response_fields_def result_simps)
next
  case False
  show ?thesis
  proof (cases fs)
    case (Cons f fs')
    show ?thesis
    proof (cases "first_is_colon (field_name f)")
      case True
      have "f = \<lparr>field_name = ascii '':status'', field_value = v\<rparr> \<longleftrightarrow>
          field_name f = ascii '':status'' \<and> field_value f = v" for v
        by (cases f) auto
      with True Cons False show ?thesis
        by (cases "parse_status s (field_value f)")
           (auto simp: validate_response_fields_def result_simps response_fields_status)
    next
      case no: False
      have "\<not> (\<exists>v. f = \<lparr>field_name = ascii '':status'', field_value = v\<rparr>)"
        using no by (auto simp: first_is_colon_def ascii_def)
      with no Cons False show ?thesis
        by (auto simp: validate_response_fields_def result_simps regular_step response_fields_regular
            simp del: response_fields_loop.simps(2))
    qed
  qed (use False in \<open>auto simp: validate_response_fields_def\<close>)
qed

lemma unat_octet [simp]: "unat (ucast (x :: u8) :: u16) = unat x"
proof -
  have "unat x < 256" using unsigned_less [of x] by simp
  then show ?thesis by (simp add: unsigned_ucast_eq take_bit_nat_eq_self)
qed

lemma digit_value:
  assumes "is_ascii_digit b"
  shows "unat (b - 0x30) < 10" "b = 0x30 + (b - 0x30)"
proof -
  have "0x30 \<le> unat b" "unat b \<le> 0x39" using assms by (simp_all add: is_ascii_digit_def word_le_nat_alt)
  then show "unat (b - 0x30) < 10" by (simp add: unat_sub word_le_nat_alt)
qed simp

text \<open>
  status_code_value: a status is accepted exactly when it is three ASCII digits, and its value is the number
  they denote: the sixteen-bit accumulation does not overflow.
\<close>

theorem status_code_value:
  "parse_status s v = Inr code \<longleftrightarrow>
     (\<exists>a b d. v = [a, b, d] \<and> is_ascii_digit a \<and> is_ascii_digit b \<and> is_ascii_digit d \<and>
        unat code = 100 * unat (a - 0x30) + 10 * unat (b - 0x30) + unat (d - 0x30))"
proof -
  have val: "unat (foldl (\<lambda>acc x. acc * 10 + ucast (x - 0x30)) (0 :: u16) [a, b, d]) =
      100 * unat (a - 0x30) + 10 * unat (b - 0x30) + unat (d - 0x30)"
    if "is_ascii_digit a" "is_ascii_digit b" "is_ascii_digit d" for a b d :: u8
    using digit_value(1) [OF that(1)] digit_value(1) [OF that(2)] digit_value(1) [OF that(3)]
    by (simp add: unat_word_ariths)
  have eq: "foldl (\<lambda>acc x. acc * 10 + ucast (x - 0x30)) 0 [a, b, d] = code \<longleftrightarrow>
      unat code = 100 * unat (a - 0x30) + 10 * unat (b - 0x30) + unat (d - 0x30)"
    if "is_ascii_digit a" "is_ascii_digit b" "is_ascii_digit d" for a b d :: u8
    using val [OF that] by (metis word_unat_eq_iff)
  have "length v = 3 \<longleftrightarrow> (\<exists>a b d. v = [a, b, d])"
    by (auto simp: numeral_3_eq_3 length_Suc_conv)
  with val eq show ?thesis
    unfolding parse_status_def by (auto simp del: foldl_Cons foldl_Nil split: if_splits)
qed

subsection \<open>Requests\<close>

lemma request_headers_regular:
  "validate_request_headers fs = Inr () \<Longrightarrow>
     \<forall>f \<in> set fs. regular_field f \<and> \<not> is_connection_specific (field_name f) \<and>
       (field_name f = ascii ''te'' \<longrightarrow> eq_ignore_ascii_case (field_value f) (ascii ''trailers''))"
proof (induction fs)
  case (Cons f fs)
  then show ?case
    by (cases "validate_field_name (field_name f)") (auto simp: regular_field_iff split: if_splits)
qed simp

lemma dec_text_digits: "\<forall>b \<in> set (to_bytes (dec_text n)). is_ascii_digit b"
proof (induction n rule: less_induct)
  case (less n)
  have digit: "is_ascii_digit (of_nat (of_char (digit_char d)))" if "d < 10" for d
  proof -
    have "(48 + of_nat d :: u8) = of_nat (48 + d)" by simp
    also have "unat (\<dots>) = 48 + d" using that by (subst unat_of_nat) simp
    finally have "unat (48 + of_nat d :: u8) = 48 + d" .
    then show ?thesis using that by (simp add: digit_char_def is_ascii_digit_def word_le_nat_alt)
  qed
  show ?case
  proof (cases "n < 10")
    case True
    then show ?thesis using digit [of n] by (simp add: dec_text_def radix.simps [of 10 n] to_bytes_def)
  next
    case False
    then have "\<forall>b \<in> set (to_bytes (dec_text (n div 10))). is_ascii_digit b" by (intro less.IH) simp
    with False digit [of "n mod 10"] show ?thesis
      by (auto simp: dec_text_def radix.simps [of 10 n] to_bytes_def)
  qed
qed

lemma digit_token: "is_ascii_digit b \<Longrightarrow> b \<noteq> 0x00 \<and> b \<noteq> 0x0a \<and> b \<noteq> 0x0d"
  by (auto simp: is_ascii_digit_def word_le_nat_alt)

text \<open>
  request_fields_wellformed: the header list of a request that passed validation starts with the four
  pseudo fields and goes on with regular fields only, none of them specific to a connection, TE only as
  \<open>trailers\<close>; a request with a body declares its length, by the caller's field or by one that gives the
  length of the body.
\<close>

theorem request_fields_wellformed:
  assumes "validate_request r = Inr ()"
  shows "\<exists>regular. request_fields r =
      [\<lparr>field_name = ascii '':method'', field_value = to_bytes (rq_method r)\<rparr>,
       \<lparr>field_name = ascii '':scheme'', field_value = to_bytes (rq_scheme r)\<rparr>,
       \<lparr>field_name = ascii '':authority'', field_value = to_bytes (rq_authority r)\<rparr>,
       \<lparr>field_name = ascii '':path'', field_value = to_bytes (rq_path r)\<rparr>] @ regular \<and>
    (\<forall>f \<in> set regular. regular_field f \<and> \<not> is_connection_specific (field_name f) \<and>
       (field_name f = ascii ''te'' \<longrightarrow> eq_ignore_ascii_case (field_value f) (ascii ''trailers''))) \<and>
    (\<forall>body. rq_body r = Some body \<longrightarrow>
       (\<exists>f \<in> set regular. f \<in> set (rq_headers r) \<and> eq_ignore_ascii_case (field_name f) (ascii ''content-length'') \<or>
          f = \<lparr>field_name = ascii ''content-length'', field_value = to_bytes (dec_text (length body))\<rparr>))"
proof -
  have "validate_request_headers (rq_headers r) = Inr ()"
    using assms by (simp add: validate_request_def split: if_splits)
  note regular = request_headers_regular [OF this]
  have cl: "regular_field \<lparr>field_name = ascii ''content-length'', field_value = to_bytes (dec_text n)\<rparr> \<and>
      \<not> is_connection_specific (ascii ''content-length'') \<and> ascii ''content-length'' \<noteq> ascii ''te''" for n
    using dec_text_digits [of n] digit_token
    by (auto simp: regular_field_def ascii_def is_connection_specific_def is_token_byte_def
        is_ascii_alphanumeric_def is_ascii_uppercase_def is_ascii_lowercase_def is_ascii_digit_def word_le_nat_alt)
  define length_field where "length_field = (case rq_body r of None \<Rightarrow> []
      | Some body \<Rightarrow> if list_ex (\<lambda>f. eq_ignore_ascii_case (field_name f) (ascii ''content-length'')) (rq_headers r) then []
        else [\<lparr>field_name = ascii ''content-length'', field_value = to_bytes (dec_text (length body))\<rparr>])"
  have "\<forall>f \<in> set length_field. regular_field f \<and> \<not> is_connection_specific (field_name f) \<and>
       (field_name f = ascii ''te'' \<longrightarrow> eq_ignore_ascii_case (field_value f) (ascii ''trailers''))"
    using cl by (auto simp: length_field_def split: option.splits if_splits)
  moreover have "\<forall>body. rq_body r = Some body \<longrightarrow>
       (\<exists>f \<in> set (length_field @ rq_headers r).
          f \<in> set (rq_headers r) \<and> eq_ignore_ascii_case (field_name f) (ascii ''content-length'') \<or>
          f = \<lparr>field_name = ascii ''content-length'', field_value = to_bytes (dec_text (length body))\<rparr>)"
    by (auto simp: length_field_def list_ex_iff)
  moreover have "request_fields r =
      [\<lparr>field_name = ascii '':method'', field_value = to_bytes (rq_method r)\<rparr>,
       \<lparr>field_name = ascii '':scheme'', field_value = to_bytes (rq_scheme r)\<rparr>,
       \<lparr>field_name = ascii '':authority'', field_value = to_bytes (rq_authority r)\<rparr>,
       \<lparr>field_name = ascii '':path'', field_value = to_bytes (rq_path r)\<rparr>] @ length_field @ rq_headers r"
    by (simp add: request_fields_def length_field_def Let_def)
  ultimately show ?thesis using regular
    by (intro exI [of _ "length_field @ rq_headers r"]) auto
qed

theorem request_fields_wellformed_witness:
  "list_all regular_field (drop 4 (request_fields (with_body [1, 2, 3] (request_get ''example.org'' ''/''))))"
proof -
  let ?r = "with_body [1, 2, 3] (request_get ''example.org'' ''/'')"
  have "case validate_request ?r of Inr _ \<Rightarrow> True | _ \<Rightarrow> False" by code_simp
  then have "validate_request ?r = Inr ()" by (simp split: sum.splits)
  from request_fields_wellformed [OF this] show ?thesis by (auto simp: list_all_iff)
qed

text \<open>
  C3: when sending a request succeeds, its stream identifier is the next odd one, fresh even
  against streams that are gone, the request was valid and within the peer's concurrency limit, and the octets written
  are exactly: a HEADERS frame and its CONTINUATION frames, whose fragments concatenate to the HPACK block of the
  request's fields, and then the DATA frames of the body, with only control frames in between.
\<close>

theorem request_on_wire:
  assumes "reachable c" "send_request r c = (Inr s, c')"
  shows "sid_raw s = next_stream_id c \<and> is_client_initiated s \<and> stream_of c s = None \<and> validate_request r = Inr () \<and>
    (\<forall>limit. peer_max_concurrent (peer c) = Some limit \<longrightarrow> active_streams c < unat limit) \<and>
    (\<exists>body x xs fs ds. body = (case rq_body r of None \<Rightarrow> [] | Some b \<Rightarrow> b) \<and>
      wrote (frame_headers s (body = []) (xs = []) None x # continuations s xs @ fs) c c' \<and>
      concat (x # xs) = snd (hpack_encode (conn_encoder c) (request_fields r)) \<and>
      filter (\<lambda>f. \<not> control_frame f) fs = data_frames s ds \<and> concat ds = body)"
proof -
  from assms(2) obtain u c0 where e: "ensure_open c = (Inr u, c0)"
    and rest: "and_do (lift_result (validate_request r)) (\<lambda>_ c.
       case peer_max_concurrent (peer c) of
          Some limit \<Rightarrow>
            if unat limit \<le> active_streams c then err (H2ConcurrentStreamLimit limit) c else open_stream r c
        | None \<Rightarrow> open_stream r c) c0 = (Inr s, c')"
    unfolding send_request_def by (auto simp only: and_do_Inr)
  from ensure_open_ok [OF e] have c0: "c0 = c" and opened: "conn_state c = COpen" by auto
  have valid: "validate_request r = Inr ()"
    using rest by (cases "validate_request r") (auto simp: and_do_def)
  with rest c0 have limit: "\<forall>limit. peer_max_concurrent (peer c) = Some limit \<longrightarrow> active_streams c < unat limit"
    and sent: "open_stream r c = (Inr s, c')"
    by (auto simp: and_do_def not_le split: option.splits if_splits)
  from good_open [OF reachable_good [OF assms(1)] opened] have wf: "wf c" ..
  obtain e block where enc: "hpack_encode (conn_encoder c) (request_fields r) = (e, block)" by fastforce
  let ?c = "c\<lparr>conn_encoder := e\<rparr>" and ?body = "case rq_body r of None \<Rightarrow> [] | Some b \<Rightarrow> b"
  have wf': "wf ?c" using wf hpack_encode_enc_ok [OF _ enc] by (simp add: wf_def pending_ok_def)
  from sent obtain c1 u c2 v where a: "allocate_stream_id ?c = (Inr s, c1)"
    and h: "send_header_block s (?body = []) block (put_stream s
              (stream_init (peer_initial_window (peer c1)) (initial_window_size (config c1))) c1) = (Inr u, c2)"
    and b: "(if ?body = [] then mark_local_end s else send_body s ?body) c2 = (Inr v, c')"
    by (auto simp: open_stream_def enc Let_def result_simps)
  note spec = allocate_stream_id_spec [OF a wf']
  from header_block_wrote [OF h] obtain x xs where
    x: "wrote (frame_headers s (?body = []) (xs = []) None x # continuations s xs) c c2" "concat (x # xs) = block"
    by (auto simp: wrote_def spec(2) put_stream_def)
  have "\<exists>fs ds. wrote fs c2 c' \<and> filter (\<lambda>f. \<not> control_frame f) fs = data_frames s ds \<and> concat ds = ?body"
  proof (cases "?body = []")
    case True
    with b mark_local_end_wrote [of s c2] show ?thesis by (intro exI [of _ "[]"]) auto
  next
    case False
    with b body_wrote [of s ?body c2 v c'] show ?thesis by auto
  qed
  then obtain fs ds where fs: "wrote fs c2 c'" "filter (\<lambda>f. \<not> control_frame f) fs = data_frames s ds" "concat ds = ?body"
    by auto
  from wrote_append [OF x(1) fs(1)]
  have "wrote (frame_headers s (?body = []) (xs = []) None x # continuations s xs @ fs) c c'" by simp
  with x(2) fs(2,3) enc have "\<exists>body x xs fs ds. body = ?body \<and>
      wrote (frame_headers s (body = []) (xs = []) None x # continuations s xs @ fs) c c' \<and>
      concat (x # xs) = snd (hpack_encode (conn_encoder c) (request_fields r)) \<and>
      filter (\<lambda>f. \<not> control_frame f) fs = data_frames s ds \<and> concat ds = body"
    by (intro exI [of _ ?body] exI [of _ x] exI [of _ xs] exI [of _ fs] exI [of _ ds]) simp
  moreover have "sid_raw s = next_stream_id c" "stream_of c s = None" "is_client_initiated s"
    using spec(1,5,7) by (simp_all add: key_ok_def)
  ultimately show ?thesis using valid limit by blast
qed

subsection \<open>Requests succeed on a transport that accepts writes\<close>

lemma write_frame_accepted:
  assumes "is_ok (frame_encode f)" "write_results (io c) = []"
  shows "\<exists>t x. write_frame f c = (Inr (), c\<lparr>io := t, stats := x\<rparr>) \<and> write_results t = []"
proof -
  from assms(1) obtain bs where bs: "frame_encode f = Inr bs" by (cases "frame_encode f") auto
  let ?t = "(io c)\<lparr>sent := sent (io c) @ [bs]\<rparr>"
  have "write_frame f c = (Inr (), bump (\<lambda>s. s\<lparr>frames_written := frames_written s + 1\<rparr>) (c\<lparr>io := ?t\<rparr>))"
    using bs assms(2) by (simp add: write_frame_def frame_write_to_def io_write_all_def io_flush_def Let_def bump_def)
  then show ?thesis using assms(2) by (auto simp: bump_def)
qed

lemma encode_parts_ok:
  "encode_parts f = Inr (t, flags, s, p) \<Longrightarrow> length p \<le> 16777215 \<Longrightarrow> is_ok (frame_encode f)"
  using frame_encode_Inr [of f "wire (frame_type_as_u8 t) flags s p"] by auto

lemma header_frames_encode:
  assumes "\<not> is_connection s" "length p \<le> 16777215"
  shows "is_ok (frame_encode (frame_headers s es eh None p))" "is_ok (frame_encode (frame_continuation s eh p))"
  using assms by (auto simp: encode_parts_def frame_continuation_def mk_frame_def encode_headers_Inr
      intro!: encode_parts_ok)

lemma send_continuations_accepted:
  "\<not> is_connection s \<Longrightarrow> 0 < limit \<Longrightarrow> limit \<le> 16777215 \<Longrightarrow> write_results (io c) = [] \<Longrightarrow>
     \<exists>t x. send_continuations s block limit offset c = (Inr (), c\<lparr>io := t, stats := x\<rparr>)"
proof (induction s block limit offset c rule: send_continuations.induct)
  case (1 s block limit offset c)
  show ?case
  proof (cases "offset < length block")
    case False
    then have "send_continuations s block limit offset c = (Inr (), c\<lparr>io := io c, stats := stats c\<rparr>)"
      by (simp add: send_continuations.simps [of s block limit offset c])
    then show ?thesis by blast
  next
    case True
    define finish where "finish = min (offset + limit) (length block)"
    let ?f = "frame_continuation s (finish = length block) (take (finish - offset) (drop offset block))"
    have "length (take (finish - offset) (drop offset block)) \<le> 16777215" using 1(4) by (simp add: finish_def)
    from write_frame_accepted [OF header_frames_encode(2) [OF 1(2) this, of "finish = length block"] 1(5)]
    obtain t x where w: "write_frame ?f c = (Inr (), c\<lparr>io := t, stats := x\<rparr>)" "write_results t = []" by auto
    have more: "\<not> finish \<le> offset" using True 1(3) by (simp add: finish_def)
    from 1(1) [OF True finish_def refl w(1) more 1(2-4)] w(2) obtain t' x' where
      "send_continuations s block limit finish (c\<lparr>io := t, stats := x\<rparr>) = (Inr (), c\<lparr>io := t', stats := x'\<rparr>)"
      by auto
    with True more w(1) have "send_continuations s block limit offset c = (Inr (), c\<lparr>io := t', stats := x'\<rparr>)"
      by (simp add: send_continuations.simps [of s block limit offset c] Let_def and_do_def finish_def [symmetric])
    then show ?thesis by blast
  qed
qed

lemma request_accepted:
  assumes "reachable c" "conn_state c = COpen" "goaway c = None" "validate_request r = Inr ()"
    and "\<And>limit. peer_max_concurrent (peer c) = Some limit \<Longrightarrow> active_streams c < unat limit"
    and "next_stream_id c \<le> 0x7fffffff" "rq_body r = None" "write_results (io c) = []"
  shows "\<exists>s c'. send_request r c = (Inr s, c')"
proof -
  have ws: "wf c" using good_open [OF reachable_good [OF assms(1)] assms(2)] ..
  obtain e block where enc: "hpack_encode (conn_encoder c) (request_fields r) = (e, block)" by fastforce
  let ?c = "c\<lparr>conn_encoder := e\<rparr>"
  have wf': "wf ?c" using ws hpack_encode_enc_ok [OF _ enc] by (simp add: wf_def pending_ok_def)
  have "unat (next_stream_id c) \<le> 0x7fffffff" using assms(6) by (simp add: word_le_nat_alt)
  then obtain s c1 where a: "allocate_stream_id ?c = (Inr s, c1)"
    using assms(6) by (simp add: allocate_stream_id_def Let_def not_less)
  note spec = allocate_stream_id_spec [OF a wf']
  let ?c2 = "put_stream s (stream_init (peer_initial_window (peer c1)) (initial_window_size (config c1))) c1"
  let ?limit = "unat (peer_max_frame (peer ?c2))"
  let ?n = "min (length block) ?limit"
  have s: "\<not> is_connection s" using spec(7) by (auto simp: key_ok_def is_connection_def is_client_initiated_def CONNECTION_def)
  have limit: "0 < ?limit" "?limit \<le> 16777215" and w2: "write_results (io ?c2) = []"
    using ws assms(8) by (auto simp: spec(2) put_stream_def wf_def peer_ok_def)
  have "length (take ?n block) \<le> 16777215" using limit by simp
  from write_frame_accepted [OF header_frames_encode(1) [OF s this, of True "length block \<le> ?limit"] w2]
  obtain t x where h: "write_frame (frame_headers s True (length block \<le> ?limit) None (take ?n block)) ?c2 =
      (Inr (), ?c2\<lparr>io := t, stats := x\<rparr>)" "write_results t = []" by auto
  from send_continuations_accepted [OF s limit, of "?c2\<lparr>io := t, stats := x\<rparr>" block ?n] h(2)
  obtain t' x' where "send_continuations s block ?limit ?n (?c2\<lparr>io := t, stats := x\<rparr>) =
      (Inr (), ?c2\<lparr>io := t', stats := x'\<rparr>)" by auto
  with h(1) have hb: "send_header_block s True block ?c2 = (Inr (), ?c2\<lparr>io := t', stats := x'\<rparr>)"
    by (simp add: send_header_block_def Let_def and_do_def)
  have "stream_of (?c2\<lparr>io := t', stats := x'\<rparr>) s \<noteq> None" by simp
  then obtain c3 where "mark_local_end s (?c2\<lparr>io := t', stats := x'\<rparr>) = (Inr (), c3)"
    by (auto simp: mark_local_end_def stream_init_def)
  with a hb have "open_stream r c = (Inr s, c3)"
    by (simp add: open_stream_def enc and_do_def assms(7))
  then show ?thesis
    using assms(2-5) by (auto simp: send_request_def ensure_open_def and_do_def split: option.split)
qed


end
