(* ===== verification/H2Witnesses.thy ===== *)
theory H2Witnesses
  imports H2Session H2Messages
begin

text \<open>
  The properties of HTTP/2 connections applied to concrete connections: a fresh one whose server sends an
  empty SETTINGS frame, with a stream that was opened or answered where one is needed.
\<close>

definition fresh_connection :: connection where
  "fresh_connection = connection_new demo_transport config_default"

definition open_connection :: "stream \<Rightarrow> connection" where
  "open_connection st = fresh_connection\<lparr>streams := [(StreamId 1, st)], next_stream_id := 3\<rparr>"

definition answered_stream :: stream where
  "answered_stream = (stream_init 65535 65535)\<lparr>st_status := Some 200\<rparr>"

lemma stepped: "case x of (Inr _, _) \<Rightarrow> True | _ \<Rightarrow> False \<Longrightarrow> \<exists>a c'. x = (Inr a, c')"
  by (auto split: prod.splits sum.splits)

subsection \<open>Sending\<close>

theorem header_block_sent_witness:
  "\<exists>x xs c'. wrote (frame_headers (StreamId 1) True (xs = []) None x # continuations (StreamId 1) xs) fresh_connection c' \<and>
     concat (x # xs) = [0x82]"
proof -
  have "case send_header_block (StreamId 1) True [0x82] fresh_connection of (Inr _, _) \<Rightarrow> True | _ \<Rightarrow> False"
    by code_simp
  from stepped [OF this] header_block_sent show ?thesis by metis
qed

theorem body_sent_witness:
  "\<exists>fs xs c'. wrote fs (open_connection (stream_init 65535 65535)) c' \<and>
     filter (\<lambda>f. \<not> control_frame f) fs = data_frames (StreamId 1) xs \<and> concat xs = [1, 2, 3]"
proof -
  have "case send_body (StreamId 1) [1, 2, 3] (open_connection (stream_init 65535 65535)) of (Inr _, _) \<Rightarrow> True | _ \<Rightarrow> False"
    by code_simp
  from stepped [OF this] body_sent show ?thesis by metis
qed


lemma demo_facts:
  "conn_state demo_connection = COpen" "goaway demo_connection = None" "peer_max_concurrent (peer demo_connection) = None"
  "next_stream_id demo_connection = 1" "write_results (io demo_connection) = []"
  "validate_request (request_get ''example.org'' ''/'') = Inr ()"
proof -
  have "case connect demo_transport config_default of (_, c) \<Rightarrow>
    conn_state c = COpen \<and> Option.is_none (goaway c) \<and> Option.is_none (peer_max_concurrent (peer c)) \<and>
    next_stream_id c = 1 \<and> List.null (write_results (io c))"
    by code_simp
  then show "conn_state demo_connection = COpen" "goaway demo_connection = None"
    "peer_max_concurrent (peer demo_connection) = None" "next_stream_id demo_connection = 1"
    "write_results (io demo_connection) = []"
    by (simp_all add: demo_connection_def Option.is_none_def List.null_iff split: prod.splits)
  have "case validate_request (request_get ''example.org'' ''/'') of Inr _ \<Rightarrow> True | _ \<Rightarrow> False" by code_simp
  then show "validate_request (request_get ''example.org'' ''/'') = Inr ()" by (simp split: sum.splits)
qed

lemma request_get_body: "rq_body (request_get a p) = None"
  by (simp add: request_get_def request_new_def)


lemma demo_request: "\<exists>s c'. send_request (request_get ''example.org'' ''/'') demo_connection = (Inr s, c')"
  by (rule request_accepted [OF demo_reachable]) (simp_all add: demo_facts request_get_body)

theorem request_on_wire_witness:
  "\<exists>s c'. send_request (request_get ''example.org'' ''/'') demo_connection = (Inr s, c') \<and> sid_raw s = 1"
  using demo_request request_on_wire [OF demo_reachable] demo_facts(4) by metis

subsection \<open>Receiving\<close>

theorem frame_boundaries_witness:
  "\<exists>f c' bs. try_read_frame fresh_connection = (Inr (Some f), c') \<and> unparsed fresh_connection = bs @ unparsed c' \<and>
     frame_decode bs (max_frame_size (config fresh_connection)) = Inr f"
proof -
  have "case try_read_frame fresh_connection of (Inr (Some _), _) \<Rightarrow> True | _ \<Rightarrow> False"
    by code_simp
  then obtain f c' where "try_read_frame fresh_connection = (Inr (Some f), c')"
    by (auto split: prod.splits sum.splits option.splits)
  with frame_boundaries [OF this] show ?thesis by auto
qed

theorem poll_decode_error_keeps_open_witness:
  "\<exists>e c'. poll_frame (fresh_connection\<lparr>read_buffer := [0, 0, 4, 8, 0, 0, 0, 0, 0, 0, 0, 0, 0]\<rparr>) = (Inl (Err (H2Frame e)), c') \<and>
     conn_state c' = COpen"
proof -
  let ?bs = "[0, 0, 4, 8, 0, 0, 0, 0, 0, 0, 0, 0, 0] :: bytes"
  have "case frame_decode ?bs (max_frame_size (config (fresh_connection\<lparr>read_buffer := ?bs\<rparr>))) of
      Inl _ \<Rightarrow> True | Inr _ \<Rightarrow> False" by code_simp
  then obtain e where e: "frame_decode ?bs (max_frame_size (config (fresh_connection\<lparr>read_buffer := ?bs\<rparr>))) = Inl e"
    by (auto split: sum.splits)
  have l: "length ?bs = 9 + unat (header_length ?bs)" by code_simp
  have m: "header_length ?bs \<le> max_frame_size (config (fresh_connection\<lparr>read_buffer := ?bs\<rparr>))" by code_simp
  show ?thesis
    using poll_decode_error_keeps_open [OF _ _ _ _ l m e, of "[]"]
    by (auto simp: fresh_connection_def connection_new_def)
qed

theorem data_accepted_witness:
  "\<exists>st c'. handle_data (StreamId 1) True 3 [1, 2, 3] (open_connection answered_stream) = (Inr (), c') \<and>
     stream_of c' (StreamId 1) = Some st \<and> st_body st = [1, 2, 3]"
proof -
  have "case handle_data (StreamId 1) True 3 [1, 2, 3] (open_connection answered_stream) of (Inr _, _) \<Rightarrow> True | _ \<Rightarrow> False"
    by code_simp
  from stepped [OF this] obtain c' where
    h: "handle_data (StreamId 1) True 3 [1, 2, 3] (open_connection answered_stream) = (Inr (), c')" by auto
  with data_accepted [OF h] show ?thesis
    by (auto simp: open_connection_def answered_stream_def stream_init_def)
qed

theorem data_error_leaks_window_witness:
  "\<exists>e c1. handle_data (StreamId 1) False 3 [1, 2, 3]
       ((open_connection answered_stream)\<lparr>config := config_default\<lparr>max_body_size := 2\<rparr>\<rparr>) = (Inl (Err e), c1) \<and>
     conn_recv_window (report_error e c1) = 65532"
proof -
  let ?c = "(open_connection answered_stream)\<lparr>config := config_default\<lparr>max_body_size := 2\<rparr>\<rparr>"
  have "stream_of ?c (StreamId 1) = Some answered_stream" by (simp add: open_connection_def)
  moreover have "\<not> st_end_received answered_stream" "st_status answered_stream \<noteq> None"
    by (simp_all add: answered_stream_def stream_init_def)
  moreover have "conn_recv_window ?c = 65535" by code_simp
  moreover have "uint (3 :: u32) \<le> st_recv_window answered_stream" by code_simp
  moreover have "max_body_size (config ?c) < length (st_body answered_stream) + length ([1, 2, 3] :: bytes)" by code_simp
  ultimately show ?thesis
    using data_error_leaks_window [of ?c "StreamId 1" answered_stream 3 "[1, 2, 3]" False] by fastforce
qed

theorem removed_stream_is_fatal_witness:
  "\<exists>c1 msg. handle_frame (frame_rst_stream (StreamId 1) NoError) c1 = (Inl (Err (H2Protocol ProtocolError msg)), c1)"
proof -
  let ?c = "open_connection answered_stream"
  have "case cancel_stream (StreamId 1) ?c of (Inr _, _) \<Rightarrow> True | _ \<Rightarrow> False" by code_simp
  from stepped [OF this] obtain c1 where c1: "cancel_stream (StreamId 1) ?c = (Inr (), c1)" by auto
  have p: "pending_inbound ?c = None" "stream_of ?c (StreamId 1) \<noteq> None" "distinct (map fst (streams ?c))"
    "\<not> is_connection (StreamId 1)"
    by (simp_all add: open_connection_def fresh_connection_def connection_new_def is_connection_def CONNECTION_def)
  show ?thesis
    using removed_stream_is_fatal [OF c1 p(1,2,4) _ p(3), of "frame_rst_stream (StreamId 1) NoError" False "[]" NoError 0]
    by blast
qed

theorem response_fields_exact_witness: "validate_response_fields (StreamId 1) [] True = Inr (None, [])"
  using response_fields_exact [of "StreamId 1" "[]" True None "[]"] by simp

end
