(* ===== verification/DomString.thy ===== *)
theory DomString
  imports RustText
begin

text \<open>
  The text of a document.  A Rust \<open>String\<close> of the DOM (\<^verbatim>\<open>crates/render-dom/src/\<close>) is the list of its
  Unicode scalar values, because the DOM counts in UTF-16 code units and not in bytes:
  \<open>encode_utf16\<close> and \<open>String::from_utf16_lossy\<close> are the conversions the code uses.  The literals of
  the code are ASCII, written with \<open>lit\<close>.
\<close>

type_synonym str = "nat list"

definition lit :: "string \<Rightarrow> str" where
  "lit s = map of_char s"

text \<open>What a Rust \<open>char\<close> can hold.\<close>

definition scalar_ok :: "nat \<Rightarrow> bool" where
  "scalar_ok c \<longleftrightarrow> c < 0xD800 \<or> (0xE000 \<le> c \<and> c < 0x110000)"

abbreviation str_ok :: "str \<Rightarrow> bool" where
  "str_ok s \<equiv> list_all scalar_ok s"

abbreviation units_ok :: "nat list \<Rightarrow> bool" where
  "units_ok us \<equiv> list_all (\<lambda>u. u < 0x10000) us"

subsection \<open>UTF-16\<close>

definition utf16_char :: "nat \<Rightarrow> nat list" where
  "utf16_char c =
     (if c < 0x10000 then [c]
      else [0xD800 + (c - 0x10000) div 0x400, 0xDC00 + (c - 0x10000) mod 0x400])"

definition encode_utf16 :: "str \<Rightarrow> nat list" where
  "encode_utf16 s = concat (map utf16_char s)"

definition utf16_len :: "str \<Rightarrow> nat" where
  "utf16_len s = length (encode_utf16 s)"

fun from_utf16_lossy :: "nat list \<Rightarrow> str" where
  "from_utf16_lossy [] = []"
| "from_utf16_lossy [u] = [if u < 0xD800 \<or> 0xDFFF < u then u else 0xFFFD]"
| "from_utf16_lossy (u # v # us) =
     (if u < 0xD800 \<or> 0xDFFF < u then u # from_utf16_lossy (v # us)
      else if u < 0xDC00 \<and> 0xDC00 \<le> v \<and> v \<le> 0xDFFF
      then (0x10000 + (u - 0xD800) * 0x400 + (v - 0xDC00)) # from_utf16_lossy us
      else 0xFFFD # from_utf16_lossy (v # us))"

lemma encode_utf16_simps [simp]:
  "encode_utf16 [] = []"
  "encode_utf16 (c # s) = utf16_char c @ encode_utf16 s"
  "encode_utf16 (s @ s') = encode_utf16 s @ encode_utf16 s'"
  by (simp_all add: encode_utf16_def)

lemma utf16_len_simps [simp]:
  "utf16_len [] = 0" "utf16_len (s @ s') = utf16_len s + utf16_len s'"
  by (simp_all add: utf16_len_def)

lemma utf16_len_0 [simp]: "utf16_len s = 0 \<longleftrightarrow> s = []"
  by (cases s) (simp_all add: utf16_len_def utf16_char_def)

lemma units_ok_encode: "str_ok s \<Longrightarrow> units_ok (encode_utf16 s)"
proof (induction s)
  case (Cons c s)
  then have "(c - 0x10000) div 0x400 < 0x800" if "0x10000 \<le> c"
    using that Cons.prems by (intro less_mult_imp_div_less) (auto simp: scalar_ok_def)
  moreover have "(c - 0x10000) mod 0x400 < 0x400" by simp
  ultimately have "units_ok (utf16_char c)"
    by (cases "c < 0x10000") (auto simp: utf16_char_def)
  with Cons show ?case by simp
qed simp

lemma str_ok_lossy: "units_ok us \<Longrightarrow> str_ok (from_utf16_lossy us)"
  by (induction us rule: from_utf16_lossy.induct) (auto simp: scalar_ok_def)

text \<open>
  Replacing a lone surrogate by U+FFFD keeps the number of code units, so offsets into the data
  survive a write.
\<close>

lemma utf16_len_lossy: "units_ok us \<Longrightarrow> utf16_len (from_utf16_lossy us) = length us"
  by (induction us rule: from_utf16_lossy.induct) (auto simp: utf16_len_def utf16_char_def)

lemma lossy_char:
  assumes "scalar_ok c"
  shows "from_utf16_lossy (utf16_char c @ us) = c # from_utf16_lossy us"
proof (cases "c < 0x10000")
  case True
  then show ?thesis using assms by (cases us) (auto simp: utf16_char_def scalar_ok_def)
next
  case False
  define d where "d = c - 0x10000"
  have c: "c = 0x10000 + d" and d: "d < 0x100000"
    using False assms by (auto simp: d_def scalar_ok_def)
  have "d div 0x400 < 0x400" using d by (intro less_mult_imp_div_less) simp
  moreover have "d div 0x400 * 0x400 + d mod 0x400 = d" by simp
  ultimately show ?thesis
    using False by (simp add: utf16_char_def d_def [symmetric] c)
qed

lemma lossy_encode_append:
  "str_ok s \<Longrightarrow> from_utf16_lossy (encode_utf16 s @ us) = s @ from_utf16_lossy us"
  by (induction s) (simp_all add: lossy_char)

lemma lossy_encode: "str_ok s \<Longrightarrow> from_utf16_lossy (encode_utf16 s) = s"
  using lossy_encode_append [of s "[]"] by simp

subsection \<open>ASCII\<close>

definition ascii_digit :: "nat \<Rightarrow> bool" where
  "ascii_digit c \<longleftrightarrow> 0x30 \<le> c \<and> c \<le> 0x39"

definition ascii_lowercase :: "nat \<Rightarrow> bool" where
  "ascii_lowercase c \<longleftrightarrow> 0x61 \<le> c \<and> c \<le> 0x7a"

definition ascii_lower_char :: "nat \<Rightarrow> nat" where
  "ascii_lower_char c = (if 0x41 \<le> c \<and> c \<le> 0x5a then c + 32 else c)"

definition ascii_lower :: "str \<Rightarrow> str" where
  "ascii_lower s = map ascii_lower_char s"

definition eq_ascii_case :: "str \<Rightarrow> str \<Rightarrow> bool" where
  "eq_ascii_case s t \<longleftrightarrow> ascii_lower s = ascii_lower t"

lemma ascii_lower_idem [simp]: "ascii_lower (ascii_lower s) = ascii_lower s"
  by (simp add: ascii_lower_def ascii_lower_char_def)

text \<open>\<open>str::strip_prefix\<close>.\<close>

definition strip_prefix :: "str \<Rightarrow> str \<Rightarrow> str option" where
  "strip_prefix p s = (if take (length p) s = p then Some (drop (length p) s) else None)"

lemma strip_prefix_Some: "strip_prefix p s = Some r \<longleftrightarrow> s = p @ r"
  by (auto simp: strip_prefix_def) (metis append_take_drop_id)

subsection \<open>The rules for parsing integers\<close>

definition html_space :: "nat \<Rightarrow> bool" where
  "html_space c \<longleftrightarrow> c = 0x20 \<or> c = 0x09 \<or> c = 0x0A \<or> c = 0x0C \<or> c = 0x0D"

definition digits_val :: "str \<Rightarrow> int" where
  "digits_val s = foldl (\<lambda>a c. 10 * a + int (c - 0x30)) 0 s"

definition parse_html_integer :: "str \<Rightarrow> int option" where
  "parse_html_integer s =
     (let trimmed = dropWhile html_space s;
          (negative, digits) =
            (case trimmed of
               c # rest \<Rightarrow> if c = 0x2D then (True, rest) else if c = 0x2B then (False, rest)
                          else (False, trimmed)
             | [] \<Rightarrow> (False, trimmed));
          number = takeWhile ascii_digit digits
      in if number = [] then None
         else let magnitude = digits_val number in
           if 2 ^ 63 \<le> magnitude then None
           else let signed = (if negative then - magnitude else magnitude) in
             if - (2 ^ 31) \<le> signed \<and> signed < 2 ^ 31 then Some signed else None)"

end
