(* ===== verification/DomModel.thy ===== *)
theory DomModel
  imports DomString Steps
begin

text \<open>
  The data of the DOM crate (\<^verbatim>\<open>crates/render-dom/src/lib.rs\<close>): node kinds, the arena, mutation
  records, errors, and the reads that look at one node.  A \<open>NodeId\<close> is its index in the arena; the
  arena holds fewer than \<^term>\<open>2 ^ 64 :: nat\<close> nodes, as memory does, so the conversions between
  \<open>u64\<close> and \<open>usize\<close> never fail.
\<close>

type_synonym node_id = nat

subsection \<open>Errors\<close>

datatype dom_error_kind =
  HierarchyRequest | NotFound | InvalidNodeType | IndexSize | WrongDocument | NotSupported | InvalidState

record dom_error =
  de_kind :: dom_error_kind
  de_message :: string

text \<open>
  A call ends with an error of the code, with a panic (an \<open>unreachable!\<close>, an index out of range, an
  integer overflow of a debug build), or it does not end.
\<close>

datatype dom_fault = DomErr dom_error | DomPanic string | Diverges

type_synonym 'a dom_result = "dom_fault + 'a"

definition dom_fail :: "dom_error_kind \<Rightarrow> string \<Rightarrow> 'a dom_result" where
  "dom_fail k m = Inl (DomErr \<lparr>de_kind = k, de_message = m\<rparr>)"

abbreviation dom_hierarchy :: "string \<Rightarrow> 'a dom_result" where
  "dom_hierarchy m \<equiv> dom_fail HierarchyRequest m"
abbreviation dom_not_found :: "string \<Rightarrow> 'a dom_result" where
  "dom_not_found m \<equiv> dom_fail NotFound m"
abbreviation dom_invalid_node_type :: "string \<Rightarrow> 'a dom_result" where
  "dom_invalid_node_type m \<equiv> dom_fail InvalidNodeType m"
abbreviation dom_index_size :: "string \<Rightarrow> 'a dom_result" where
  "dom_index_size m \<equiv> dom_fail IndexSize m"
abbreviation dom_wrong_document :: "string \<Rightarrow> 'a dom_result" where
  "dom_wrong_document m \<equiv> dom_fail WrongDocument m"
abbreviation dom_not_supported :: "string \<Rightarrow> 'a dom_result" where
  "dom_not_supported m \<equiv> dom_fail NotSupported m"
abbreviation dom_invalid_state :: "string \<Rightarrow> 'a dom_result" where
  "dom_invalid_state m \<equiv> dom_fail InvalidState m"

definition error_kind :: "'a dom_result \<Rightarrow> dom_error_kind option" where
  "error_kind r = (case r of Inl (DomErr e) \<Rightarrow> Some (de_kind e) | _ \<Rightarrow> None)"

lemma error_kind_simps [simp]:
  "error_kind (dom_fail k m) = Some k" "error_kind (Inr a) = None"
  "error_kind (Inl Diverges) = None" "error_kind (Inl (DomPanic m)) = None"
  by (simp_all add: error_kind_def dom_fail_def)

lemma dom_fail_neq [simp]:
  "dom_fail k m \<noteq> Inr a" "Inr a \<noteq> dom_fail k m" "dom_fail k m \<noteq> Inl Diverges"
  "and_then (dom_fail k m) f = dom_fail k m"
  by (simp_all add: dom_fail_def)

subsection \<open>Namespaces, attributes and elements\<close>

datatype namespace = Html | Svg | MathMl | Other str

definition HTML_URI :: str where "HTML_URI = lit ''http://www.w3.org/1999/xhtml''"
definition SVG_URI :: str where "SVG_URI = lit ''http://www.w3.org/2000/svg''"
definition MATHML_URI :: str where "MATHML_URI = lit ''http://www.w3.org/1998/Math/MathML''"

fun namespace_uri :: "namespace \<Rightarrow> str option" where
  "namespace_uri Html = Some HTML_URI"
| "namespace_uri Svg = Some SVG_URI"
| "namespace_uri MathMl = Some MATHML_URI"
| "namespace_uri (Other uri) = (if uri = [] then None else Some uri)"

definition namespace_from_uri :: "str option \<Rightarrow> namespace" where
  "namespace_from_uri u =
     (case u of
        None \<Rightarrow> Other []
      | Some uri \<Rightarrow>
          if uri = [] then Other []
          else if uri = HTML_URI then Html
          else if uri = SVG_URI then Svg
          else if uri = MATHML_URI then MathMl
          else Other uri)"

record attribute =
  attr_namespace :: "str option"
  attr_prefix :: "str option"
  attr_local :: str
  attr_value :: str

definition has_qualified_name :: "attribute \<Rightarrow> str \<Rightarrow> bool" where
  "has_qualified_name a name =
     (case attr_prefix a of
        None \<Rightarrow> attr_local a = name
      | Some p \<Rightarrow>
          (case strip_prefix p name of
             None \<Rightarrow> False
           | Some rest \<Rightarrow> strip_prefix (lit '':'') rest = Some (attr_local a)))"

record form_link =
  fl_form :: node_id
  fl_intended_parent :: node_id

record element_data =
  el_namespace :: namespace
  el_prefix :: "str option"
  el_local :: str
  el_attributes :: "attribute list"
  el_template_contents :: "node_id option"
  el_shadow_root :: "node_id option"
  el_manual :: "node_id list"
  el_form_link :: "form_link option"

definition qualified_name :: "element_data \<Rightarrow> str" where
  "qualified_name e =
     (case el_prefix e of Some p \<Rightarrow> p @ lit '':'' @ el_local e | None \<Rightarrow> el_local e)"

record doctype_data =
  dt_name :: str
  dt_public_id :: str
  dt_system_id :: str

datatype shadow_mode = Open | Closed
datatype slot_mode = Manual | Named

definition shadow_mode_str :: "shadow_mode \<Rightarrow> string" where
  "shadow_mode_str m = (case m of Open \<Rightarrow> ''open'' | Closed \<Rightarrow> ''closed'')"

definition slot_mode_str :: "slot_mode \<Rightarrow> string" where
  "slot_mode_str m = (case m of Manual \<Rightarrow> ''manual'' | Named \<Rightarrow> ''named'')"

record shadow_data =
  sh_host :: node_id
  sh_mode :: shadow_mode
  sh_delegates_focus :: bool
  sh_slot_assignment :: slot_mode

subsection \<open>Nodes\<close>

datatype node_kind =
    Document
  | DocumentFragment
  | ShadowRoot shadow_data
  | DocumentType doctype_data
  | Element element_data
  | Text str
  | Comment str
  | ProcessingInstruction str str

fun kind_name :: "node_kind \<Rightarrow> string" where
  "kind_name Document = ''#document''"
| "kind_name DocumentFragment = ''#document-fragment''"
| "kind_name (ShadowRoot _) = ''#document-fragment''"
| "kind_name (DocumentType _) = ''#doctype''"
| "kind_name (Element _) = ''element''"
| "kind_name (Text _) = ''#text''"
| "kind_name (Comment _) = ''#comment''"
| "kind_name (ProcessingInstruction _ _) = ''#processing-instruction''"

record node =
  nd_id :: node_id
  nd_parent :: "node_id option"
  nd_children :: "node_id list"
  nd_kind :: node_kind
  nd_owner :: node_id

subsection \<open>Mutation records\<close>

datatype mutation_kind =
    ChildList node_id "node_id list" "node_id list"
  | AttributeChange node_id str
  | CharacterData node_id
  | ShadowRootAttached node_id

fun mutation_target :: "mutation_kind \<Rightarrow> node_id" where
  "mutation_target (ChildList t _ _) = t"
| "mutation_target (AttributeChange t _) = t"
| "mutation_target (CharacterData t) = t"
| "mutation_target (ShadowRootAttached h) = h"

definition STYLE_BIT :: u8 where "STYLE_BIT = 1"
definition LAYOUT_BIT :: u8 where "LAYOUT_BIT = 2"
definition PAINT_BIT :: u8 where "PAINT_BIT = 4"
definition ACCESSIBILITY_BIT :: u8 where "ACCESSIBILITY_BIT = 8"

definition ALL_RENDERING :: u8 where
  "ALL_RENDERING = STYLE_BIT OR LAYOUT_BIT OR PAINT_BIT OR ACCESSIBILITY_BIT"
definition LAYOUT_PAINT_ACCESSIBILITY :: u8 where
  "LAYOUT_PAINT_ACCESSIBILITY = LAYOUT_BIT OR PAINT_BIT OR ACCESSIBILITY_BIT"

definition affects_style :: "u8 \<Rightarrow> bool" where "affects_style i \<longleftrightarrow> i AND STYLE_BIT \<noteq> 0"
definition affects_layout :: "u8 \<Rightarrow> bool" where "affects_layout i \<longleftrightarrow> i AND LAYOUT_BIT \<noteq> 0"
definition affects_paint :: "u8 \<Rightarrow> bool" where "affects_paint i \<longleftrightarrow> i AND PAINT_BIT \<noteq> 0"
definition affects_accessibility :: "u8 \<Rightarrow> bool" where
  "affects_accessibility i \<longleftrightarrow> i AND ACCESSIBILITY_BIT \<noteq> 0"

fun mutation_impact :: "mutation_kind \<Rightarrow> u8" where
  "mutation_impact (ChildList _ _ _) = ALL_RENDERING"
| "mutation_impact (AttributeChange _ _) = ALL_RENDERING"
| "mutation_impact (ShadowRootAttached _) = ALL_RENDERING"
| "mutation_impact (CharacterData _) = LAYOUT_PAINT_ACCESSIBILITY"

record mutation_record =
  mr_revision :: nat
  mr_kind :: mutation_kind

record mutation_batch =
  mb_from :: nat
  mb_to :: nat
  mb_records :: "mutation_record list"

definition batch_impact :: "mutation_batch \<Rightarrow> u8" where
  "batch_impact b = foldl (\<lambda>i r. i OR mutation_impact (mr_kind r)) 0 (mb_records b)"

definition invalidation_roots :: "mutation_batch \<Rightarrow> node_id set" where
  "invalidation_roots b = set (map (\<lambda>r. mutation_target (mr_kind r)) (mb_records b))"

datatype history_error =
    RevisionInFuture nat nat
  | HistoryDiscarded nat nat

fun history_error_text :: "history_error \<Rightarrow> string" where
  "history_error_text (RevisionInFuture r c) =
     ''requested DOM revision '' @ dec_text r @ '' is newer than current revision '' @ dec_text c"
| "history_error_text (HistoryDiscarded r ol) =
     ''mutation history after revision '' @ dec_text r @
     '' was discarded; oldest available base is '' @ dec_text ol"

subsection \<open>Ranges, selections and images\<close>

record boundary_point =
  bp_node :: node_id
  bp_offset :: nat

datatype range_kind = Live | Static

record range_record =
  rg_kind :: range_kind
  rg_start :: boundary_point
  rg_end :: boundary_point

type_synonym range_id = nat

datatype direction = Forwards | Backwards | Directionless

record selection_record =
  sel_range :: "range_id option"
  sel_direction :: direction

datatype image_state = Unavailable | Pending | Loaded u32 u32 | Broken

subsection \<open>The document\<close>

text \<open>
  The \<open>BTreeMap\<close>s keyed by nodes are maps; the named index is the list of its entries, because a
  caller can list its keys.
\<close>

record dom =
  d_nodes :: "node list"
  d_document :: node_id
  d_revision :: nat
  d_journal :: "mutation_record list"
  d_capacity :: nat
  d_oldest :: nat
  d_focused :: "node_id option"
  d_content_types :: "node_id \<rightharpoonup> str"
  d_ranges :: "range_record list"
  d_selections :: "node_id \<rightharpoonup> selection_record"
  d_named :: "(str \<times> node_id list) list"
  d_images :: "node_id \<rightharpoonup> image_state"
  d_shadow_roots :: nat

definition DEFAULT_JOURNAL_CAPACITY :: nat where
  "DEFAULT_JOURNAL_CAPACITY = 4096"

definition dom_new :: dom where
  "dom_new = \<lparr>d_nodes = [\<lparr>nd_id = 0, nd_parent = None, nd_children = [], nd_kind = Document,
     nd_owner = 0\<rparr>], d_document = 0, d_revision = 0, d_journal = [],
     d_capacity = DEFAULT_JOURNAL_CAPACITY, d_oldest = 0, d_focused = None,
     d_content_types = Map.empty, d_ranges = [], d_selections = Map.empty, d_named = [],
     d_images = Map.empty, d_shadow_roots = 0\<rparr>"

type_synonym 'a dom_step = "dom \<Rightarrow> 'a dom_result \<times> dom"

subsection \<open>Reading one node\<close>

definition node_at :: "dom \<Rightarrow> node_id \<Rightarrow> node option" where
  "node_at d n = (if n < length (d_nodes d) then Some (d_nodes d ! n) else None)"

definition parent_of :: "dom \<Rightarrow> node_id \<Rightarrow> node_id option" where
  "parent_of d n = (case node_at d n of None \<Rightarrow> None | Some x \<Rightarrow> nd_parent x)"

definition children_of :: "dom \<Rightarrow> node_id \<Rightarrow> node_id list option" where
  "children_of d n = map_option nd_children (node_at d n)"

text \<open>\<open>children(node).unwrap_or_default()\<close>, the form in which most callers read the children.\<close>

definition kids :: "dom \<Rightarrow> node_id \<Rightarrow> node_id list" where
  "kids d n = (case children_of d n of None \<Rightarrow> [] | Some cs \<Rightarrow> cs)"

definition kind_opt :: "dom \<Rightarrow> node_id \<Rightarrow> node_kind option" where
  "kind_opt d n = map_option nd_kind (node_at d n)"

definition kind_of :: "dom \<Rightarrow> node_id \<Rightarrow> node_kind dom_result" where
  "kind_of d n = (case kind_opt d n of
     Some k \<Rightarrow> Inr k | None \<Rightarrow> dom_not_found (''unknown node '' @ dec_text n))"

definition require_node :: "dom \<Rightarrow> node_id \<Rightarrow> unit dom_result" where
  "require_node d n = and_then (kind_of d n) (\<lambda>_. Inr ())"

definition node_document :: "dom \<Rightarrow> node_id \<Rightarrow> node_id option" where
  "node_document d n = map_option nd_owner (node_at d n)"

definition owner_of :: "dom \<Rightarrow> node_id \<Rightarrow> node_id" where
  "owner_of d n = (case node_document d n of None \<Rightarrow> d_document d | Some o' \<Rightarrow> o')"

definition element_at :: "dom \<Rightarrow> node_id \<Rightarrow> element_data option" where
  "element_at d n = (case kind_opt d n of Some (Element e) \<Rightarrow> Some e | _ \<Rightarrow> None)"

definition is_text_node :: "dom \<Rightarrow> node_id \<Rightarrow> bool" where
  "is_text_node d n = (case kind_opt d n of Some (Text _) \<Rightarrow> True | _ \<Rightarrow> False)"

definition is_character_data :: "dom \<Rightarrow> node_id \<Rightarrow> bool" where
  "is_character_data d n = (case kind_opt d n of
     Some (Text _) \<Rightarrow> True | Some (Comment _) \<Rightarrow> True | Some (ProcessingInstruction _ _) \<Rightarrow> True
   | _ \<Rightarrow> False)"

subsection \<open>Writing one node\<close>

text \<open>A node id that is out of range writes nothing: \<open>get_mut\<close> finds no entry.\<close>

definition modify_node :: "node_id \<Rightarrow> (node \<Rightarrow> node) \<Rightarrow> dom \<Rightarrow> dom" where
  "modify_node n f d = d\<lparr>d_nodes := (d_nodes d)[n := f (d_nodes d ! n)]\<rparr>"

definition set_kind :: "node_id \<Rightarrow> node_kind \<Rightarrow> dom \<Rightarrow> dom" where
  "set_kind n k d = modify_node n (\<lambda>x. x\<lparr>nd_kind := k\<rparr>) d"

definition modify_element :: "node_id \<Rightarrow> (element_data \<Rightarrow> element_data) \<Rightarrow> dom \<Rightarrow> dom" where
  "modify_element n f d = (case element_at d n of None \<Rightarrow> d | Some e \<Rightarrow> set_kind n (Element (f e)) d)"

definition set_node_document :: "node_id \<Rightarrow> node_id \<Rightarrow> dom \<Rightarrow> dom" where
  "set_node_document n doc d = modify_node n (\<lambda>x. x\<lparr>nd_owner := doc\<rparr>) d"

definition allocate :: "node_kind \<Rightarrow> dom \<Rightarrow> node_id \<times> dom" where
  "allocate k d =
     (let n = length (d_nodes d) in
      (n, d\<lparr>d_nodes := d_nodes d @ [\<lparr>nd_id = n, nd_parent = None, nd_children = [], nd_kind = k,
            nd_owner = d_document d\<rparr>]\<rparr>))"

end
