(* ===== verification/RustOrdering.thy ===== *)
theory RustOrdering
  imports Prelude
begin

text \<open>
  \<open>std::cmp::Ordering\<close>: its values, \<open>Ord::cmp\<close> of a linear order, \<open>Ordering::then_with\<close> and the
  lexicographic comparison of two iterators (\<open>Iterator::cmp\<close>).
\<close>

datatype ordering = Less | Equal | Greater

definition cmp :: "'a::linorder \<Rightarrow> 'a \<Rightarrow> ordering" where
  "cmp a b = (if a < b then Less else if a = b then Equal else Greater)"

fun then_with :: "ordering \<Rightarrow> ordering \<Rightarrow> ordering" where
  "then_with Equal o' = o'"
| "then_with Less _ = Less"
| "then_with Greater _ = Greater"

fun cmp_iter :: "'a::linorder list \<Rightarrow> 'a list \<Rightarrow> ordering" where
  "cmp_iter [] [] = Equal"
| "cmp_iter [] (_ # _) = Less"
| "cmp_iter (_ # _) [] = Greater"
| "cmp_iter (x # xs) (y # ys) = then_with (cmp x y) (cmp_iter xs ys)"

lemma cmp_simps [simp]:
  "cmp a b = Less \<longleftrightarrow> a < b" "cmp a b = Equal \<longleftrightarrow> a = b" "cmp a b = Greater \<longleftrightarrow> b < a"
  "Less = cmp a b \<longleftrightarrow> a < b" "Equal = cmp a b \<longleftrightarrow> a = b" "Greater = cmp a b \<longleftrightarrow> b < a"
  by (auto simp: cmp_def)

lemma then_with_Equal [simp]: "then_with a Equal = a"
  by (cases a) simp_all

lemma then_with_assoc: "then_with (then_with a b) c = then_with a (then_with b c)"
  by (cases a) simp_all

lemma then_with_iff:
  "then_with a b = c \<longleftrightarrow> (if a = Equal then b = c else a = c)"
  by (cases a) auto

end
