(* ===== verification/DomTree.thy ===== *)
theory DomTree
  imports DomModel RustOrdering
begin

text \<open>
  Reading the tree: siblings, walks up to the root and across shadow roots, attributes of an element,
  and document order (\<^verbatim>\<open>lib.rs\<close>, \<^verbatim>\<open>shadow.rs\<close>, \<^verbatim>\<open>range.rs\<close>, \<^verbatim>\<open>focus.rs\<close>).

  The code walks with \<open>while let Some(parent) = self.parent(current)\<close>.  Such a walk takes fuel here,
  the number of nodes of the arena: in a tree no walk is longer.  A walk that crosses
  from a shadow root to its host can go round in circles in an arena the operations produce, so
  it returns an option, with \<open>None\<close> for a loop that never ends.
\<close>

subsection \<open>Siblings\<close>

definition next_sibling :: "dom \<Rightarrow> node_id \<Rightarrow> node_id option" where
  "next_sibling d n =
     (case parent_of d n of None \<Rightarrow> None | Some p \<Rightarrow>
        (case children_of d p of None \<Rightarrow> None | Some siblings \<Rightarrow>
           (case position (\<lambda>c. c = n) siblings of None \<Rightarrow> None | Some i \<Rightarrow>
              if i + 1 < length siblings then Some (siblings ! (i + 1)) else None)))"

definition previous_sibling :: "dom \<Rightarrow> node_id \<Rightarrow> node_id option" where
  "previous_sibling d n =
     (case parent_of d n of None \<Rightarrow> None | Some p \<Rightarrow>
        (case children_of d p of None \<Rightarrow> None | Some siblings \<Rightarrow>
           (case position (\<lambda>c. c = n) siblings of None \<Rightarrow> None | Some i \<Rightarrow>
              if i = 0 then None else Some (siblings ! (i - 1)))))"

definition index_in_parent :: "dom \<Rightarrow> node_id \<Rightarrow> nat option" where
  "index_in_parent d n =
     (case parent_of d n of None \<Rightarrow> None | Some p \<Rightarrow>
        (case children_of d p of None \<Rightarrow> None | Some siblings \<Rightarrow> position (\<lambda>c. c = n) siblings))"

definition index_or_zero :: "dom \<Rightarrow> node_id \<Rightarrow> nat" where
  "index_or_zero d n = (case index_in_parent d n of None \<Rightarrow> 0 | Some i \<Rightarrow> i)"

definition node_length :: "dom \<Rightarrow> node_id \<Rightarrow> nat" where
  "node_length d n = (case kind_opt d n of
     Some (Text s) \<Rightarrow> utf16_len s
   | Some (Comment s) \<Rightarrow> utf16_len s
   | Some (ProcessingInstruction _ s) \<Rightarrow> utf16_len s
   | Some (DocumentType _) \<Rightarrow> 0
   | None \<Rightarrow> 0
   | Some _ \<Rightarrow> (case children_of d n of None \<Rightarrow> 0 | Some cs \<Rightarrow> length cs))"

subsection \<open>Walks to the root\<close>

fun ancestors_loop :: "nat \<Rightarrow> dom \<Rightarrow> node_id \<Rightarrow> node_id list" where
  "ancestors_loop 0 d current = []"
| "ancestors_loop (Suc k) d current =
     (case parent_of d current of None \<Rightarrow> [] | Some p \<Rightarrow> p # ancestors_loop k d p)"

definition ancestors_inclusive :: "dom \<Rightarrow> node_id \<Rightarrow> node_id list" where
  "ancestors_inclusive d n = n # ancestors_loop (length (d_nodes d)) d n"

definition path_from_root :: "dom \<Rightarrow> node_id \<Rightarrow> node_id list" where
  "path_from_root d n = rev (n # ancestors_loop (length (d_nodes d)) d n)"

fun tree_root_loop :: "nat \<Rightarrow> dom \<Rightarrow> node_id \<Rightarrow> node_id" where
  "tree_root_loop 0 d current = current"
| "tree_root_loop (Suc k) d current =
     (case parent_of d current of None \<Rightarrow> current | Some p \<Rightarrow> tree_root_loop k d p)"

definition tree_root :: "dom \<Rightarrow> node_id \<Rightarrow> node_id" where
  "tree_root d n = tree_root_loop (length (d_nodes d)) d n"

text \<open>
  \<open>climb P\<close> is the loop \<open>while let Some(candidate) = current\<close> that stops at the first node, from
  \<open>current\<close> upwards, that satisfies \<open>P\<close>: the shape of \<open>is_inclusive_ancestor\<close>, \<open>nearest_ancestor_form\<close>,
  \<open>is_hidden_by_attribute\<close>, \<open>is_disabled_form_control\<close> and \<open>is_in_first_legend_of\<close>.
\<close>

fun climb_loop :: "nat \<Rightarrow> (node_id \<Rightarrow> bool) \<Rightarrow> dom \<Rightarrow> node_id option \<Rightarrow> node_id option" where
  "climb_loop k P d None = None"
| "climb_loop 0 P d (Some candidate) = None"
| "climb_loop (Suc k) P d (Some candidate) =
     (if P candidate then Some candidate else climb_loop k P d (parent_of d candidate))"

definition climb :: "(node_id \<Rightarrow> bool) \<Rightarrow> dom \<Rightarrow> node_id option \<Rightarrow> node_id option" where
  "climb P d current = climb_loop (length (d_nodes d) + 1) P d current"

definition is_inclusive_ancestor :: "dom \<Rightarrow> node_id \<Rightarrow> node_id \<Rightarrow> bool" where
  "is_inclusive_ancestor d ancestor n \<longleftrightarrow> climb (\<lambda>c. c = ancestor) d (Some n) \<noteq> None"

subsection \<open>Shadow roots and hosts\<close>

definition shadow_root :: "dom \<Rightarrow> node_id \<Rightarrow> node_id option" where
  "shadow_root d host = (case kind_opt d host of Some (Element e) \<Rightarrow> el_shadow_root e | _ \<Rightarrow> None)"

definition shadow_root_data :: "dom \<Rightarrow> node_id \<Rightarrow> shadow_data option" where
  "shadow_root_data d n = (case kind_opt d n of Some (ShadowRoot s) \<Rightarrow> Some s | _ \<Rightarrow> None)"

definition shadow_host :: "dom \<Rightarrow> node_id \<Rightarrow> node_id option" where
  "shadow_host d n = map_option sh_host (shadow_root_data d n)"

fun shadow_including_root_loop :: "nat \<Rightarrow> dom \<Rightarrow> node_id \<Rightarrow> node_id option" where
  "shadow_including_root_loop k d root =
     (case shadow_host d root of
        None \<Rightarrow> Some root
      | Some host \<Rightarrow> (case k of 0 \<Rightarrow> None | Suc k' \<Rightarrow> shadow_including_root_loop k' d (tree_root d host)))"

declare shadow_including_root_loop.simps [simp del]

definition shadow_including_root :: "dom \<Rightarrow> node_id \<Rightarrow> node_id option" where
  "shadow_including_root d n = shadow_including_root_loop (length (d_nodes d)) d (tree_root d n)"

definition root_node :: "dom \<Rightarrow> node_id \<Rightarrow> bool \<Rightarrow> node_id option" where
  "root_node d n composed = (if composed then shadow_including_root d n else Some (tree_root d n))"

definition is_connected :: "dom \<Rightarrow> node_id \<Rightarrow> bool dom_result" where
  "is_connected d n = (case shadow_including_root d n of
     None \<Rightarrow> Inl Diverges | Some r \<Rightarrow> Inr (r = d_document d))"

definition shadow_up :: "dom \<Rightarrow> node_id \<Rightarrow> node_id option" where
  "shadow_up d n = (case parent_of d n of Some p \<Rightarrow> Some p | None \<Rightarrow> shadow_host d n)"

fun shadow_ancestor_loop :: "nat \<Rightarrow> dom \<Rightarrow> node_id \<Rightarrow> node_id option \<Rightarrow> bool option" where
  "shadow_ancestor_loop k d ancestor None = Some False"
| "shadow_ancestor_loop k d ancestor (Some candidate) =
     (if candidate = ancestor then Some True
      else case k of 0 \<Rightarrow> None | Suc k' \<Rightarrow> shadow_ancestor_loop k' d ancestor (shadow_up d candidate))"

definition is_shadow_including_inclusive_ancestor :: "dom \<Rightarrow> node_id \<Rightarrow> node_id \<Rightarrow> bool dom_result" where
  "is_shadow_including_inclusive_ancestor d ancestor n =
     ok_or (shadow_ancestor_loop (length (d_nodes d)) d ancestor (Some n)) Diverges"

definition is_in_same_tree :: "dom \<Rightarrow> node_id \<Rightarrow> node_id \<Rightarrow> bool dom_result" where
  "is_in_same_tree d left right =
     and_then (is_connected d left) (\<lambda>l. and_then (is_connected d right) (\<lambda>r. Inr (l = r)))"

subsection \<open>Tree order\<close>

text \<open>
  A stack walk that visits nodes in tree order: \<open>visit_loop\<close> pops a node, and pushes its children in
  reverse, so that the first child comes off next.
\<close>

fun visit_loop :: "nat \<Rightarrow> dom \<Rightarrow> node_id list \<Rightarrow> node_id list" where
  "visit_loop k d [] = []"
| "visit_loop 0 d (n # stack) = []"
| "visit_loop (Suc k) d (n # stack) = n # visit_loop k d (kids d n @ stack)"

definition visit :: "dom \<Rightarrow> node_id list \<Rightarrow> node_id list" where
  "visit d stack = visit_loop (length (d_nodes d)) d stack"

definition shared_prefix :: "node_id list \<Rightarrow> node_id list \<Rightarrow> nat" where
  "shared_prefix xs ys = length (takeWhile (\<lambda>(a, b). a = b) (zip xs ys))"

definition tree_order :: "dom \<Rightarrow> node_id \<Rightarrow> node_id \<Rightarrow> ordering option" where
  "tree_order d left right =
     (if left = right then Some Equal
      else let left_path = path_from_root d left;
               right_path = path_from_root d right;
               shared = shared_prefix left_path right_path
        in if shared = 0 then None
           else if shared = length left_path then Some Less
           else if shared = length right_path then Some Greater
           else (case index_in_parent d (left_path ! shared) of None \<Rightarrow> None | Some i \<Rightarrow>
                   (case index_in_parent d (right_path ! shared) of None \<Rightarrow> None | Some j \<Rightarrow>
                      Some (cmp i j))))"

fun tree_position_loop :: "nat \<Rightarrow> dom \<Rightarrow> node_id \<Rightarrow> nat list \<Rightarrow> node_id \<times> nat list" where
  "tree_position_loop 0 d current pos = (current, pos)"
| "tree_position_loop (Suc k) d current pos =
     (case parent_of d current of
        None \<Rightarrow> (current, pos)
      | Some p \<Rightarrow> tree_position_loop k d p (pos @ [index_or_zero d current]))"

definition tree_position :: "dom \<Rightarrow> node_id \<Rightarrow> node_id \<times> nat list" where
  "tree_position d n =
     (let (root, pos) = tree_position_loop (length (d_nodes d)) d n [] in (root, rev pos))"

fun common_ancestor_loop :: "nat \<Rightarrow> dom \<Rightarrow> node_id \<Rightarrow> node_id \<Rightarrow> node_id" where
  "common_ancestor_loop 0 d container e = container"
| "common_ancestor_loop (Suc k) d container e =
     (if is_inclusive_ancestor d container e then container
      else (case parent_of d container of
              Some p \<Rightarrow> common_ancestor_loop k d p e
            | None \<Rightarrow> container))"

definition common_ancestor :: "dom \<Rightarrow> node_id \<Rightarrow> node_id \<Rightarrow> node_id" where
  "common_ancestor d s e = common_ancestor_loop (length (d_nodes d)) d s e"

subsection \<open>Elements and their attributes\<close>

definition template_contents :: "dom \<Rightarrow> node_id \<Rightarrow> node_id option" where
  "template_contents d n =
     (case kind_opt d n of Some (Element e) \<Rightarrow> el_template_contents e | _ \<Rightarrow> None)"

text \<open>The name of an HTML element, and \<open>None\<close> for every other node.\<close>

definition html_name :: "dom \<Rightarrow> node_id \<Rightarrow> str option" where
  "html_name d n = (case element_at d n of
     Some e \<Rightarrow> if el_namespace e = Html then Some (el_local e) else None | None \<Rightarrow> None)"

definition html_named :: "dom \<Rightarrow> node_id \<Rightarrow> string list \<Rightarrow> bool" where
  "html_named d n names = (case html_name d n of None \<Rightarrow> False | Some l \<Rightarrow> l \<in> set (map lit names))"

definition normalize_name :: "element_data \<Rightarrow> str \<Rightarrow> str" where
  "normalize_name e name = (if el_namespace e = Html then ascii_lower name else name)"

definition ATTRIBUTES_REQUIRE_ELEMENT :: string where
  "ATTRIBUTES_REQUIRE_ELEMENT = ''attributes require an element''"

definition require_element :: "dom \<Rightarrow> node_id \<Rightarrow> element_data dom_result" where
  "require_element d n = and_then (kind_of d n)
     (\<lambda>k. case k of Element e \<Rightarrow> Inr e | _ \<Rightarrow> dom_invalid_node_type ATTRIBUTES_REQUIRE_ELEMENT)"

definition get_attribute :: "dom \<Rightarrow> node_id \<Rightarrow> str \<Rightarrow> str option dom_result" where
  "get_attribute d n name = and_then (require_element d n) (\<lambda>e.
     let normalized = normalize_name e name in
     Inr (map_option attr_value (find (\<lambda>a. has_qualified_name a normalized) (el_attributes e))))"

definition attribute_ns :: "dom \<Rightarrow> node_id \<Rightarrow> str option \<Rightarrow> str \<Rightarrow> str option dom_result" where
  "attribute_ns d n ns name = and_then (require_element d n) (\<lambda>e.
     Inr (map_option attr_value
            (find (\<lambda>a. attr_namespace a = ns \<and> attr_local a = name) (el_attributes e))))"

text \<open>\<open>self.attribute(node, name).ok().flatten()\<close>.\<close>

definition attribute_or_none :: "dom \<Rightarrow> node_id \<Rightarrow> string \<Rightarrow> str option" where
  "attribute_or_none d n name = (case get_attribute d n (lit name) of Inr v \<Rightarrow> v | Inl _ \<Rightarrow> None)"

definition has_attribute :: "dom \<Rightarrow> node_id \<Rightarrow> string \<Rightarrow> bool" where
  "has_attribute d n name =
     (case get_attribute d n (lit name) of Inr v \<Rightarrow> v \<noteq> None | Inl _ \<Rightarrow> False)"

definition attribute_equals_ascii_case :: "dom \<Rightarrow> node_id \<Rightarrow> string \<Rightarrow> string \<Rightarrow> bool" where
  "attribute_equals_ascii_case d n name expected =
     (case attribute_or_none d n name of None \<Rightarrow> False | Some v \<Rightarrow> eq_ascii_case v (lit expected))"

end
