(* ===== verification/DomFocus.thy ===== *)
theory DomFocus
  imports DomTree
begin

text \<open>
  Focus (\<^verbatim>\<open>focus.rs\<close>) and the mutation journal (\<^verbatim>\<open>lib.rs\<close>): what can hold the focus, the focus
  fixup, and \<open>record_mutations\<close>, through which every mutation of the document passes.
\<close>

subsection \<open>What can hold the focus\<close>

definition parsed_tab_index :: "dom \<Rightarrow> node_id \<Rightarrow> int option" where
  "parsed_tab_index d n =
     (case attribute_or_none d n ''tabindex'' of None \<Rightarrow> None | Some v \<Rightarrow> parse_html_integer v)"

definition is_natively_focusable :: "dom \<Rightarrow> node_id \<Rightarrow> bool" where
  "is_natively_focusable d n =
     (if html_named d n [''a'', ''area''] then has_attribute d n ''href''
      else if html_named d n [''button'', ''select'', ''textarea'', ''iframe''] then True
      else if html_named d n [''input''] then \<not> attribute_equals_ascii_case d n ''type'' ''hidden''
      else False)"

definition is_hidden_by_attribute :: "dom \<Rightarrow> node_id \<Rightarrow> bool" where
  "is_hidden_by_attribute d n \<longleftrightarrow> climb (\<lambda>c. has_attribute d c ''hidden'') d (Some n) \<noteq> None"

definition is_in_first_legend_of :: "dom \<Rightarrow> node_id \<Rightarrow> node_id \<Rightarrow> bool" where
  "is_in_first_legend_of d n fieldset =
     (case find (\<lambda>c. case element_at d c of None \<Rightarrow> False | Some e \<Rightarrow> el_local e = lit ''legend'')
             (kids d fieldset) of
        None \<Rightarrow> False
      | Some legend \<Rightarrow> climb (\<lambda>c. c = legend) d (Some n) \<noteq> None)"

definition is_disabled_form_control :: "dom \<Rightarrow> node_id \<Rightarrow> bool" where
  "is_disabled_form_control d n =
     (if \<not> html_named d n [''button'', ''input'', ''select'', ''textarea''] then False
      else if has_attribute d n ''disabled'' then True
      else climb (\<lambda>c. html_named d c [''fieldset''] \<and> has_attribute d c ''disabled'' \<and>
                    \<not> is_in_first_legend_of d n c) d (parent_of d n) \<noteq> None)"

definition is_focusable_area :: "dom \<Rightarrow> node_id \<Rightarrow> bool dom_result" where
  "is_focusable_area d n = and_then (is_connected d n) (\<lambda>connected.
     Inr (connected \<and> \<not> is_hidden_by_attribute d n \<and> \<not> is_disabled_form_control d n \<and>
          (parsed_tab_index d n \<noteq> None \<or> is_natively_focusable d n)))"

definition set_focused_element :: "node_id option \<Rightarrow> bool dom_step" where
  "set_focused_element n d =
     (case n of
        None \<Rightarrow> (Inr True, d\<lparr>d_focused := None\<rparr>)
      | Some target \<Rightarrow>
          (case is_focusable_area d target of
             Inl e \<Rightarrow> (Inl e, d)
           | Inr False \<Rightarrow> (Inr False, d)
           | Inr True \<Rightarrow> (Inr True, d\<lparr>d_focused := Some target\<rparr>)))"

fun find_focusable :: "dom \<Rightarrow> node_id list \<Rightarrow> node_id option dom_result" where
  "find_focusable d [] = Inr None"
| "find_focusable d (n # ns) = and_then (is_focusable_area d n)
     (\<lambda>f. if f then Inr (Some n) else find_focusable d ns)"

definition focus_delegate :: "dom \<Rightarrow> node_id \<Rightarrow> node_id option dom_result" where
  "focus_delegate d host =
     (case shadow_root d host of None \<Rightarrow> Inr None | Some root \<Rightarrow>
        (case shadow_root_data d root of None \<Rightarrow> Inr None | Some s \<Rightarrow>
           if \<not> sh_delegates_focus s then Inr None
           else find_focusable d (visit d (kids d root))))"

subsection \<open>The focus fixup\<close>

definition apply_focus_fixup :: "unit dom_step" where
  "apply_focus_fixup d =
     (case d_focused d of
        None \<Rightarrow> (Inr (), d)
      | Some n \<Rightarrow>
          (case is_focusable_area d n of
             Inl e \<Rightarrow> (Inl e, d)
           | Inr True \<Rightarrow> (Inr (), d)
           | Inr False \<Rightarrow> (Inr (), d\<lparr>d_focused := None\<rparr>)))"

subsection \<open>The journal\<close>

definition REVISION_MAX :: nat where "REVISION_MAX = 2 ^ 64 - 1"

fun trim_journal :: "nat \<Rightarrow> mutation_record list \<Rightarrow> nat \<Rightarrow> mutation_record list \<times> nat" where
  "trim_journal capacity [] oldest = ([], oldest)"
| "trim_journal capacity (r # rs) oldest =
     (if capacity < length (r # rs) then trim_journal capacity rs (mr_revision r) else (r # rs, oldest))"

definition trim :: "dom \<Rightarrow> dom" where
  "trim d = (let (j, ol) = trim_journal (d_capacity d) (d_journal d) (d_oldest d)
             in d\<lparr>d_journal := j, d_oldest := ol\<rparr>)"

definition set_mutation_journal_capacity :: "nat \<Rightarrow> dom \<Rightarrow> dom" where
  "set_mutation_journal_capacity capacity d = trim (d\<lparr>d_capacity := capacity\<rparr>)"

definition log_mutations :: "mutation_kind list \<Rightarrow> dom \<Rightarrow> dom" where
  "log_mutations ms d =
     (let rev' = min REVISION_MAX (d_revision d + 1) in
      trim (d\<lparr>d_revision := rev',
              d_journal := d_journal d @ map (\<lambda>k. \<lparr>mr_revision = rev', mr_kind = k\<rparr>) ms\<rparr>))"

definition record_mutations :: "mutation_kind list \<Rightarrow> unit dom_step" where
  "record_mutations ms =
     (if ms = [] then ok () else and_do apply_focus_fixup (\<lambda>_. upd (log_mutations ms)))"

definition mutations_since :: "dom \<Rightarrow> nat \<Rightarrow> history_error + mutation_batch" where
  "mutations_since d revision =
     (if d_revision d < revision then Inl (RevisionInFuture revision (d_revision d))
      else if revision < d_oldest d then Inl (HistoryDiscarded revision (d_oldest d))
      else Inr \<lparr>mb_from = revision, mb_to = d_revision d,
                mb_records = filter (\<lambda>r. revision < mr_revision r) (d_journal d)\<rparr>)"

end
