(* ===== verification/DomMutate.thy ===== *)
theory DomMutate
  imports DomFocus
begin

text \<open>
  Making nodes and moving them (\<^verbatim>\<open>lib.rs\<close>, \<^verbatim>\<open>document.rs\<close>), with the hooks that keep the live
  ranges on the tree (\<^verbatim>\<open>range.rs\<close>).
\<close>

subsection \<open>Live ranges under a mutation\<close>

definition on_live_points :: "(boundary_point \<Rightarrow> boundary_point) \<Rightarrow> dom \<Rightarrow> dom" where
  "on_live_points f d = d\<lparr>d_ranges := map (\<lambda>r. if rg_kind r = Live
      then r\<lparr>rg_start := f (rg_start r), rg_end := f (rg_end r)\<rparr> else r) (d_ranges d)\<rparr>"

definition insert_point :: "node_id \<Rightarrow> nat \<Rightarrow> nat \<Rightarrow> boundary_point \<Rightarrow> boundary_point" where
  "insert_point parent child_index cnt p =
     (if bp_node p = parent \<and> child_index < bp_offset p
      then \<lparr>bp_node = parent, bp_offset = bp_offset p + cnt\<rparr> else p)"

definition update_ranges_for_insert :: "node_id \<Rightarrow> nat \<Rightarrow> nat \<Rightarrow> dom \<Rightarrow> dom" where
  "update_ranges_for_insert parent child_index cnt = on_live_points (insert_point parent child_index cnt)"

definition point_after_remove :: "dom \<Rightarrow> node_id \<Rightarrow> node_id \<Rightarrow> nat \<Rightarrow> boundary_point \<Rightarrow> boundary_point" where
  "point_after_remove d n parent index p =
     (if is_inclusive_ancestor d n (bp_node p) then \<lparr>bp_node = parent, bp_offset = index\<rparr>
      else if bp_node p = parent \<and> index < bp_offset p
      then \<lparr>bp_node = parent, bp_offset = bp_offset p - 1\<rparr> else p)"

definition update_ranges_for_remove :: "node_id \<Rightarrow> node_id \<Rightarrow> nat \<Rightarrow> dom \<Rightarrow> dom" where
  "update_ranges_for_remove n parent index d = on_live_points (point_after_remove d n parent index) d"

definition replace_point :: "node_id \<Rightarrow> nat \<Rightarrow> nat \<Rightarrow> nat \<Rightarrow> boundary_point \<Rightarrow> boundary_point" where
  "replace_point n off cnt inserted p =
     (if bp_node p \<noteq> n \<or> bp_offset p \<le> off then p
      else if bp_offset p \<le> off + cnt then \<lparr>bp_node = n, bp_offset = off\<rparr>
      else \<lparr>bp_node = n, bp_offset = bp_offset p - cnt + inserted\<rparr>)"

definition update_ranges_for_replace_data :: "node_id \<Rightarrow> nat \<Rightarrow> nat \<Rightarrow> nat \<Rightarrow> dom \<Rightarrow> dom" where
  "update_ranges_for_replace_data n off cnt inserted = on_live_points (replace_point n off cnt inserted)"

definition split_point :: "node_id \<Rightarrow> node_id \<Rightarrow> node_id \<Rightarrow> nat \<Rightarrow> nat \<Rightarrow> boundary_point \<Rightarrow> boundary_point" where
  "split_point n new_node parent off index p =
     (if bp_node p = n \<and> off < bp_offset p then \<lparr>bp_node = new_node, bp_offset = bp_offset p - off\<rparr>
      else if bp_node p = parent \<and> bp_offset p = index + 1
      then \<lparr>bp_node = parent, bp_offset = index + 2\<rparr> else p)"

definition update_ranges_for_split_text :: "node_id \<Rightarrow> node_id \<Rightarrow> node_id \<Rightarrow> nat \<Rightarrow> nat \<Rightarrow> dom \<Rightarrow> dom" where
  "update_ranges_for_split_text n new_node parent off index =
     on_live_points (split_point n new_node parent off index)"

definition merge_point :: "node_id \<Rightarrow> node_id \<Rightarrow> node_id \<Rightarrow> nat \<Rightarrow> nat \<Rightarrow> boundary_point \<Rightarrow> boundary_point" where
  "merge_point merged into parent merged_index base p =
     (if bp_node p = merged then \<lparr>bp_node = into, bp_offset = bp_offset p + base\<rparr>
      else if bp_node p = parent \<and> bp_offset p = merged_index
      then \<lparr>bp_node = into, bp_offset = base\<rparr> else p)"

definition update_ranges_for_merge :: "node_id \<Rightarrow> node_id \<Rightarrow> node_id \<Rightarrow> nat \<Rightarrow> nat \<Rightarrow> dom \<Rightarrow> dom" where
  "update_ranges_for_merge merged into parent merged_index base =
     on_live_points (merge_point merged into parent merged_index base)"

subsection \<open>Making nodes\<close>

definition create_document_fragment :: "dom \<Rightarrow> node_id \<times> dom" where
  "create_document_fragment = allocate DocumentFragment"

definition create_document_type :: "str \<Rightarrow> str \<Rightarrow> str \<Rightarrow> dom \<Rightarrow> node_id \<times> dom" where
  "create_document_type name pub sys =
     allocate (DocumentType \<lparr>dt_name = name, dt_public_id = pub, dt_system_id = sys\<rparr>)"

definition create_text :: "str \<Rightarrow> dom \<Rightarrow> node_id \<times> dom" where
  "create_text s = allocate (Text s)"

definition create_comment :: "str \<Rightarrow> dom \<Rightarrow> node_id \<times> dom" where
  "create_comment s = allocate (Comment s)"

definition create_processing_instruction :: "str \<Rightarrow> str \<Rightarrow> dom \<Rightarrow> node_id \<times> dom" where
  "create_processing_instruction target s = allocate (ProcessingInstruction target s)"

definition new_element_data :: "namespace \<Rightarrow> str option \<Rightarrow> str \<Rightarrow> dom \<Rightarrow> element_data \<times> dom" where
  "new_element_data ns pfx local d =
     (let (contents, d') =
        (if ns = Html \<and> local = lit ''template''
         then (let (f, d1) = create_document_fragment d in (Some f, d1)) else (None, d))
      in (\<lparr>el_namespace = ns, el_prefix = pfx, el_local = local, el_attributes = [],
           el_template_contents = contents, el_shadow_root = None, el_manual = [],
           el_form_link = None\<rparr>, d'))"

definition create_element_qualified :: "namespace \<Rightarrow> str option \<Rightarrow> str \<Rightarrow> dom \<Rightarrow> node_id \<times> dom" where
  "create_element_qualified ns pfx local d =
     (let (e, d') = new_element_data ns pfx local d in allocate (Element e) d')"

definition create_element_ns :: "namespace \<Rightarrow> str \<Rightarrow> dom \<Rightarrow> node_id \<times> dom" where
  "create_element_ns ns local = create_element_qualified ns None local"

definition create_element :: "str \<Rightarrow> dom \<Rightarrow> node_id \<times> dom" where
  "create_element local d =
     (let (e, d') = new_element_data Html None (ascii_lower local) d in allocate (Element e) d')"

definition HTML_CONTENT_TYPE :: str where "HTML_CONTENT_TYPE = lit ''text/html''"

definition content_type :: "dom \<Rightarrow> node_id \<Rightarrow> str" where
  "content_type d doc = (case d_content_types d doc of None \<Rightarrow> HTML_CONTENT_TYPE | Some t \<Rightarrow> t)"

definition is_html_document :: "dom \<Rightarrow> node_id \<Rightarrow> bool" where
  "is_html_document d doc \<longleftrightarrow> content_type d doc = HTML_CONTENT_TYPE"

definition create_document :: "str \<Rightarrow> dom \<Rightarrow> node_id \<times> dom" where
  "create_document ct d =
     (let (n, d1) = allocate Document d;
          d2 = set_node_document n n d1
      in (n, d2\<lparr>d_content_types := (d_content_types d2)(n \<mapsto> ct)\<rparr>))"

subsection \<open>Checks before an insertion\<close>

definition validate_parent_kind :: "dom \<Rightarrow> node_id \<Rightarrow> unit dom_result" where
  "validate_parent_kind d parent = and_then (kind_of d parent) (\<lambda>k. case k of
       Document \<Rightarrow> Inr () | DocumentFragment \<Rightarrow> Inr () | ShadowRoot _ \<Rightarrow> Inr () | Element _ \<Rightarrow> Inr ()
     | _ \<Rightarrow> dom_hierarchy ''only Document, DocumentFragment, and Element can be insertion parents'')"

definition validate_child_kind :: "dom \<Rightarrow> node_id \<Rightarrow> node_id \<Rightarrow> unit dom_result" where
  "validate_child_kind d parent child =
     and_then (kind_of d parent) (\<lambda>parent_kind. and_then (kind_of d child) (\<lambda>child_kind.
       if (case child_kind of Document \<Rightarrow> True | DocumentFragment \<Rightarrow> True | ShadowRoot _ \<Rightarrow> True | _ \<Rightarrow> False)
       then dom_hierarchy ''Document cannot be inserted and DocumentFragment must be expanded''
       else (case parent_kind of
           Document \<Rightarrow> (case child_kind of
               Text _ \<Rightarrow> dom_hierarchy ''Text nodes cannot be children of Document''
             | Document \<Rightarrow> Inl (DomPanic ''unreachable'')
             | DocumentFragment \<Rightarrow> Inl (DomPanic ''unreachable'')
             | ShadowRoot _ \<Rightarrow> Inl (DomPanic ''unreachable'')
             | _ \<Rightarrow> Inr ())
         | DocumentFragment \<Rightarrow> (case child_kind of
               DocumentType _ \<Rightarrow> dom_hierarchy ''DocumentType can only be inserted into Document''
             | _ \<Rightarrow> Inr ())
         | ShadowRoot _ \<Rightarrow> (case child_kind of
               DocumentType _ \<Rightarrow> dom_hierarchy ''DocumentType can only be inserted into Document''
             | _ \<Rightarrow> Inr ())
         | Element _ \<Rightarrow> (case child_kind of
               DocumentType _ \<Rightarrow> dom_hierarchy ''DocumentType can only be inserted into Document''
             | _ \<Rightarrow> Inr ())
         | _ \<Rightarrow> Inl (DomPanic ''parent kind was checked''))))"

text \<open>
  The loop over the children a document would have: the index of its element and of its doctype.
\<close>

fun scan_document_children ::
    "dom \<Rightarrow> nat \<Rightarrow> node_id list \<Rightarrow> nat option \<Rightarrow> nat option \<Rightarrow> (nat option \<times> nat option) dom_result" where
  "scan_document_children d i [] element_index doctype_index = Inr (element_index, doctype_index)"
| "scan_document_children d i (child # cs) element_index doctype_index =
     and_then (kind_of d child) (\<lambda>k. case k of
         Element _ \<Rightarrow>
           if element_index \<noteq> None
           then dom_hierarchy ''Document cannot contain more than one element child''
           else scan_document_children d (i + 1) cs (Some i) doctype_index
       | DocumentType _ \<Rightarrow>
           if doctype_index \<noteq> None
           then dom_hierarchy ''Document cannot contain more than one doctype''
           else scan_document_children d (i + 1) cs element_index (Some i)
       | Comment _ \<Rightarrow> scan_document_children d (i + 1) cs element_index doctype_index
       | ProcessingInstruction _ _ \<Rightarrow> scan_document_children d (i + 1) cs element_index doctype_index
       | _ \<Rightarrow> dom_hierarchy ''invalid child type in Document'')"

definition insert_at :: "nat \<Rightarrow> 'a list \<Rightarrow> 'a list \<Rightarrow> 'a list" where
  "insert_at i ys xs = take i xs @ ys @ drop i xs"

definition candidate_children :: "dom \<Rightarrow> node_id \<Rightarrow> node_id list \<Rightarrow> node_id option \<Rightarrow> node_id list" where
  "candidate_children d parent ns reference =
     (let candidate = filter (\<lambda>c. c \<notin> set ns) (kids d parent);
          index = (case reference of None \<Rightarrow> length candidate
                   | Some r \<Rightarrow> (case position (\<lambda>c. c = r) candidate of
                                 None \<Rightarrow> length candidate | Some i \<Rightarrow> i))
      in insert_at index ns candidate)"

definition validate_document_children ::
    "dom \<Rightarrow> node_id \<Rightarrow> node_id list \<Rightarrow> node_id option \<Rightarrow> unit dom_result" where
  "validate_document_children d parent ns reference = and_then (kind_of d parent) (\<lambda>k.
     if k \<noteq> Document then Inr ()
     else and_then (scan_document_children d 0 (candidate_children d parent ns reference) None None)
       (\<lambda>(element_index, doctype_index).
          case (doctype_index, element_index) of
            (Some doctype, Some elem) \<Rightarrow>
              if elem < doctype then dom_hierarchy ''DocumentType must precede the document element''
              else Inr ()
          | _ \<Rightarrow> Inr ()))"

fun check_insertion_nodes :: "dom \<Rightarrow> node_id \<Rightarrow> node_id list \<Rightarrow> unit dom_result" where
  "check_insertion_nodes d parent [] = Inr ()"
| "check_insertion_nodes d parent (n # ns) =
     (if is_inclusive_ancestor d n parent
      then dom_hierarchy ''inserting a fragment child would create a cycle''
      else and_then (validate_child_kind d parent n) (\<lambda>_. check_insertion_nodes d parent ns))"

definition require_reference :: "dom \<Rightarrow> node_id \<Rightarrow> node_id option \<Rightarrow> unit dom_result" where
  "require_reference d parent reference =
     (case reference of None \<Rightarrow> Inr ()
      | Some r \<Rightarrow> and_then (require_node d r) (\<lambda>_.
          if parent_of d r \<noteq> Some parent
          then dom_not_found ''reference node is not a child of the insertion parent'' else Inr ()))"

definition pre_insert_checks :: "dom \<Rightarrow> node_id \<Rightarrow> node_id \<Rightarrow> node_id option \<Rightarrow> node_id option dom_result" where
  "pre_insert_checks d parent n reference =
     and_then (require_node d parent) (\<lambda>_. and_then (require_node d n) (\<lambda>_.
     and_then (require_reference d parent reference) (\<lambda>_. and_then (validate_parent_kind d parent) (\<lambda>_.
       if n = parent \<or> is_inclusive_ancestor d n parent
       then dom_hierarchy ''inserting the node would create a cycle''
       else let effective = (if reference = Some n then next_sibling d n else reference) in
         and_then (kind_of d n) (\<lambda>k.
           let ns = (if k = DocumentFragment then kids d n else [n]) in
           and_then (check_insertion_nodes d parent ns) (\<lambda>_.
           and_then (validate_document_children d parent ns effective) (\<lambda>_. Inr effective)))))))"

subsection \<open>Moving nodes\<close>

definition detach_without_revision :: "node_id \<Rightarrow> dom \<Rightarrow> dom" where
  "detach_without_revision n d =
     (case parent_of d n of
        None \<Rightarrow> d
      | Some parent \<Rightarrow>
          let d1 = (if d_ranges d = [] then d
                    else case index_in_parent d n of
                      None \<Rightarrow> d | Some index \<Rightarrow> update_ranges_for_remove n parent index d);
              d2 = modify_node parent (\<lambda>x. x\<lparr>nd_children := filter (\<lambda>c. c \<noteq> n) (nd_children x)\<rparr>) d1
          in modify_node n (\<lambda>x. x\<lparr>nd_parent := None\<rparr>) d2)"

definition pending_below :: "dom \<Rightarrow> node_id \<Rightarrow> node_id list" where
  "pending_below d n = (case shadow_root d n of None \<Rightarrow> [] | Some s \<Rightarrow> [s]) @ rev (kids d n)"

fun adopt_loop :: "nat \<Rightarrow> node_id \<Rightarrow> node_id list \<Rightarrow> unit dom_step" where
  "adopt_loop k doc [] d = (Inr (), d)"
| "adopt_loop 0 doc (n # pending) d = (Inl Diverges, d)"
| "adopt_loop (Suc k) doc (n # pending) d =
     (let d1 = set_node_document n doc d in adopt_loop k doc (pending_below d1 n @ pending) d1)"

definition adopt_subtree :: "node_id \<Rightarrow> node_id \<Rightarrow> unit dom_step" where
  "adopt_subtree root doc d = adopt_loop (length (d_nodes d)) doc [root] d"

fun adopt_foreign :: "node_id \<Rightarrow> node_id list \<Rightarrow> unit dom_step" where
  "adopt_foreign doc [] = ok ()"
| "adopt_foreign doc (n # ns) = and_do
     (\<lambda>d. if owner_of d n \<noteq> doc then adopt_subtree n doc d else (Inr (), d))
     (\<lambda>_. adopt_foreign doc ns)"

definition link_child :: "node_id \<Rightarrow> nat \<Rightarrow> node_id \<Rightarrow> dom \<Rightarrow> dom" where
  "link_child parent i n d =
     modify_node n (\<lambda>x. x\<lparr>nd_parent := Some parent\<rparr>)
       (modify_node parent (\<lambda>x. x\<lparr>nd_children := insert_at i [n] (nd_children x)\<rparr>) d)"

fun link_children :: "node_id \<Rightarrow> nat \<Rightarrow> node_id list \<Rightarrow> dom \<Rightarrow> dom" where
  "link_children parent i [] d = d"
| "link_children parent i (n # ns) d = link_children parent (i + 1) ns (link_child parent i n d)"

definition insertion_nodes_of :: "dom \<Rightarrow> node_id \<Rightarrow> node_kind \<Rightarrow> node_id list" where
  "insertion_nodes_of d n k =
     (case k of DocumentFragment \<Rightarrow> kids d n | ShadowRoot _ \<Rightarrow> kids d n | _ \<Rightarrow> [n])"

definition removals_of :: "dom \<Rightarrow> node_id list \<Rightarrow> mutation_kind list" where
  "removals_of d ns = concat (map (\<lambda>n. case parent_of d n of None \<Rightarrow> [] | Some p \<Rightarrow> [ChildList p [] [n]]) ns)"

definition insertion_index :: "dom \<Rightarrow> node_id \<Rightarrow> node_id option \<Rightarrow> nat dom_result" where
  "insertion_index d parent reference =
     (case reference of
        Some r \<Rightarrow> (case position (\<lambda>c. c = r) (kids d parent) of
           None \<Rightarrow> dom_not_found ''reference node disappeared during insertion'' | Some i \<Rightarrow> Inr i)
      | None \<Rightarrow> Inr (length (kids d parent)))"

text \<open>The nodes leave their parents; a fragment gives up its children before the ranges move.\<close>

definition insertion_detached :: "dom \<Rightarrow> node_id \<Rightarrow> node_kind \<Rightarrow> node_id list \<Rightarrow> node_id option \<Rightarrow> dom" where
  "insertion_detached d parent k ns effective =
     (let d1 = (if k = DocumentFragment then fold detach_without_revision ns d else d);
          d2 = (case effective of
                  Some r \<Rightarrow> if d_ranges d1 = [] then d1
                    else update_ranges_for_insert parent (index_or_zero d1 r) (length ns) d1
                | None \<Rightarrow> d1)
      in fold detach_without_revision ns d2)"

definition insert_before :: "node_id \<Rightarrow> node_id \<Rightarrow> node_id option \<Rightarrow> node_id dom_step" where
  "insert_before parent n reference =
     and_do (look (\<lambda>d. pre_insert_checks d parent n reference)) (\<lambda>effective.
     and_do (look (\<lambda>d. kind_of d n)) (\<lambda>k d.
       let ns = insertion_nodes_of d n k in
       if ns = [] then (Inr n, d)
       else
         let removals = removals_of d ns; d3 = insertion_detached d parent k ns effective
         in and_do (adopt_foreign (owner_of d3 parent) ns) (\<lambda>_.
            and_do (look (\<lambda>d. insertion_index d parent effective)) (\<lambda>i.
            and_do (upd (link_children parent i ns)) (\<lambda>_.
            and_do (record_mutations (removals @ [ChildList parent ns []])) (\<lambda>_. ok n)))) d3))"

definition append_child :: "node_id \<Rightarrow> node_id \<Rightarrow> node_id dom_step" where
  "append_child parent n = insert_before parent n None"

definition remove_child :: "node_id \<Rightarrow> node_id \<Rightarrow> node_id dom_step" where
  "remove_child parent child =
     and_do (look (\<lambda>d. require_node d parent)) (\<lambda>_. and_do (look (\<lambda>d. require_node d child)) (\<lambda>_ d.
       if parent_of d child \<noteq> Some parent
       then (dom_not_found ''node is not a child of the supplied parent'', d)
       else and_do (upd (detach_without_revision child)) (\<lambda>_.
            and_do (record_mutations [ChildList parent [] [child]]) (\<lambda>_. ok child)) d))"

definition adopt_node :: "node_id \<Rightarrow> node_id \<Rightarrow> unit dom_step" where
  "adopt_node doc n =
     and_do (look (\<lambda>d. and_then (kind_of d n) (\<lambda>k. case k of
         Document \<Rightarrow> dom_not_supported ''a Document cannot be adopted''
       | ShadowRoot _ \<Rightarrow> dom_hierarchy ''a shadow root cannot be adopted''
       | _ \<Rightarrow> Inr ()))) (\<lambda>_.
     and_do (look (\<lambda>d. require_node d doc)) (\<lambda>_.
     and_do (\<lambda>d. case parent_of d n of
         None \<Rightarrow> (Inr (), d) | Some p \<Rightarrow> and_do (remove_child p n) (\<lambda>_. ok ()) d) (\<lambda>_.
       adopt_subtree n doc)))"

end
