(* ===== verification/DomForest.thy ===== *)
theory DomForest
  imports DomMutate
begin

text \<open>
  The tree the arena represents: parent links and child lists, what the writes do to them, and the
  well-formed arenas, in which the links agree and form a forest.  On these every walk to the root
  ends within its fuel, so the loops of the code satisfy their recursion equations.
\<close>

named_theorems dom_view \<open>what a write does to the links, kinds and tables\<close>

subsection \<open>Writes and views\<close>

lemma length_modify_node [simp, dom_view]: "length (d_nodes (modify_node n f d)) = length (d_nodes d)"
  by (simp add: modify_node_def)

lemma node_at_modify_node [dom_view]:
  "node_at (modify_node n f d) m = (if m = n then map_option f (node_at d m) else node_at d m)"
  by (auto simp: node_at_def modify_node_def)

lemma modify_node_frame [simp, dom_view]:
  "d_document (modify_node n f d) = d_document d"
  "d_revision (modify_node n f d) = d_revision d"
  "d_journal (modify_node n f d) = d_journal d"
  "d_capacity (modify_node n f d) = d_capacity d"
  "d_oldest (modify_node n f d) = d_oldest d"
  "d_focused (modify_node n f d) = d_focused d"
  "d_content_types (modify_node n f d) = d_content_types d"
  "d_ranges (modify_node n f d) = d_ranges d"
  "d_selections (modify_node n f d) = d_selections d"
  "d_named (modify_node n f d) = d_named d"
  "d_images (modify_node n f d) = d_images d"
  "d_shadow_roots (modify_node n f d) = d_shadow_roots d"
  by (simp_all add: modify_node_def)

lemma kids_alt: "kids d n = (case node_at d n of None \<Rightarrow> [] | Some x \<Rightarrow> nd_children x)"
  by (simp add: kids_def children_of_def split: option.split)

text \<open>The views are functions of the list of nodes alone.\<close>

lemma same_nodes:
  assumes "d_nodes d' = d_nodes d"
  shows "node_at d' = node_at d" "parent_of d' = parent_of d" "kids d' = kids d" "kind_opt d' = kind_opt d"
    "children_of d' = children_of d" "node_document d' = node_document d"
  using assms by (auto simp: node_at_def parent_of_def kids_def children_of_def kind_opt_def
      node_document_def fun_eq_iff)

lemma nodes_frame [simp, dom_view]:
  "d_nodes (on_live_points f d) = d_nodes d"
  "d_document (on_live_points f d) = d_document d"
  "d_focused (on_live_points f d) = d_focused d"
  "d_nodes (trim d) = d_nodes d" "d_document (trim d) = d_document d" "d_focused (trim d) = d_focused d"
  "d_ranges (trim d) = d_ranges d" "d_named (trim d) = d_named d"
  "d_nodes (log_mutations ms d) = d_nodes d" "d_document (log_mutations ms d) = d_document d"
  "d_focused (log_mutations ms d) = d_focused d" "d_ranges (log_mutations ms d) = d_ranges d"
  "d_named (log_mutations ms d) = d_named d"
  by (simp_all add: on_live_points_def trim_def log_mutations_def Let_def split: prod.split)

lemma views_modify_node [dom_view]:
  "parent_of (modify_node n f d) m =
     (if m = n then (case node_at d n of None \<Rightarrow> None | Some x \<Rightarrow> nd_parent (f x)) else parent_of d m)"
  "kids (modify_node n f d) m =
     (if m = n then (case node_at d n of None \<Rightarrow> [] | Some x \<Rightarrow> nd_children (f x)) else kids d m)"
  "kind_opt (modify_node n f d) m =
     (if m = n then map_option (\<lambda>x. nd_kind (f x)) (node_at d n) else kind_opt d m)"
  by (auto simp: parent_of_def kids_alt kind_opt_def node_at_modify_node option.map_comp comp_def
      split: option.split)

subsection \<open>Forests\<close>

definition up :: "dom \<Rightarrow> (node_id \<times> node_id) set" where
  "up d = {(n, p). parent_of d n = Some p}"

definition tree_ok :: "dom \<Rightarrow> bool" where
  "tree_ok d \<longleftrightarrow>
     (\<forall>n p. parent_of d n = Some p \<longleftrightarrow> n \<in> set (kids d p)) \<and>
     (\<forall>n. distinct (kids d n)) \<and> acyclic (up d)"

lemma tree_ok_parent: "tree_ok d \<Longrightarrow> parent_of d n = Some p \<longleftrightarrow> n \<in> set (kids d p)"
  by (auto simp: tree_ok_def)

lemma tree_ok_distinct: "tree_ok d \<Longrightarrow> distinct (kids d n)"
  by (simp add: tree_ok_def)

lemma tree_ok_acyclic: "tree_ok d \<Longrightarrow> acyclic (up d)"
  by (simp add: tree_ok_def)

lemma parent_in_arena: "parent_of d n = Some p \<Longrightarrow> n < length (d_nodes d)"
  by (auto simp: parent_of_def node_at_def split: if_splits)

lemma kids_in_arena: "c \<in> set (kids d n) \<Longrightarrow> n < length (d_nodes d)"
  by (auto simp: kids_alt node_at_def split: if_splits)

lemma up_in_arena: "tree_ok d \<Longrightarrow> (n, p) \<in> up d \<Longrightarrow> n < length (d_nodes d) \<and> p < length (d_nodes d)"
  by (simp add: up_def) (meson tree_ok_parent parent_in_arena kids_in_arena)

lemma finite_up: "tree_ok d \<Longrightarrow> finite (up d)"
  by (rule finite_subset [of _ "{..<length (d_nodes d)} \<times> {..<length (d_nodes d)}"])
     (auto dest: up_in_arena)

lemma wf_up: "tree_ok d \<Longrightarrow> wf ((up d)\<inverse>)"
  by (intro finite_acyclic_wf_converse finite_up tree_ok_acyclic)

lemma tree_induct [consumes 1, case_names node]:
  assumes "tree_ok d" "\<And>n. (\<And>p. parent_of d n = Some p \<Longrightarrow> P p) \<Longrightarrow> P n"
  shows "P n"
  using wf_up [OF assms(1)] by (induction n rule: wf_induct_rule) (auto simp: up_def intro: assms(2))

text \<open>The number of proper ancestors of a node bounds every walk from it.\<close>

definition height :: "dom \<Rightarrow> node_id \<Rightarrow> nat" where
  "height d n = card {a. (n, a) \<in> (up d)\<^sup>+}"

lemma above_subset: "tree_ok d \<Longrightarrow> {a. (n, a) \<in> (up d)\<^sup>+} \<subseteq> {..<length (d_nodes d)}"
  by (auto dest!: tranclD2 up_in_arena)

lemma height_le: "tree_ok d \<Longrightarrow> height d n \<le> length (d_nodes d)"
  unfolding height_def using card_mono [OF finite_lessThan above_subset] by fastforce

lemma height_parent:
  assumes "tree_ok d" "parent_of d n = Some p"
  shows "height d p < height d n"
proof -
  have np: "(n, p) \<in> up d" using assms(2) by (simp add: up_def)
  have "(p, p) \<notin> (up d)\<^sup>+" using tree_ok_acyclic [OF assms(1)] by (auto simp: acyclic_def)
  then have "{a. (p, a) \<in> (up d)\<^sup>+} \<subset> {a. (n, a) \<in> (up d)\<^sup>+}"
    using np by (auto intro: trancl_into_trancl2)
  moreover have "finite {a. (n, a) \<in> (up d)\<^sup>+}"
    using above_subset [OF assms(1)] by (rule finite_subset) simp
  ultimately show ?thesis unfolding height_def by (intro psubset_card_mono)
qed

subsection \<open>Walks end\<close>

lemma ancestors_loop_fuel:
  "tree_ok d \<Longrightarrow> height d n \<le> k \<Longrightarrow> height d n \<le> k' \<Longrightarrow> ancestors_loop k d n = ancestors_loop k' d n"
proof (induction k arbitrary: k' n)
  case 0
  then have "parent_of d n = None" using height_parent [of d n] by (cases "parent_of d n") auto
  then show ?case by (cases k') simp_all
next
  case (Suc k)
  show ?case
  proof (cases "parent_of d n")
    case (Some p)
    then have "height d p < height d n" by (rule height_parent [OF Suc.prems(1)])
    with Suc.prems Some show ?thesis by (cases k') (auto intro: Suc.IH)
  qed (cases k', simp_all)
qed

lemma tree_root_loop_fuel:
  "tree_ok d \<Longrightarrow> height d n \<le> k \<Longrightarrow> height d n \<le> k' \<Longrightarrow> tree_root_loop k d n = tree_root_loop k' d n"
proof (induction k arbitrary: k' n)
  case 0
  then have "parent_of d n = None" using height_parent [of d n] by (cases "parent_of d n") auto
  then show ?case by (cases k') simp_all
next
  case (Suc k)
  show ?case
  proof (cases "parent_of d n")
    case (Some p)
    then have "height d p < height d n" by (rule height_parent [OF Suc.prems(1)])
    with Suc.prems Some show ?thesis by (cases k') (auto intro: Suc.IH)
  qed (cases k', simp_all)
qed

lemma climb_loop_fuel:
  "tree_ok d \<Longrightarrow> height d n < k \<Longrightarrow> height d n < k' \<Longrightarrow>
     climb_loop k P d (Some n) = climb_loop k' P d (Some n)"
proof (induction k arbitrary: k' n)
  case (Suc k)
  then obtain m where k': "k' = Suc m" by (cases k') auto
  show ?case
  proof (cases "parent_of d n")
    case (Some p)
    then have "height d p < height d n" by (rule height_parent [OF Suc.prems(1)])
    with Suc.prems Some k' show ?thesis by (auto intro: Suc.IH)
  qed (simp add: k')
qed simp

lemma ancestors_inclusive_eq:
  assumes "tree_ok d"
  shows "ancestors_inclusive d n =
    n # (case parent_of d n of None \<Rightarrow> [] | Some p \<Rightarrow> ancestors_inclusive d p)"
proof (cases "parent_of d n")
  case None
  then show ?thesis by (cases "length (d_nodes d)") (simp_all add: ancestors_inclusive_def)
next
  case (Some p)
  have "height d p < height d n" using assms Some by (rule height_parent)
  then obtain k where k: "length (d_nodes d) = Suc k" "height d p \<le> k"
    using height_le [OF assms, of n] by (cases "length (d_nodes d)") auto
  then have "ancestors_loop k d p = ancestors_loop (Suc k) d p"
    by (intro ancestors_loop_fuel assms) simp_all
  with Some k show ?thesis by (simp add: ancestors_inclusive_def)
qed

lemma tree_root_eq:
  assumes "tree_ok d"
  shows "tree_root d n = (case parent_of d n of None \<Rightarrow> n | Some p \<Rightarrow> tree_root d p)"
proof (cases "parent_of d n")
  case None
  then show ?thesis by (cases "length (d_nodes d)") (simp_all add: tree_root_def)
next
  case (Some p)
  have "height d p < height d n" using assms Some by (rule height_parent)
  then obtain k where k: "length (d_nodes d) = Suc k" "height d p \<le> k"
    using height_le [OF assms, of n] by (cases "length (d_nodes d)") auto
  then have "tree_root_loop k d p = tree_root_loop (Suc k) d p"
    by (intro tree_root_loop_fuel assms) simp_all
  with Some k show ?thesis by (simp add: tree_root_def)
qed

lemma climb_eq:
  assumes "tree_ok d"
  shows "climb P d (Some n) = (if P n then Some n else climb P d (parent_of d n))"
proof (cases "parent_of d n")
  case (Some p)
  have "height d p < height d n" using assms Some by (rule height_parent)
  then have "height d p < length (d_nodes d)" using height_le [OF assms, of n] by simp
  then have "climb_loop (length (d_nodes d)) P d (Some p) = climb_loop (length (d_nodes d) + 1) P d (Some p)"
    by (intro climb_loop_fuel assms) simp_all
  with Some show ?thesis by (simp add: climb_def)
qed (simp add: climb_def)

lemma climb_None [simp]: "climb P d None = None"
  by (simp add: climb_def)

lemma climb_ancestors:
  assumes ok: "tree_ok d"
  shows "climb P d (Some n) = find P (ancestors_inclusive d n)"
  using ok
proof (induction n rule: tree_induct)
  case (node n)
  then show ?case
    by (subst climb_eq [OF ok], subst ancestors_inclusive_eq [OF ok]) (auto split: option.split)
qed

lemma in_ancestors:
  assumes ok: "tree_ok d"
  shows "a \<in> set (ancestors_inclusive d n) \<longleftrightarrow> (n, a) \<in> (up d)\<^sup>*"
  using ok
proof (induction n rule: tree_induct)
  case (node n)
  show ?case
  proof (cases "parent_of d n")
    case None
    then show ?thesis
      by (subst ancestors_inclusive_eq [OF ok]) (auto simp: up_def elim: converse_rtranclE)
  next
    case (Some p)
    have "(n, a) \<in> (up d)\<^sup>* \<longleftrightarrow> a = n \<or> (p, a) \<in> (up d)\<^sup>*"
      using Some by (auto simp: up_def elim: converse_rtranclE intro: converse_rtrancl_into_rtrancl)
    with node.IH [OF Some] Some show ?thesis
      by (subst ancestors_inclusive_eq [OF ok]) auto
  qed
qed

lemma find_None: "find P xs = None \<longleftrightarrow> (\<forall>x \<in> set xs. \<not> P x)"
  by (induction xs) auto

lemma is_inclusive_ancestor_up: "tree_ok d \<Longrightarrow> is_inclusive_ancestor d a n \<longleftrightarrow> (n, a) \<in> (up d)\<^sup>*"
  by (auto simp: is_inclusive_ancestor_def climb_ancestors find_None in_ancestors)

lemma is_inclusive_ancestor_eq:
  "tree_ok d \<Longrightarrow> is_inclusive_ancestor d a n \<longleftrightarrow>
     n = a \<or> (case parent_of d n of None \<Rightarrow> False | Some p \<Rightarrow> is_inclusive_ancestor d a p)"
  by (simp add: is_inclusive_ancestor_def climb_eq [of d _ n] split: option.split)

lemma tree_root_top:
  assumes ok: "tree_ok d"
  shows "parent_of d (tree_root d n) = None"
  using ok
proof (induction n rule: tree_induct)
  case (node n)
  then show ?case by (subst tree_root_eq [OF ok]) (auto split: option.split)
qed

lemma tree_root_ancestor:
  assumes ok: "tree_ok d"
  shows "is_inclusive_ancestor d (tree_root d n) n"
  using ok
proof (induction n rule: tree_induct)
  case (node n)
  show ?case
    using node.IH
    by (subst is_inclusive_ancestor_eq [OF ok], subst (1 2) tree_root_eq [OF ok]) (auto split: option.split)
qed

end
