(* ===== verification/DomJournal.thy ===== *)
theory DomJournal
  imports DomForest
begin

text \<open>
  The mutation journal as a window on a log.  \<open>history L d\<close> says that \<open>L\<close> is the log of all the
  mutations of the document: the journal holds its end, and the oldest available revision is that of
  the last record before this end.  Every operation of the crate only appends to the log: \<open>later\<close>.
\<close>

definition journal_view :: "dom \<Rightarrow> nat \<times> mutation_record list \<times> nat \<times> nat" where
  "journal_view d = (d_revision d, d_journal d, d_capacity d, d_oldest d)"

definition discarded_until :: "mutation_record list \<Rightarrow> nat \<Rightarrow> nat" where
  "discarded_until L k = (if k = 0 then 0 else mr_revision (L ! (k - 1)))"

definition history :: "mutation_record list \<Rightarrow> dom \<Rightarrow> bool" where
  "history L d \<longleftrightarrow> sorted (map mr_revision L) \<and> (\<forall>r \<in> set L. mr_revision r \<le> d_revision d) \<and>
     d_revision d \<le> REVISION_MAX \<and>
     (\<exists>k \<le> length L. d_journal d = drop k L \<and> d_oldest d = discarded_until L k)"

definition later :: "dom \<Rightarrow> dom \<Rightarrow> bool" where
  "later d d' \<longleftrightarrow> (\<forall>L. history L d \<longrightarrow> d_revision d \<le> d_revision d' \<and>
     (\<exists>new. history (L @ new) d' \<and>
        (\<forall>r \<in> set new. d_revision d < mr_revision r \<or> mr_revision r = REVISION_MAX)))"

lemma history_view: "journal_view d' = journal_view d \<Longrightarrow> history L d \<Longrightarrow> history L d'"
  by (simp add: history_def journal_view_def)

lemma later_view: "journal_view d' = journal_view d \<Longrightarrow> later d d'"
  using history_view [of d' d] by (auto simp: later_def journal_view_def intro!: exI [of _ "[]"])

lemma later_refl [simp, intro]: "later d d"
  by (rule later_view) simp

lemma later_trans:
  assumes "later a b" "later b c"
  shows "later a c"
  unfolding later_def
proof (intro conjI allI impI)
  fix L assume L: "history L a"
  then obtain x where x: "d_revision a \<le> d_revision b" "history (L @ x) b"
      "\<forall>r \<in> set x. d_revision a < mr_revision r \<or> mr_revision r = REVISION_MAX"
    using assms(1) by (auto simp: later_def)
  then obtain y where y: "d_revision b \<le> d_revision c" "history ((L @ x) @ y) c"
      "\<forall>r \<in> set y. d_revision b < mr_revision r \<or> mr_revision r = REVISION_MAX"
    using assms(2) unfolding later_def by blast
  from x(1) y(1) show "d_revision a \<le> d_revision c" by simp
  from x y show "\<exists>new. history (L @ new) c \<and>
      (\<forall>r \<in> set new. d_revision a < mr_revision r \<or> mr_revision r = REVISION_MAX)"
    by (intro exI [of _ "x @ y"]) fastforce
qed

subsection \<open>The two writes to the journal\<close>

lemma trim_journal_window:
  "k \<le> length L \<Longrightarrow>
   \<exists>k' \<le> length L. trim_journal c (drop k L) (discarded_until L k) = (drop k' L, discarded_until L k')"
proof (induction "length L - k" arbitrary: k)
  case 0
  then show ?case by auto
next
  case (Suc m)
  then have "k < length L" by simp
  then have drop: "drop k L = L ! k # drop (Suc k) L" by (simp add: Cons_nth_drop_Suc)
  have "discarded_until L (Suc k) = mr_revision (L ! k)" by (simp add: discarded_until_def)
  show ?case
  proof (cases "c < length (drop k L)")
    case True
    with Suc.hyps(1) [of "Suc k"] Suc.hyps(2) \<open>k < length L\<close> \<open>discarded_until L (Suc k) = _\<close> show ?thesis
      by (auto simp: drop)
  next
    case False
    with Suc.prems show ?thesis by (intro exI [of _ k]) (simp add: drop del: length_drop)
  qed
qed

lemma history_trim: "history L d \<Longrightarrow> history L (trim d)"
proof -
  assume h: "history L d"
  then obtain k where k: "k \<le> length L" "d_journal d = drop k L" "d_oldest d = discarded_until L k"
    by (auto simp: history_def)
  with trim_journal_window [OF k(1), of "d_capacity d"] obtain k' where
    "k' \<le> length L" "trim_journal (d_capacity d) (d_journal d) (d_oldest d) = (drop k' L, discarded_until L k')"
    by auto
  with h show ?thesis by (auto simp: history_def trim_def Let_def)
qed

lemma trim_revision [simp]: "d_revision (trim d) = d_revision d"
  by (simp add: trim_def split: prod.split)

lemma later_capacity: "later d (set_mutation_journal_capacity c d)"
  unfolding later_def
proof (intro allI impI conjI)
  fix L assume "history L d"
  then have "history L (d\<lparr>d_capacity := c\<rparr>)" by (simp add: history_def)
  then have "history L (set_mutation_journal_capacity c d)"
    unfolding set_mutation_journal_capacity_def by (rule history_trim)
  then show "\<exists>new. history (L @ new) (set_mutation_journal_capacity c d) \<and>
      (\<forall>r \<in> set new. d_revision d < mr_revision r \<or> mr_revision r = REVISION_MAX)"
    by (intro exI [of _ "[]"]) simp
qed (simp add: set_mutation_journal_capacity_def)

lemma later_log_mutations: "later d (log_mutations ms d)"
proof -
  define rev' where "rev' = min REVISION_MAX (d_revision d + 1)"
  define new where "new = map (\<lambda>k. \<lparr>mr_revision = rev', mr_kind = k\<rparr>) ms"
  define d1 where "d1 = d\<lparr>d_revision := rev', d_journal := d_journal d @ new\<rparr>"
  have d1: "log_mutations ms d = trim d1"
    by (simp add: log_mutations_def d1_def new_def rev'_def Let_def)
  have new: "mr_revision r = rev'" if "r \<in> set new" for r using that by (auto simp: new_def)
  have h: "history (L @ new) d1" if h: "history L d" for L
  proof -
    from h obtain k where k: "k \<le> length L" "d_journal d = drop k L" "d_oldest d = discarded_until L k"
      by (auto simp: history_def)
    have le: "mr_revision r \<le> rev'" if "r \<in> set L" for r
      using h that by (fastforce simp: history_def rev'_def)
    have "sorted (map mr_revision new)" using new by (auto simp: sorted_map intro: sorted_wrt_mono_rel [of _ "\<lambda>_ _. True"])
    then have "sorted (map mr_revision (L @ new))"
      using h le new by (auto simp: history_def sorted_append)
    moreover have "d_journal d1 = drop k (L @ new)" using k by (simp add: d1_def)
    moreover have "d_oldest d1 = discarded_until (L @ new) k"
      using k by (auto simp: d1_def discarded_until_def nth_append)
    moreover have "\<forall>r \<in> set (L @ new). mr_revision r \<le> d_revision d1"
      using le new by (auto simp: d1_def)
    moreover have "d_revision d1 \<le> REVISION_MAX" by (simp add: d1_def rev'_def)
    ultimately show ?thesis unfolding history_def using k(1) by (metis length_append trans_le_add1)
  qed
  show ?thesis
    unfolding later_def d1
  proof (intro allI impI conjI)
    fix L assume L: "history L d"
    then show "d_revision d \<le> d_revision (trim d1)" by (simp add: history_def d1_def rev'_def)
    have "\<forall>r \<in> set new. d_revision d < mr_revision r \<or> mr_revision r = REVISION_MAX"
      using new by (auto simp: rev'_def)
    with history_trim [OF h [OF L]] show "\<exists>new. history (L @ new) (trim d1) \<and>
        (\<forall>r \<in> set new. d_revision d < mr_revision r \<or> mr_revision r = REVISION_MAX)"
      by blast
  qed
qed

subsection \<open>Reading\<close>

text \<open>What a reader gets is the part of the log after the revision it asks for.\<close>

lemma mutations_since_log:
  assumes "history L d" "mutations_since d r = Inr b"
  shows "mb_records b = filter (\<lambda>m. r < mr_revision m) L" "mb_from b = r" "mb_to b = d_revision d"
proof -
  from assms(1) obtain k where k: "k \<le> length L" "d_journal d = drop k L" "d_oldest d = discarded_until L k"
    by (auto simp: history_def)
  have "mr_revision m \<le> r" if m: "m \<in> set (take k L)" for m
  proof -
    obtain i where i: "i < k" "i < length L" "m = L ! i" using m by (auto simp: in_set_conv_nth)
    then have "mr_revision m \<le> mr_revision (L ! (k - 1))"
      using sorted_nth_mono [of "map mr_revision L" i "k - 1"] assms(1) k(1) by (simp add: history_def)
    also have "\<dots> = d_oldest d" using i(1) k(3) by (simp add: discarded_until_def)
    finally show ?thesis using assms(2) by (simp add: mutations_since_def split: if_splits)
  qed
  then have "filter (\<lambda>m. r < mr_revision m) L = filter (\<lambda>m. r < mr_revision m) (drop k L)"
    by (metis (no_types, lifting) append_take_drop_id filter_False filter_append leD self_append_conv2)
  then show "mb_records b = filter (\<lambda>m. r < mr_revision m) L" "mb_from b = r" "mb_to b = d_revision d"
    using assms(2) k(2) by (auto simp: mutations_since_def split: if_splits)
qed

text \<open>Two reads in a row give what one read at the end gives.\<close>

lemma mutations_since_chain:
  assumes L: "history L d" and later: "later d d'" and rev: "d_revision d' < REVISION_MAX"
    and first: "mutations_since d r = Inr b" and whole: "mutations_since d' r = Inr w"
  shows "\<exists>b'. mutations_since d' (mb_to b) = Inr b' \<and> mb_records w = mb_records b @ mb_records b'"
proof -
  obtain new where le: "d_revision d \<le> d_revision d'" and new: "history (L @ new) d'"
      "\<forall>m \<in> set new. d_revision d < mr_revision m \<or> mr_revision m = REVISION_MAX"
    using later L by (auto simp: later_def)
  have gt: "d_revision d < mr_revision m" if "m \<in> set new" for m
  proof -
    have "mr_revision m \<le> d_revision d'" using new(1) that by (simp add: history_def)
    with new(2) that rev show ?thesis by fastforce
  qed
  have r: "r \<le> d_revision d" using first by (simp add: mutations_since_def split: if_splits)
  have old: "mr_revision m \<le> d_revision d" if "m \<in> set L" for m using L that by (simp add: history_def)
  have "d_oldest d' \<le> r" "mb_to b = d_revision d"
    using whole mutations_since_log(3) [OF L first] by (simp_all add: mutations_since_def split: if_splits)
  with r le obtain b' where second: "mutations_since d' (mb_to b) = Inr b'"
    by (auto simp: mutations_since_def)
  note read = mutations_since_log [OF L first] mutations_since_log(1) [OF new(1) whole]
    mutations_since_log(1) [OF new(1) second]
  have "filter (\<lambda>m. d_revision d < mr_revision m) L = []"
    using old by (auto simp: filter_empty_conv not_less)
  moreover have "filter (\<lambda>m. r < mr_revision m) new = new" "filter (\<lambda>m. d_revision d < mr_revision m) new = new"
    using gt r by (auto simp: filter_id_conv intro: le_less_trans)
  ultimately have "mb_records w = mb_records b @ mb_records b'" using read by simp
  with second show ?thesis by blast
qed

end
