(* ===== verification/DomAttributes.thy ===== *)
theory DomAttributes
  imports DomMutate "HOL-Library.AList" "HOL-Library.List_Lexorder"
begin

text \<open>
  Attributes (\<^verbatim>\<open>lib.rs\<close>) and the two things they keep current: the index of named elements
  (\<^verbatim>\<open>named.rs\<close>) and the loading state of images (\<^verbatim>\<open>image.rs\<close>).
\<close>

subsection \<open>The state of images\<close>

definition image_state_of :: "dom \<Rightarrow> node_id \<Rightarrow> image_state" where
  "image_state_of d n = (case d_images d n of None \<Rightarrow> Unavailable | Some s \<Rightarrow> s)"

definition set_image_state :: "node_id \<Rightarrow> image_state \<Rightarrow> dom \<Rightarrow> dom" where
  "set_image_state n s d =
     (if s = Unavailable then d\<lparr>d_images := (d_images d)(n := None)\<rparr>
      else d\<lparr>d_images := (d_images d)(n \<mapsto> s)\<rparr>)"

definition is_html_image :: "dom \<Rightarrow> node_id \<Rightarrow> bool" where
  "is_html_image d n = (case kind_opt d n of
     Some (Element e) \<Rightarrow> el_namespace e = Html \<and> el_local e = lit ''img'' | _ \<Rightarrow> False)"

definition image_source_changed :: "node_id \<Rightarrow> bool \<Rightarrow> dom \<Rightarrow> dom" where
  "image_source_changed n has_source d =
     (if \<not> is_html_image d n then d
      else set_image_state n (if has_source then Pending else Unavailable) d)"

subsection \<open>Named elements\<close>

definition takes_name_attribute :: "str \<Rightarrow> bool" where
  "takes_name_attribute local \<longleftrightarrow>
     local \<in> set (map lit [''embed'', ''form'', ''iframe'', ''img'', ''object''])"

definition attribute_value :: "element_data \<Rightarrow> string \<Rightarrow> str option" where
  "attribute_value e local =
     map_option attr_value
       (find (\<lambda>a. attr_namespace a = None \<and> attr_local a = lit local) (el_attributes e))"

definition element_keys :: "element_data \<Rightarrow> str list" where
  "element_keys e =
     (if el_namespace e \<noteq> Html then []
      else let keys = (case attribute_value e ''id'' of
                         Some v \<Rightarrow> if v \<noteq> [] then [v] else [] | None \<Rightarrow> [])
        in if \<not> takes_name_attribute (el_local e) then keys
           else (case attribute_value e ''name'' of
                   Some v \<Rightarrow> if v \<noteq> [] \<and> v \<notin> set keys then keys @ [v] else keys
                 | None \<Rightarrow> keys))"

definition named_keys_of :: "dom \<Rightarrow> node_id \<Rightarrow> str list option" where
  "named_keys_of d n = (case kind_opt d n of Some (Element e) \<Rightarrow> Some (element_keys e) | _ \<Rightarrow> None)"

definition index_key :: "node_id \<Rightarrow> str \<Rightarrow> (str \<times> node_id list) list \<Rightarrow> (str \<times> node_id list) list" where
  "index_key n key named =
     (let ns = (case map_of named key of None \<Rightarrow> [] | Some ns \<Rightarrow> ns)
      in AList.update key (if n \<in> set ns then ns else ns @ [n]) named)"

definition index_named :: "node_id \<Rightarrow> dom \<Rightarrow> dom" where
  "index_named n d = (case named_keys_of d n of
     None \<Rightarrow> d | Some keys \<Rightarrow> d\<lparr>d_named := fold (index_key n) keys (d_named d)\<rparr>)"

definition unindex_key :: "node_id \<Rightarrow> str \<Rightarrow> (str \<times> node_id list) list \<Rightarrow> (str \<times> node_id list) list" where
  "unindex_key n key named =
     (case map_of named key of
        None \<Rightarrow> named
      | Some ns \<Rightarrow> let rest = filter (\<lambda>c. c \<noteq> n) ns in
          if rest = [] then AList.delete key named else AList.update key rest named)"

definition unindex_named :: "node_id \<Rightarrow> dom \<Rightarrow> dom" where
  "unindex_named n d = (case named_keys_of d n of
     None \<Rightarrow> d | Some keys \<Rightarrow> d\<lparr>d_named := fold (unindex_key n) keys (d_named d)\<rparr>)"

definition names_element :: "dom \<Rightarrow> node_id \<Rightarrow> str \<Rightarrow> bool" where
  "names_element d n key = (case kind_opt d n of
     Some (Element e) \<Rightarrow> key \<in> set (element_keys e) | _ \<Rightarrow> False)"

definition named_elements :: "dom \<Rightarrow> node_id \<Rightarrow> str \<Rightarrow> node_id list" where
  "named_elements d document key =
     (if key = [] then []
      else (case map_of (d_named d) key of
        None \<Rightarrow> []
      | Some candidates \<Rightarrow>
          map snd (sort_key fst
            (concat (map (\<lambda>n. let (root, pos) = tree_position d n in
                                if root = document then [(pos, n)] else [])
              (filter (\<lambda>n. names_element d n key) candidates))))))"

definition named_keys :: "dom \<Rightarrow> node_id \<Rightarrow> str list" where
  "named_keys d document =
     filter (\<lambda>key. named_elements d document key \<noteq> []) (sort (map fst (d_named d)))"

subsection \<open>Writing attributes\<close>

fun update_first :: "('a \<Rightarrow> bool) \<Rightarrow> ('a \<Rightarrow> 'a) \<Rightarrow> 'a list \<Rightarrow> 'a list option" where
  "update_first P f [] = None"
| "update_first P f (x # xs) =
     (if P x then Some (f x # xs) else map_option ((#) x) (update_first P f xs))"

definition write_attribute ::
    "(attribute \<Rightarrow> bool) \<Rightarrow> (attribute \<Rightarrow> attribute) \<Rightarrow> attribute \<Rightarrow> element_data \<Rightarrow> element_data" where
  "write_attribute P f new e =
     (case update_first P f (el_attributes e) of
        Some as \<Rightarrow> e\<lparr>el_attributes := as\<rparr>
      | None \<Rightarrow> e\<lparr>el_attributes := el_attributes e @ [new]\<rparr>)"

definition set_attribute :: "node_id \<Rightarrow> str \<Rightarrow> str \<Rightarrow> unit dom_step" where
  "set_attribute n local_name val =
     and_do (look (\<lambda>d. require_element d n)) (\<lambda>e.
       let name = normalize_name e local_name in
       and_do (upd (unindex_named n)) (\<lambda>_.
       and_do (upd (modify_element n (write_attribute (\<lambda>a. has_qualified_name a name)
                (\<lambda>a. a\<lparr>attr_value := val\<rparr>)
                \<lparr>attr_namespace = None, attr_prefix = None, attr_local = name, attr_value = val\<rparr>))) (\<lambda>_.
       and_do (record_mutations [AttributeChange n name]) (\<lambda>_.
       and_do (upd (index_named n)) (\<lambda>_.
         if name = lit ''src'' then upd (image_source_changed n True) else ok ())))))"

definition set_attribute_ns :: "node_id \<Rightarrow> str option \<Rightarrow> str option \<Rightarrow> str \<Rightarrow> str \<Rightarrow> unit dom_step" where
  "set_attribute_ns n ns pfx name val =
     and_do (look (\<lambda>d. require_element d n)) (\<lambda>e.
       and_do (upd (unindex_named n)) (\<lambda>_.
       and_do (upd (modify_element n (write_attribute (\<lambda>a. attr_namespace a = ns \<and> attr_local a = name)
                (\<lambda>a. a\<lparr>attr_value := val, attr_prefix := pfx\<rparr>)
                \<lparr>attr_namespace = ns, attr_prefix = pfx, attr_local = name, attr_value = val\<rparr>))) (\<lambda>_.
       and_do (record_mutations [AttributeChange n name]) (\<lambda>_.
       and_do (upd (index_named n)) (\<lambda>_.
         if ns = None \<and> name = lit ''src'' then upd (image_source_changed n True) else ok ())))))"

definition remove_nth :: "nat \<Rightarrow> 'a list \<Rightarrow> 'a list" where
  "remove_nth i xs = take i xs @ drop (Suc i) xs"

text \<open>
  What \<open>remove_attribute\<close> and \<open>remove_attribute_ns\<close> do once the attribute is chosen: \<open>P\<close> picks it,
  \<open>name\<close> is the name recorded, and \<open>src\<close> says whether it is the source of an image.
\<close>

definition remove_matching :: "node_id \<Rightarrow> (attribute \<Rightarrow> bool) \<Rightarrow> str \<Rightarrow> bool \<Rightarrow> element_data \<Rightarrow> unit dom_step" where
  "remove_matching n P name src e =
     and_do (upd (unindex_named n)) (\<lambda>_.
       (case position P (el_attributes e) of
          None \<Rightarrow> upd (index_named n)
        | Some i \<Rightarrow>
            and_do (upd (modify_element n (\<lambda>e. e\<lparr>el_attributes := remove_nth i (el_attributes e)\<rparr>))) (\<lambda>_.
            and_do (record_mutations [AttributeChange n name]) (\<lambda>_.
            and_do (upd (index_named n)) (\<lambda>_.
              if src then upd (image_source_changed n False) else ok ())))))"

definition remove_attribute :: "node_id \<Rightarrow> str \<Rightarrow> unit dom_step" where
  "remove_attribute n local_name =
     and_do (look (\<lambda>d. require_element d n)) (\<lambda>e.
       let name = normalize_name e local_name in
       remove_matching n (\<lambda>a. has_qualified_name a name) name (name = lit ''src'') e)"

definition remove_attribute_ns :: "node_id \<Rightarrow> str option \<Rightarrow> str \<Rightarrow> unit dom_step" where
  "remove_attribute_ns n ns name =
     and_do (look (\<lambda>d. require_element d n)) (\<lambda>e.
       remove_matching n (\<lambda>a. attr_namespace a = ns \<and> attr_local a = name) name
         (ns = None \<and> name = lit ''src'') e)"

subsection \<open>Grafting a document\<close>

text \<open>
  \<open>graft_document\<close> moves the nodes of another arena behind the nodes of this one, with every id in
  them shifted by the size of this arena.
\<close>

fun shift_kind :: "node_kind \<Rightarrow> (node_id \<Rightarrow> node_id) \<Rightarrow> node_kind" where
  "shift_kind (Element e) shift = Element (e\<lparr>
     el_template_contents := map_option shift (el_template_contents e),
     el_shadow_root := map_option shift (el_shadow_root e),
     el_manual := map shift (el_manual e),
     el_form_link := map_option (\<lambda>l. \<lparr>fl_form = shift (fl_form l),
        fl_intended_parent = shift (fl_intended_parent l)\<rparr>) (el_form_link e)\<rparr>)"
| "shift_kind (ShadowRoot s) shift = ShadowRoot (s\<lparr>sh_host := shift (sh_host s)\<rparr>)"
| "shift_kind k shift = k"

definition shift_node :: "(node_id \<Rightarrow> node_id) \<Rightarrow> node \<Rightarrow> node" where
  "shift_node shift x = \<lparr>nd_id = shift (nd_id x), nd_parent = map_option shift (nd_parent x),
     nd_children = map shift (nd_children x), nd_kind = shift_kind (nd_kind x) shift,
     nd_owner = shift (nd_owner x)\<rparr>"

definition graft_document :: "dom \<Rightarrow> dom \<Rightarrow> node_id \<times> dom" where
  "graft_document other d =
     (let offset = length (d_nodes d);
          shift = (\<lambda>n. n + offset);
          d1 = d\<lparr>d_nodes := d_nodes d @ map (shift_node shift) (d_nodes other)\<rparr>;
          d2 = fold index_named [offset..<length (d_nodes d1)] d1;
          d3 = d2\<lparr>d_shadow_roots := d_shadow_roots d2 + d_shadow_roots other,
                 d_content_types := (\<lambda>n.
                   if offset \<le> n \<and> d_content_types other (n - offset) \<noteq> None
                   then d_content_types other (n - offset) else d_content_types d2 n)\<rparr>
      in (shift (d_document other), d3))"

end
