(* ===== verification/DomText.thy ===== *)
theory DomText
  imports DomMutate
begin

text \<open>
  Character data (\<^verbatim>\<open>text.rs\<close> and \<open>append_text\<close>, \<open>set_character_data\<close> of \<^verbatim>\<open>lib.rs\<close>): replacing data,
  splitting a text node, merging runs of text nodes, and reading a UTF-16 slice.
\<close>

definition kind_or_error :: "dom \<Rightarrow> node_id \<Rightarrow> node_kind dom_result" where
  "kind_or_error d n = (case kind_opt d n of Some k \<Rightarrow> Inr k | None \<Rightarrow> dom_not_found ''unknown node'')"

definition character_data_text :: "dom \<Rightarrow> node_id \<Rightarrow> str dom_result" where
  "character_data_text d n = and_then (kind_or_error d n) (\<lambda>k. case k of
     Text s \<Rightarrow> Inr s | Comment s \<Rightarrow> Inr s | ProcessingInstruction _ s \<Rightarrow> Inr s
   | _ \<Rightarrow> dom_invalid_node_type ''node does not implement CharacterData'')"

definition with_data :: "node_kind \<Rightarrow> str \<Rightarrow> node_kind" where
  "with_data k s = (case k of
     Text _ \<Rightarrow> Text s | Comment _ \<Rightarrow> Comment s
   | ProcessingInstruction t _ \<Rightarrow> ProcessingInstruction t s | _ \<Rightarrow> k)"

definition set_data_text :: "node_id \<Rightarrow> str \<Rightarrow> dom \<Rightarrow> dom" where
  "set_data_text n s d = modify_node n (\<lambda>x. x\<lparr>nd_kind := with_data (nd_kind x) s\<rparr>) d"

definition record_character_data :: "node_id \<Rightarrow> unit dom_step" where
  "record_character_data n = record_mutations [CharacterData n]"

definition replaced_units :: "nat list \<Rightarrow> nat \<Rightarrow> nat \<Rightarrow> nat list \<Rightarrow> nat list" where
  "replaced_units units off cnt inserted = take off units @ inserted @ drop (off + cnt) units"

definition replace_data :: "node_id \<Rightarrow> nat \<Rightarrow> nat \<Rightarrow> str \<Rightarrow> unit dom_step" where
  "replace_data n off count0 s =
     and_do (look (\<lambda>d. character_data_text d n)) (\<lambda>old d.
       let units = encode_utf16 old in
       if length units < off
       then (dom_index_size ''the offset is greater than the length of the data'', d)
       else
         let cnt = min count0 (length units - off);
             inserted = encode_utf16 s;
             d1 = set_data_text n (from_utf16_lossy (replaced_units units off cnt inserted)) d;
             d2 = update_ranges_for_replace_data n off cnt (length inserted) d1
         in record_character_data n d2)"

definition set_character_data :: "node_id \<Rightarrow> str \<Rightarrow> unit dom_step" where
  "set_character_data n s =
     and_do (look (\<lambda>d. character_data_text d n)) (\<lambda>old. replace_data n 0 (utf16_len old) s)"

definition append_text :: "node_id \<Rightarrow> str \<Rightarrow> node_id dom_step" where
  "append_text parent s =
     and_do (look (\<lambda>d. require_node d parent)) (\<lambda>_ d.
       if s = [] then (dom_invalid_node_type ''cannot append an empty character token'', d)
       else
         let fresh = (\<lambda>d. let (t, d1) = create_text s d in and_do (append_child parent t) (\<lambda>_. ok t) d1) in
         if kids d parent = [] then fresh d
         else let last_child = List.last (kids d parent) in
           (case kind_of d last_child of
              Inl e \<Rightarrow> (Inl e, d)
            | Inr (Text existing) \<Rightarrow>
                and_do (upd (set_kind last_child (Text (existing @ s)))) (\<lambda>_.
                and_do (record_mutations [CharacterData last_child]) (\<lambda>_. ok last_child)) d
            | Inr _ \<Rightarrow> fresh d))"

definition split_text :: "node_id \<Rightarrow> nat \<Rightarrow> node_id dom_step" where
  "split_text n off =
     and_do (look (\<lambda>d. and_then (kind_or_error d n) (\<lambda>k. case k of
         Text _ \<Rightarrow> Inr () | _ \<Rightarrow> dom_invalid_node_type ''splitText requires a Text node''))) (\<lambda>_.
     and_do (look (\<lambda>d. character_data_text d n)) (\<lambda>old d.
       let units = encode_utf16 old in
       if length units < off
       then (dom_index_size ''the offset is greater than the length of the data'', d)
       else
         let cnt = length units - off;
             (new_node, d1) = create_text (from_utf16_lossy (drop off units)) d
         in and_do (\<lambda>d. case parent_of d n of
                None \<Rightarrow> (Inr (), d)
              | Some parent \<Rightarrow>
                  let index = index_or_zero d n; nxt = next_sibling d n in
                  and_do (insert_before parent new_node nxt) (\<lambda>_.
                    upd (update_ranges_for_split_text n new_node parent off index)) d) (\<lambda>_.
            and_do (replace_data n off cnt []) (\<lambda>_. ok new_node)) d1))"

subsection \<open>Normalizing\<close>

fun append_data :: "dom \<Rightarrow> node_id list \<Rightarrow> str dom_result" where
  "append_data d [] = Inr []"
| "append_data d (n # ns) =
     and_then (character_data_text d n) (\<lambda>s. and_then (append_data d ns) (\<lambda>rest. Inr (s @ rest)))"

fun merge_ranges :: "node_id \<Rightarrow> node_id \<Rightarrow> nat \<Rightarrow> nat \<Rightarrow> node_id list \<Rightarrow> dom \<Rightarrow> dom" where
  "merge_ranges into parent index len [] d = d"
| "merge_ranges into parent index len (sibling # ns) d =
     merge_ranges into parent (index + 1) (len + node_length d sibling) ns
       (update_ranges_for_merge sibling into parent index len d)"

fun remove_all :: "node_id \<Rightarrow> node_id list \<Rightarrow> unit dom_step" where
  "remove_all parent [] = ok ()"
| "remove_all parent (n # ns) = and_do (remove_child parent n) (\<lambda>_. remove_all parent ns)"

definition normalize_node :: "node_id \<Rightarrow> unit dom_step" where
  "normalize_node n d =
     (case parent_of d n of
        None \<Rightarrow> (Inr (), d)
      | Some parent \<Rightarrow>
          if node_length d n = 0 then and_do (remove_child parent n) (\<lambda>_. ok ()) d
          else (case index_in_parent d n of
            None \<Rightarrow> (Inr (), d)
          | Some index \<Rightarrow>
              let contiguous = takeWhile (is_text_node d) (drop (index + 1) (kids d parent)) in
              if contiguous = [] then (Inr (), d)
              else and_do (look (\<lambda>d. append_data d contiguous)) (\<lambda>appended d.
                let len = node_length d n in
                and_do (replace_data n len 0 appended) (\<lambda>_.
                and_do (upd (merge_ranges n parent (index + 1) len contiguous)) (\<lambda>_.
                  remove_all parent contiguous)) d) d))"

fun normalize_all :: "node_id list \<Rightarrow> unit dom_step" where
  "normalize_all [] = ok ()"
| "normalize_all (n # ns) = and_do (normalize_node n) (\<lambda>_. normalize_all ns)"

definition normalize :: "node_id \<Rightarrow> unit dom_step" where
  "normalize root =
     and_do (look (\<lambda>d. kind_or_error d root)) (\<lambda>_ d.
       normalize_all (filter (is_text_node d) (visit d (kids d root))) d)"

subsection \<open>Reading a slice\<close>

definition character_data :: "dom \<Rightarrow> node_id \<Rightarrow> str dom_result" where
  "character_data d n = and_then (kind_of d n) (\<lambda>k. case k of
     Text s \<Rightarrow> Inr s | Comment s \<Rightarrow> Inr s | ProcessingInstruction _ s \<Rightarrow> Inr s
   | _ \<Rightarrow> dom_invalid_node_type ''node does not implement CharacterData'')"

text \<open>The code passes \<open>usize::MAX\<close> for a slice to the end; \<open>None\<close> stands for it.\<close>

definition utf16_substring :: "dom \<Rightarrow> node_id \<Rightarrow> nat \<Rightarrow> nat option \<Rightarrow> str dom_result" where
  "utf16_substring d n s e = and_then (character_data d n) (\<lambda>data.
     let units = encode_utf16 data;
         e' = (case e of None \<Rightarrow> length units | Some e \<Rightarrow> min e (length units));
         s' = min s e'
     in Inr (from_utf16_lossy (drop s' (take e' units))))"

end
