(* ===== verification/DomClone.thy ===== *)
theory DomClone
  imports DomAttributes DomText
begin

text \<open>
  Copying nodes (\<^verbatim>\<open>clone.rs\<close>).  The recursion goes down the children and into the contents of
  templates; a chain of nodes longer than the arena repeats a node, and then the recursion never ends.
\<close>

definition clone_element :: "element_data \<Rightarrow> dom \<Rightarrow> node_id \<times> dom" where
  "clone_element e d =
     (let (copy, d1) = create_element_qualified (el_namespace e) (el_prefix e) (el_local e) d;
          d2 = modify_element copy (\<lambda>x. x\<lparr>el_attributes := el_attributes e\<rparr>) d1
      in (copy, index_named copy d2))"

definition clone_kind :: "node_id \<Rightarrow> node_kind \<Rightarrow> node_id dom_step" where
  "clone_kind n k d = (case k of
     Document \<Rightarrow> (let (c, d') = create_document (content_type d n) d in (Inr c, d'))
   | ShadowRoot _ \<Rightarrow> (dom_not_supported ''a shadow root cannot be cloned (DOM NotSupportedError)'', d)
   | DocumentType t \<Rightarrow>
       (let (c, d') = create_document_type (dt_name t) (dt_public_id t) (dt_system_id t) d in (Inr c, d'))
   | DocumentFragment \<Rightarrow> (let (c, d') = create_document_fragment d in (Inr c, d'))
   | Text s \<Rightarrow> (let (c, d') = create_text s d in (Inr c, d'))
   | Comment s \<Rightarrow> (let (c, d') = create_comment s d in (Inr c, d'))
   | ProcessingInstruction t s \<Rightarrow> (let (c, d') = create_processing_instruction t s d in (Inr c, d'))
   | Element e \<Rightarrow> (let (c, d') = clone_element e d in (Inr c, d')))"

definition clone_one :: "node_id \<Rightarrow> node_id dom_step" where
  "clone_one n =
     and_do (look (\<lambda>d. kind_of d n)) (\<lambda>k. and_do (clone_kind n k) (\<lambda>copy d.
       (Inr copy, if k = Document then d else set_node_document copy (owner_of d n) d)))"

fun clone_loop :: "nat \<Rightarrow> node_id \<Rightarrow> bool \<Rightarrow> node_id dom_step" and
    clone_into :: "nat \<Rightarrow> node_id \<Rightarrow> node_id list \<Rightarrow> unit dom_step" where
  "clone_loop k n deep d0 = and_do (clone_one n) (\<lambda>copy d.
     if \<not> deep then (Inr copy, d)
     else and_do (\<lambda>d. case (template_contents d n, template_contents d copy) of
              (Some source_contents, Some copy_contents) \<Rightarrow> clone_into k copy_contents (kids d source_contents) d
            | _ \<Rightarrow> (Inr (), d)) (\<lambda>_.
          and_do (\<lambda>d. clone_into k copy (kids d n) d) (\<lambda>_. ok copy)) d) d0"
| "clone_into k target [] d0 = (Inr (), d0)"
| "clone_into 0 target (child # cs) d0 = (Inl Diverges, d0)"
| "clone_into (Suc k) target (child # cs) d0 =
     and_do (clone_loop k child True) (\<lambda>child_copy.
     and_do (append_child target child_copy) (\<lambda>_. clone_into (Suc k) target cs)) d0"

definition clone_node :: "node_id \<Rightarrow> bool \<Rightarrow> node_id dom_step" where
  "clone_node n deep d = clone_loop (length (d_nodes d)) n deep d"

end
