(* ===== verification/DomRange.thy ===== *)
theory DomRange
  imports DomClone
begin

text \<open>
  Ranges (\<^verbatim>\<open>range.rs\<close>): boundary points and their order, the operations that set a range, and the
  ones that read or change the tree between its ends.  A subtraction of \<open>usize\<close> that would go below
  zero panics, as a debug build does.
\<close>

subsection \<open>The table of ranges\<close>

definition push_range :: "range_kind \<Rightarrow> boundary_point \<Rightarrow> boundary_point \<Rightarrow> range_id dom_step" where
  "push_range k s e d =
     (Inr (length (d_ranges d)), d\<lparr>d_ranges := d_ranges d @ [\<lparr>rg_kind = k, rg_start = s, rg_end = e\<rparr>]\<rparr>)"

definition range_rec :: "dom \<Rightarrow> range_id \<Rightarrow> range_record dom_result" where
  "range_rec d r = (if r < length (d_ranges d) then Inr (d_ranges d ! r) else dom_not_found ''unknown range'')"

definition modify_range :: "range_id \<Rightarrow> (range_record \<Rightarrow> range_record) \<Rightarrow> unit dom_step" where
  "modify_range r f =
     and_do (look (\<lambda>d. range_rec d r)) (\<lambda>x. upd (\<lambda>d. d\<lparr>d_ranges := (d_ranges d)[r := f x]\<rparr>))"

definition range_kind_of :: "dom \<Rightarrow> range_id \<Rightarrow> range_kind option" where
  "range_kind_of d r = (if r < length (d_ranges d) then Some (rg_kind (d_ranges d ! r)) else None)"

definition range_start :: "dom \<Rightarrow> range_id \<Rightarrow> boundary_point dom_result" where
  "range_start d r = and_then (range_rec d r) (\<lambda>x. Inr (rg_start x))"

definition range_end :: "dom \<Rightarrow> range_id \<Rightarrow> boundary_point dom_result" where
  "range_end d r = and_then (range_rec d r) (\<lambda>x. Inr (rg_end x))"

definition range_is_collapsed :: "dom \<Rightarrow> range_id \<Rightarrow> bool dom_result" where
  "range_is_collapsed d r = and_then (range_rec d r) (\<lambda>x. Inr (rg_start x = rg_end x))"

definition range_common_ancestor :: "dom \<Rightarrow> range_id \<Rightarrow> node_id dom_result" where
  "range_common_ancestor d r = and_then (range_rec d r)
     (\<lambda>x. Inr (common_ancestor d (bp_node (rg_start x)) (bp_node (rg_end x))))"

definition point :: "node_id \<Rightarrow> nat \<Rightarrow> boundary_point" where
  "point n i = \<lparr>bp_node = n, bp_offset = i\<rparr>"

lemma point_sel [simp]: "bp_node (point n i) = n" "bp_offset (point n i) = i"
  by (simp_all add: point_def)

subsection \<open>Checks of boundary points\<close>

definition require_not_doctype :: "dom \<Rightarrow> node_id \<Rightarrow> unit dom_result" where
  "require_not_doctype d n = and_then (kind_of d n) (\<lambda>k. case k of
     DocumentType _ \<Rightarrow> dom_invalid_node_type ''a DocumentType cannot contain a boundary point''
   | _ \<Rightarrow> Inr ())"

definition checked_point :: "dom \<Rightarrow> node_id \<Rightarrow> nat \<Rightarrow> boundary_point dom_result" where
  "checked_point d n off = and_then (require_not_doctype d n) (\<lambda>_.
     if node_length d n < off then dom_index_size ''the offset is greater than the node's length''
     else Inr (point n off))"

definition parent_and_index :: "dom \<Rightarrow> node_id \<Rightarrow> (node_id \<times> nat) dom_result" where
  "parent_and_index d n =
     (case parent_of d n of
        None \<Rightarrow> dom_invalid_node_type ''the node has no parent''
      | Some p \<Rightarrow> (case index_in_parent d n of
          None \<Rightarrow> dom_not_found ''the node is not a child of its parent'' | Some i \<Rightarrow> Inr (p, i)))"

definition point_before :: "dom \<Rightarrow> node_id \<Rightarrow> boundary_point dom_result" where
  "point_before d n = and_then (parent_and_index d n) (\<lambda>(p, i). Inr (point p i))"

definition point_after :: "dom \<Rightarrow> node_id \<Rightarrow> boundary_point dom_result" where
  "point_after d n = and_then (parent_and_index d n) (\<lambda>(p, i). Inr (point p (i + 1)))"

subsection \<open>The order of boundary points\<close>

datatype place = Before | Same | After

fun ordering_place :: "ordering \<Rightarrow> place" where
  "ordering_place Less = Before"
| "ordering_place Equal = Same"
| "ordering_place Greater = After"

text \<open>The child of \<open>ancestor\<close> that the walk up from \<open>child\<close> ends at.\<close>

fun child_towards :: "nat \<Rightarrow> dom \<Rightarrow> node_id \<Rightarrow> node_id \<Rightarrow> node_id" where
  "child_towards 0 d ancestor child = child"
| "child_towards (Suc k) d ancestor child =
     (case parent_of d child of
        None \<Rightarrow> child
      | Some p \<Rightarrow> if p = ancestor then child else child_towards k d ancestor p)"

definition place_forward :: "dom \<Rightarrow> boundary_point \<Rightarrow> boundary_point \<Rightarrow> place" where
  "place_forward d left right =
     (if is_inclusive_ancestor d (bp_node left) (bp_node right)
      then let child = child_towards (length (d_nodes d)) d (bp_node left) (bp_node right)
           in if index_or_zero d child < bp_offset left then After else Before
      else Before)"

lemma shared_prefix_commute: "shared_prefix xs ys = shared_prefix ys xs"
proof (induction xs arbitrary: ys)
  case (Cons x xs)
  then show ?case by (cases ys) (auto simp: shared_prefix_def)
qed (simp add: shared_prefix_def)

lemma tree_order_Greater:
  assumes "tree_order d left right = Some Greater"
  defines "lp \<equiv> path_from_root d left" and "rp \<equiv> path_from_root d right"
  shows "left \<noteq> right" "shared_prefix lp rp \<noteq> 0" "shared_prefix lp rp \<noteq> length lp"
    "shared_prefix lp rp = length rp \<or>
     (\<exists>i j. index_in_parent d (lp ! shared_prefix lp rp) = Some i \<and>
            index_in_parent d (rp ! shared_prefix lp rp) = Some j \<and> j < i)"
  using assms(1) unfolding tree_order_def Let_def lp_def rp_def
  by (auto split: if_splits option.splits)

lemma tree_order_flip: "tree_order d left right = Some Greater \<Longrightarrow> tree_order d right left \<noteq> Some Greater"
  using tree_order_Greater [of d left right] tree_order_Greater [of d right left]
  by (auto simp: shared_prefix_commute [of "path_from_root d right"])

text \<open>
  The recursion swaps the points once: when the left node follows the right one, the right one does
  not follow the left.
\<close>

function place_of :: "dom \<Rightarrow> boundary_point \<Rightarrow> boundary_point \<Rightarrow> place" where
  "place_of d left right =
     (if bp_node left = bp_node right then ordering_place (cmp (bp_offset left) (bp_offset right))
      else if tree_order d (bp_node left) (bp_node right) = Some Greater
      then (case place_of d right left of Before \<Rightarrow> After | Same \<Rightarrow> Before | After \<Rightarrow> Before)
      else place_forward d left right)"
  by pat_completeness auto
termination
  by (relation "measure (\<lambda>(d, l, r). if tree_order d (bp_node l) (bp_node r) = Some Greater then 1 else 0)")
     (auto dest: tree_order_flip)

declare place_of.simps [simp del]

subsection \<open>Setting a range\<close>

definition create_live_range :: "node_id \<Rightarrow> range_id dom_step" where
  "create_live_range n =
     and_do (look (\<lambda>d. require_node d n)) (\<lambda>_. push_range Live (point n 0) (point n 0))"

definition create_static_range :: "boundary_point \<Rightarrow> boundary_point \<Rightarrow> range_id dom_step" where
  "create_static_range s e =
     and_do (look (\<lambda>d. require_not_doctype d (bp_node s))) (\<lambda>_.
     and_do (look (\<lambda>d. require_not_doctype d (bp_node e))) (\<lambda>_. push_range Static s e))"

definition range_clone :: "range_id \<Rightarrow> range_id dom_step" where
  "range_clone r =
     and_do (look (\<lambda>d. range_rec d r)) (\<lambda>x. push_range Live (rg_start x) (rg_end x))"

definition set_range_start :: "range_id \<Rightarrow> boundary_point \<Rightarrow> unit dom_step" where
  "set_range_start r p =
     and_do (look (\<lambda>d. range_rec d r)) (\<lambda>x d.
       let moves_end = tree_root d (bp_node (rg_start x)) \<noteq> tree_root d (bp_node p) \<or>
             place_of d p (rg_end x) = After
       in modify_range r (\<lambda>x. (if moves_end then x\<lparr>rg_end := p\<rparr> else x)\<lparr>rg_start := p\<rparr>) d)"

definition set_range_end :: "range_id \<Rightarrow> boundary_point \<Rightarrow> unit dom_step" where
  "set_range_end r p =
     and_do (look (\<lambda>d. range_rec d r)) (\<lambda>x d.
       let moves_start = tree_root d (bp_node (rg_start x)) \<noteq> tree_root d (bp_node p) \<or>
             place_of d p (rg_start x) = Before
       in modify_range r (\<lambda>x. (if moves_start then x\<lparr>rg_start := p\<rparr> else x)\<lparr>rg_end := p\<rparr>) d)"

definition range_set_start :: "range_id \<Rightarrow> node_id \<Rightarrow> nat \<Rightarrow> unit dom_step" where
  "range_set_start r n off = and_do (look (\<lambda>d. checked_point d n off)) (set_range_start r)"

definition range_set_end :: "range_id \<Rightarrow> node_id \<Rightarrow> nat \<Rightarrow> unit dom_step" where
  "range_set_end r n off = and_do (look (\<lambda>d. checked_point d n off)) (set_range_end r)"

definition range_set_start_before :: "range_id \<Rightarrow> node_id \<Rightarrow> unit dom_step" where
  "range_set_start_before r n = and_do (look (\<lambda>d. point_before d n)) (set_range_start r)"

definition range_set_start_after :: "range_id \<Rightarrow> node_id \<Rightarrow> unit dom_step" where
  "range_set_start_after r n = and_do (look (\<lambda>d. point_after d n)) (set_range_start r)"

definition range_set_end_before :: "range_id \<Rightarrow> node_id \<Rightarrow> unit dom_step" where
  "range_set_end_before r n = and_do (look (\<lambda>d. point_before d n)) (set_range_end r)"

definition range_set_end_after :: "range_id \<Rightarrow> node_id \<Rightarrow> unit dom_step" where
  "range_set_end_after r n = and_do (look (\<lambda>d. point_after d n)) (set_range_end r)"

definition range_collapse :: "range_id \<Rightarrow> bool \<Rightarrow> unit dom_step" where
  "range_collapse r to_start =
     modify_range r (\<lambda>x. if to_start then x\<lparr>rg_end := rg_start x\<rparr> else x\<lparr>rg_start := rg_end x\<rparr>)"

definition range_select_node :: "range_id \<Rightarrow> node_id \<Rightarrow> unit dom_step" where
  "range_select_node r n =
     and_do (look (\<lambda>d. parent_and_index d n)) (\<lambda>(p, i).
       modify_range r (\<lambda>x. x\<lparr>rg_start := point p i, rg_end := point p (i + 1)\<rparr>))"

definition range_select_node_contents :: "range_id \<Rightarrow> node_id \<Rightarrow> unit dom_step" where
  "range_select_node_contents r n =
     and_do (look (\<lambda>d. require_not_doctype d n)) (\<lambda>_ d.
       modify_range r (\<lambda>x. x\<lparr>rg_start := point n 0, rg_end := point n (node_length d n)\<rparr>) d)"

subsection \<open>Comparing\<close>

fun place_sign :: "place \<Rightarrow> int" where
  "place_sign Before = -1" | "place_sign Same = 0" | "place_sign After = 1"

definition range_compare_boundary_points :: "dom \<Rightarrow> range_id \<Rightarrow> u16 \<Rightarrow> range_id \<Rightarrow> int dom_result" where
  "range_compare_boundary_points d r how other =
     and_then (range_rec d r) (\<lambda>this. and_then (range_rec d other) (\<lambda>source.
     and_then (if how = 0 then Inr (rg_start this, rg_start source)
               else if how = 1 then Inr (rg_end this, rg_start source)
               else if how = 2 then Inr (rg_end this, rg_end source)
               else if how = 3 then Inr (rg_start this, rg_end source)
               else dom_not_supported ''compareBoundaryPoints: unknown comparison type'') (\<lambda>(p, q).
       if tree_root d (bp_node (rg_start this)) \<noteq> tree_root d (bp_node (rg_start source))
       then dom_wrong_document ''the ranges do not share a root''
       else Inr (place_sign (place_of d p q)))))"

definition range_compare_point :: "dom \<Rightarrow> range_id \<Rightarrow> node_id \<Rightarrow> nat \<Rightarrow> int dom_result" where
  "range_compare_point d r n off =
     and_then (range_rec d r) (\<lambda>x.
       if tree_root d n \<noteq> tree_root d (bp_node (rg_start x))
       then dom_wrong_document ''the node is in another tree''
       else and_then (checked_point d n off) (\<lambda>p. Inr
         (if place_of d p (rg_start x) = Before then -1
          else if place_of d p (rg_end x) = After then 1 else 0)))"

definition range_is_point_in_range :: "dom \<Rightarrow> range_id \<Rightarrow> node_id \<Rightarrow> nat \<Rightarrow> bool dom_result" where
  "range_is_point_in_range d r n off =
     and_then (range_rec d r) (\<lambda>x.
       if tree_root d n \<noteq> tree_root d (bp_node (rg_start x)) then Inr False
       else and_then (checked_point d n off) (\<lambda>p. Inr
         (place_of d p (rg_start x) \<noteq> Before \<and> place_of d p (rg_end x) \<noteq> After)))"

definition range_intersects_node :: "dom \<Rightarrow> range_id \<Rightarrow> node_id \<Rightarrow> bool dom_result" where
  "range_intersects_node d r n =
     and_then (range_rec d r) (\<lambda>x. Inr
       (if tree_root d n \<noteq> tree_root d (bp_node (rg_start x)) then False
        else (case parent_of d n of
          None \<Rightarrow> True
        | Some p \<Rightarrow> let i = index_or_zero d n in
            place_of d (point p i) (rg_end x) = Before \<and> place_of d (point p (i + 1)) (rg_start x) = After)))"

subsection \<open>What a range contains\<close>

definition contained_in :: "dom \<Rightarrow> boundary_point \<Rightarrow> boundary_point \<Rightarrow> node_id \<Rightarrow> bool" where
  "contained_in d s e n \<longleftrightarrow>
     tree_root d n = tree_root d (bp_node s) \<and> place_of d (point n 0) s = After \<and>
     place_of d (point n (node_length d n)) e = Before"

definition partially_contained_in :: "dom \<Rightarrow> boundary_point \<Rightarrow> boundary_point \<Rightarrow> node_id \<Rightarrow> bool" where
  "partially_contained_in d s e n \<longleftrightarrow>
     is_inclusive_ancestor d n (bp_node s) \<noteq> is_inclusive_ancestor d n (bp_node e)"

definition contained_nodes :: "dom \<Rightarrow> boundary_point \<Rightarrow> boundary_point \<Rightarrow> node_id list" where
  "contained_nodes d s e =
     (let common = common_ancestor d (bp_node s) (bp_node e)
      in filter (\<lambda>n. n \<noteq> common \<and> contained_in d s e n) (visit d [common]))"

record shape =
  first_partial :: "node_id option"
  last_partial :: "node_id option"
  contained_children :: "node_id list"

definition shape_of :: "dom \<Rightarrow> boundary_point \<Rightarrow> boundary_point \<Rightarrow> shape" where
  "shape_of d s e =
     (let common = common_ancestor d (bp_node s) (bp_node e); cs = kids d common in
      \<lparr>first_partial = (if is_inclusive_ancestor d (bp_node s) (bp_node e) then None
                        else find (partially_contained_in d s e) cs),
       last_partial = (if is_inclusive_ancestor d (bp_node e) (bp_node s) then None
                       else find (partially_contained_in d s e) (rev cs)),
       contained_children = filter (contained_in d s e) cs\<rparr>)"

fun delete_reference_loop :: "nat \<Rightarrow> dom \<Rightarrow> node_id \<Rightarrow> node_id \<Rightarrow> node_id" where
  "delete_reference_loop 0 d e reference = reference"
| "delete_reference_loop (Suc k) d e reference =
     (case parent_of d reference of
        None \<Rightarrow> reference
      | Some p \<Rightarrow> if is_inclusive_ancestor d p e then reference else delete_reference_loop k d e p)"

definition boundary_after_delete :: "dom \<Rightarrow> boundary_point \<Rightarrow> boundary_point \<Rightarrow> boundary_point" where
  "boundary_after_delete d s e =
     (if is_inclusive_ancestor d (bp_node s) (bp_node e) then s
      else let reference = delete_reference_loop (length (d_nodes d)) d (bp_node e) (bp_node s) in
        (case parent_of d reference of
           Some p \<Rightarrow> point p (index_or_zero d reference + 1)
         | None \<Rightarrow> s))"

definition range_to_string :: "dom \<Rightarrow> range_id \<Rightarrow> str dom_result" where
  "range_to_string d r =
     and_then (range_rec d r) (\<lambda>x.
       let s = rg_start x; e = rg_end x in
       if bp_node s = bp_node e \<and> is_text_node d (bp_node s)
       then utf16_substring d (bp_node s) (bp_offset s) (Some (bp_offset e))
       else
         and_then (if is_text_node d (bp_node s)
                   then utf16_substring d (bp_node s) (bp_offset s) None else Inr []) (\<lambda>a.
         and_then (if is_text_node d (bp_node e)
                   then utf16_substring d (bp_node e) 0 (Some (bp_offset e)) else Inr []) (\<lambda>b.
           Inr (a @ concat (map (\<lambda>n. case kind_opt d n of Some (Text t) \<Rightarrow> t | _ \<Rightarrow> [])
                              (contained_nodes d s e)) @ b))))"

end
