(* ===== verification/DomRangeEdit.thy ===== *)
theory DomRangeEdit
  imports DomRange
begin

text \<open>
  The range operations that change the tree (\<^verbatim>\<open>range.rs\<close>): delete, extract, clone, insert and
  surround.  The recursion of \<open>extract_points\<close> and \<open>clone_points\<close> goes down one level of the tree at a
  time, so the number of nodes is fuel enough.
\<close>

text \<open>\<open>a - b\<close> on \<open>usize\<close>.\<close>

definition usize_sub :: "nat \<Rightarrow> nat \<Rightarrow> nat dom_result" where
  "usize_sub a b = (if a < b then Inl (DomPanic ''attempt to subtract with overflow'') else Inr (a - b))"

definition character_data_copy :: "node_id \<Rightarrow> str \<Rightarrow> node_id dom_step" where
  "character_data_copy n s =
     and_do (look (\<lambda>d. kind_of d n)) (\<lambda>k.
     and_do (\<lambda>d. case k of
         ProcessingInstruction t _ \<Rightarrow> (let (c, d') = create_processing_instruction t s d in (Inr c, d'))
       | Comment _ \<Rightarrow> (let (c, d') = create_comment s d in (Inr c, d'))
       | Text _ \<Rightarrow> (let (c, d') = create_text s d in (Inr c, d'))
       | _ \<Rightarrow> (dom_invalid_node_type ''node does not implement CharacterData'', d)) (\<lambda>copy d.
       (Inr copy, set_node_document copy (owner_of d n) d)))"

subsection \<open>Delete\<close>

fun remove_attached :: "node_id list \<Rightarrow> unit dom_step" where
  "remove_attached [] = ok ()"
| "remove_attached (n # ns) =
     and_do (\<lambda>d. case parent_of d n of
         None \<Rightarrow> (Inr (), d) | Some p \<Rightarrow> and_do (remove_child p n) (\<lambda>_. ok ()) d)
       (\<lambda>_. remove_attached ns)"

definition delete_points :: "boundary_point \<Rightarrow> boundary_point \<Rightarrow> boundary_point dom_step" where
  "delete_points s e d =
     (if s = e then (Inr s, d)
      else if bp_node s = bp_node e \<and> is_character_data d (bp_node s)
      then and_do (replace_data (bp_node s) (bp_offset s) (bp_offset e - bp_offset s) []) (\<lambda>_. ok s) d
      else
        let contained = contained_nodes d s e;
            to_remove = filter (\<lambda>n. case parent_of d n of None \<Rightarrow> True | Some p \<Rightarrow> p \<notin> set contained) contained;
            p = boundary_after_delete d s e
        in and_do (\<lambda>d. if is_character_data d (bp_node s)
             then and_do (look (\<lambda>d. usize_sub (node_length d (bp_node s)) (bp_offset s)))
                    (\<lambda>cnt. replace_data (bp_node s) (bp_offset s) cnt []) d
             else (Inr (), d)) (\<lambda>_.
           and_do (remove_attached to_remove) (\<lambda>_.
           and_do (\<lambda>d. if is_character_data d (bp_node e)
             then replace_data (bp_node e) 0 (bp_offset e) [] d else (Inr (), d)) (\<lambda>_. ok p))) d)"

definition set_both :: "range_id \<Rightarrow> boundary_point \<Rightarrow> unit dom_step" where
  "set_both r p = modify_range r (\<lambda>x. x\<lparr>rg_start := p, rg_end := p\<rparr>)"

definition range_delete_contents :: "range_id \<Rightarrow> unit dom_step" where
  "range_delete_contents r =
     and_do (look (\<lambda>d. range_rec d r)) (\<lambda>x.
     and_do (delete_points (rg_start x) (rg_end x)) (set_both r))"

subsection \<open>Extract\<close>

definition fresh_fragment :: "boundary_point \<Rightarrow> node_id dom_step" where
  "fresh_fragment s d =
     (let (f, d1) = create_document_fragment d in (Inr f, set_node_document f (owner_of d1 (bp_node s)) d1))"

text \<open>A copy of part of the data of a node goes into the fragment, and that part leaves the node.\<close>

definition move_data :: "node_id \<Rightarrow> node_id \<Rightarrow> nat \<Rightarrow> nat \<Rightarrow> unit dom_step" where
  "move_data fragment n s e =
     and_do (look (\<lambda>d. utf16_substring d n s (Some e))) (\<lambda>data.
     and_do (character_data_copy n data) (\<lambda>copy.
     and_do (append_child fragment copy) (\<lambda>_.
     and_do (look (\<lambda>d. usize_sub e s)) (\<lambda>cnt. replace_data n s cnt []))))"

definition copy_data :: "node_id \<Rightarrow> node_id \<Rightarrow> nat \<Rightarrow> nat \<Rightarrow> unit dom_step" where
  "copy_data fragment n s e =
     and_do (look (\<lambda>d. utf16_substring d n s (Some e))) (\<lambda>data.
     and_do (character_data_copy n data) (\<lambda>copy.
     and_do (append_child fragment copy) (\<lambda>_. ok ())))"

fun append_children :: "node_id \<Rightarrow> node_id list \<Rightarrow> unit dom_step" where
  "append_children target [] = ok ()"
| "append_children target (n # ns) = and_do (append_child target n) (\<lambda>_. append_children target ns)"

fun reject_doctypes :: "dom \<Rightarrow> node_id list \<Rightarrow> unit dom_result" where
  "reject_doctypes d [] = Inr ()"
| "reject_doctypes d (n # ns) = and_then (kind_of d n) (\<lambda>k. case k of
     DocumentType _ \<Rightarrow> dom_hierarchy ''extractContents: the range contains a DocumentType''
   | _ \<Rightarrow> reject_doctypes d ns)"

text \<open>
  The first and the last partially contained child.  \<open>part\<close> takes part of the data of a node to the
  fragment, \<open>rec\<close> is the recursive call on the child, whose result goes into the copy of the child.
\<close>

definition copy_partial :: "node_id dom_step \<Rightarrow> node_id \<Rightarrow> node_id \<Rightarrow> unit dom_step" where
  "copy_partial rec fragment child =
     and_do (clone_node child False) (\<lambda>copy.
     and_do (append_child fragment copy) (\<lambda>_.
     and_do rec (\<lambda>inner.
     and_do (append_child copy inner) (\<lambda>_. ok ()))))"

definition take_first ::
    "(node_id \<Rightarrow> node_id \<Rightarrow> nat \<Rightarrow> nat \<Rightarrow> unit dom_step) \<Rightarrow>
     (boundary_point \<Rightarrow> boundary_point \<Rightarrow> node_id dom_step) \<Rightarrow>
     boundary_point \<Rightarrow> node_id \<Rightarrow> node_id option \<Rightarrow> unit dom_step" where
  "take_first part rec s fragment child d =
     (case child of
        None \<Rightarrow> (Inr (), d)
      | Some first \<Rightarrow>
          if is_character_data d first
          then part fragment (bp_node s) (bp_offset s) (node_length d (bp_node s)) d
          else copy_partial (\<lambda>d. rec s (point first (node_length d first)) d) fragment first d)"

definition take_last ::
    "(node_id \<Rightarrow> node_id \<Rightarrow> nat \<Rightarrow> nat \<Rightarrow> unit dom_step) \<Rightarrow>
     (boundary_point \<Rightarrow> boundary_point \<Rightarrow> node_id dom_step) \<Rightarrow>
     boundary_point \<Rightarrow> node_id \<Rightarrow> node_id option \<Rightarrow> unit dom_step" where
  "take_last part rec e fragment child d =
     (case child of
        None \<Rightarrow> (Inr (), d)
      | Some lst \<Rightarrow>
          if is_character_data d lst then part fragment (bp_node e) 0 (bp_offset e) d
          else copy_partial (rec (point lst 0) e) fragment lst d)"

definition extract_shape ::
    "(boundary_point \<Rightarrow> boundary_point \<Rightarrow> node_id dom_step) \<Rightarrow> boundary_point \<Rightarrow> boundary_point \<Rightarrow>
     node_id \<Rightarrow> shape \<Rightarrow> boundary_point \<Rightarrow> (node_id \<times> boundary_point) dom_step" where
  "extract_shape rec s e fragment sh p =
     and_do (look (\<lambda>d. reject_doctypes d (contained_children sh))) (\<lambda>_.
     and_do (take_first move_data rec s fragment (first_partial sh)) (\<lambda>_.
     and_do (append_children fragment (contained_children sh)) (\<lambda>_.
     and_do (take_last move_data rec e fragment (last_partial sh)) (\<lambda>_. ok (fragment, p)))))"

fun extract_points :: "nat \<Rightarrow> boundary_point \<Rightarrow> boundary_point \<Rightarrow> (node_id \<times> boundary_point) dom_step" where
  "extract_points 0 s e = stop Diverges"
| "extract_points (Suc k) s e = and_do (fresh_fragment s) (\<lambda>fragment d.
     if s = e then (Inr (fragment, s), d)
     else if bp_node s = bp_node e \<and> is_character_data d (bp_node s)
     then and_do (move_data fragment (bp_node s) (bp_offset s) (bp_offset e)) (\<lambda>_. ok (fragment, s)) d
     else extract_shape (\<lambda>s e. and_do (extract_points k s e) (\<lambda>(inner, _). ok inner)) s e fragment
            (shape_of d s e) (boundary_after_delete d s e) d)"

definition range_extract_contents :: "range_id \<Rightarrow> node_id dom_step" where
  "range_extract_contents r =
     and_do (look (\<lambda>d. range_rec d r)) (\<lambda>x.
     and_do (\<lambda>d. extract_points (length (d_nodes d) + 1) (rg_start x) (rg_end x) d) (\<lambda>(fragment, p).
     and_do (set_both r p) (\<lambda>_. ok fragment)))"

subsection \<open>Clone\<close>

fun clone_children :: "node_id \<Rightarrow> node_id list \<Rightarrow> unit dom_step" where
  "clone_children target [] = ok ()"
| "clone_children target (n # ns) =
     and_do (clone_node n True) (\<lambda>copy. and_do (append_child target copy) (\<lambda>_. clone_children target ns))"

definition clone_shape ::
    "(boundary_point \<Rightarrow> boundary_point \<Rightarrow> node_id dom_step) \<Rightarrow> boundary_point \<Rightarrow> boundary_point \<Rightarrow>
     node_id \<Rightarrow> shape \<Rightarrow> node_id dom_step" where
  "clone_shape rec s e fragment sh =
     and_do (take_first copy_data rec s fragment (first_partial sh)) (\<lambda>_.
     and_do (clone_children fragment (contained_children sh)) (\<lambda>_.
     and_do (take_last copy_data rec e fragment (last_partial sh)) (\<lambda>_. ok fragment)))"

fun clone_points :: "nat \<Rightarrow> boundary_point \<Rightarrow> boundary_point \<Rightarrow> node_id dom_step" where
  "clone_points 0 s e = stop Diverges"
| "clone_points (Suc k) s e = and_do (fresh_fragment s) (\<lambda>fragment d.
     if s = e then (Inr fragment, d)
     else if bp_node s = bp_node e \<and> is_character_data d (bp_node s)
     then and_do (copy_data fragment (bp_node s) (bp_offset s) (bp_offset e)) (\<lambda>_. ok fragment) d
     else clone_shape (clone_points k) s e fragment (shape_of d s e) d)"

definition range_clone_contents :: "range_id \<Rightarrow> node_id dom_step" where
  "range_clone_contents r =
     and_do (look (\<lambda>d. range_rec d r)) (\<lambda>x d. clone_points (length (d_nodes d) + 1) (rg_start x) (rg_end x) d)"

subsection \<open>Insert and surround\<close>

text \<open>The insertion itself, once the parent and the node to insert before are known.\<close>

definition place_node ::
    "range_id \<Rightarrow> node_id \<Rightarrow> bool \<Rightarrow> boundary_point \<Rightarrow> node_id \<Rightarrow> node_id option \<Rightarrow> unit dom_step" where
  "place_node r n text s parent reference =
     and_do (look (\<lambda>d. pre_insert_checks d parent n reference)) (\<lambda>_.
     and_do (if text then and_do (split_text (bp_node s) (bp_offset s)) (\<lambda>x. ok (Some x))
             else ok reference) (\<lambda>reference.
     and_do (look (\<lambda>d. Inr (if reference = Some n then next_sibling d n else reference))) (\<lambda>reference.
     and_do (\<lambda>d. case parent_of d n of
         None \<Rightarrow> (Inr (), d) | Some p \<Rightarrow> and_do (remove_child p n) (\<lambda>_. ok ()) d) (\<lambda>_.
     and_do (look (\<lambda>d. Inr (case reference of
         Some child \<Rightarrow> index_or_zero d child | None \<Rightarrow> node_length d parent))) (\<lambda>base.
     and_do (look (\<lambda>d. and_then (kind_of d n) (\<lambda>k. Inr
         (if k = DocumentFragment then node_length d n else 1)))) (\<lambda>added.
     and_do (insert_before parent n reference) (\<lambda>_.
       modify_range r (\<lambda>x. if rg_start x = rg_end x
         then x\<lparr>rg_end := point parent (base + added)\<rparr> else x))))))))"

definition range_insert_node :: "range_id \<Rightarrow> node_id \<Rightarrow> unit dom_step" where
  "range_insert_node r n =
     and_do (look (\<lambda>d. range_start d r)) (\<lambda>s.
     and_do (look (\<lambda>d. and_then (kind_of d (bp_node s)) (\<lambda>k. case k of
         Comment _ \<Rightarrow> dom_invalid_node_type ''insertNode: the start node is a Comment or ProcessingInstruction''
       | ProcessingInstruction _ _ \<Rightarrow>
           dom_invalid_node_type ''insertNode: the start node is a Comment or ProcessingInstruction''
       | _ \<Rightarrow> Inr ()))) (\<lambda>_ d.
       let text = is_text_node d (bp_node s);
           reference = (if text then Some (bp_node s)
                        else if bp_offset s < length (kids d (bp_node s))
                        then Some (kids d (bp_node s) ! bp_offset s) else None)
       in case (case reference of Some child \<Rightarrow> parent_of d child | None \<Rightarrow> Some (bp_node s)) of
            None \<Rightarrow> (dom_hierarchy ''insertNode: the insertion point has no parent'', d)
          | Some parent \<Rightarrow> place_node r n text s parent reference d))"

fun reject_partial :: "dom \<Rightarrow> node_id list \<Rightarrow> unit dom_result" where
  "reject_partial d [] = Inr ()"
| "reject_partial d (n # ns) = and_then (kind_of d n) (\<lambda>k. case k of
     Text _ \<Rightarrow> reject_partial d ns
   | _ \<Rightarrow> dom_invalid_state ''surroundContents: a non-Text node is partially contained'')"

definition range_surround_contents :: "range_id \<Rightarrow> node_id \<Rightarrow> unit dom_step" where
  "range_surround_contents r new_parent =
     and_do (look (\<lambda>d. range_rec d r)) (\<lambda>x.
     let s = rg_start x; e = rg_end x in
     and_do (look (\<lambda>d. reject_partial d (filter (partially_contained_in d s e)
        (ancestors_inclusive d (bp_node s) @ ancestors_inclusive d (bp_node e))))) (\<lambda>_.
     and_do (look (\<lambda>d. and_then (kind_of d new_parent) (\<lambda>k.
        if (case k of Document \<Rightarrow> True | DocumentType _ \<Rightarrow> True | DocumentFragment \<Rightarrow> True | _ \<Rightarrow> False)
        then dom_invalid_node_type ''surroundContents: the new parent cannot be a Document, DocumentType or DocumentFragment''
        else Inr ()))) (\<lambda>_.
     and_do (range_extract_contents r) (\<lambda>fragment.
     and_do (\<lambda>d. remove_all new_parent (kids d new_parent) d) (\<lambda>_.
     and_do (range_insert_node r new_parent) (\<lambda>_.
     and_do (insert_before new_parent fragment None) (\<lambda>_.
       range_select_node r new_parent)))))))"

end
