(* ===== verification/DomSelection.thy ===== *)
theory DomSelection
  imports DomRangeEdit
begin

text \<open>
  The selection of a document (\<^verbatim>\<open>range.rs\<close>): one live range and a direction.
\<close>

definition require_selection_document :: "dom \<Rightarrow> node_id \<Rightarrow> unit dom_result" where
  "require_selection_document d doc = and_then (kind_of d doc) (\<lambda>k. case k of
     Document \<Rightarrow> Inr () | _ \<Rightarrow> dom_invalid_node_type ''a selection belongs to a Document'')"

definition selection_range :: "dom \<Rightarrow> node_id \<Rightarrow> range_id option dom_result" where
  "selection_range d doc = and_then (require_selection_document d doc) (\<lambda>_.
     case d_selections d doc of
       None \<Rightarrow> Inr None
     | Some record \<Rightarrow> (case sel_range record of
         None \<Rightarrow> Inr None
       | Some r \<Rightarrow> and_then (range_start d r) (\<lambda>s. and_then (range_end d r) (\<lambda>e. Inr
           (if tree_root d (bp_node s) = doc \<and> tree_root d (bp_node e) = doc then Some r else None)))))"

definition selection_direction_of :: "dom \<Rightarrow> node_id \<Rightarrow> direction" where
  "selection_direction_of d doc =
     (case d_selections d doc of None \<Rightarrow> Directionless | Some record \<Rightarrow> sel_direction record)"

definition selection_anchor_of :: "dom \<Rightarrow> node_id \<Rightarrow> boundary_point \<Rightarrow> boundary_point \<Rightarrow> boundary_point" where
  "selection_anchor_of d doc s e = (case selection_direction_of d doc of
     Backwards \<Rightarrow> e | Forwards \<Rightarrow> s | Directionless \<Rightarrow> s)"

definition selection_anchor :: "dom \<Rightarrow> node_id \<Rightarrow> boundary_point option dom_result" where
  "selection_anchor d doc = and_then (selection_range d doc) (\<lambda>sr. case sr of
     None \<Rightarrow> Inr None
   | Some r \<Rightarrow> and_then (range_start d r) (\<lambda>s. and_then (range_end d r) (\<lambda>e.
       Inr (Some (selection_anchor_of d doc s e)))))"

definition selection_focus :: "dom \<Rightarrow> node_id \<Rightarrow> boundary_point option dom_result" where
  "selection_focus d doc = and_then (selection_range d doc) (\<lambda>sr. case sr of
     None \<Rightarrow> Inr None
   | Some r \<Rightarrow> and_then (range_start d r) (\<lambda>s. and_then (range_end d r) (\<lambda>e.
       Inr (Some (if selection_anchor_of d doc s e = s then e else s)))))"

definition selection_direction_name :: "dom \<Rightarrow> node_id \<Rightarrow> string dom_result" where
  "selection_direction_name d doc = and_then (selection_range d doc) (\<lambda>sr.
     if sr = None then Inr ''none''
     else Inr (case selection_direction_of d doc of
       Forwards \<Rightarrow> ''forward'' | Backwards \<Rightarrow> ''backward'' | Directionless \<Rightarrow> ''none''))"

definition selection_type :: "dom \<Rightarrow> node_id \<Rightarrow> string dom_result" where
  "selection_type d doc = and_then (selection_range d doc) (\<lambda>sr. case sr of
     None \<Rightarrow> Inr ''None''
   | Some r \<Rightarrow> and_then (range_is_collapsed d r) (\<lambda>c. Inr (if c then ''Caret'' else ''Range'')))"

definition selection_is_collapsed :: "dom \<Rightarrow> node_id \<Rightarrow> bool dom_result" where
  "selection_is_collapsed d doc = and_then (selection_range d doc) (\<lambda>sr. case sr of
     None \<Rightarrow> Inr True | Some r \<Rightarrow> range_is_collapsed d r)"

definition selection_range_count :: "dom \<Rightarrow> node_id \<Rightarrow> nat dom_result" where
  "selection_range_count d doc = and_then (selection_range d doc) (\<lambda>sr. Inr (if sr = None then 0 else 1))"

subsection \<open>Changing the selection\<close>

definition set_selection_range :: "node_id \<Rightarrow> direction \<Rightarrow> range_id \<Rightarrow> unit dom_step" where
  "set_selection_range doc dir r =
     upd (\<lambda>d. d\<lparr>d_selections := (d_selections d)(doc \<mapsto> \<lparr>sel_range = Some r, sel_direction = dir\<rparr>)\<rparr>)"

definition empty_selection :: "node_id \<Rightarrow> unit dom_step" where
  "empty_selection doc = upd (\<lambda>d. d\<lparr>d_selections := (d_selections d)(doc := None)\<rparr>)"

definition select :: "node_id \<Rightarrow> boundary_point \<Rightarrow> boundary_point \<Rightarrow> direction \<Rightarrow> unit dom_step" where
  "select doc s e dir = and_do (push_range Live s e) (set_selection_range doc dir)"

definition selection_collapse :: "node_id \<Rightarrow> node_id option \<Rightarrow> nat \<Rightarrow> unit dom_step" where
  "selection_collapse doc n off =
     and_do (look (\<lambda>d. require_selection_document d doc)) (\<lambda>_.
       case n of
         None \<Rightarrow> empty_selection doc
       | Some n \<Rightarrow>
           and_do (look (\<lambda>d. checked_point d n off)) (\<lambda>p.
           and_do (look (\<lambda>d. is_shadow_including_inclusive_ancestor d doc n)) (\<lambda>inside.
             if \<not> inside then ok () else select doc p p Forwards)))"

definition selection_collapse_to :: "node_id \<Rightarrow> bool \<Rightarrow> unit dom_step" where
  "selection_collapse_to doc to_start =
     and_do (look (\<lambda>d. require_selection_document d doc)) (\<lambda>_ d.
       case d_selections d doc of
         None \<Rightarrow> (dom_invalid_state ''the selection is empty'', d)
       | Some record \<Rightarrow> (case sel_range record of
           None \<Rightarrow> (dom_invalid_state ''the selection is empty'', d)
         | Some r \<Rightarrow>
             and_do (look (\<lambda>d. if to_start then range_start d r else range_end d r))
               (\<lambda>p. select doc p p Forwards) d))"

definition selection_collapse_to_start :: "node_id \<Rightarrow> unit dom_step" where
  "selection_collapse_to_start doc = selection_collapse_to doc True"

definition selection_collapse_to_end :: "node_id \<Rightarrow> unit dom_step" where
  "selection_collapse_to_end doc = selection_collapse_to doc False"

definition extended :: "dom \<Rightarrow> boundary_point \<Rightarrow> boundary_point \<Rightarrow> boundary_point \<times> boundary_point \<times> direction" where
  "extended d anchor p =
     (if tree_root d (bp_node anchor) \<noteq> tree_root d (bp_node p) then (p, p, Forwards)
      else if place_of d anchor p \<noteq> After then (anchor, p, Forwards) else (p, anchor, Backwards))"

definition selection_extend :: "node_id \<Rightarrow> node_id \<Rightarrow> nat \<Rightarrow> unit dom_step" where
  "selection_extend doc n off =
     and_do (look (\<lambda>d. require_selection_document d doc)) (\<lambda>_.
     and_do (look (\<lambda>d. is_shadow_including_inclusive_ancestor d doc n)) (\<lambda>inside.
       if \<not> inside then ok ()
       else and_do (look (\<lambda>d. selection_range d doc)) (\<lambda>sr. case sr of
           None \<Rightarrow> look (\<lambda>d. dom_invalid_state ''cannot extend an empty selection'')
         | Some r \<Rightarrow>
             and_do (look (\<lambda>d. checked_point d n off)) (\<lambda>p.
             and_do (look (\<lambda>d. range_start d r)) (\<lambda>s.
             and_do (look (\<lambda>d. range_end d r)) (\<lambda>e d.
               let (s', e', dir) = extended d (selection_anchor_of d doc s e) p in
               select doc s' e' dir d))))))"

definition based :: "dom \<Rightarrow> boundary_point \<Rightarrow> boundary_point \<Rightarrow> boundary_point \<times> boundary_point \<times> direction" where
  "based d anchor focus =
     (if tree_root d (bp_node anchor) \<noteq> tree_root d (bp_node focus) then (anchor, anchor, Forwards)
      else if place_of d anchor focus \<noteq> After then (anchor, focus, Forwards) else (focus, anchor, Backwards))"

definition selection_set_base_and_extent :: "node_id \<Rightarrow> boundary_point \<Rightarrow> boundary_point \<Rightarrow> unit dom_step" where
  "selection_set_base_and_extent doc anchor focus =
     and_do (look (\<lambda>d. require_selection_document d doc)) (\<lambda>_.
     and_do (look (\<lambda>d. checked_point d (bp_node anchor) (bp_offset anchor))) (\<lambda>anchor.
     and_do (look (\<lambda>d. checked_point d (bp_node focus) (bp_offset focus))) (\<lambda>focus.
     and_do (look (\<lambda>d. and_then (is_shadow_including_inclusive_ancestor d doc (bp_node anchor)) (\<lambda>a.
        if \<not> a then Inr False else is_shadow_including_inclusive_ancestor d doc (bp_node focus)))) (\<lambda>inside d.
       if \<not> inside then (Inr (), d)
       else let (s, e, dir) = based d anchor focus in select doc s e dir d))))"

definition selection_select_all_children :: "node_id \<Rightarrow> node_id \<Rightarrow> unit dom_step" where
  "selection_select_all_children doc n =
     and_do (look (\<lambda>d. require_selection_document d doc)) (\<lambda>_.
     and_do (look (\<lambda>d. require_not_doctype d n)) (\<lambda>_.
     and_do (look (\<lambda>d. is_shadow_including_inclusive_ancestor d doc n)) (\<lambda>inside d.
       if \<not> inside then (Inr (), d)
       else select doc (point n 0) (point n (node_length d n)) Forwards d)))"

definition selection_add_range :: "node_id \<Rightarrow> range_id \<Rightarrow> unit dom_step" where
  "selection_add_range doc r =
     and_do (look (\<lambda>d. require_selection_document d doc)) (\<lambda>_ d.
       if range_kind_of d r \<noteq> Some Live then (dom_invalid_node_type ''addRange requires a live Range'', d)
       else if (case d_selections d doc of None \<Rightarrow> False | Some record \<Rightarrow> sel_range record \<noteq> None)
       then (Inr (), d)
       else and_do (look (\<lambda>d. range_start d r)) (\<lambda>s. and_do (look (\<lambda>d. range_end d r)) (\<lambda>e d.
         if tree_root d (bp_node s) \<noteq> doc \<or> tree_root d (bp_node e) \<noteq> doc then (Inr (), d)
         else set_selection_range doc Forwards r d)) d)"

definition selection_remove_range :: "node_id \<Rightarrow> range_id \<Rightarrow> unit dom_step" where
  "selection_remove_range doc r =
     and_do (look (\<lambda>d. require_selection_document d doc)) (\<lambda>_ d.
       if (case d_selections d doc of None \<Rightarrow> False | Some record \<Rightarrow> sel_range record = Some r)
       then empty_selection doc d
       else (dom_not_found (''the range is not the selection'' @ CHR 0x27 # ''s range''), d))"

definition selection_remove_all_ranges :: "node_id \<Rightarrow> unit dom_step" where
  "selection_remove_all_ranges doc =
     and_do (look (\<lambda>d. require_selection_document d doc)) (\<lambda>_. empty_selection doc)"

definition selection_delete_from_document :: "node_id \<Rightarrow> unit dom_step" where
  "selection_delete_from_document doc =
     and_do (look (\<lambda>d. selection_range d doc)) (\<lambda>sr. case sr of
       None \<Rightarrow> and_do (look (\<lambda>d. require_selection_document d doc)) (\<lambda>_. ok ())
     | Some r \<Rightarrow> and_do (look (\<lambda>d. range_is_collapsed d r))
         (\<lambda>c. if c then ok () else range_delete_contents r))"

definition selection_contains_node :: "dom \<Rightarrow> node_id \<Rightarrow> node_id \<Rightarrow> bool \<Rightarrow> bool dom_result" where
  "selection_contains_node d doc n partial =
     and_then (require_selection_document d doc) (\<lambda>_. and_then (require_node d n) (\<lambda>_.
     and_then (selection_range d doc) (\<lambda>sr. case sr of
       None \<Rightarrow> Inr False
     | Some r \<Rightarrow>
         if tree_root d n \<noteq> doc then Inr False
         else and_then (range_start d r) (\<lambda>s. and_then (range_end d r) (\<lambda>e.
           let first = point n 0; lst = point n (node_length d n) in Inr
             (if partial then place_of d s lst \<noteq> After \<and> place_of d e first \<noteq> Before
              else place_of d s first \<noteq> After \<and> place_of d e lst \<noteq> Before))))))"

definition selection_to_string :: "dom \<Rightarrow> node_id \<Rightarrow> str dom_result" where
  "selection_to_string d doc = and_then (selection_range d doc) (\<lambda>sr. case sr of
     Some r \<Rightarrow> range_to_string d r | None \<Rightarrow> Inr [])"

end
