(* ===== verification/DomShadow.thy ===== *)
theory DomShadow
  imports DomMutate
begin

text \<open>
  Shadow trees (\<^verbatim>\<open>shadow.rs\<close>): attaching a root, retargeting, the path of an event, slots and
  their assignment, and the flat tree that rendering walks.
\<close>

subsection \<open>Names of hosts\<close>

definition is_pcen_char :: "nat \<Rightarrow> bool" where
  "is_pcen_char c \<longleftrightarrow>
     c = 0x2D \<or> c = 0x2E \<or> ascii_digit c \<or> c = 0x5F \<or> ascii_lowercase c \<or> c = 0xB7 \<or>
     (0xC0 \<le> c \<and> c \<le> 0xD6) \<or> (0xD8 \<le> c \<and> c \<le> 0xF6) \<or> (0xF8 \<le> c \<and> c \<le> 0x37D) \<or>
     (0x37F \<le> c \<and> c \<le> 0x1FFF) \<or> (0x200C \<le> c \<and> c \<le> 0x200D) \<or> (0x203F \<le> c \<and> c \<le> 0x2040) \<or>
     (0x2070 \<le> c \<and> c \<le> 0x218F) \<or> (0x2C00 \<le> c \<and> c \<le> 0x2FEF) \<or> (0x3001 \<le> c \<and> c \<le> 0xD7FF) \<or>
     (0xF900 \<le> c \<and> c \<le> 0xFDCF) \<or> (0xFDF0 \<le> c \<and> c \<le> 0xFFFD) \<or> (0x10000 \<le> c \<and> c \<le> 0xEFFFF)"

definition RESERVED_NAMES :: "str list" where
  "RESERVED_NAMES = map lit [''annotation-xml'', ''color-profile'', ''font-face'', ''font-face-src'',
     ''font-face-uri'', ''font-face-format'', ''font-face-name'', ''missing-glyph'']"

definition is_valid_custom_element_name :: "str \<Rightarrow> bool" where
  "is_valid_custom_element_name name \<longleftrightarrow>
     (case name of c # _ \<Rightarrow> ascii_lowercase c | [] \<Rightarrow> False) \<and>
     0x2D \<in> set name \<and> list_all is_pcen_char name \<and> name \<notin> set RESERVED_NAMES"

definition is_valid_shadow_host_name :: "str \<Rightarrow> bool" where
  "is_valid_shadow_host_name name \<longleftrightarrow>
     is_valid_custom_element_name name \<or>
     name \<in> set (map lit [''article'', ''aside'', ''blockquote'', ''body'', ''div'', ''footer'', ''h1'',
       ''h2'', ''h3'', ''h4'', ''h5'', ''h6'', ''header'', ''main'', ''nav'', ''p'', ''section'', ''span''])"

subsection \<open>Attaching a root\<close>

definition attach_shadow :: "node_id \<Rightarrow> shadow_mode \<Rightarrow> bool \<Rightarrow> slot_mode \<Rightarrow> node_id dom_step" where
  "attach_shadow host mode delegates_focus slot_assignment =
     and_do (look (\<lambda>d. and_then (kind_of d host) (\<lambda>k. case k of
         Element e \<Rightarrow> Inr (el_namespace e = Html \<and> is_valid_shadow_host_name (el_local e),
                           el_shadow_root e \<noteq> None)
       | _ \<Rightarrow> dom_invalid_node_type ''attachShadow needs an element''))) (\<lambda>(valid_host, attached) d.
       if \<not> valid_host then (dom_not_supported ''this element cannot host a shadow root'', d)
       else if attached then (dom_invalid_state ''this element already hosts a shadow root'', d)
       else
         let (root, d1) = allocate (ShadowRoot \<lparr>sh_host = host, sh_mode = mode,
               sh_delegates_focus = delegates_focus, sh_slot_assignment = slot_assignment\<rparr>) d;
             d2 = set_node_document root (owner_of d1 host) d1;
             d3 = modify_element host (\<lambda>e. e\<lparr>el_shadow_root := Some root\<rparr>) d2;
             d4 = d3\<lparr>d_shadow_roots := d_shadow_roots d3 + 1\<rparr>
         in and_do (record_mutations [ShadowRootAttached host]) (\<lambda>_. ok root) d4)"

definition has_shadow_roots :: "dom \<Rightarrow> bool" where
  "has_shadow_roots d \<longleftrightarrow> d_shadow_roots d \<noteq> 0"

subsection \<open>Retargeting\<close>

fun retarget_loop :: "nat \<Rightarrow> dom \<Rightarrow> node_id \<Rightarrow> node_id option \<Rightarrow> node_id dom_result" where
  "retarget_loop k d current other =
     (case shadow_host d (tree_root d current) of
        None \<Rightarrow> Inr current
      | Some host \<Rightarrow>
          and_then (case other of None \<Rightarrow> Inr False
                    | Some x \<Rightarrow> is_shadow_including_inclusive_ancestor d (tree_root d current) x) (\<lambda>inside.
            if inside then Inr current
            else (case k of 0 \<Rightarrow> Inl Diverges | Suc k' \<Rightarrow> retarget_loop k' d host other)))"

declare retarget_loop.simps [simp del]

definition retarget :: "dom \<Rightarrow> node_id \<Rightarrow> node_id option \<Rightarrow> node_id dom_result" where
  "retarget d n other = retarget_loop (length (d_nodes d)) d n other"

subsection \<open>Slots\<close>

definition is_slot :: "dom \<Rightarrow> node_id \<Rightarrow> bool" where
  "is_slot d n = (case kind_opt d n of
     Some (Element e) \<Rightarrow> el_namespace e = Html \<and> el_local e = lit ''slot'' | _ \<Rightarrow> False)"

definition is_slottable :: "dom \<Rightarrow> node_id \<Rightarrow> bool" where
  "is_slottable d n = (case kind_opt d n of
     Some (Element _) \<Rightarrow> True | Some (Text _) \<Rightarrow> True | _ \<Rightarrow> False)"

definition attribute_or_empty :: "dom \<Rightarrow> node_id \<Rightarrow> string \<Rightarrow> str" where
  "attribute_or_empty d n name = (case attribute_or_none d n name of None \<Rightarrow> [] | Some v \<Rightarrow> v)"

definition slottable_name :: "dom \<Rightarrow> node_id \<Rightarrow> str" where
  "slottable_name d n = attribute_or_empty d n ''slot''"

definition slot_name :: "dom \<Rightarrow> node_id \<Rightarrow> str" where
  "slot_name d n = attribute_or_empty d n ''name''"

definition slots_in_tree :: "dom \<Rightarrow> node_id \<Rightarrow> node_id list" where
  "slots_in_tree d root = filter (is_slot d) (visit d (kids d root))"

definition manually_assigned_nodes :: "dom \<Rightarrow> node_id \<Rightarrow> node_id list" where
  "manually_assigned_nodes d n = (case kind_opt d n of Some (Element e) \<Rightarrow> el_manual e | _ \<Rightarrow> [])"

text \<open>\<open>first_slot.entry(name).or_insert(slot)\<close> keeps the first slot of each name.\<close>

fun first_slots :: "dom \<Rightarrow> node_id list \<Rightarrow> (str \<rightharpoonup> node_id) \<Rightarrow> (str \<rightharpoonup> node_id)" where
  "first_slots d [] m = m"
| "first_slots d (s # ss) m =
     first_slots d ss (if m (slot_name d s) = None then m(slot_name d s \<mapsto> s) else m)"

definition chosen_slot :: "dom \<Rightarrow> slot_mode \<Rightarrow> node_id list \<Rightarrow> node_id \<Rightarrow> node_id option" where
  "chosen_slot d mode slots child =
     (case mode of
        Named \<Rightarrow> first_slots d slots Map.empty (slottable_name d child)
      | Manual \<Rightarrow> find (\<lambda>s. child \<in> set (manually_assigned_nodes d s)) slots)"

definition slot_assignments :: "dom \<Rightarrow> node_id \<Rightarrow> (node_id \<times> node_id) list" where
  "slot_assignments d root =
     (case shadow_root_data d root of
        None \<Rightarrow> []
      | Some s \<Rightarrow>
          let slots = slots_in_tree d root in
          if slots = [] then []
          else concat (map (\<lambda>child. case chosen_slot d (sh_slot_assignment s) slots child of
                              None \<Rightarrow> [] | Some slot \<Rightarrow> [(child, slot)])
                 (filter (is_slottable d) (kids d (sh_host s)))))"

definition assigned_to :: "node_id \<Rightarrow> (node_id \<times> node_id) list \<Rightarrow> node_id list" where
  "assigned_to slot as = map fst (filter (\<lambda>(_, s). s = slot) as)"

definition slot_assignment_snapshot :: "dom \<Rightarrow> (node_id \<times> node_id list) list" where
  "slot_assignment_snapshot d =
     (if \<not> has_shadow_roots d then []
      else concat (map (\<lambda>root. map (\<lambda>slot. (slot, assigned_to slot (slot_assignments d root)))
                                  (slots_in_tree d root))
             (filter (\<lambda>n. shadow_root_data d n \<noteq> None) [0..<length (d_nodes d)])))"

definition assigned_slot :: "dom \<Rightarrow> node_id \<Rightarrow> node_id option" where
  "assigned_slot d slottable =
     (if \<not> is_slottable d slottable then None
      else case parent_of d slottable of None \<Rightarrow> None | Some host \<Rightarrow>
        (case shadow_root d host of None \<Rightarrow> None | Some root \<Rightarrow>
           map_option snd (find (\<lambda>(n, _). n = slottable) (slot_assignments d root))))"

definition directly_assigned :: "dom \<Rightarrow> node_id \<Rightarrow> node_id list" where
  "directly_assigned d slot =
     (let root = tree_root d slot in
      if shadow_root_data d root = None then [] else assigned_to slot (slot_assignments d root))"

text \<open>
  The slots met on the way of \<open>flattened_slottables\<close> lie in different shadow trees, one inside the
  host of the other, unless the recursion never ends.
\<close>

fun flattened_slottables :: "nat \<Rightarrow> dom \<Rightarrow> node_id \<Rightarrow> node_id list dom_result" and
    flattened_nodes :: "nat \<Rightarrow> dom \<Rightarrow> node_id list \<Rightarrow> node_id list dom_result" where
  "flattened_slottables k d slot =
     (let assigned = directly_assigned d slot in
      if assigned = [] then Inr (kids d slot)
      else case k of 0 \<Rightarrow> Inl Diverges | Suc k' \<Rightarrow> flattened_nodes k' d assigned)"
| "flattened_nodes k d [] = Inr []"
| "flattened_nodes k d (n # ns) =
     and_then (if is_slot d n \<and> shadow_root_data d (tree_root d n) \<noteq> None
               then flattened_slottables k d n else Inr [n]) (\<lambda>xs.
     and_then (flattened_nodes k d ns) (\<lambda>ys. Inr (xs @ ys)))"

definition assigned_nodes :: "dom \<Rightarrow> node_id \<Rightarrow> bool \<Rightarrow> node_id list dom_result" where
  "assigned_nodes d slot flatten =
     (if \<not> is_slot d slot then Inr []
      else if flatten then flattened_slottables (length (d_nodes d)) d slot
      else Inr (directly_assigned d slot))"

definition flat_children :: "dom \<Rightarrow> node_id \<Rightarrow> node_id list" where
  "flat_children d n =
     (case shadow_root d n of
        Some root \<Rightarrow> kids d root
      | None \<Rightarrow>
          if is_slot d n \<and> directly_assigned d n \<noteq> [] then directly_assigned d n else kids d n)"

fun unique_slottables :: "dom \<Rightarrow> node_id list \<Rightarrow> node_id list \<Rightarrow> node_id list" where
  "unique_slottables d [] unique = unique"
| "unique_slottables d (n # ns) unique =
     unique_slottables d ns (if is_slottable d n \<and> n \<notin> set unique then unique @ [n] else unique)"

definition take_from_slot :: "node_id list \<Rightarrow> node_id \<Rightarrow> dom \<Rightarrow> dom" where
  "take_from_slot unique other d =
     modify_element other (\<lambda>e. e\<lparr>el_manual := filter (\<lambda>c. c \<notin> set unique) (el_manual e)\<rparr>) d"

definition assign_slot_nodes :: "node_id \<Rightarrow> node_id list \<Rightarrow> unit dom_step" where
  "assign_slot_nodes slot ns d =
     (if \<not> is_slot d slot then (dom_invalid_node_type ''assign needs a slot element'', d)
      else
        let unique = unique_slottables d ns [];
            root = tree_root d slot;
            d1 = (if shadow_root_data d root = None then d
                  else fold (\<lambda>other d. if other = slot then d else take_from_slot unique other d)
                         (slots_in_tree d root) d)
        in (Inr (), modify_element slot (\<lambda>e. e\<lparr>el_manual := unique\<rparr>) d1))"

subsection \<open>The path of an event\<close>

record event_step =
  ev_invocation_target :: node_id
  ev_target :: node_id
  ev_at_target :: bool
  ev_related_target :: "node_id option"
  ev_closed_root :: bool

definition event_parent :: "dom \<Rightarrow> node_id \<Rightarrow> bool \<Rightarrow> node_id \<Rightarrow> node_id option" where
  "event_parent d n composed invocation_target =
     (case assigned_slot d n of
        Some slot \<Rightarrow> Some slot
      | None \<Rightarrow>
          (case shadow_root_data d n of
             Some s \<Rightarrow> if \<not> composed \<and> tree_root d invocation_target = n then None else Some (sh_host s)
           | None \<Rightarrow> parent_of d n))"

text \<open>
  The nodes an event visits, each with its shadow-adjusted target, \<open>None\<close> in the tree of the current
  target; \<open>current\<close> is \<open>current_target\<close>.  The step depends on the node and the current target alone, so
  a path that takes more steps than there are such pairs never ends.
\<close>

fun event_visit_loop ::
    "nat \<Rightarrow> dom \<Rightarrow> node_id \<Rightarrow> bool \<Rightarrow> node_id option \<Rightarrow> node_id \<Rightarrow> node_id option \<Rightarrow>
     (node_id \<times> node_id option) list dom_result" where
  "event_visit_loop k d target composed related current None = Inr []"
| "event_visit_loop 0 d target composed related current (Some n) = Inl Diverges"
| "event_visit_loop (Suc k) d target composed related current (Some n) =
     and_then (is_shadow_including_inclusive_ancestor d (tree_root d current) n) (\<lambda>inside.
       if inside
       then and_then (event_visit_loop k d target composed related current
              (event_parent d n composed target)) (\<lambda>rest. Inr ((n, None) # rest))
       else if Some n = related then Inr []
       else and_then (event_visit_loop k d target composed related n
              (event_parent d n composed target)) (\<lambda>rest. Inr ((n, Some n) # rest)))"

fun event_steps :: "dom \<Rightarrow> node_id option \<Rightarrow> node_id \<Rightarrow> (node_id \<times> node_id option) list \<Rightarrow>
    event_step list dom_result" where
  "event_steps d related resolved [] = Inr []"
| "event_steps d related resolved ((n, adjusted) # visited) =
     (let resolved' = (case adjusted of Some a \<Rightarrow> a | None \<Rightarrow> resolved) in
      and_then (case related of None \<Rightarrow> Inr None
                | Some candidate \<Rightarrow> and_then (retarget d candidate (Some n)) (\<lambda>x. Inr (Some x))) (\<lambda>rel.
      and_then (event_steps d related resolved' visited) (\<lambda>rest.
        Inr (\<lparr>ev_invocation_target = n, ev_target = resolved', ev_at_target = (adjusted \<noteq> None),
              ev_related_target = rel,
              ev_closed_root = (case shadow_root_data d n of None \<Rightarrow> False | Some s \<Rightarrow> sh_mode s = Closed)\<rparr>
             # rest))))"

definition event_path :: "dom \<Rightarrow> node_id \<Rightarrow> node_id option \<Rightarrow> bool \<Rightarrow> event_step list dom_result" where
  "event_path d target related composed =
     and_then (case related of None \<Rightarrow> Inr None
               | Some r \<Rightarrow> and_then (retarget d r (Some target)) (\<lambda>x. Inr (Some x))) (\<lambda>related_for_target.
       if related_for_target = Some target \<and> related \<noteq> Some target then Inr []
       else and_then (event_visit_loop (length (d_nodes d) * length (d_nodes d)) d target composed related_for_target target
              (event_parent d target composed target)) (\<lambda>rest.
            event_steps d related target ((target, Some target) # rest)))"

end
