(* ===== verification/DomForms.thy ===== *)
theory DomForms
  imports DomAttributes
begin

text \<open>
  Form-associated elements and their owners (\<^verbatim>\<open>lib.rs\<close>), and the collections of a form
  (\<^verbatim>\<open>named.rs\<close>).
\<close>

definition is_form_associated :: "dom \<Rightarrow> node_id \<Rightarrow> bool" where
  "is_form_associated d n \<longleftrightarrow> html_named d n
     [''button'', ''fieldset'', ''input'', ''object'', ''output'', ''select'', ''textarea'', ''img'']"

definition is_listed_element :: "dom \<Rightarrow> node_id \<Rightarrow> bool" where
  "is_listed_element d n \<longleftrightarrow> is_form_associated d n \<and> \<not> html_named d n [''img'']"

definition is_submittable_element :: "dom \<Rightarrow> node_id \<Rightarrow> bool" where
  "is_submittable_element d n \<longleftrightarrow> html_named d n [''button'', ''input'', ''select'', ''textarea'']"

definition is_form_element :: "dom \<Rightarrow> node_id \<Rightarrow> bool" where
  "is_form_element d n \<longleftrightarrow> html_named d n [''form'']"

definition parser_inserted_form_owner :: "dom \<Rightarrow> node_id \<Rightarrow> form_link option" where
  "parser_inserted_form_owner d n =
     (case kind_opt d n of Some (Element e) \<Rightarrow> el_form_link e | _ \<Rightarrow> None)"

definition nearest_ancestor_form :: "dom \<Rightarrow> node_id \<Rightarrow> node_id option" where
  "nearest_ancestor_form d n = climb (is_form_element d) d (parent_of d n)"

definition first_element_in_tree_with_id :: "dom \<Rightarrow> node_id \<Rightarrow> str \<Rightarrow> node_id option" where
  "first_element_in_tree_with_id d n ident =
     find (\<lambda>c. element_at d c \<noteq> None \<and> attribute_or_none d c ''id'' = Some ident)
       (visit d [tree_root d n])"

definition parser_link_holds :: "dom \<Rightarrow> node_id \<Rightarrow> form_link \<Rightarrow> bool dom_result" where
  "parser_link_holds d n link =
     (if parent_of d n \<noteq> Some (fl_intended_parent link) then Inr False
      else if element_at d (fl_form link) = None then Inr False
      else is_in_same_tree d n (fl_form link))"

definition derived_form_owner :: "dom \<Rightarrow> node_id \<Rightarrow> node_id option dom_result" where
  "derived_form_owner d n =
     (if \<not> is_listed_element d n then Inr (nearest_ancestor_form d n)
      else and_then (is_connected d n) (\<lambda>connected.
        case (if connected then attribute_or_none d n ''form'' else None) of
          Some ident \<Rightarrow> Inr (case first_element_in_tree_with_id d n ident of
             None \<Rightarrow> None | Some found \<Rightarrow> if is_form_element d found then Some found else None)
        | None \<Rightarrow> Inr (nearest_ancestor_form d n)))"

definition form_owner :: "dom \<Rightarrow> node_id \<Rightarrow> node_id option dom_result" where
  "form_owner d n =
     (if \<not> is_form_associated d n then Inr None
      else case parser_inserted_form_owner d n of
        None \<Rightarrow> derived_form_owner d n
      | Some link \<Rightarrow> and_then (parser_link_holds d n link)
          (\<lambda>holds. if holds then Inr (Some (fl_form link)) else derived_form_owner d n))"

definition set_parser_inserted_form_owner :: "node_id \<Rightarrow> node_id \<Rightarrow> node_id \<Rightarrow> dom \<Rightarrow> bool \<times> dom" where
  "set_parser_inserted_form_owner elem form intended_parent d =
     (if \<not> is_form_associated d elem \<or> node_at d form = None then (False, d)
      else case element_at d elem of
        None \<Rightarrow> (False, d)
      | Some _ \<Rightarrow> (True, modify_element elem (\<lambda>e. e\<lparr>el_form_link :=
            Some \<lparr>fl_form = form, fl_intended_parent = intended_parent\<rparr>\<rparr>) d))"

text \<open>The recursion visits the subtree in tree order.\<close>

fun clear_form_owners_loop :: "nat \<Rightarrow> node_id list \<Rightarrow> dom \<Rightarrow> dom" where
  "clear_form_owners_loop k [] d = d"
| "clear_form_owners_loop 0 (n # stack) d = d"
| "clear_form_owners_loop (Suc k) (n # stack) d =
     (let d1 = modify_element n (\<lambda>e. e\<lparr>el_form_link := None\<rparr>) d
      in clear_form_owners_loop k (kids d1 n @ stack) d1)"

definition clear_parser_inserted_form_owners :: "node_id \<Rightarrow> dom \<Rightarrow> dom" where
  "clear_parser_inserted_form_owners root d = clear_form_owners_loop (length (d_nodes d)) [root] d"

definition listed_elements_within :: "dom \<Rightarrow> node_id \<Rightarrow> node_id list" where
  "listed_elements_within d root = filter (is_listed_element d) (visit d [root])"

definition is_image_button :: "dom \<Rightarrow> node_id \<Rightarrow> bool" where
  "is_image_button d n \<longleftrightarrow>
     html_named d n [''input''] \<and> attribute_equals_ascii_case d n ''type'' ''image''"

fun filter_result :: "('a \<Rightarrow> bool dom_result) \<Rightarrow> 'a list \<Rightarrow> 'a list dom_result" where
  "filter_result P [] = Inr []"
| "filter_result P (x # xs) = and_then (P x) (\<lambda>b. and_then (filter_result P xs)
     (\<lambda>ys. Inr (if b then x # ys else ys)))"

definition form_owner_elements :: "dom \<Rightarrow> node_id \<Rightarrow> node_id list dom_result" where
  "form_owner_elements d form =
     (if \<not> is_form_element d form then Inr []
      else and_then (filter_result (\<lambda>n. and_then (form_owner d n) (\<lambda>w. Inr (w = Some form)))
                       (listed_elements_within d (tree_root d form)))
             (\<lambda>ns. Inr (filter (\<lambda>n. \<not> is_image_button d n) ns)))"

subsection \<open>The named items of a form\<close>

definition names_form_control :: "dom \<Rightarrow> node_id \<Rightarrow> str \<Rightarrow> bool" where
  "names_form_control d n key =
     (if key = [] \<or> \<not> is_listed_element d n then False
      else case kind_opt d n of
        Some (Element e) \<Rightarrow> attribute_value e ''id'' = Some key \<or> attribute_value e ''name'' = Some key
      | _ \<Rightarrow> False)"

definition form_control_members :: "dom \<Rightarrow> node_id \<Rightarrow> node_id list dom_result" where
  "form_control_members d root =
     (if is_form_element d root then form_owner_elements d root
      else Inr (concat (map (listed_elements_within d) (kids d root))))"

definition form_control_named :: "dom \<Rightarrow> node_id \<Rightarrow> str \<Rightarrow> node_id list dom_result" where
  "form_control_named d root key =
     (if key = [] then Inr []
      else and_then (form_control_members d root) (\<lambda>ns. Inr (filter (\<lambda>n. names_form_control d n key) ns)))"

definition control_keys :: "element_data \<Rightarrow> str list" where
  "control_keys e =
     filter (\<lambda>k. k \<noteq> []) (concat (map (\<lambda>v. case v of None \<Rightarrow> [] | Some k \<Rightarrow> [k])
       [attribute_value e ''id'', attribute_value e ''name'']))"

definition add_new :: "'a \<Rightarrow> 'a list \<Rightarrow> 'a list" where
  "add_new k ks = (if k \<in> set ks then ks else ks @ [k])"

definition form_control_names :: "dom \<Rightarrow> node_id \<Rightarrow> str list dom_result" where
  "form_control_names d root =
     and_then (form_control_members d root) (\<lambda>ns. Inr
       (fold (\<lambda>n names. case element_at d n of None \<Rightarrow> names
                        | Some e \<Rightarrow> fold add_new (control_keys e) names) ns []))"

end
