(* ===== verification/DomSkeleton.thy ===== *)
theory DomSkeleton
  imports DomJournal DomSelection DomShadow DomForms
begin

text \<open>
  The skeleton of a document: links and classes of nodes, and the log of its mutations.  Most steps leave it alone, and those that
  change it do so through \<open>allocate\<close>, \<open>insert_before\<close> and \<open>remove_child\<close>.  The locale
  \<open>skeleton_invariant\<close> says what a property of the skeleton has to survive to hold of every document.
\<close>

datatype node_class =
  CDocument | CFragment | CShadow | CDoctype | CElement | CText | CComment | CInstruction

fun class_of_kind :: "node_kind \<Rightarrow> node_class" where
  "class_of_kind Document = CDocument"
| "class_of_kind DocumentFragment = CFragment"
| "class_of_kind (ShadowRoot _) = CShadow"
| "class_of_kind (DocumentType _) = CDoctype"
| "class_of_kind (Element _) = CElement"
| "class_of_kind (Text _) = CText"
| "class_of_kind (Comment _) = CComment"
| "class_of_kind (ProcessingInstruction _ _) = CInstruction"

definition class_of :: "dom \<Rightarrow> node_id \<Rightarrow> node_class option" where
  "class_of d n = map_option class_of_kind (kind_opt d n)"

definition same_skeleton :: "dom \<Rightarrow> dom \<Rightarrow> bool" where
  "same_skeleton d d' \<longleftrightarrow> parent_of d' = parent_of d \<and> kids d' = kids d \<and> class_of d' = class_of d \<and>
     length (d_nodes d') = length (d_nodes d) \<and> d_document d' = d_document d \<and> later d d'"

lemma same_skeletonI:
  "(\<And>n. parent_of d' n = parent_of d n) \<Longrightarrow> (\<And>n. kids d' n = kids d n) \<Longrightarrow>
   (\<And>n. class_of d' n = class_of d n) \<Longrightarrow> length (d_nodes d') = length (d_nodes d) \<Longrightarrow>
   d_document d' = d_document d \<Longrightarrow> journal_view d' = journal_view d \<Longrightarrow> same_skeleton d d'"
  by (auto simp: same_skeleton_def intro: later_view)

lemma same_skeleton_refl [simp, intro]: "same_skeleton d d"
  by (simp add: same_skeleton_def)

lemma same_skeleton_trans [trans]:
  "same_skeleton a b \<Longrightarrow> same_skeleton b c \<Longrightarrow> same_skeleton a c"
  by (simp add: same_skeleton_def) (blast intro: later_trans)

lemma same_skeleton_nodes:
  assumes "d_nodes d' = d_nodes d" "d_document d' = d_document d" "later d d'"
  shows "same_skeleton d d'"
  using same_nodes [OF assms(1)] assms by (simp add: same_skeleton_def class_of_def fun_eq_iff)

lemma same_skeleton_tables:
  assumes "d_nodes d' = d_nodes d" "d_document d' = d_document d" "journal_view d' = journal_view d"
  shows "same_skeleton d d'"
  using assms by (intro same_skeleton_nodes later_view)

subsection \<open>Writes that leave the skeleton alone\<close>

lemma same_skeleton_modify_node:
  assumes "\<And>x. node_at d n = Some x \<Longrightarrow> nd_parent (f x) = nd_parent x"
    and "\<And>x. node_at d n = Some x \<Longrightarrow> nd_children (f x) = nd_children x"
    and "\<And>x. node_at d n = Some x \<Longrightarrow> class_of_kind (nd_kind (f x)) = class_of_kind (nd_kind x)"
  shows "same_skeleton d (modify_node n f d)"
  using assms
  by (intro same_skeletonI)
     (auto simp: dom_view class_of_def parent_of_def kids_alt kind_opt_def option.map_comp journal_view_def
       split: option.split, cases "node_at d n", auto)

lemma same_skeleton_owner: "same_skeleton d (set_node_document n doc d)"
  unfolding set_node_document_def by (rule same_skeleton_modify_node) simp_all

lemma same_skeleton_element: "same_skeleton d (modify_element n f d)"
proof (cases "element_at d n")
  case (Some e)
  then have "kind_opt d n = Some (Element e)"
    by (auto simp: element_at_def split: option.splits node_kind.splits)
  then show ?thesis
    by (auto simp: modify_element_def Some set_kind_def kind_opt_def intro!: same_skeleton_modify_node)
qed (simp add: modify_element_def)

lemma same_skeleton_data: "same_skeleton d (set_data_text n s d)"
  unfolding set_data_text_def with_data_def
  by (rule same_skeleton_modify_node) (simp_all split: node_kind.split)

lemma same_skeleton_frame [simp, intro]:
  "same_skeleton d (on_live_points f d)" "same_skeleton d (index_named n d)" "same_skeleton d (unindex_named n d)"
  "same_skeleton d (image_source_changed n b d)"
  by (rule same_skeleton_tables;
      simp add: journal_view_def on_live_points_def index_named_def unindex_named_def
           image_source_changed_def set_image_state_def split: option.split)+

lemma same_skeleton_log [simp, intro]: "same_skeleton d (log_mutations ms d)"
  by (rule same_skeleton_nodes) (simp_all add: later_log_mutations)

subsection \<open>Silent steps\<close>

definition silent :: "'a dom_step \<Rightarrow> bool" where
  "silent m \<longleftrightarrow> (\<forall>d. same_skeleton d (snd (m d)))"

named_theorems silent_rules \<open>steps that leave the skeleton alone\<close>

lemma silentD: "silent m \<Longrightarrow> same_skeleton d (snd (m d))"
  by (simp add: silent_def)

lemma silent_basic [silent_rules, intro]:
  "silent (ok a)" "silent (look f)" "silent (stop e)" "silent (\<lambda>d. (g d, d))"
  by (simp_all add: silent_def)

lemma silent_upd [silent_rules]: "(\<And>d. same_skeleton d (f d)) \<Longrightarrow> silent (upd f)"
  by (simp add: silent_def)

lemma silent_and_do [silent_rules]:
  assumes "silent m" "\<And>a. silent (k a)"
  shows "silent (and_do m k)"
  unfolding silent_def
proof
  fix d
  obtain r d1 where m: "m d = (r, d1)" by fastforce
  then have "same_skeleton d d1" using assms(1) by (metis silentD snd_conv)
  then show "same_skeleton d (snd (and_do m k d))"
    using assms(2) m by (cases r) (auto simp: and_do_def dest: silentD intro: same_skeleton_trans)
qed

lemma silent_apply_focus_fixup [silent_rules]: "silent apply_focus_fixup"
  by (auto simp: silent_def apply_focus_fixup_def journal_view_def intro!: same_skeleton_tables split: option.split sum.split bool.split)

lemma silent_record_mutations [silent_rules]: "silent (record_mutations ms)"
  by (auto simp: record_mutations_def intro: silent_rules)

lemma silent_replace_data [silent_rules]: "silent (replace_data n off cnt s)"
proof -
  have "same_skeleton d (snd (record_character_data n (update_ranges_for_replace_data n off c i (set_data_text n t d))))"
    for c i t d
    unfolding record_character_data_def update_ranges_for_replace_data_def
    using same_skeleton_data same_skeleton_frame(1) silentD [OF silent_record_mutations] same_skeleton_trans
    by meson
  then show ?thesis
    unfolding replace_data_def by (intro silent_and_do silent_basic) (auto simp: silent_def Let_def)
qed

lemma silent_set_character_data [silent_rules]: "silent (set_character_data n s)"
  unfolding set_character_data_def by (intro silent_rules)

lemma silent_if [silent_rules]: "silent m \<Longrightarrow> silent m' \<Longrightarrow> silent (if b then m else m')"
  by simp

lemma silent_set_attribute [silent_rules]: "silent (set_attribute n a v)"
  unfolding set_attribute_def Let_def
  by (intro silent_rules same_skeleton_frame same_skeleton_element)

lemma silent_set_attribute_ns [silent_rules]: "silent (set_attribute_ns n ns p a v)"
  unfolding set_attribute_ns_def Let_def
  by (intro silent_rules same_skeleton_frame same_skeleton_element)

lemma silent_remove_matching [silent_rules]: "silent (remove_matching n P a b e)"
  unfolding remove_matching_def
  by (cases "position P (el_attributes e)")
     (auto intro!: silent_rules same_skeleton_frame same_skeleton_element)

lemma silent_remove_attribute [silent_rules]:
  "silent (remove_attribute n a)" "silent (remove_attribute_ns n ns a)"
  unfolding remove_attribute_def remove_attribute_ns_def Let_def by (intro silent_rules)+

lemma silent_adopt_loop: "same_skeleton d (snd (adopt_loop k doc pending d))"
  by (induction k doc pending d rule: adopt_loop.induct)
     (auto simp: Let_def intro: same_skeleton_trans [OF same_skeleton_owner])

lemma silent_adopt_subtree [silent_rules]: "silent (adopt_subtree n doc)"
  by (simp add: silent_def adopt_subtree_def silent_adopt_loop)

lemma silent_adopt_foreign [silent_rules]: "silent (adopt_foreign doc ns)"
proof (induction ns)
  case (Cons n ns)
  then show ?case
    by (auto intro!: silent_and_do) (auto simp: silent_def silentD [OF silent_adopt_subtree])
qed (auto intro: silent_rules)

lemma silent_assign_slot_nodes [silent_rules]: "silent (assign_slot_nodes slot ns)"
proof -
  have "same_skeleton d (fold (\<lambda>other d. if other = slot then d else take_from_slot u other d) xs d)" for u xs d
    by (induction xs arbitrary: d)
       (auto simp: take_from_slot_def intro: same_skeleton_trans [OF same_skeleton_element])
  then show ?thesis
    by (auto simp: silent_def assign_slot_nodes_def Let_def
        intro: same_skeleton_element same_skeleton_trans [OF _ same_skeleton_element])
qed

lemma silent_push_range [silent_rules]: "silent (push_range k s e)"
  by (auto simp: silent_def push_range_def journal_view_def intro: same_skeleton_tables)

lemma silent_modify_range [silent_rules]: "silent (modify_range r f)"
  unfolding modify_range_def by (intro silent_rules) (rule same_skeleton_tables, simp_all add: journal_view_def)

lemma silent_set_range [silent_rules]: "silent (set_range_start r p)" "silent (set_range_end r p)"
  unfolding set_range_start_def set_range_end_def Let_def
  by (intro silent_and_do silent_basic; auto simp: silent_def intro: silentD [OF silent_modify_range])+

lemma silent_range_steps [silent_rules]:
  "silent (create_live_range n)" "silent (create_static_range p q)" "silent (range_clone r)"
  "silent (range_set_start r n i)" "silent (range_set_end r n i)"
  "silent (range_set_start_before r n)" "silent (range_set_start_after r n)"
  "silent (range_set_end_before r n)" "silent (range_set_end_after r n)"
  "silent (range_collapse r b)" "silent (set_both r p)"
  unfolding create_live_range_def create_static_range_def range_clone_def range_set_start_def
    range_set_end_def range_set_start_before_def range_set_start_after_def range_set_end_before_def
    range_set_end_after_def range_collapse_def set_both_def
  by (intro silent_rules)+

end
