(* ===== verification/DomInsert.thy ===== *)
theory DomInsert
  imports DomSkeleton
begin

text \<open>
  What \<open>insert_before\<close> and \<open>remove_child\<close> do to the tree: the detaching and linking steps on the links,
  what the checks before an insertion establish, and from the two the tree after the call.
\<close>

subsection \<open>Detaching\<close>

lemma detach_frame [simp]:
  "length (d_nodes (detach_without_revision n d)) = length (d_nodes d)"
  "d_document (detach_without_revision n d) = d_document d"
  by (auto simp: detach_without_revision_def Let_def update_ranges_for_remove_def split: option.split)

lemma update_ranges_for_remove_views [simp]:
  "node_at (update_ranges_for_remove n p i d) = node_at d"
  "parent_of (update_ranges_for_remove n p i d) = parent_of d"
  "kids (update_ranges_for_remove n p i d) = kids d"
  "kind_opt (update_ranges_for_remove n p i d) = kind_opt d"
  by (simp_all add: update_ranges_for_remove_def same_nodes [of "on_live_points f d" d for f])

lemma parent_of_detach:
  "parent_of (detach_without_revision n d) m = (if m = n then None else parent_of d m)"
  by (auto simp: detach_without_revision_def Let_def views_modify_node node_at_modify_node parent_of_def
      split: option.split)

lemma kids_detach_raw:
  "kids (detach_without_revision n d) m =
     (if parent_of d n = Some m then filter (\<lambda>c. c \<noteq> n) (kids d m) else kids d m)"
  by (auto simp: detach_without_revision_def Let_def views_modify_node node_at_modify_node kids_alt
      split: option.split)

lemma class_of_alt: "class_of d n = map_option (\<lambda>x. class_of_kind (nd_kind x)) (node_at d n)"
  by (simp add: class_of_def kind_opt_def option.map_comp comp_def)

lemma class_of_modify_node:
  assumes "\<And>x. nd_kind (f x) = nd_kind x"
  shows "class_of (modify_node n f d) = class_of d"
  using assms by (auto simp: fun_eq_iff class_of_alt node_at_modify_node option.map_comp comp_def)

lemma class_of_same_nodes: "node_at d' = node_at d \<Longrightarrow> class_of d' = class_of d"
  by (simp add: class_of_alt fun_eq_iff)

lemma class_of_detach [simp]: "class_of (detach_without_revision n d) = class_of d"
  by (auto simp: detach_without_revision_def Let_def class_of_modify_node
      class_of_same_nodes [of "update_ranges_for_remove n p i d" d for p i] split: option.split)

lemma kids_detach:
  "tree_ok d \<Longrightarrow> kids (detach_without_revision n d) m = filter (\<lambda>c. c \<noteq> n) (kids d m)"
  by (auto simp: kids_detach_raw tree_ok_parent intro!: filter_True [symmetric])

lemma tree_ok_detach: "tree_ok d \<Longrightarrow> tree_ok (detach_without_revision n d)"
proof -
  assume ok: "tree_ok d"
  have "up (detach_without_revision n d) \<subseteq> up d"
    by (auto simp: up_def parent_of_detach split: if_splits)
  then have "acyclic (up (detach_without_revision n d))"
    by (rule acyclic_subset [OF tree_ok_acyclic [OF ok]])
  then show ?thesis
    unfolding tree_ok_def [of "detach_without_revision n d"]
    using ok by (auto simp: parent_of_detach kids_detach tree_ok_parent tree_ok_distinct)
qed

lemma detach_all:
  assumes "tree_ok d"
  shows "tree_ok (fold detach_without_revision ns d)"
    "parent_of (fold detach_without_revision ns d) m = (if m \<in> set ns then None else parent_of d m)"
    "kids (fold detach_without_revision ns d) m = filter (\<lambda>c. c \<notin> set ns) (kids d m)"
    "class_of (fold detach_without_revision ns d) = class_of d"
    "length (d_nodes (fold detach_without_revision ns d)) = length (d_nodes d)"
    "d_document (fold detach_without_revision ns d) = d_document d"
  using assms
  by (induction ns arbitrary: d)
     (auto simp: tree_ok_detach parent_of_detach kids_detach intro: filter_cong)

subsection \<open>Linking\<close>

lemma insert_at_Nil [simp]: "insert_at i [] xs = xs"
  by (simp add: insert_at_def)

lemma set_insert_at [simp]: "set (insert_at i ys xs) = set ys \<union> set xs"
proof -
  have "set xs = set (take i xs) \<union> set (drop i xs)" by (metis append_take_drop_id set_append)
  then show ?thesis by (auto simp: insert_at_def)
qed

lemma length_insert_at [simp]: "length (insert_at i ys xs) = length ys + length xs"
  by (simp add: insert_at_def)

lemma distinct_insert_at:
  "distinct xs \<Longrightarrow> distinct ys \<Longrightarrow> set xs \<inter> set ys = {} \<Longrightarrow> distinct (insert_at i ys xs)"
proof -
  assume *: "distinct xs" "distinct ys" "set xs \<inter> set ys = {}"
  have "set (take i xs) \<inter> set (drop i xs) = {}"
    using *(1) by (simp add: set_take_disj_set_drop_if_distinct)
  then show ?thesis using * by (auto simp: insert_at_def dest: in_set_takeD in_set_dropD)
qed

lemma insert_at_Cons:
  "i \<le> length xs \<Longrightarrow> insert_at (Suc i) ns (insert_at i [n] xs) = insert_at i (n # ns) xs"
  by (simp add: insert_at_def min_def)

lemma link_child_views:
  assumes "parent < length (d_nodes d)" "n < length (d_nodes d)"
  shows "parent_of (link_child parent i n d) m = (if m = n then Some parent else parent_of d m)"
    "kids (link_child parent i n d) m =
       (if m = parent then insert_at i [n] (kids d parent) else kids d m)"
    "class_of (link_child parent i n d) = class_of d"
    "length (d_nodes (link_child parent i n d)) = length (d_nodes d)"
    "d_document (link_child parent i n d) = d_document d"
proof -
  obtain x y where "node_at d parent = Some x" "node_at d n = Some y"
    using assms by (simp add: node_at_def)
  then show "parent_of (link_child parent i n d) m = (if m = n then Some parent else parent_of d m)"
    "kids (link_child parent i n d) m =
       (if m = parent then insert_at i [n] (kids d parent) else kids d m)"
    by (auto simp: link_child_def views_modify_node node_at_modify_node parent_of_def kids_alt)
qed (simp_all add: link_child_def class_of_modify_node)

lemma link_children_views:
  assumes "parent < length (d_nodes d)" "\<And>n. n \<in> set ns \<Longrightarrow> n < length (d_nodes d)"
    "i \<le> length (kids d parent)"
  shows "parent_of (link_children parent i ns d) m = (if m \<in> set ns then Some parent else parent_of d m)"
    "kids (link_children parent i ns d) m =
       (if m = parent then insert_at i ns (kids d parent) else kids d m)"
    "class_of (link_children parent i ns d) = class_of d"
    "length (d_nodes (link_children parent i ns d)) = length (d_nodes d)"
    "d_document (link_children parent i ns d) = d_document d"
  using assms
  by (induction ns arbitrary: i d) (auto simp: link_child_views insert_at_Cons)

subsection \<open>What the checks establish\<close>

definition container :: "node_class \<Rightarrow> bool" where
  "container c \<longleftrightarrow> c \<in> {CDocument, CFragment, CShadow, CElement}"

definition child_allowed :: "node_class \<Rightarrow> node_class \<Rightarrow> bool" where
  "child_allowed p c \<longleftrightarrow> container p \<and> c \<notin> {CDocument, CFragment, CShadow} \<and>
     (p = CDocument \<longrightarrow> c \<noteq> CText) \<and> (p \<noteq> CDocument \<longrightarrow> c \<noteq> CDoctype)"

text \<open>The children of a document: one element at most, one doctype at most and before the element.\<close>

definition document_children_ok :: "node_class list \<Rightarrow> bool" where
  "document_children_ok cs \<longleftrightarrow>
     set cs \<subseteq> {CElement, CDoctype, CComment, CInstruction} \<and>
     sorted_wrt (\<lambda>a b. \<not> (a = CElement \<and> b = CElement) \<and> \<not> (a = CDoctype \<and> b = CDoctype) \<and>
                      \<not> (a = CElement \<and> b = CDoctype)) cs"

lemma document_children_ok_Nil [simp]: "document_children_ok []"
  by (simp add: document_children_ok_def)

lemma document_children_ok_filter:
  "document_children_ok (map f cs) \<Longrightarrow> document_children_ok (map f (filter P cs))"
  by (auto simp: document_children_ok_def sorted_wrt_map intro: sorted_wrt_filter)

definition class_at :: "dom \<Rightarrow> node_id \<Rightarrow> node_class" where
  "class_at d n = (case class_of d n of Some c \<Rightarrow> c | None \<Rightarrow> CComment)"

lemma kind_of_Inr: "kind_of d n = Inr k \<longleftrightarrow> kind_opt d n = Some k"
  by (auto simp: kind_of_def split: option.split)

lemma class_at_kind: "kind_opt d n = Some k \<Longrightarrow> class_at d n = class_of_kind k"
  by (simp add: class_at_def class_of_def)

lemma scan_document_children_ok:
  assumes "scan_document_children d i cs e0 t0 = Inr (e, t)"
    and "\<And>a. e0 = Some a \<Longrightarrow> a < i"
    and "\<nexists>a b. e = Some a \<and> t = Some b \<and> a < b"
  shows "document_children_ok (map (class_at d) cs) \<and>
    (e0 \<noteq> None \<longrightarrow> e = e0 \<and> (\<forall>c \<in> set cs. class_at d c \<noteq> CElement) \<and> (\<forall>c \<in> set cs. class_at d c \<noteq> CDoctype)) \<and>
    (t0 \<noteq> None \<longrightarrow> t = t0 \<and> (\<forall>c \<in> set cs. class_at d c \<noteq> CDoctype))"
  using assms
proof (induction d i cs e0 t0 rule: scan_document_children.induct)
  case (2 d i child cs e0 t0)
  from "2.prems"(1) obtain k where k: "kind_of d child = Inr k"
    by (auto simp: and_then_Inr_iff)
  then have c: "class_at d child = class_of_kind k" by (simp add: kind_of_Inr class_at_kind)
  show ?case
  proof (cases "class_of_kind k")
    case CElement
    then obtain x where kx: "k = Element x" by (cases k) auto
    from "2.prems" k kx have e0: "e0 = None"
      and rest: "scan_document_children d (i + 1) cs (Some i) t0 = Inr (e, t)"
      by (auto split: if_splits)
    from "2.IH"(2) [OF k kx] e0 rest "2.prems"(3) c CElement show ?thesis
      by (auto simp: document_children_ok_def)
  next
    case CDoctype
    then obtain x where kx: "k = DocumentType x" by (cases k) auto
    from "2.prems" k kx have t0: "t0 = None"
      and rest: "scan_document_children d (i + 1) cs e0 (Some i) = Inr (e, t)"
      by (auto split: if_splits)
    have lt: "\<And>a. e0 = Some a \<Longrightarrow> a < i + 1" using "2.prems"(2) by fastforce
    from "2.IH"(1) [OF k kx] t0 rest lt "2.prems"(3)
    have ih: "document_children_ok (map (class_at d) cs)"
      "e0 \<noteq> None \<longrightarrow> e = e0" "t = Some i" "(\<forall>c \<in> set cs. class_at d c \<noteq> CDoctype)"
      by auto
    then have "e0 = None" using "2.prems"(2,3) by (cases e0) auto
    with ih c CDoctype t0 show ?thesis by (auto simp: document_children_ok_def)
  next
    case CComment
    then obtain x where kx: "k = Comment x" by (cases k) auto
    from "2.prems"(1) k kx have rest: "scan_document_children d (i + 1) cs e0 t0 = Inr (e, t)" by simp
    have lt: "\<And>a. e0 = Some a \<Longrightarrow> a < i + 1" using "2.prems"(2) by fastforce
    from "2.IH"(3) [OF k kx rest lt "2.prems"(3)] c CComment show ?thesis
      by (auto simp: document_children_ok_def)
  next
    case CInstruction
    then obtain x y where kx: "k = ProcessingInstruction x y" by (cases k) auto
    from "2.prems"(1) k kx have rest: "scan_document_children d (i + 1) cs e0 t0 = Inr (e, t)" by simp
    have lt: "\<And>a. e0 = Some a \<Longrightarrow> a < i + 1" using "2.prems"(2) by fastforce
    from "2.IH"(4) [OF k kx rest lt "2.prems"(3)] c CInstruction show ?thesis
      by (auto simp: document_children_ok_def)
  qed (use "2.prems"(1) k in \<open>cases k; simp\<close>)+
qed simp

lemma require_node_Inr: "require_node d n = Inr u \<longleftrightarrow> n < length (d_nodes d)"
  by (auto simp: require_node_def and_then_Inr_iff kind_of_Inr kind_opt_def node_at_def)

lemma check_insertion_nodes_Inr:
  "check_insertion_nodes d parent ns = Inr u \<Longrightarrow> n \<in> set ns \<Longrightarrow>
     \<not> is_inclusive_ancestor d n parent \<and> validate_child_kind d parent n = Inr ()"
  by (induction d parent ns rule: check_insertion_nodes.induct)
     (auto simp: and_then_Inr_iff split: if_splits)

lemma validate_child_kind_Inr:
  assumes "validate_child_kind d parent n = Inr u" "validate_parent_kind d parent = Inr v"
  shows "child_allowed (class_at d parent) (class_at d n)" "n < length (d_nodes d)"
proof -
  from assms obtain pk nk where k: "kind_opt d parent = Some pk" "kind_opt d n = Some nk"
    by (auto simp: validate_child_kind_def and_then_Inr_iff kind_of_Inr)
  then show "n < length (d_nodes d)" by (auto simp: kind_opt_def node_at_def split: if_splits)
  show "child_allowed (class_at d parent) (class_at d n)"
    using assms k
    by (cases pk; cases nk)
       (auto simp: validate_child_kind_def validate_parent_kind_def kind_of_def class_at_kind
          child_allowed_def container_def dom_fail_def)
qed

text \<open>
  The facts a successful check gives: \<open>ns\<close> are the nodes that move to \<open>parent\<close>, before \<open>reference\<close>.
\<close>

definition insertable :: "dom \<Rightarrow> node_id \<Rightarrow> node_id list \<Rightarrow> node_id option \<Rightarrow> bool" where
  "insertable d parent ns reference \<longleftrightarrow>
     parent < length (d_nodes d) \<and> distinct ns \<and>
     (\<forall>n \<in> set ns. n < length (d_nodes d) \<and> \<not> is_inclusive_ancestor d n parent \<and>
        child_allowed (class_at d parent) (class_at d n)) \<and>
     (\<forall>r. reference = Some r \<longrightarrow> r \<in> set (kids d parent) \<and> r \<notin> set ns) \<and>
     (class_at d parent = CDocument \<longrightarrow>
        document_children_ok (map (class_at d) (candidate_children d parent ns reference)))"

lemma next_sibling_Some:
  assumes "next_sibling d n = Some r" "tree_ok d"
  obtains p where "parent_of d n = Some p" "r \<in> set (kids d p)" "r \<noteq> n"
proof -
  from assms(1) obtain p i where p: "parent_of d n = Some p" and i: "position (\<lambda>c. c = n) (kids d p) = Some i"
    and r: "i + 1 < length (kids d p)" "r = kids d p ! (i + 1)"
    by (auto simp: next_sibling_def kids_def split: option.splits if_splits)
  have "kids d p ! i = n" "i < length (kids d p)" using position_SomeD [OF i] by auto
  then have "r \<noteq> n" using tree_ok_distinct [OF assms(2), of p] r
    by (metis add_cancel_left_right nth_eq_iff_index_eq zero_neq_one)
  moreover have "r \<in> set (kids d p)" using r by (metis nth_mem)
  ultimately show ?thesis using p by (intro that)
qed

lemma validate_document_children_Inr:
  assumes "validate_document_children d parent ns reference = Inr u" "class_at d parent = CDocument"
    "parent < length (d_nodes d)"
  shows "document_children_ok (map (class_at d) (candidate_children d parent ns reference))"
proof -
  have "kind_of d parent = Inr Document"
    using assms(2,3) by (auto simp: class_at_def class_of_def kind_of_def kind_opt_def node_at_def
        elim: class_of_kind.elims)
  with assms(1) obtain e t where
    scan: "scan_document_children d 0 (candidate_children d parent ns reference) None None = Inr (e, t)"
    and order: "(case (t, e) of (Some t, Some e) \<Rightarrow> if e < t
        then dom_hierarchy ''DocumentType must precede the document element'' else Inr () | _ \<Rightarrow> Inr ()) = Inr u"
    unfolding validate_document_children_def by (auto simp: and_then_Inr_iff)
  have "\<nexists>a b. e = Some a \<and> t = Some b \<and> a < b"
    using order by auto
  with scan show ?thesis using scan_document_children_ok [OF scan] by simp
qed

lemma pre_insert_checks_Inr:
  assumes "tree_ok d" "pre_insert_checks d parent n reference = Inr effective" "kind_opt d n = Some k"
  shows "insertable d parent (insertion_nodes_of d n k) effective"
    "\<not> is_inclusive_ancestor d n parent" "class_of_kind k \<notin> {CDocument, CShadow}"
proof -
  let ?ns = "if k = DocumentFragment then kids d n else [n]"
  from assms(2,3) have checks: "require_node d parent = Inr ()" "require_node d n = Inr ()"
      "require_reference d parent reference = Inr ()" "validate_parent_kind d parent = Inr ()"
      "n \<noteq> parent" "\<not> is_inclusive_ancestor d n parent"
      "effective = (if reference = Some n then next_sibling d n else reference)"
      "check_insertion_nodes d parent ?ns = Inr ()" "validate_document_children d parent ?ns effective = Inr ()"
    by (auto simp: pre_insert_checks_def and_then_Inr_iff kind_of_Inr Let_def split: if_splits)
  show "\<not> is_inclusive_ancestor d n parent" by (fact checks)
  have child: "child_allowed (class_at d parent) (class_at d x) \<and> x < length (d_nodes d) \<and>
      \<not> is_inclusive_ancestor d x parent" if "x \<in> set ?ns" for x
    using check_insertion_nodes_Inr [OF checks(8) that] validate_child_kind_Inr checks(4) by blast
  show k: "class_of_kind k \<notin> {CDocument, CShadow}"
  proof (cases "k = DocumentFragment")
    case False
    then show ?thesis using child [of n] assms(3) by (auto simp: class_at_kind child_allowed_def)
  qed simp
  then have ns: "insertion_nodes_of d n k = ?ns" by (cases k) (simp_all add: insertion_nodes_of_def)
  have "r \<in> set (kids d parent) \<and> r \<notin> set ?ns" if "effective = Some r" for r
  proof (cases "reference = Some n")
    case True
    with checks(3) have "parent_of d n = Some parent"
      by (auto simp: require_reference_def and_then_Inr_iff split: if_splits)
    moreover have "next_sibling d n = Some r" using checks(7) True that by simp
    ultimately have r: "r \<in> set (kids d parent)" "r \<noteq> n"
      using assms(1) by (auto elim: next_sibling_Some)
    then have "r \<notin> set (kids d n)"
      using checks(5) tree_ok_parent [OF assms(1)] by (metis option.inject)
    with r show ?thesis by simp
  next
    case False
    with checks(3,7) that have "parent_of d r = Some parent" "r \<noteq> n"
      by (auto simp: require_reference_def and_then_Inr_iff split: if_splits)
    then show ?thesis using checks(5) tree_ok_parent [OF assms(1)] by (metis list.set_intros(1)
          option.inject set_ConsD empty_iff empty_set)
  qed
  moreover have "distinct ?ns" using tree_ok_distinct [OF assms(1)] by simp
  ultimately show "insertable d parent (insertion_nodes_of d n k) effective"
    unfolding insertable_def ns
    using child checks(1,9) validate_document_children_Inr
    by (auto simp: require_node_Inr)
qed


subsection \<open>The tree after an insertion\<close>

definition moved :: "dom \<Rightarrow> node_id \<Rightarrow> node_id list \<Rightarrow> node_id option \<Rightarrow> dom \<Rightarrow> bool" where
  "moved d parent ns reference d' \<longleftrightarrow>
     kids d' = (\<lambda>m. if m = parent then candidate_children d parent ns reference
                    else filter (\<lambda>c. c \<notin> set ns) (kids d m)) \<and>
     parent_of d' = (\<lambda>m. if m \<in> set ns then Some parent else parent_of d m) \<and>
     class_of d' = class_of d \<and> length (d_nodes d') = length (d_nodes d) \<and> d_document d' = d_document d"

definition detached :: "dom \<Rightarrow> node_id list \<Rightarrow> dom \<Rightarrow> bool" where
  "detached d ns d' \<longleftrightarrow>
     kids d' = (\<lambda>m. filter (\<lambda>c. c \<notin> set ns) (kids d m)) \<and>
     parent_of d' = (\<lambda>m. if m \<in> set ns then None else parent_of d m) \<and>
     class_of d' = class_of d \<and> length (d_nodes d') = length (d_nodes d) \<and> d_document d' = d_document d"

lemma detached_fold: "tree_ok d \<Longrightarrow> detached d ns (fold detach_without_revision ns d)"
  by (auto simp: detached_def detach_all fun_eq_iff)

lemma detached_tree_ok:
  assumes "tree_ok d" "detached d ns d'"
  shows "tree_ok d'"
proof -
  have "up d' \<subseteq> up d" using assms(2) by (auto simp: up_def detached_def split: if_splits)
  then have "acyclic (up d')" by (rule acyclic_subset [OF tree_ok_acyclic [OF assms(1)]])
  then show ?thesis using assms by (auto simp: tree_ok_def detached_def)
qed

lemma tree_ok_same: "same_skeleton d d' \<Longrightarrow> tree_ok d \<Longrightarrow> tree_ok d'"
proof -
  assume same: "same_skeleton d d'" and ok: "tree_ok d"
  then have "up d' = up d" by (simp add: same_skeleton_def up_def)
  with same ok show ?thesis unfolding tree_ok_def same_skeleton_def by metis
qed

lemma detached_same: "detached d ns a \<Longrightarrow> same_skeleton a b \<Longrightarrow> detached d ns b"
  by (simp add: detached_def same_skeleton_def)

lemma moved_same: "moved d p ns r a \<Longrightarrow> same_skeleton a b \<Longrightarrow> moved d p ns r b"
  by (simp add: moved_def same_skeleton_def)

lemma detached_insertion:
  assumes "tree_ok d"
  shows "detached d ns (insertion_detached d parent k ns effective)"
proof -
  have same: "tree_ok x \<Longrightarrow> detached d ns (fold detach_without_revision ns x)"
    if "x = d \<or> detached d ns x" for x
    using that detached_fold [of x ns] by (auto simp: detached_def fun_eq_iff)
  have frame: "same_skeleton x (update_ranges_for_insert p i c x)" for x p i c
    by (simp add: update_ranges_for_insert_def)
  have keep: "tree_ok x \<Longrightarrow> tree_ok (update_ranges_for_insert p i c x)" for x p i c
    by (rule tree_ok_same [OF frame])
  let ?d1 = "if k = DocumentFragment then fold detach_without_revision ns d else d"
  have d1: "tree_ok ?d1" "?d1 = d \<or> detached d ns ?d1"
    using assms by (simp_all add: detach_all detached_fold)
  have "detached d ns (fold detach_without_revision ns (update_ranges_for_insert p i c ?d1))" for p i c
  proof -
    have "tree_ok (update_ranges_for_insert p i c ?d1)" using d1(1) by (rule keep)
    then have "detached (update_ranges_for_insert p i c ?d1) ns
        (fold detach_without_revision ns (update_ranges_for_insert p i c ?d1))" by (rule detached_fold)
    with frame [of ?d1 p i c] d1(2) show ?thesis
      by (auto simp: detached_def same_skeleton_def fun_eq_iff)
  qed
  with same [OF d1(2) d1(1)] show ?thesis
    by (auto simp: insertion_detached_def Let_def split: option.split)
qed

lemma insertion_index_detached:
  assumes "insertable d parent ns reference" "kids d' parent = filter (\<lambda>c. c \<notin> set ns) (kids d parent)"
  obtains i where "insertion_index d' parent reference = Inr i" "i \<le> length (kids d' parent)"
    "insert_at i ns (kids d' parent) = candidate_children d parent ns reference"
proof (cases reference)
  case None
  with assms that [of "length (kids d' parent)"] show thesis
    by (simp add: insertion_index_def candidate_children_def Let_def)
next
  case (Some r)
  with assms have "r \<in> set (kids d' parent)" by (auto simp: insertable_def)
  then obtain i where i: "position (\<lambda>c. c = r) (kids d' parent) = Some i"
    using position_None [of "\<lambda>c. c = r" "kids d' parent"] by (cases "position (\<lambda>c. c = r) (kids d' parent)") auto
  with Some assms that [of i] position_SomeD [OF i] show thesis
    by (simp add: insertion_index_def candidate_children_def)
qed

lemma moved_link:
  assumes "insertable d parent ns reference" "detached d ns d'"
    "insertion_index d' parent reference = Inr i"
  shows "moved d parent ns reference (link_children parent i ns d')"
proof -
  from insertion_index_detached [OF assms(1), of d'] assms(2,3)
  have i: "i \<le> length (kids d' parent)"
    and eq: "insert_at i ns (kids d' parent) = candidate_children d parent ns reference"
    by (auto simp: detached_def)
  have bound: "parent < length (d_nodes d')" "\<And>n. n \<in> set ns \<Longrightarrow> n < length (d_nodes d')"
    using assms by (auto simp: insertable_def detached_def)
  from link_children_views [OF bound i] eq assms(2) show ?thesis
    by (auto simp: moved_def detached_def fun_eq_iff)
qed

lemma insert_before_cases:
  assumes ok: "tree_ok d" and run: "insert_before parent n reference d = (r, d')"
  obtains (rejected) f where "pre_insert_checks d parent n reference = Inl f" "r = Inl f" "d' = d"
  | (empty) k effective where "pre_insert_checks d parent n reference = Inr effective"
      "kind_opt d n = Some k" "insertion_nodes_of d n k = []" "r = Inr n" "d' = d"
  | (tree) k effective ns d3 d4 i where "pre_insert_checks d parent n reference = Inr effective"
      "kind_opt d n = Some k" "ns = insertion_nodes_of d n k" "ns \<noteq> []"
      "insertable d parent ns effective"
      "d3 = insertion_detached d parent k ns effective" "detached d ns d3"
      "adopt_foreign (owner_of d3 parent) ns d3 = (Inr (), d4)"
      "insertion_index d4 parent effective = Inr i" "moved d parent ns effective (link_children parent i ns d4)"
      "and_do (record_mutations (removals_of d ns @ [ChildList parent ns []])) (\<lambda>_. ok n)
         (link_children parent i ns d4) = (r, d')"
  | (stuck) k effective ns d3 f where "pre_insert_checks d parent n reference = Inr effective"
      "kind_opt d n = Some k" "ns = insertion_nodes_of d n k"
      "insertable d parent ns effective"
      "d3 = insertion_detached d parent k ns effective" "detached d ns d3"
      "adopt_foreign (owner_of d3 parent) ns d3 = (Inl f, d')" "r = Inl f"
proof (cases "pre_insert_checks d parent n reference")
  case (Inl f)
  with run show thesis by (auto simp: insert_before_def and_do_def intro: rejected)
next
  case (Inr effective)
  then obtain k where k: "kind_opt d n = Some k"
    by (auto simp: pre_insert_checks_def and_then_Inr_iff kind_of_Inr Let_def split: if_splits)
  define ns where "ns = insertion_nodes_of d n k"
  define d3 where "d3 = insertion_detached d parent k ns effective"
  have det: "detached d ns d3" unfolding d3_def using ok by (rule detached_insertion)
  have ins: "insertable d parent ns effective"
    unfolding ns_def using ok Inr k by (rule pre_insert_checks_Inr)
  show thesis
  proof (cases "ns = []")
    case True
    with run Inr k show thesis
      by (intro empty) (auto simp: insert_before_def and_do_def kind_of_def ns_def)
  next
    case False
    have run': "and_do (adopt_foreign (owner_of d3 parent) ns) (\<lambda>_.
        and_do (look (\<lambda>d. insertion_index d parent effective)) (\<lambda>i.
        and_do (upd (link_children parent i ns)) (\<lambda>_.
        and_do (record_mutations (removals_of d ns @ [ChildList parent ns []])) (\<lambda>_. ok n)))) d3 = (r, d')"
      using run Inr k False
      by (simp add: insert_before_def and_do_def [of "look f" for f] kind_of_def ns_def [symmetric]
          Let_def d3_def)
    obtain q d4 where q: "adopt_foreign (owner_of d3 parent) ns d3 = (q, d4)" by fastforce
    show thesis
    proof (cases q)
      case (Inl f)
      with run' q show thesis
        using Inr k ns_def ins d3_def det by (intro stuck [of effective k ns d3 f]) (auto simp: and_do_def)
    next
      case (Inr u)
      have "same_skeleton d3 d4" using silentD [OF silent_adopt_foreign] q by (metis snd_conv)
      with det have det4: "detached d ns d4" by (rule detached_same)
      obtain i where i: "insertion_index d4 parent effective = Inr i"
        using insertion_index_detached [OF ins, of d4] det4 by (auto simp: detached_def)
      show thesis
        using \<open>pre_insert_checks d parent n reference = Inr effective\<close> k ns_def False ins d3_def det
          q Inr i moved_link [OF ins det4 i] run'
        by (intro tree [of effective k ns d3 d4 i]) (auto simp: and_do_def)
    qed
  qed
qed

end
