(* ===== verification/DomWellformed.thy ===== *)
theory DomWellformed
  imports DomInsert
begin

text \<open>
  Well-formed documents: the links form a forest, only the nodes that can have children do, and a
  document node has at most one element and one doctype, in this order.  Every operation preserves
  this, through the locale \<open>skeleton_invariant\<close>.
\<close>

definition kinds_ok :: "dom \<Rightarrow> bool" where
  "kinds_ok d \<longleftrightarrow>
     class_of d (d_document d) = Some CDocument \<and>
     (\<forall>c p. parent_of d c = Some p \<longrightarrow> child_allowed (class_at d p) (class_at d c)) \<and>
     (\<forall>n. class_of d n = Some CDocument \<longrightarrow> document_children_ok (map (class_at d) (kids d n)))"

definition dom_wf :: "dom \<Rightarrow> bool" where
  "dom_wf d \<longleftrightarrow> tree_ok d \<and> kinds_ok d"

lemma dom_wf_tree: "dom_wf d \<Longrightarrow> tree_ok d"
  by (simp add: dom_wf_def)

lemma tree_ok_links:
  assumes "tree_ok d" "parent_of d' = parent_of d" "kids d' = kids d"
  shows "tree_ok d'"
proof -
  have "up d' = up d" using assms(2) by (simp add: up_def)
  with assms show ?thesis unfolding tree_ok_def by metis
qed

lemma class_at_same: "class_of d' = class_of d \<Longrightarrow> class_at d' = class_at d"
  by (simp add: class_at_def fun_eq_iff)

lemma kinds_ok_same: "same_skeleton d d' \<Longrightarrow> kinds_ok d \<Longrightarrow> kinds_ok d'"
  unfolding kinds_ok_def by (simp add: same_skeleton_def class_at_same [of d' d])

lemma dom_wf_same: "same_skeleton d d' \<Longrightarrow> dom_wf d \<Longrightarrow> dom_wf d'"
  by (simp add: dom_wf_def tree_ok_same kinds_ok_same)

subsection \<open>Moving nodes\<close>

lemma detached_kinds_ok: "kinds_ok d \<Longrightarrow> detached d ns d' \<Longrightarrow> kinds_ok d'"
  unfolding kinds_ok_def
  by (auto simp: detached_def class_at_same [of d' d] document_children_ok_filter split: if_splits)

lemma detached_wf: "dom_wf d \<Longrightarrow> detached d ns d' \<Longrightarrow> dom_wf d'"
  by (auto simp: dom_wf_def intro: detached_tree_ok detached_kinds_ok)

lemma rtrancl_avoid:
  assumes "(p, y) \<in> (E \<union> S \<times> {p})\<^sup>*" "\<And>x. x \<in> S \<Longrightarrow> (p, x) \<notin> E\<^sup>*"
  shows "(p, y) \<in> E\<^sup>*"
  using assms(1)
proof (induction rule: rtrancl_induct)
  case (step y z)
  then show ?case using assms(2) by (auto intro: rtrancl_into_rtrancl)
qed simp

lemma trancl_through:
  assumes "(a, b) \<in> (E \<union> S \<times> {p})\<^sup>+"
  shows "(a, b) \<in> E\<^sup>+ \<or> (\<exists>x \<in> S. (a, x) \<in> (E \<union> S \<times> {p})\<^sup>* \<and> (p, b) \<in> (E \<union> S \<times> {p})\<^sup>*)"
  using assms
proof (induction rule: trancl_induct)
  case (base y)
  then show ?case by auto
next
  case (step y z)
  from step.hyps(2) consider "(y, z) \<in> E" | "y \<in> S" "z = p" by auto
  then show ?case
  proof cases
    case 1
    with step.IH show ?thesis by (meson UnI1 rtrancl.rtrancl_into_rtrancl trancl_into_trancl)
  next
    case 2
    with step.hyps(1) show ?thesis by (auto dest: trancl_into_rtrancl)
  qed
qed

lemma acyclic_redirect:
  assumes "acyclic E" "\<And>x. x \<in> S \<Longrightarrow> (p, x) \<notin> E\<^sup>*"
  shows "acyclic (E \<union> S \<times> {p})"
  unfolding acyclic_def
proof (intro allI notI)
  fix a assume "(a, a) \<in> (E \<union> S \<times> {p})\<^sup>+"
  from trancl_through [OF this] consider "(a, a) \<in> E\<^sup>+"
    | x where "x \<in> S" "(a, x) \<in> (E \<union> S \<times> {p})\<^sup>*" "(p, a) \<in> (E \<union> S \<times> {p})\<^sup>*" by blast
  then show False
  proof cases
    case 1
    with assms(1) show ?thesis by (simp add: acyclic_def)
  next
    case 2
    then have "(p, x) \<in> (E \<union> S \<times> {p})\<^sup>*" by (metis rtrancl_trans)
    from rtrancl_avoid [OF this assms(2)] 2(1) assms(2) show ?thesis by blast
  qed
qed

lemma set_candidate_children:
  "set (candidate_children d parent ns reference) = set ns \<union> (set (kids d parent) - set ns)"
  by (auto simp: candidate_children_def Let_def)

lemma distinct_candidate_children:
  "distinct (kids d parent) \<Longrightarrow> distinct ns \<Longrightarrow> distinct (candidate_children d parent ns reference)"
  by (auto simp: candidate_children_def Let_def intro: distinct_insert_at)

lemma moved_tree_ok:
  assumes ok: "tree_ok d" and ins: "insertable d parent ns reference" and mv: "moved d parent ns reference d'"
  shows "tree_ok d'"
proof -
  let ?E = "{(n, p). parent_of d n = Some p \<and> n \<notin> set ns}"
  have sub: "?E \<subseteq> up d" by (auto simp: up_def)
  have "(parent, x) \<notin> ?E\<^sup>*" if "x \<in> set ns" for x
    using ins that rtrancl_mono [OF sub] by (auto simp: insertable_def is_inclusive_ancestor_up [OF ok])
  then have "acyclic (?E \<union> set ns \<times> {parent})"
    by (intro acyclic_redirect acyclic_subset [OF tree_ok_acyclic [OF ok] sub])
  moreover have "up d' \<subseteq> ?E \<union> set ns \<times> {parent}"
    using mv by (auto simp: up_def moved_def split: if_splits)
  ultimately have "acyclic (up d')" by (rule acyclic_subset)
  moreover have "distinct (kids d' m)" for m
    using mv ins tree_ok_distinct [OF ok]
    by (auto simp: moved_def insertable_def distinct_candidate_children)
  moreover have "parent_of d' n = Some p \<longleftrightarrow> n \<in> set (kids d' p)" for n p
    using mv by (auto simp: moved_def set_candidate_children tree_ok_parent [OF ok])
  ultimately show ?thesis by (auto simp: tree_ok_def)
qed

lemma moved_kinds_ok:
  assumes ok: "kinds_ok d" and ins: "insertable d parent ns reference" and mv: "moved d parent ns reference d'"
  shows "kinds_ok d'"
proof -
  have same: "class_at d' = class_at d" "class_of d' = class_of d" "d_document d' = d_document d"
    using mv class_at_same [of d' d] by (simp_all add: moved_def)
  have "child_allowed (class_at d p) (class_at d c)" if "parent_of d' c = Some p" for c p
  proof (cases "c \<in> set ns")
    case True
    with that mv have "p = parent" by (simp add: moved_def)
    with True ins show ?thesis by (simp add: insertable_def)
  next
    case False
    with that mv have "parent_of d c = Some p" by (simp add: moved_def)
    with ok show ?thesis by (simp add: kinds_ok_def)
  qed
  moreover have "document_children_ok (map (class_at d) (kids d' n))" if doc: "class_of d n = Some CDocument" for n
  proof (cases "n = parent")
    case True
    with mv ins doc show ?thesis by (simp add: moved_def insertable_def class_at_def)
  next
    case False
    with mv have "kids d' n = filter (\<lambda>c. c \<notin> set ns) (kids d n)" by (simp add: moved_def)
    with ok doc show ?thesis by (simp add: kinds_ok_def document_children_ok_filter)
  qed
  ultimately show ?thesis using ok by (simp add: kinds_ok_def same)
qed

lemma moved_wf:
  "dom_wf d \<Longrightarrow> insertable d parent ns reference \<Longrightarrow> moved d parent ns reference d' \<Longrightarrow> dom_wf d'"
  by (auto simp: dom_wf_def intro: moved_tree_ok moved_kinds_ok)

lemma and_do_record_same:
  assumes "and_do (record_mutations ms) (\<lambda>_. ok n) d = (r, d')"
  shows "same_skeleton d d'"
proof -
  have "silent (and_do (record_mutations ms) (\<lambda>_. ok n))" by (intro silent_rules)
  from silentD [OF this, of d] assms show ?thesis by simp
qed

text \<open>
  In short, an insertion leaves the skeleton alone, or detaches the nodes and does not return, or moves
  them.
\<close>

lemma insert_before_skeleton:
  assumes "tree_ok d" "insert_before parent n reference d = (r, d')"
  obtains "d' = d" | ns where "detached d ns d'"
  | k effective where "pre_insert_checks d parent n reference = Inr effective" "kind_opt d n = Some k"
      "insertable d parent (insertion_nodes_of d n k) effective"
      "moved d parent (insertion_nodes_of d n k) effective d'"
  using assms
proof (cases rule: insert_before_cases)
  case (tree k effective ns d3 d4 i)
  from and_do_record_same [OF tree(11)] show ?thesis
    using tree moved_same that(3) by blast
next
  case (stuck k effective ns d3 f)
  have "same_skeleton d3 d'" using silentD [OF silent_adopt_foreign] stuck(7) by (metis snd_conv)
  with stuck(6) show ?thesis using detached_same that(2) by blast
qed (use that in auto)

lemma insert_before_wf: "dom_wf d \<Longrightarrow> dom_wf (snd (insert_before parent n reference d))"
proof -
  assume wf: "dom_wf d"
  obtain r d' where run: "insert_before parent n reference d = (r, d')" by fastforce
  from dom_wf_tree [OF wf] run have "dom_wf d'"
    by (cases rule: insert_before_skeleton) (use wf in \<open>auto intro: detached_wf moved_wf\<close>)
  with run show ?thesis by simp
qed

lemma remove_child_cases:
  assumes "remove_child parent child d = (r, d')"
  obtains (rejected) f where "d' = d" "r = Inl f"
  | (removed) "parent_of d child = Some parent"
      "and_do (record_mutations [ChildList parent [] [child]]) (\<lambda>_. ok child)
         (detach_without_revision child d) = (r, d')"
  using assms
  by (auto simp: remove_child_def and_do_def [of "look f" for f] and_do_def [of "upd f" for f]
      dom_fail_def split: sum.splits if_splits)

lemma remove_child_skeleton:
  assumes "tree_ok d" "remove_child parent child d = (r, d')"
  obtains "d' = d" | "parent_of d child = Some parent" "detached d [child] d'"
  using assms(2)
proof (cases rule: remove_child_cases)
  case removed
  have "detached d [child] (detach_without_revision child d)"
    using detached_fold [OF assms(1), of "[child]"] by simp
  from detached_same [OF this and_do_record_same [OF removed(2)]] removed(1) show ?thesis by (intro that(2))
qed (use that in auto)

lemma remove_child_wf: "dom_wf d \<Longrightarrow> dom_wf (snd (remove_child parent child d))"
proof -
  assume wf: "dom_wf d"
  obtain r d' where run: "remove_child parent child d = (r, d')" by fastforce
  from dom_wf_tree [OF wf] run have "dom_wf d'"
    by (cases rule: remove_child_skeleton) (use wf in \<open>auto intro: detached_wf\<close>)
  with run show ?thesis by simp
qed

subsection \<open>New nodes\<close>

lemma allocate_views:
  assumes "allocate k d = (n, d')"
  shows "n = length (d_nodes d)" "parent_of d' = parent_of d" "kids d' = kids d"
    "kind_opt d' = (kind_opt d)(n \<mapsto> k)" "class_of d' = (class_of d)(n \<mapsto> class_of_kind k)"
    "length (d_nodes d') = Suc (length (d_nodes d))" "d_document d' = d_document d"
    "node_at d' = (node_at d)(n \<mapsto> \<lparr>nd_id = n, nd_parent = None, nd_children = [], nd_kind = k,
       nd_owner = d_document d\<rparr>)"
proof -
  let ?x = "\<lparr>nd_id = n, nd_parent = None, nd_children = [], nd_kind = k, nd_owner = d_document d\<rparr>"
  from assms have n: "n = length (d_nodes d)" and nodes: "d_nodes d' = d_nodes d @ [?x]"
    and doc: "d_document d' = d_document d"
    by (auto simp: allocate_def Let_def)
  then show "n = length (d_nodes d)" "length (d_nodes d') = Suc (length (d_nodes d))"
    "d_document d' = d_document d" by simp_all
  have at: "node_at d' = (node_at d)(n \<mapsto> ?x)"
    by (auto simp: fun_eq_iff node_at_def nodes n nth_append)
  then show "node_at d' = (node_at d)(n \<mapsto> ?x)" .
  have "node_at d n = None" by (simp add: node_at_def n)
  with at show "parent_of d' = parent_of d" "kids d' = kids d"
    by (auto simp: fun_eq_iff parent_of_def kids_alt)
  from at show "kind_opt d' = (kind_opt d)(n \<mapsto> k)" "class_of d' = (class_of d)(n \<mapsto> class_of_kind k)"
    by (auto simp: fun_eq_iff kind_opt_def class_of_def)
qed

lemma allocate_wf:
  assumes "dom_wf d"
  shows "dom_wf (snd (allocate k d))"
proof -
  obtain n d' where a: "allocate k d = (n, d')" by fastforce
  note v = allocate_views [OF a]
  have old: "class_at d' m = class_at d m" if "m < length (d_nodes d)" for m
    using that by (simp add: class_at_def v(1,5))
  have range: "m < length (d_nodes d)" if "class_of d m = Some c" for m c
    using that by (auto simp: class_of_alt node_at_def split: if_splits)
  have kid: "c < length (d_nodes d)" if "c \<in> set (kids d m)" for c m
    using that assms by (metis dom_wf_tree parent_in_arena tree_ok_parent)
  have "kids d n = []" by (auto simp: kids_alt node_at_def v(1))
  have "tree_ok d'" using dom_wf_tree [OF assms] v(2,3) by (rule tree_ok_links)
  moreover have "kinds_ok d'"
    unfolding kinds_ok_def v(2,3,7)
  proof (intro conjI allI impI)
    have "class_of d (d_document d) = Some CDocument" using assms by (simp add: dom_wf_def kinds_ok_def)
    with range [OF this] show "class_of d' (d_document d) = Some CDocument" by (simp add: v(1,5))
    show "child_allowed (class_at d' p) (class_at d' c)" if "parent_of d c = Some p" for c p
    proof -
      have "c < length (d_nodes d)" "p < length (d_nodes d)"
        using that up_in_arena [OF dom_wf_tree [OF assms]] by (auto simp: up_def)
      with that assms show ?thesis by (simp add: old dom_wf_def kinds_ok_def)
    qed
    show "document_children_ok (map (class_at d') (kids d m))" if "class_of d' m = Some CDocument" for m
    proof (cases "m = n")
      case False
      then have "class_of d m = Some CDocument" using that by (simp add: v(5))
      moreover have "map (class_at d') (kids d m) = map (class_at d) (kids d m)"
        using kid old by simp
      moreover have "document_children_ok (map (class_at d) (kids d m))"
        using assms calculation(1) by (simp add: dom_wf_def kinds_ok_def)
      ultimately show ?thesis by (simp only:)
    qed (simp add: \<open>kids d n = []\<close>)
  qed
  ultimately show ?thesis using a by (simp add: dom_wf_def)
qed

end
