(* ===== verification/DomOperations.thy ===== *)
theory DomOperations
  imports DomWellformed
begin

text \<open>
  The operations of the crate as steps a caller can take, the documents they lead to, and the
  operations that leave the skeleton of the document as it is.
\<close>

definition keeps :: "(dom \<Rightarrow> bool) \<Rightarrow> 'a dom_step \<Rightarrow> bool" where
  "keeps I m \<longleftrightarrow> (\<forall>d. I d \<longrightarrow> I (snd (m d)))"

named_theorems keeps_rules \<open>steps that keep an invariant of the skeleton\<close>

subsection \<open>Operations\<close>

text \<open>Making a node, as a step that cannot fail.\<close>

definition made :: "(dom \<Rightarrow> node_id \<times> dom) \<Rightarrow> unit dom_step" where
  "made f d = (Inr (), snd (f d))"

definition void :: "'a dom_step \<Rightarrow> unit dom_step" where
  "void m = and_do m (\<lambda>_. ok ())"

datatype make_op =
    CreateElement namespace "str option" str
  | CreateHtmlElement str
  | CreateText str
  | CreateComment str
  | CreateInstruction str str
  | CreateDoctype str str str
  | CreateFragment
  | CreateDocument str

fun make_apply :: "make_op \<Rightarrow> unit dom_step" where
  "make_apply (CreateElement ns p l) = made (create_element_qualified ns p l)"
| "make_apply (CreateHtmlElement l) = made (create_element l)"
| "make_apply (CreateText s) = made (create_text s)"
| "make_apply (CreateComment s) = made (create_comment s)"
| "make_apply (CreateInstruction t s) = made (create_processing_instruction t s)"
| "make_apply (CreateDoctype a b c) = made (create_document_type a b c)"
| "make_apply CreateFragment = made create_document_fragment"
| "make_apply (CreateDocument t) = made (create_document t)"

datatype tree_op =
    InsertBefore node_id node_id "node_id option"
  | RemoveChild node_id node_id
  | AppendText node_id str
  | AdoptNode node_id node_id
  | SplitText node_id nat
  | Normalize node_id
  | CloneNode node_id bool
  | AttachShadow node_id shadow_mode bool slot_mode

fun tree_apply :: "tree_op \<Rightarrow> unit dom_step" where
  "tree_apply (InsertBefore p n r) = void (insert_before p n r)"
| "tree_apply (RemoveChild p n) = void (remove_child p n)"
| "tree_apply (AppendText p s) = void (append_text p s)"
| "tree_apply (AdoptNode doc n) = adopt_node doc n"
| "tree_apply (SplitText n i) = void (split_text n i)"
| "tree_apply (Normalize n) = normalize n"
| "tree_apply (CloneNode n deep) = void (clone_node n deep)"
| "tree_apply (AttachShadow h m f s) = void (attach_shadow h m f s)"

datatype data_op =
    SetAttribute node_id str str
  | SetAttributeNs node_id "str option" "str option" str str
  | RemoveAttribute node_id str
  | RemoveAttributeNs node_id "str option" str
  | ReplaceData node_id nat nat str
  | SetCharacterData node_id str
  | AssignSlot node_id "node_id list"
  | SetFormOwner node_id node_id node_id
  | ClearFormOwners node_id
  | SetFocus "node_id option"
  | SetImage node_id image_state
  | SetCapacity nat

fun data_apply :: "data_op \<Rightarrow> unit dom_step" where
  "data_apply (SetAttribute n a v) = set_attribute n a v"
| "data_apply (SetAttributeNs n ns p a v) = set_attribute_ns n ns p a v"
| "data_apply (RemoveAttribute n a) = remove_attribute n a"
| "data_apply (RemoveAttributeNs n ns a) = remove_attribute_ns n ns a"
| "data_apply (ReplaceData n i c s) = replace_data n i c s"
| "data_apply (SetCharacterData n s) = set_character_data n s"
| "data_apply (AssignSlot s ns) = assign_slot_nodes s ns"
| "data_apply (SetFormOwner e f p) = upd (\<lambda>d. snd (set_parser_inserted_form_owner e f p d))"
| "data_apply (ClearFormOwners n) = upd (clear_parser_inserted_form_owners n)"
| "data_apply (SetFocus n) = void (set_focused_element n)"
| "data_apply (SetImage n s) = upd (set_image_state n s)"
| "data_apply (SetCapacity c) = upd (set_mutation_journal_capacity c)"

datatype range_op =
    CreateLiveRange node_id
  | CreateStaticRange boundary_point boundary_point
  | CloneRange range_id
  | SetRangeStart range_id node_id nat
  | SetRangeEnd range_id node_id nat
  | SetStartBefore range_id node_id
  | SetStartAfter range_id node_id
  | SetEndBefore range_id node_id
  | SetEndAfter range_id node_id
  | CollapseRange range_id bool
  | SelectNode range_id node_id
  | SelectNodeContents range_id node_id
  | InsertNode range_id node_id
  | DeleteContents range_id
  | ExtractContents range_id
  | CloneContents range_id
  | SurroundContents range_id node_id

fun range_apply :: "range_op \<Rightarrow> unit dom_step" where
  "range_apply (CreateLiveRange n) = void (create_live_range n)"
| "range_apply (CreateStaticRange p q) = void (create_static_range p q)"
| "range_apply (CloneRange r) = void (range_clone r)"
| "range_apply (SetRangeStart r n i) = range_set_start r n i"
| "range_apply (SetRangeEnd r n i) = range_set_end r n i"
| "range_apply (SetStartBefore r n) = range_set_start_before r n"
| "range_apply (SetStartAfter r n) = range_set_start_after r n"
| "range_apply (SetEndBefore r n) = range_set_end_before r n"
| "range_apply (SetEndAfter r n) = range_set_end_after r n"
| "range_apply (CollapseRange r b) = range_collapse r b"
| "range_apply (SelectNode r n) = range_select_node r n"
| "range_apply (SelectNodeContents r n) = range_select_node_contents r n"
| "range_apply (InsertNode r n) = range_insert_node r n"
| "range_apply (DeleteContents r) = range_delete_contents r"
| "range_apply (ExtractContents r) = void (range_extract_contents r)"
| "range_apply (CloneContents r) = void (range_clone_contents r)"
| "range_apply (SurroundContents r n) = range_surround_contents r n"

datatype select_op =
    SelectionCollapse node_id "node_id option" nat
  | SelectionCollapseTo node_id bool
  | SelectionExtend node_id node_id nat
  | SelectionSetBase node_id boundary_point boundary_point
  | SelectAllChildren node_id node_id
  | SelectionAdd node_id range_id
  | SelectionRemove node_id range_id
  | SelectionClear node_id
  | SelectionDelete node_id

fun select_apply :: "select_op \<Rightarrow> unit dom_step" where
  "select_apply (SelectionCollapse doc n i) = selection_collapse doc n i"
| "select_apply (SelectionCollapseTo doc b) = selection_collapse_to doc b"
| "select_apply (SelectionExtend doc n i) = selection_extend doc n i"
| "select_apply (SelectionSetBase doc p q) = selection_set_base_and_extent doc p q"
| "select_apply (SelectAllChildren doc n) = selection_select_all_children doc n"
| "select_apply (SelectionAdd doc r) = selection_add_range doc r"
| "select_apply (SelectionRemove doc r) = selection_remove_range doc r"
| "select_apply (SelectionClear doc) = selection_remove_all_ranges doc"
| "select_apply (SelectionDelete doc) = selection_delete_from_document doc"

datatype dom_op = Make make_op | Tree tree_op | Data data_op | Ranges range_op | Select select_op

fun dom_apply :: "dom_op \<Rightarrow> unit dom_step" where
  "dom_apply (Make x) = make_apply x"
| "dom_apply (Tree x) = tree_apply x"
| "dom_apply (Data x) = data_apply x"
| "dom_apply (Ranges x) = range_apply x"
| "dom_apply (Select x) = select_apply x"

inductive dom_reachable :: "dom \<Rightarrow> bool" where
  start: "dom_reachable dom_new"
| step: "dom_reachable d \<Longrightarrow> dom_reachable (snd (dom_apply x d))"
| graft: "dom_reachable d \<Longrightarrow> dom_reachable other \<Longrightarrow> dom_reachable (snd (graft_document other d))"

subsection \<open>Silent operations\<close>

lemma silent_set_focused_element [silent_rules]: "silent (set_focused_element n)"
  by (auto simp: silent_def set_focused_element_def journal_view_def intro!: same_skeleton_tables
      split: option.split sum.split bool.split)

lemma silent_select [silent_rules]:
  "silent (set_selection_range doc dir r)" "silent (empty_selection doc)" "silent (select doc s e dir)"
  unfolding set_selection_range_def empty_selection_def select_def
  by (auto intro!: silent_rules same_skeleton_tables simp: journal_view_def)

lemma silent_case_option [silent_rules]:
  "silent a \<Longrightarrow> (\<And>x. silent (b x)) \<Longrightarrow> silent (case v of None \<Rightarrow> a | Some x \<Rightarrow> b x)"
  by (cases v) simp_all

lemma silentI: "(\<And>d. same_skeleton d (snd (m d))) \<Longrightarrow> silent m"
  by (simp add: silent_def)

lemma silent_selection [silent_rules]:
  "silent (selection_collapse doc n i)" "silent (selection_collapse_to doc b)"
  "silent (selection_extend doc n' i)" "silent (selection_set_base_and_extent doc p q)"
  "silent (selection_select_all_children doc n')" "silent (selection_add_range doc r)"
  "silent (selection_remove_range doc r)" "silent (selection_remove_all_ranges doc)"
proof -
  show "silent (selection_collapse doc n i)"
    unfolding selection_collapse_def by (intro silent_rules)
  show "silent (selection_remove_all_ranges doc)"
    unfolding selection_remove_all_ranges_def by (intro silent_rules)
  have sel: "same_skeleton d (snd (select doc s e dir d))" for s e dir d
    by (rule silentD) (rule silent_rules)
  have stepped: "same_skeleton d (snd (and_do (look f) (\<lambda>p. select doc p p Forwards) d))" for f d
    by (rule silentD) (intro silent_rules)
  show "silent (selection_collapse_to doc b)"
    unfolding selection_collapse_to_def
    by (intro silent_rules silentI) (auto simp: stepped split: option.split)
  show "silent (selection_extend doc n' i)"
    unfolding selection_extend_def
    by (intro silent_rules silentI) (auto simp: sel split: prod.split)
  show "silent (selection_set_base_and_extent doc p q)"
    unfolding selection_set_base_and_extent_def
    by (intro silent_and_do silent_basic silentI) (auto simp: sel split: prod.split)
  show "silent (selection_select_all_children doc n')"
    unfolding selection_select_all_children_def
    by (intro silent_and_do silent_basic silentI) (auto simp: sel)
  show "silent (selection_remove_range doc r)"
    unfolding selection_remove_range_def
    by (intro silent_and_do silent_basic silentI) (auto simp: silentD [OF silent_select(2)])
  have add: "same_skeleton d (snd (and_do (look f) (\<lambda>s. and_do (look g) (\<lambda>e d.
      if P d s e then (Inr (), d) else set_selection_range doc Forwards r d)) d))" for f g P d
    by (rule silentD, intro silent_and_do silent_basic silentI) (auto simp: silentD [OF silent_select(1)])
  show "silent (selection_add_range doc r)"
    unfolding selection_add_range_def
    by (intro silent_and_do silent_basic silentI) (use add in \<open>auto split: option.split\<close>)
qed

lemma silent_modify_range_step:
  "silent (range_select_node r n)" "silent (range_select_node_contents r n)"
proof -
  show "silent (range_select_node r n)"
    unfolding range_select_node_def by (intro silent_rules) (auto intro: silent_rules split: prod.split)
  show "silent (range_select_node_contents r n)"
    unfolding range_select_node_contents_def
    by (intro silent_and_do silent_basic silentI) (simp add: silentD [OF silent_modify_range])
qed

lemma clear_form_owners_loop_skeleton: "same_skeleton d (clear_form_owners_loop k ns d)"
  by (induction k ns d rule: clear_form_owners_loop.induct)
     (auto simp: Let_def intro: same_skeleton_trans [OF same_skeleton_element])

lemma form_owner_writes_skeleton:
  "same_skeleton d (snd (set_parser_inserted_form_owner e f p d))"
  "same_skeleton d (clear_parser_inserted_form_owners n d)"
  "same_skeleton d (set_image_state n s d)" "same_skeleton d (set_mutation_journal_capacity c d)"
proof -
  show "same_skeleton d (snd (set_parser_inserted_form_owner e f p d))"
    by (auto simp: set_parser_inserted_form_owner_def same_skeleton_element split: option.split)
  show "same_skeleton d (clear_parser_inserted_form_owners n d)"
    by (simp add: clear_parser_inserted_form_owners_def clear_form_owners_loop_skeleton)
  show "same_skeleton d (set_image_state n s d)"
    by (rule same_skeleton_tables) (simp_all add: set_image_state_def journal_view_def)
  show "same_skeleton d (set_mutation_journal_capacity c d)"
    using later_capacity [of d c] by (intro same_skeleton_nodes) (simp_all add: set_mutation_journal_capacity_def)
qed



end
