(* ===== verification/DomKeeps.thy ===== *)
theory DomKeeps
  imports DomOperations
begin

text \<open>
  The locale \<open>skeleton_invariant\<close> lists what a property of the skeleton must survive: changes outside
  the skeleton, a fresh node, an insertion and a removal.  Every operation of the crate then keeps it.
\<close>

subsection \<open>Invariants of the skeleton\<close>

locale skeleton_invariant =
  fixes I :: "dom \<Rightarrow> bool"
  assumes same: "same_skeleton d d' \<Longrightarrow> I d \<Longrightarrow> I d'"
    and alloc: "I d \<Longrightarrow> I (snd (allocate k d))"
    and insert: "I d \<Longrightarrow> I (snd (insert_before p n r d))"
    and remove: "I d \<Longrightarrow> I (snd (remove_child p n d))"
begin

lemma keepsI: "(\<And>d. I d \<Longrightarrow> I (snd (m d))) \<Longrightarrow> keeps I m"
  by (simp add: keeps_def)

lemma keepsD: "keeps I m \<Longrightarrow> I d \<Longrightarrow> I (snd (m d))"
  by (simp add: keeps_def)

lemma keeps_silent: "silent m \<Longrightarrow> keeps I m"
  by (auto simp: keeps_def silent_def intro: same)

lemma keeps_and_do [keeps_rules]:
  assumes "keeps I m" "\<And>a. keeps I (k a)"
  shows "keeps I (and_do m k)"
proof (rule keepsI)
  fix d assume "I d"
  then have "I (snd (m d))" using assms(1) by (rule keepsD [rotated])
  then show "I (snd (and_do m k d))"
    using assms(2) by (cases "m d") (auto simp: and_do_def keeps_def split: sum.split)
qed

lemma keeps_basic [keeps_rules]: "keeps I (ok a)" "keeps I (look f)" "keeps I (\<lambda>d. (g d, d))"
  by (simp_all add: keeps_def)

lemma keeps_if [keeps_rules]: "keeps I m \<Longrightarrow> keeps I m' \<Longrightarrow> keeps I (if b then m else m')"
  by simp

lemma keeps_silents [keeps_rules]:
  "keeps I (record_mutations ms)" "keeps I (replace_data n off cnt s)"
  "keeps I (adopt_subtree n doc)" "keeps I (modify_range r f)" "keeps I (set_both r q)"
  "keeps I (range_select_node r n)"
  by (rule keeps_silent, intro silent_rules silent_modify_range_step)+

lemma keeps_insert [keeps_rules]: "keeps I (insert_before p n r)" "keeps I (append_child p n)"
  by (auto simp: keeps_def append_child_def intro: insert)

lemma keeps_remove [keeps_rules]: "keeps I (remove_child p n)"
  by (auto simp: keeps_def intro: remove)

lemma keeps_element: "I d \<Longrightarrow> I (modify_element n f d)"
  by (rule same [OF same_skeleton_element])

lemma keeps_owner: "I d \<Longrightarrow> I (set_node_document n doc d)"
  by (rule same [OF same_skeleton_owner])

lemma keeps_create:
  assumes "I d"
  shows "I (snd (create_document_fragment d))" "I (snd (create_document_type a b c d))"
    "I (snd (create_text s d))" "I (snd (create_comment s d))"
    "I (snd (create_processing_instruction t s d))" "I (snd (create_element_qualified ns q l d))"
    "I (snd (create_element l d))" "I (snd (create_document ct d))"
proof -
  show "I (snd (create_document_fragment d))" "I (snd (create_document_type a b c d))"
    "I (snd (create_text s d))" "I (snd (create_comment s d))"
    "I (snd (create_processing_instruction t s d))"
    using assms alloc
    by (simp_all add: create_document_fragment_def create_document_type_def create_text_def
        create_comment_def create_processing_instruction_def)
  have new: "I (snd (new_element_data ns q l d))" for ns q l
    using assms alloc [OF assms, of DocumentFragment]
    by (auto simp: new_element_data_def create_document_fragment_def Let_def split: prod.split)
  have elem: "I (snd (let (e, d') = new_element_data ns q l d in allocate (Element e) d'))" for ns q l
    using new [of ns q l] alloc by (auto split: prod.split)
  show "I (snd (create_element_qualified ns q l d))" "I (snd (create_element l d))"
    using elem by (simp_all add: create_element_qualified_def create_element_def)
  obtain n d1 where a: "allocate Document d = (n, d1)" by fastforce
  then have "I (set_node_document n n d1)" using alloc [OF assms, of Document] keeps_owner by simp
  then show "I (snd (create_document ct d))"
    using a by (auto simp: create_document_def Let_def journal_view_def intro: same [OF same_skeleton_tables, rotated 3])
qed

lemma created: "f d = (c, d') \<Longrightarrow> I (snd (f d)) \<Longrightarrow> I d'"
  by simp

lemma keeps_adopt_node: "keeps I (adopt_node doc n)"
proof -
  have "keeps I (and_do (remove_child p n) (\<lambda>_. ok ()))" for p by (intro keeps_rules)
  then have "keeps I (\<lambda>d. case parent_of d n of None \<Rightarrow> (Inr (), d)
      | Some p \<Rightarrow> and_do (remove_child p n) (\<lambda>_. ok ()) d)"
    by (auto simp: keeps_def split: option.split)
  then show ?thesis unfolding adopt_node_def by (intro keeps_rules)
qed

lemma keeps_append_text: "keeps I (append_text p s)"
proof -
  have fresh: "I (snd (let (t, d1) = create_text s d in and_do (append_child p t) (\<lambda>_. ok t) d1))" if "I d" for d
    using keepsD [OF keeps_and_do [OF keeps_insert(2) keeps_basic(1)]] keeps_create(3) [OF that, of s]
    by (auto split: prod.split)
  have grow: "I (snd (and_do (upd (set_kind c (Text (x @ s)))) (\<lambda>_. and_do (record_mutations ms) (\<lambda>_. ok c)) d))"
    if "I d" "kind_of d c = Inr (Text x)" for d c x ms
  proof -
    have "same_skeleton d (set_kind c (Text (x @ s)) d)"
      using that(2) unfolding set_kind_def
      by (intro same_skeleton_modify_node) (auto simp: kind_of_Inr kind_opt_def)
    then have "I (set_kind c (Text (x @ s)) d)" using that(1) by (rule same)
    then show ?thesis
      using keepsD [OF keeps_and_do [OF keeps_silents(1) keeps_basic(1)]]
      by (simp add: and_do_def [of "upd f" for f])
  qed
  show ?thesis
    unfolding append_text_def
    by (intro keeps_rules keepsI)
       (auto simp: Let_def fresh [unfolded Let_def] grow split: sum.split node_kind.split)
qed

lemma keeps_split_text: "keeps I (split_text n off)"
proof -
  have step: "keeps I (\<lambda>d. case parent_of d n of None \<Rightarrow> (Inr (), d) | Some parent \<Rightarrow>
      let index = index_or_zero d n; nxt = next_sibling d n in
      and_do (insert_before parent t nxt) (\<lambda>_. upd (update_ranges_for_split_text n t parent off index)) d)" for t
  proof (rule keepsI)
    fix d assume I: "I d"
    have "keeps I (upd (update_ranges_for_split_text n t parent off index))" for parent index
      by (rule keeps_silent, rule silent_upd) (simp add: update_ranges_for_split_text_def)
    then have "keeps I (and_do (insert_before parent t nxt) (\<lambda>_. upd (update_ranges_for_split_text n t parent off index)))"
      for parent nxt index by (intro keeps_rules)
    then show "I (snd (case parent_of d n of None \<Rightarrow> (Inr (), d) | Some parent \<Rightarrow>
      let index = index_or_zero d n; nxt = next_sibling d n in
      and_do (insert_before parent t nxt) (\<lambda>_. upd (update_ranges_for_split_text n t parent off index)) d))"
      using I by (auto simp: Let_def keeps_def split: option.split)
  qed
  have "keeps I (and_do (\<lambda>d. case parent_of d n of None \<Rightarrow> (Inr (), d) | Some parent \<Rightarrow>
      let index = index_or_zero d n; nxt = next_sibling d n in
      and_do (insert_before parent t nxt) (\<lambda>_. upd (update_ranges_for_split_text n t parent off index)) d)
      (\<lambda>_. and_do (replace_data n off c []) (\<lambda>_. ok t)))" for t c
    by (intro keeps_rules step)
  then show ?thesis
    unfolding split_text_def
    by (intro keeps_and_do keeps_basic keepsI)
       (auto simp: Let_def keeps_def dest: created intro: keeps_create(3) split: prod.split)
qed

lemma keeps_remove_all [keeps_rules]: "keeps I (remove_all p ns)"
  by (induction ns) (auto intro: keeps_rules)

lemma keeps_normalize_node: "keeps I (normalize_node n)"
proof -
  have merge: "same_skeleton d (merge_ranges n p i len ns d)" for p i len ns d
    by (induction ns arbitrary: i len d)
       (auto simp: update_ranges_for_merge_def intro: same_skeleton_trans [OF same_skeleton_frame(1)])
  have "keeps I (and_do (replace_data n len 0 t) (\<lambda>_. and_do (upd (merge_ranges n p i len ns)) (\<lambda>_. remove_all p ns)))"
    for len t p i ns
    by (intro keeps_rules keeps_silent [OF silent_upd] merge)
  then have "keeps I (and_do (look f) (\<lambda>t d. let len = node_length d n in
      and_do (replace_data n len 0 t) (\<lambda>_. and_do (upd (merge_ranges n p i len ns)) (\<lambda>_. remove_all p ns)) d))"
    for f p i ns
    by (intro keeps_rules keepsI) (simp add: Let_def keeps_def)
  moreover have "keeps I (and_do (remove_child p n) (\<lambda>_. ok ()))" for p by (intro keeps_rules)
  ultimately show ?thesis
    by (intro keepsI) (auto simp: normalize_node_def keeps_def Let_def split: option.split)
qed

lemma keeps_normalize: "keeps I (normalize n)"
proof -
  have "keeps I (normalize_all ns)" for ns
    by (induction ns) (auto intro: keeps_rules keeps_normalize_node)
  then show ?thesis
    unfolding normalize_def by (intro keeps_and_do keeps_basic keepsI) (simp add: keeps_def)
qed

lemma keeps_clone_one [keeps_rules]: "keeps I (clone_one n)"
proof -
  have elem: "I (snd (clone_element e d))" if "I d" for e d
  proof -
    obtain c d1 where c: "create_element_qualified (el_namespace e) (el_prefix e) (el_local e) d = (c, d1)"
      by fastforce
    then have "I d1" using keeps_create(6) [OF that] by (rule created)
    then have "I (index_named c (modify_element c f d1))" for f
      by (intro same [OF same_skeleton_frame(2)] keeps_element)
    with c show ?thesis by (simp add: clone_element_def Let_def)
  qed
  have "keeps I (clone_kind n k)" for k
    by (rule keepsI, cases k)
       (simp_all add: clone_kind_def case_prod_unfold Let_def elem keeps_create)
  then show ?thesis
    unfolding clone_one_def
    by (intro keeps_and_do keeps_basic(2), assumption?) (auto simp: keeps_def keeps_owner)
qed

lemma keeps_clone_loop:
  assumes "\<And>target ns. keeps I (clone_into k target ns)"
  shows "keeps I (clone_loop k n deep)"
proof -
  have eq: "clone_loop k n deep = and_do (clone_one n) (\<lambda>copy d.
     if \<not> deep then (Inr copy, d)
     else and_do (\<lambda>d. case (template_contents d n, template_contents d copy) of
              (Some source_contents, Some copy_contents) \<Rightarrow> clone_into k copy_contents (kids d source_contents) d
            | _ \<Rightarrow> (Inr (), d)) (\<lambda>_.
          and_do (\<lambda>d. clone_into k copy (kids d n) d) (\<lambda>_. ok copy)) d)"
    by (rule ext) simp
  have first: "keeps I (\<lambda>d. case (template_contents d n, template_contents d copy) of
      (Some source_contents, Some copy_contents) \<Rightarrow> clone_into k copy_contents (kids d source_contents) d
    | _ \<Rightarrow> (Inr (), d))" for copy
    using assms by (auto simp: keeps_def split: option.split)
  have second: "keeps I (\<lambda>d. clone_into k copy (kids d n) d)" for copy
    using assms by (auto simp: keeps_def)
  have "keeps I (and_do (\<lambda>d. case (template_contents d n, template_contents d copy) of
              (Some source_contents, Some copy_contents) \<Rightarrow> clone_into k copy_contents (kids d source_contents) d
            | _ \<Rightarrow> (Inr (), d)) (\<lambda>_.
          and_do (\<lambda>d. clone_into k copy (kids d n) d) (\<lambda>_. ok copy)))" for copy
    by (intro keeps_rules first second)
  then show ?thesis
    unfolding eq by (intro keeps_rules) (auto simp: keeps_def)
qed

lemma keeps_clone_into: "keeps I (clone_into k target ns)"
proof (induction k arbitrary: target ns)
  case 0
  then show ?case by (cases ns) (auto simp: keeps_def)
next
  case (Suc k)
  show ?case
  proof (induction ns)
    case (Cons n ns)
    have "clone_into (Suc k) target (n # ns) = and_do (clone_loop k n True) (\<lambda>child_copy.
        and_do (append_child target child_copy) (\<lambda>_. clone_into (Suc k) target ns))"
      by (rule ext) (simp del: clone_loop.simps)
    then show ?case
      by (simp only:) (intro keeps_rules keeps_clone_loop Suc.IH Cons.IH)
  qed (simp add: keeps_def)
qed

lemma keeps_clone_node [keeps_rules]: "keeps I (clone_node n deep)"
  unfolding clone_node_def keeps_def
  using keeps_clone_loop [OF keeps_clone_into] by (simp add: keeps_def del: clone_loop.simps)

lemma keeps_attach_shadow: "keeps I (attach_shadow h m f s)"
proof -
  define rest where "rest = (\<lambda>d. let (root, d1) = allocate (ShadowRoot \<lparr>sh_host = h, sh_mode = m,
               sh_delegates_focus = f, sh_slot_assignment = s\<rparr>) d;
             d2 = set_node_document root (owner_of d1 h) d1;
             d3 = modify_element h (\<lambda>e. e\<lparr>el_shadow_root := Some root\<rparr>) d2;
             d4 = d3\<lparr>d_shadow_roots := d_shadow_roots d3 + 1\<rparr>
         in and_do (record_mutations [ShadowRootAttached h]) (\<lambda>_. ok root) d4)"
  have "keeps I rest"
  proof (rule keepsI)
    fix d assume "I d"
    obtain root d1 where a: "allocate (ShadowRoot \<lparr>sh_host = h, sh_mode = m,
               sh_delegates_focus = f, sh_slot_assignment = s\<rparr>) d = (root, d1)" by fastforce
    define d3 where "d3 = modify_element h (\<lambda>e. e\<lparr>el_shadow_root := Some root\<rparr>)
      (set_node_document root (owner_of d1 h) d1)"
    have "I d1" using alloc [OF \<open>I d\<close>] a by (metis snd_conv)
    then have "I d3" unfolding d3_def by (intro keeps_element keeps_owner)
    then have "I (d3\<lparr>d_shadow_roots := d_shadow_roots d3 + 1\<rparr>)"
      by (rule same [OF same_skeleton_tables, rotated 3]) (simp_all add: journal_view_def)
    moreover have "keeps I (and_do (record_mutations [ShadowRootAttached h]) (\<lambda>_. ok root))"
      by (intro keeps_rules)
    ultimately show "I (snd (rest d))"
      by (simp add: rest_def a d3_def Let_def keeps_def)
  qed
  then have "keeps I (\<lambda>d. if \<not> v then (dom_not_supported e, d)
      else if b then (dom_invalid_state e', d) else rest d)" for v b e e'
    by (simp add: keeps_def)
  then show ?thesis
    unfolding attach_shadow_def rest_def by (intro keeps_and_do keeps_basic(2)) (simp split: prod.split)
qed

subsection \<open>Ranges that change the tree\<close>

lemma keeps_character_data_copy [keeps_rules]: "keeps I (character_data_copy n s)"
proof -
  have "keeps I (\<lambda>d. case k of
         ProcessingInstruction t _ \<Rightarrow> (let (c, d') = create_processing_instruction t s d in (Inr c, d'))
       | Comment _ \<Rightarrow> (let (c, d') = create_comment s d in (Inr c, d'))
       | Text _ \<Rightarrow> (let (c, d') = create_text s d in (Inr c, d'))
       | _ \<Rightarrow> (dom_invalid_node_type e, d))" for k e
    by (rule keepsI, cases k) (simp_all add: case_prod_unfold Let_def keeps_create)
  then show ?thesis
    unfolding character_data_copy_def
    by (intro keeps_and_do keeps_basic(2)) (auto simp: keeps_def keeps_owner)
qed

lemma keeps_fresh_fragment [keeps_rules]: "keeps I (fresh_fragment s)"
  by (rule keepsI) (simp add: fresh_fragment_def case_prod_unfold Let_def keeps_owner keeps_create)

lemma keeps_move_data [keeps_rules]: "keeps I (move_data f n s e)" "keeps I (copy_data f n s e)"
  unfolding move_data_def copy_data_def by (intro keeps_rules)+

lemma keeps_append_children [keeps_rules]: "keeps I (append_children t ns)"
  by (induction ns) (auto intro: keeps_rules)

lemma keeps_clone_children [keeps_rules]: "keeps I (clone_children t ns)"
  by (induction ns) (auto intro: keeps_rules)

lemma keeps_remove_attached [keeps_rules]: "keeps I (remove_attached ns)"
proof (induction ns)
  case (Cons n ns)
  have "keeps I (and_do (remove_child p n) (\<lambda>_. ok ()))" for p by (intro keeps_rules)
  then have "keeps I (\<lambda>d. case parent_of d n of None \<Rightarrow> (Inr (), d)
      | Some p \<Rightarrow> and_do (remove_child p n) (\<lambda>_. ok ()) d)"
    by (auto simp: keeps_def split: option.split)
  with Cons show ?case by (auto intro: keeps_and_do)
qed (auto intro: keeps_rules)

lemma keeps_delete_points [keeps_rules]: "keeps I (delete_points s e)"
proof -
  have cut: "keeps I (\<lambda>d. if P d then and_do (look (f d)) (\<lambda>cnt. replace_data n i cnt t) d else (Inr (), d))"
    for P f n i t
  proof (rule keepsI)
    fix d assume "I d"
    moreover have "keeps I (and_do (look (f d)) (\<lambda>cnt. replace_data n i cnt t))" by (intro keeps_rules)
    ultimately show "I (snd (if P d then and_do (look (f d)) (\<lambda>cnt. replace_data n i cnt t) d else (Inr (), d)))"
      by (simp add: keeps_def)
  qed
  have cut': "keeps I (\<lambda>d. if P d then replace_data n i c t d else (Inr (), d))" for P n i c t
    using keeps_silents(2) by (simp add: keeps_def)
  define tail where "tail ns p = and_do (\<lambda>d. if is_character_data d (bp_node s)
             then and_do (look (\<lambda>d. usize_sub (node_length d (bp_node s)) (bp_offset s)))
                    (\<lambda>cnt. replace_data (bp_node s) (bp_offset s) cnt []) d
             else (Inr (), d)) (\<lambda>_.
           and_do (remove_attached ns) (\<lambda>_.
           and_do (\<lambda>d. if is_character_data d (bp_node e)
             then replace_data (bp_node e) 0 (bp_offset e) [] d else (Inr (), d)) (\<lambda>_. ok p)))" for ns and p :: boundary_point
  have tail: "keeps I (tail ns p)" for ns p
    unfolding tail_def by (intro keeps_rules cut cut')
  have one: "keeps I (and_do (replace_data n i c t) (\<lambda>_. ok q))" for n i c t and q :: boundary_point
    by (intro keeps_rules)
  show ?thesis
    unfolding delete_points_def Let_def tail_def [symmetric]
    by (rule keepsI) (simp add: keepsD [OF tail] keepsD [OF one])
qed

lemma keeps_range_delete_contents: "keeps I (range_delete_contents r)"
  unfolding range_delete_contents_def by (intro keeps_rules)

lemma keeps_copy_partial:
  "keeps I rec \<Longrightarrow> keeps I (copy_partial rec fragment child)"
  unfolding copy_partial_def by (intro keeps_rules)

lemma keeps_take_first:
  fixes part :: "node_id \<Rightarrow> node_id \<Rightarrow> nat \<Rightarrow> nat \<Rightarrow> unit dom_step"
    and rec :: "boundary_point \<Rightarrow> boundary_point \<Rightarrow> node_id dom_step"
  assumes "\<And>f n i j. keeps I (part f n i j)" "\<And>s e. keeps I (rec s e)"
  shows "keeps I (take_first part rec s fragment child)"
proof (rule keepsI)
  fix d assume "I d"
  moreover have "keeps I (copy_partial (\<lambda>d. rec s (point first (node_length d first)) d) fragment first)" for first
    by (rule keeps_copy_partial) (use assms(2) in \<open>simp add: keeps_def\<close>)
  ultimately show "I (snd (take_first part rec s fragment child d))"
    using assms(1) by (auto simp: take_first_def keeps_def split: option.split)
qed

lemma keeps_take_last:
  fixes part :: "node_id \<Rightarrow> node_id \<Rightarrow> nat \<Rightarrow> nat \<Rightarrow> unit dom_step"
    and rec :: "boundary_point \<Rightarrow> boundary_point \<Rightarrow> node_id dom_step"
  assumes "\<And>f n i j. keeps I (part f n i j)" "\<And>s e. keeps I (rec s e)"
  shows "keeps I (take_last part rec e fragment child)"
proof (rule keepsI)
  fix d assume "I d"
  moreover have "keeps I (copy_partial (rec (point lst 0) e) fragment lst)" for lst
    by (rule keeps_copy_partial) (rule assms(2))
  ultimately show "I (snd (take_last part rec e fragment child d))"
    using assms(1) by (auto simp: take_last_def keeps_def split: option.split)
qed

lemma keeps_extract_shape:
  "(\<And>s e. keeps I (rec s e)) \<Longrightarrow> keeps I (extract_shape rec s e f sh p)"
  "(\<And>s e. keeps I (rec s e)) \<Longrightarrow> keeps I (clone_shape rec s e f sh)"
  unfolding extract_shape_def clone_shape_def by (intro keeps_rules keeps_take_first keeps_take_last; assumption)+

lemma keeps_extract_points: "keeps I (extract_points k s e)"
proof (induction k arbitrary: s e)
  case 0
  then show ?case by (simp add: keeps_def)
next
  case (Suc k)
  have "keeps I (and_do (extract_points k s e) (\<lambda>(inner, _). ok inner))" for s e
    by (intro keeps_and_do Suc.IH) (auto intro: keeps_rules split: prod.split)
  then have "keeps I (extract_shape (\<lambda>s e. and_do (extract_points k s e) (\<lambda>(inner, _). ok inner)) s e f sh p)"
    for s e f sh p
    by (rule keeps_extract_shape)
  moreover have "keeps I (and_do (move_data f n i j) (\<lambda>_. ok (f, s)))" for f n i j and s :: boundary_point
    by (intro keeps_rules)
  ultimately have "keeps I (\<lambda>d. if s = e then (Inr (f, s), d)
     else if bp_node s = bp_node e \<and> is_character_data d (bp_node s)
     then and_do (move_data f (bp_node s) (bp_offset s) (bp_offset e)) (\<lambda>_. ok (f, s)) d
     else extract_shape (\<lambda>s e. and_do (extract_points k s e) (\<lambda>(inner, _). ok inner)) s e f
            (shape_of d s e) (boundary_after_delete d s e) d)" for f
    by (simp add: keeps_def)
  then show ?case
    unfolding extract_points.simps by (intro keeps_and_do keeps_fresh_fragment)
qed

lemma keeps_clone_points: "keeps I (clone_points k s e)"
proof (induction k arbitrary: s e)
  case 0
  then show ?case by (simp add: keeps_def)
next
  case (Suc k)
  have "keeps I (clone_shape (clone_points k) s e f sh)" for s e f sh
    by (rule keeps_extract_shape) (rule Suc.IH)
  moreover have "keeps I (and_do (copy_data f n i j) (\<lambda>_. ok f))" for f n i j
    by (intro keeps_rules)
  ultimately show ?case
    by (auto intro!: keeps_and_do keeps_rules) (auto simp: keeps_def)
qed

lemma keeps_range_contents [keeps_rules]:
  "keeps I (range_extract_contents r)" "keeps I (range_clone_contents r)"
proof -
  have "keeps I (\<lambda>d. extract_points (length (d_nodes d) + 1) s e d)"
    "keeps I (\<lambda>d. clone_points (length (d_nodes d) + 1) s e d)" for s e
    by (auto simp: keeps_def simp del: extract_points.simps clone_points.simps
        intro: keepsD [OF keeps_extract_points] keepsD [OF keeps_clone_points])
  then show "keeps I (range_extract_contents r)" "keeps I (range_clone_contents r)"
    unfolding range_extract_contents_def range_clone_contents_def
    by (auto intro!: keeps_rules split: prod.split)
qed

lemma keeps_range_insert_node [keeps_rules]: "keeps I (range_insert_node r n)"
proof -
  have "keeps I (and_do (remove_child p n) (\<lambda>_. ok ()))" for p by (intro keeps_rules)
  then have leave: "keeps I (\<lambda>d. case parent_of d n of None \<Rightarrow> (Inr (), d)
      | Some p \<Rightarrow> and_do (remove_child p n) (\<lambda>_. ok ()) d)"
    by (auto simp: keeps_def split: option.split)
  have "keeps I (place_node r n t s parent reference)" for t s parent reference
    unfolding place_node_def by (intro keeps_rules leave keeps_split_text)
  then have "keeps I (\<lambda>d.
       let text = is_text_node d (bp_node s);
           reference = (if text then Some (bp_node s)
                        else if bp_offset s < length (kids d (bp_node s))
                        then Some (kids d (bp_node s) ! bp_offset s) else None)
       in case (case reference of Some child \<Rightarrow> parent_of d child | None \<Rightarrow> Some (bp_node s)) of
            None \<Rightarrow> (e, d) | Some parent \<Rightarrow> place_node r n text s parent reference d)" for s e
    unfolding keeps_def Let_def by (metis (no_types, lifting) option.case_eq_if snd_conv)
  then show ?thesis
    unfolding range_insert_node_def by (intro keeps_and_do keeps_basic(2))
qed

lemma keeps_range_surround_contents: "keeps I (range_surround_contents r n)"
proof -
  have "keeps I (\<lambda>d. remove_all n (kids d n) d)"
    using keeps_remove_all by (simp add: keeps_def)
  then show ?thesis
    unfolding range_surround_contents_def Let_def by (intro keeps_rules)
qed

lemma keeps_selection_delete: "keeps I (selection_delete_from_document doc)"
proof -
  have "keeps I (case sr of None \<Rightarrow> and_do (look f) (\<lambda>_. ok ())
      | Some r \<Rightarrow> and_do (look (g r)) (\<lambda>c. if c then ok () else range_delete_contents r))" for sr f g
    by (cases sr) (auto intro: keeps_rules keeps_range_delete_contents)
  then show ?thesis
    unfolding selection_delete_from_document_def by (intro keeps_rules)
qed

subsection \<open>Every operation\<close>

lemma keeps_made: "(\<And>d. I d \<Longrightarrow> I (snd (f d))) \<Longrightarrow> keeps I (made f)"
  by (simp add: keeps_def made_def)

lemma keeps_void: "keeps I m \<Longrightarrow> keeps I (void m)"
  unfolding void_def by (intro keeps_rules)

lemmas keeps_all = keeps_void keeps_rules keeps_adopt_node keeps_append_text
  keeps_split_text keeps_normalize keeps_attach_shadow keeps_range_delete_contents
  keeps_range_surround_contents keeps_selection_delete

theorem keeps_dom_apply: "keeps I (dom_apply x)"
proof -
  have silent: "silent m \<Longrightarrow> keeps I m" "silent m \<Longrightarrow> keeps I (void m)" for m :: "unit dom_step"
    by (auto intro: keeps_silent keeps_void)
  have upd: "keeps I (upd f)" if "\<And>d. same_skeleton d (f d)" for f
    by (rule keeps_silent) (rule silent_upd, rule that)
  have "keeps I (make_apply y)" for y
    by (cases y) (auto intro!: keeps_made keeps_create)
  moreover have "keeps I (tree_apply y)" for y
    by (cases y) (auto intro!: keeps_all)
  moreover have "keeps I (data_apply y)" for y
    by (cases y) (auto intro!: silent silent_rules upd form_owner_writes_skeleton
        keeps_void [OF keeps_silent [OF silent_set_focused_element]])
  moreover have "keeps I (range_apply y)" for y
    by (cases y) (auto intro!: keeps_all intro: keeps_silent silent_rules silent_modify_range_step)
  moreover have "keeps I (select_apply y)" for y
    by (cases y) (auto intro!: keeps_selection_delete silent silent_rules)
  ultimately show ?thesis by (cases x) simp_all
qed

end

end
