(* ===== verification/DomReachable.thy ===== *)
theory DomReachable
  imports DomKeeps
begin

text \<open>
  The documents that the operations of the crate lead to are well formed, a node keeps its id, its
  class and its place in the arena for ever, and the log of mutations only grows.
\<close>

interpretation wf: skeleton_invariant dom_wf
  by unfold_locales (auto intro: dom_wf_same allocate_wf insert_before_wf remove_child_wf)

subsection \<open>The log of mutations\<close>

lemma journal_view_fold:
  "(\<And>x d. journal_view (f x d) = journal_view d) \<Longrightarrow> journal_view (fold f xs d) = journal_view d"
  by (induction xs arbitrary: d) simp_all

lemma journal_view_writes [simp]:
  "journal_view (modify_node n f d) = journal_view d" "journal_view (on_live_points g d) = journal_view d"
  "journal_view (detach_without_revision n d) = journal_view d" "journal_view (link_child p i n d) = journal_view d"
  by (simp_all add: journal_view_def detach_without_revision_def link_child_def Let_def on_live_points_def
      update_ranges_for_remove_def split: option.split)

lemma journal_view_link [simp]: "journal_view (link_children p i ns d) = journal_view d"
  by (induction ns arbitrary: i d) simp_all

lemma journal_view_insertion [simp]: "journal_view (insertion_detached d p k ns r) = journal_view d"
  by (simp add: insertion_detached_def journal_view_fold update_ranges_for_insert_def Let_def split: option.split)

lemma later_steps:
  assumes "\<And>d. later d (snd (m d))" "\<And>a d. later d (snd (k a d))"
  shows "later d (snd (and_do m k d))"
  using assms(1) [of d] assms(2)
  by (cases "m d"; cases "fst (m d)") (auto simp: and_do_def intro: later_trans)

lemma later_silent: "silent m \<Longrightarrow> later d (snd (m d))"
  using silentD by (auto simp: same_skeleton_def)

lemma later_upd: "(\<And>d. journal_view (f d) = journal_view d) \<Longrightarrow> later d (snd (upd f d))"
  by (simp add: later_view)

lemma later_insert_before: "later d (snd (insert_before p n r d))"
proof -
  have tail: "later d (snd (and_do (adopt_foreign doc ns) (\<lambda>_.
            and_do (look (\<lambda>d. insertion_index d p e)) (\<lambda>i.
            and_do (upd (link_children p i ns)) (\<lambda>_. and_do (record_mutations ms) (\<lambda>_. ok n)))) d))"
    for doc ns e ms d
    by (intro later_steps later_upd) (auto intro!: later_silent silent_rules)
  have "later d (snd (and_do (adopt_foreign doc ns) (\<lambda>_.
            and_do (look (\<lambda>d. insertion_index d p e)) (\<lambda>i.
            and_do (upd (link_children p i ns)) (\<lambda>_. and_do (record_mutations ms) (\<lambda>_. ok n))))
            (insertion_detached d p k ns' e)))" for doc ns ns' e ms k d
    using tail by (rule later_trans [OF later_view [OF journal_view_insertion]])
  then show ?thesis
    unfolding insert_before_def Let_def
    by (intro later_steps) (auto intro!: later_silent silent_rules)
qed

lemma later_remove_child: "later d (snd (remove_child p n d))"
proof -
  have "later d (snd (and_do (upd (detach_without_revision n)) (\<lambda>_.
            and_do (record_mutations ms) (\<lambda>_. ok n)) d))" for ms d
    by (intro later_steps later_upd) (auto intro!: later_silent silent_rules)
  then show ?thesis
    unfolding remove_child_def by (intro later_steps) (auto intro!: later_silent silent_rules)
qed

lemma later_allocate: "later d (snd (allocate k d))"
  by (rule later_view) (simp add: journal_view_def allocate_def Let_def)

subsection \<open>Growth\<close>

definition grown :: "dom \<Rightarrow> dom \<Rightarrow> bool" where
  "grown d0 d \<longleftrightarrow> dom_wf d \<and> length (d_nodes d0) \<le> length (d_nodes d) \<and> d_document d = d_document d0 \<and>
     (\<forall>n c. class_of d0 n = Some c \<longrightarrow> class_of d n = Some c) \<and> later d0 d"

lemma grown_refl: "dom_wf d \<Longrightarrow> grown d d"
  by (simp add: grown_def)

lemma grown_same_views:
  "grown d0 d \<Longrightarrow> dom_wf d' \<Longrightarrow> length (d_nodes d') = length (d_nodes d) \<Longrightarrow> d_document d' = d_document d \<Longrightarrow>
   class_of d' = class_of d \<Longrightarrow> later d d' \<Longrightarrow> grown d0 d'"
  by (auto simp: grown_def intro: later_trans)

interpretation grown: skeleton_invariant "grown d0" for d0
proof unfold_locales
  fix d d' assume "same_skeleton d d'" "grown d0 d"
  then show "grown d0 d'"
    using dom_wf_same [of d d'] by (auto simp: same_skeleton_def grown_def intro: later_trans)
next
  fix d k assume g: "grown d0 d"
  obtain n d' where a: "allocate k d = (n, d')" by fastforce
  have "class_of d n = None" by (simp add: class_of_alt node_at_def allocate_views(1) [OF a])
  with g show "grown d0 (snd (allocate k d))"
    using allocate_wf [of d k] allocate_views(5-7) [OF a] a later_allocate [of d k]
    by (auto simp: grown_def intro: later_trans)
next
  fix d p n r assume g: "grown d0 d"
  obtain res d' where run: "insert_before p n r d = (res, d')" by fastforce
  have wf: "dom_wf d" "dom_wf d'" using g insert_before_wf [of d p n r] run by (simp_all add: grown_def)
  have "length (d_nodes d') = length (d_nodes d) \<and> d_document d' = d_document d \<and> class_of d' = class_of d"
    using dom_wf_tree [OF wf(1)] run
    by (cases rule: insert_before_skeleton) (auto simp: moved_def detached_def)
  moreover have "later d d'" using later_insert_before [of d p n r] run by simp
  ultimately show "grown d0 (snd (insert_before p n r d))"
    using g wf(2) run by (auto intro: grown_same_views)
next
  fix d p n assume g: "grown d0 d"
  obtain res d' where run: "remove_child p n d = (res, d')" by fastforce
  have wf: "dom_wf d" "dom_wf d'" using g remove_child_wf [of d p n] run by (simp_all add: grown_def)
  have "length (d_nodes d') = length (d_nodes d) \<and> d_document d' = d_document d \<and> class_of d' = class_of d"
    using dom_wf_tree [OF wf(1)] run
    by (cases rule: remove_child_skeleton) (auto simp: detached_def)
  moreover have "later d d'" using later_remove_child [of d p n] run by simp
  ultimately show "grown d0 (snd (remove_child p n d))"
    using g wf(2) run by (auto intro: grown_same_views)
qed

subsection \<open>Grafting\<close>

lemma index_named_nodes: "d_nodes (fold index_named ns d) = d_nodes d" "d_document (fold index_named ns d) = d_document d"
  by (induction ns arbitrary: d) (auto simp: index_named_def split: option.split)

lemma graft_journal: "journal_view (snd (graft_document other d)) = journal_view d"
proof -
  have "journal_view (index_named n d) = journal_view d" for n d
    by (simp add: index_named_def journal_view_def split: option.split)
  then have "journal_view (fold index_named ns d) = journal_view d" for ns d by (rule journal_view_fold)
  then show ?thesis by (simp add: graft_document_def Let_def journal_view_def)
qed

lemma graft_views:
  assumes "graft_document other d = (n, d')"
  shows "d_nodes d' = d_nodes d @ map (shift_node (\<lambda>n. n + length (d_nodes d))) (d_nodes other)"
    "d_document d' = d_document d" "n = d_document other + length (d_nodes d)"
  using assms by (auto simp: graft_document_def Let_def index_named_nodes)

lemma class_of_shift: "class_of_kind (shift_kind k f) = class_of_kind k"
  by (cases k) simp_all

lemma graft_at:
  assumes "graft_document other d = (n, d')"
  shows "m < length (d_nodes d) \<Longrightarrow> node_at d' m = node_at d m"
    "node_at d' (m + length (d_nodes d)) = map_option (shift_node (\<lambda>n. n + length (d_nodes d))) (node_at other m)"
  using graft_views(1) [OF assms] by (auto simp: node_at_def nth_append)

lemma graft_split:
  fixes d :: dom
  obtains "m < length (d_nodes d)" | j where "m = j + length (d_nodes d)"
  by (metis add.commute le_Suc_ex linorder_not_le)

lemma graft_links:
  assumes "graft_document other d = (n, d')"
  shows "m < length (d_nodes d) \<Longrightarrow> parent_of d' m = parent_of d m"
    "m < length (d_nodes d) \<Longrightarrow> kids d' m = kids d m"
    "m < length (d_nodes d) \<Longrightarrow> class_of d' m = class_of d m"
    "parent_of d' (m + length (d_nodes d)) = map_option (\<lambda>p. p + length (d_nodes d)) (parent_of other m)"
    "kids d' (m + length (d_nodes d)) = map (\<lambda>c. c + length (d_nodes d)) (kids other m)"
    "class_of d' (m + length (d_nodes d)) = class_of other m"
  using graft_at [OF assms]
  by (auto simp: parent_of_def kids_alt class_of_alt shift_node_def class_of_shift option.map_comp comp_def
      split: option.split)

lemma acyclic_disjoint_image:
  assumes "acyclic E" "acyclic F" "\<And>x y. (x, y) \<in> E \<Longrightarrow> x < L \<and> y < (L::nat)"
  shows "acyclic (E \<union> (\<lambda>(x, y). (x + L, y + L)) ` F)"
proof -
  let ?G = "E \<union> (\<lambda>(x, y). (x + L, y + L)) ` F"
  have "(if x < L then y < L \<and> (x, y) \<in> E\<^sup>+ else L \<le> y \<and> (x - L, y - L) \<in> F\<^sup>+)" if "(x, y) \<in> ?G\<^sup>+" for x y
    using that
  proof (induction rule: trancl_induct)
    case (base y)
    then show ?case using assms(3) by (fastforce split: prod.splits)
  next
    case (step y z)
    show ?case
    proof (cases "x < L")
      case True
      with step.IH have y: "y < L" "(x, y) \<in> E\<^sup>+" by simp_all
      with step.hyps(2) have "(y, z) \<in> E" by auto
      with y True assms(3) [OF this] show ?thesis by (simp add: trancl_into_trancl)
    next
      case False
      with step.IH have y: "L \<le> y" "(x - L, y - L) \<in> F\<^sup>+" by simp_all
      from step.hyps(2) y(1) obtain b c where "(b, c) \<in> F" "y = b + L" "z = c + L"
        using assms(3) by fastforce
      with y False show ?thesis by (simp add: trancl_into_trancl)
    qed
  qed
  then show ?thesis using assms(1,2) unfolding acyclic_def by (metis linorder_not_le not_less)
qed

lemma graft_wf:
  assumes "dom_wf d" "dom_wf other"
  shows "dom_wf (snd (graft_document other d))"
proof -
  let ?L = "length (d_nodes d)"
  obtain n d' where g: "graft_document other d = (n, d')" by fastforce
  note v = graft_links [OF g]
  have t: "tree_ok d" "tree_ok other" using assms by (simp_all add: dom_wf_tree)
  have below: "c < ?L \<and> p < ?L" if "parent_of d c = Some p" for c p
    using that up_in_arena [OF t(1)] by (auto simp: up_def)
  have kid: "c < ?L" "p < ?L" if "c \<in> set (kids d p)" for c p
    using that below tree_ok_parent [OF t(1)] by blast+
  have "tree_ok d'"
    unfolding tree_ok_def
  proof (intro conjI allI)
    show "parent_of d' m = Some p \<longleftrightarrow> m \<in> set (kids d' p)" for m p
      by (cases m d rule: graft_split; cases p d rule: graft_split)
         (auto simp: v tree_ok_parent [OF t(1)] tree_ok_parent [OF t(2)] dest: kid)
    show "distinct (kids d' m)" for m
      by (cases m d rule: graft_split)
         (auto simp: v distinct_map tree_ok_distinct [OF t(1)] tree_ok_distinct [OF t(2)] inj_on_def)
    have "up d' \<subseteq> up d \<union> (\<lambda>(x, y). (x + ?L, y + ?L)) ` up other"
    proof (rule subrelI)
      fix x y assume "(x, y) \<in> up d'"
      then show "(x, y) \<in> up d \<union> (\<lambda>(x, y). (x + ?L, y + ?L)) ` up other"
        by (cases x d rule: graft_split) (auto simp: up_def v)
    qed
    then show "acyclic (up d')"
      by (rule acyclic_subset [rotated])
         (rule acyclic_disjoint_image [OF tree_ok_acyclic [OF t(1)] tree_ok_acyclic [OF t(2)]],
          use below in \<open>auto simp: up_def\<close>)
  qed
  moreover have "kinds_ok d'"
  proof -
    have k: "kinds_ok d" "kinds_ok other" using assms by (simp_all add: dom_wf_def)
    have at: "m < ?L \<Longrightarrow> class_at d' m = class_at d m" "class_at d' (m + ?L) = class_at other m" for m
      by (simp_all add: class_at_def v)
    have doc: "d_document d < ?L"
      using k(1) by (auto simp: kinds_ok_def class_of_alt node_at_def split: if_splits)
    show ?thesis
      unfolding kinds_ok_def
    proof (intro conjI allI impI)
      show "class_of d' (d_document d') = Some CDocument"
        using k(1) doc by (simp add: graft_views(2) [OF g] v kinds_ok_def)
      show "child_allowed (class_at d' p) (class_at d' c)" if "parent_of d' c = Some p" for c p
        using that k below
        by (cases c d rule: graft_split) (auto simp: v at kinds_ok_def)
      show "document_children_ok (map (class_at d') (kids d' m))" if "class_of d' m = Some CDocument" for m
      proof (cases m d rule: graft_split)
        case 1
        then have "map (class_at d') (kids d m) = map (class_at d) (kids d m)"
          by (auto simp: at dest: kid)
        moreover have "document_children_ok (map (class_at d) (kids d m))"
          using that k(1) 1 by (simp add: kinds_ok_def v)
        ultimately show ?thesis using 1 by (simp only: v(2))
      next
        case (2 j)
        then have "map (class_at d') (kids d' m) = map (class_at other) (kids other j)"
          by (simp add: v at comp_def)
        moreover have "document_children_ok (map (class_at other) (kids other j))"
          using that k(2) 2 by (simp add: kinds_ok_def v)
        ultimately show ?thesis by (simp only:)
      qed
    qed
  qed
  ultimately show ?thesis using g by (simp add: dom_wf_def)
qed

lemma graft_grown:
  assumes "grown d0 d" "dom_wf other"
  shows "grown d0 (snd (graft_document other d))"
proof -
  obtain n d' where g: "graft_document other d = (n, d')" by fastforce
  have "class_of d' m = Some c" if "class_of d m = Some c" for m c
    using that graft_links(3) [OF g, of m] by (auto simp: class_of_alt node_at_def split: if_splits)
  then show ?thesis
    using assms graft_wf [of d other] graft_views [OF g] later_view [OF graft_journal [of other d]] g
    by (auto simp: grown_def intro: later_trans)
qed

subsection \<open>Reachable documents\<close>

lemma dom_new_wf: "dom_wf dom_new"
proof -
  have v: "parent_of dom_new = (\<lambda>_. None)" "kids dom_new = (\<lambda>_. [])" "class_of dom_new 0 = Some CDocument"
    "d_document dom_new = 0"
    by (auto simp: dom_new_def parent_of_def kids_alt node_at_def class_of_alt fun_eq_iff)
  then have "up dom_new = {}" by (auto simp: up_def)
  with v show ?thesis by (simp add: dom_wf_def tree_ok_def kinds_ok_def acyclic_def)
qed

lemma reachable_wf: "dom_reachable d \<Longrightarrow> dom_wf d"
proof (induction rule: dom_reachable.induct)
  case (step d x)
  from step.IH show ?case by (rule wf.keepsD [OF wf.keeps_dom_apply])
qed (auto intro: dom_new_wf graft_wf)

lemma reachable_tree: "dom_reachable d \<Longrightarrow> tree_ok d"
  by (simp add: reachable_wf dom_wf_tree)

lemma history_new: "history [] dom_new"
  by (simp add: history_def discarded_until_def dom_new_def)

lemma reachable_history: "dom_reachable d \<Longrightarrow> \<exists>L. history L d"
proof (induction rule: dom_reachable.induct)
  case (step d x)
  have "grown d (snd (dom_apply x d))"
    by (rule grown.keepsD [OF grown.keeps_dom_apply]) (rule grown_refl, rule reachable_wf, fact)
  with step.IH show ?case by (auto simp: grown_def later_def)
next
  case (graft d other)
  with history_view [OF graft_journal] show ?case by blast
qed (use history_new in blast)

lemma dom_apply_grown: "dom_wf d \<Longrightarrow> grown d (snd (dom_apply x d))"
  by (rule grown.keepsD [OF grown.keeps_dom_apply]) (rule grown_refl)

end
