(* ===== verification/DomEffects.thy ===== *)
theory DomEffects
  imports DomReachable
begin

text \<open>
  What the operations on the tree do beyond the skeleton: they leave the data of the nodes alone, a
  failed insertion leaves the whole document alone, and the points of the live ranges stay inside
  their nodes.
\<close>

subsection \<open>Projections that a step leaves alone\<close>

definition leaves :: "(dom \<Rightarrow> 'b) \<Rightarrow> 'a dom_step \<Rightarrow> bool" where
  "leaves f m \<longleftrightarrow> (\<forall>d. f (snd (m d)) = f d)"

named_theorems leaves_rules \<open>steps that leave a projection of the document alone\<close>

lemma leavesD: "leaves f m \<Longrightarrow> f (snd (m d)) = f d"
  by (simp add: leaves_def)

lemma leavesI: "(\<And>d. f (snd (m d)) = f d) \<Longrightarrow> leaves f m"
  by (simp add: leaves_def)

lemma leaves_basic [leaves_rules]: "leaves f (ok a)" "leaves f (look g)" "leaves f (\<lambda>d. (g d, d))"
  by (simp_all add: leaves_def)

lemma leaves_upd: "(\<And>d. f (g d) = f d) \<Longrightarrow> leaves f (upd g)"
  by (simp add: leaves_def)

lemma leaves_and_do [leaves_rules]:
  assumes "leaves f m" "\<And>a. leaves f (k a)"
  shows "leaves f (and_do m k)"
proof (rule leavesI)
  fix d
  show "f (snd (and_do m k d)) = f d"
    using assms(1) [unfolded leaves_def, rule_format, of d] assms(2)
    by (cases "m d"; cases "fst (m d)") (auto simp: and_do_def leaves_def)
qed

lemma leaves_record_mutations [leaves_rules]:
  assumes "\<And>d v. f (d\<lparr>d_focused := v\<rparr>) = f d" "\<And>d. f (log_mutations ms d) = f d"
  shows "leaves f (record_mutations ms)"
  using assms
  by (auto simp: record_mutations_def leaves_def apply_focus_fixup_def and_do_def
      split: option.split sum.split bool.split)

subsection \<open>Kinds\<close>

lemma kind_opt_nodes: "d_nodes d' = d_nodes d \<Longrightarrow> kind_opt d' = kind_opt d"
  by (rule same_nodes(4))

lemma kind_opt_modify:
  "(\<And>x. nd_kind (f x) = nd_kind x) \<Longrightarrow> kind_opt (modify_node n f d) = kind_opt d"
  by (rule ext, subst views_modify_node(3)) (simp add: kind_opt_def)

lemma leaves_kind_record [leaves_rules]: "leaves kind_opt (record_mutations ms)"
  by (rule leaves_record_mutations) (rule kind_opt_nodes, simp)+

lemma kind_opt_detach [simp]: "kind_opt (detach_without_revision n d) = kind_opt d"
  by (simp add: detach_without_revision_def Let_def kind_opt_modify split: option.split)

lemma kind_opt_fold: "(\<And>x d. kind_opt (f x d) = kind_opt d) \<Longrightarrow> kind_opt (fold f xs d) = kind_opt d"
  by (induction xs arbitrary: d) simp_all

lemma kind_opt_link [simp]: "kind_opt (link_children p i ns d) = kind_opt d"
  by (induction ns arbitrary: i d) (simp_all add: link_child_def kind_opt_modify)

lemma kind_opt_insertion [simp]: "kind_opt (insertion_detached d p k ns r) = kind_opt d"
  by (simp add: insertion_detached_def kind_opt_fold update_ranges_for_insert_def Let_def
      kind_opt_nodes [of "on_live_points f d" d for f d] split: option.split)

lemma kind_opt_adopt_loop: "kind_opt (snd (adopt_loop k doc pending d)) = kind_opt d"
  by (induction k doc pending d rule: adopt_loop.induct)
     (simp_all add: Let_def set_node_document_def kind_opt_modify)

lemma leaves_kind_adopt [leaves_rules]: "leaves kind_opt (adopt_foreign doc ns)"
proof (induction ns)
  case (Cons n ns)
  then show ?case
    by (auto intro!: leaves_and_do) (simp add: leaves_def adopt_subtree_def kind_opt_adopt_loop)
qed (simp add: leaves_basic)

lemma leaves_kind_insert [leaves_rules]: "leaves kind_opt (insert_before p n r)"
proof -
  have "leaves kind_opt (and_do (adopt_foreign doc ns) (\<lambda>_.
            and_do (look (\<lambda>d. insertion_index d p e)) (\<lambda>i.
            and_do (upd (link_children p i ns)) (\<lambda>_. and_do (record_mutations ms) (\<lambda>_. ok n)))))"
    for doc ns e ms
    by (intro leaves_rules leaves_upd) simp
  from leavesD [OF this] show ?thesis
    unfolding insert_before_def by (intro leaves_rules leavesI) (auto simp: Let_def)
qed

lemma leaves_kind_remove [leaves_rules]: "leaves kind_opt (remove_child p n)"
proof -
  have "leaves kind_opt (and_do (upd (detach_without_revision n)) (\<lambda>_.
            and_do (record_mutations ms) (\<lambda>_. ok n)))" for ms
    by (intro leaves_rules leaves_upd) simp
  from leavesD [OF this] show ?thesis
    unfolding remove_child_def by (intro leaves_rules leavesI) auto
qed

subsection \<open>Faults\<close>

text \<open>A walk that has no end is the only fault of a step that only reads or writes.\<close>

definition hangs_only :: "'a dom_step \<Rightarrow> bool" where
  "hangs_only m \<longleftrightarrow> (\<forall>d f d'. m d = (Inl f, d') \<longrightarrow> f = Diverges)"

lemma hangs_only_ok [simp]: "hangs_only (ok a)" "hangs_only (upd g)" "hangs_only (Pair (Inr a))"
  by (simp_all add: hangs_only_def)

lemma hangs_onlyD: "hangs_only m \<Longrightarrow> m d = (Inl f, d') \<Longrightarrow> f = Diverges"
  unfolding hangs_only_def by blast

lemma hangs_only_and_do:
  "hangs_only m \<Longrightarrow> (\<And>a. hangs_only (k a)) \<Longrightarrow> hangs_only (and_do m k)"
  by (fastforce simp: hangs_only_def and_do_def split: prod.splits sum.splits)

lemma is_focusable_area_fault: "is_focusable_area d n = Inl f \<Longrightarrow> f = Diverges"
  by (auto simp: is_focusable_area_def and_then_Inl_iff is_connected_def split: option.splits)

lemma hangs_only_record [simp]: "hangs_only (record_mutations ms)"
proof -
  have "hangs_only apply_focus_fixup"
    by (auto simp: hangs_only_def apply_focus_fixup_def dest: is_focusable_area_fault
        split: option.splits sum.splits bool.splits)
  then show ?thesis
    unfolding record_mutations_def by (auto intro: hangs_only_and_do)
qed

lemma adopt_loop_fault: "adopt_loop k doc pending d = (Inl f, d') \<Longrightarrow> f = Diverges"
  by (induction k doc pending d rule: adopt_loop.induct) (auto simp: Let_def)

lemma hangs_only_adopt [simp]: "hangs_only (adopt_foreign doc ns)"
proof (induction ns)
  case (Cons n ns)
  then show ?case
    by (auto intro!: hangs_only_and_do)
       (auto simp: hangs_only_def adopt_subtree_def dest: adopt_loop_fault split: if_splits)
qed simp

lemma insert_before_error:
  assumes "tree_ok d" "insert_before p n r d = (Inl f, d')" "f \<noteq> Diverges"
  shows "d' = d \<and> pre_insert_checks d p n r = Inl f"
  using assms(1,2)
proof (cases rule: insert_before_cases)
  case (tree k effective ns d3 d4 i)
  have "hangs_only (and_do (record_mutations (removals_of d ns @ [ChildList p ns []])) (\<lambda>_. ok n))"
    by (intro hangs_only_and_do) simp_all
  from hangs_onlyD [OF this tree(11)] assms(3) show ?thesis by simp
next
  case (stuck k effective ns d3 g)
  from hangs_onlyD [OF hangs_only_adopt stuck(7)] stuck(8) assms(3) show ?thesis by simp
qed simp_all

lemma remove_child_error:
  assumes "remove_child p n d = (Inl f, d')" "f \<noteq> Diverges"
  shows "d' = d"
  using assms(1)
proof (cases rule: remove_child_cases)
  case removed
  have "hangs_only (and_do (record_mutations [ChildList p [] [n]]) (\<lambda>_. ok n))"
    by (intro hangs_only_and_do) simp_all
  from hangs_onlyD [OF this removed(2)] assms(2) show ?thesis by simp
qed

subsection \<open>A successful insertion\<close>

lemma moved_Nil: "moved d p [] r d"
proof -
  have "candidate_children d p [] r = kids d p"
    by (simp add: candidate_children_def Let_def)
  then show ?thesis by (auto simp: moved_def fun_eq_iff)
qed

lemma pre_insert_effective:
  "pre_insert_checks d p n r = Inr e \<Longrightarrow> e = (if r = Some n then next_sibling d n else r)"
  by (auto simp: pre_insert_checks_def and_then_Inr_iff Let_def split: if_splits)

lemma insert_before_moved:
  assumes "tree_ok d" "insert_before p n r d = (Inr m, d')" "kind_opt d n = Some k"
  shows "m = n \<and> moved d p (insertion_nodes_of d n k) (if r = Some n then next_sibling d n else r) d'"
  using assms(1,2)
proof (cases rule: insert_before_cases)
  case (empty k' effective)
  with assms(3) moved_Nil show ?thesis by auto
next
  case (tree k' effective ns d3 d4 i)
  have eff: "effective = (if r = Some n then next_sibling d n else r)" using tree(1) by (rule pre_insert_effective)
  have "moved d p ns effective d'" using tree(10) and_do_record_same [OF tree(11)] by (rule moved_same)
  moreover have "m = n"
    using tree(11) by (auto simp: and_do_def split: prod.splits sum.splits)
  ultimately show ?thesis using tree(2,3) assms(3) eff by simp
qed auto

subsection \<open>Live ranges\<close>

text \<open>
  Every boundary point of a live range is inside its node, with up to \<open>c\<close> places to spare in the node
  \<open>q\<close> while an insertion is under way.
\<close>

definition point_in :: "dom \<Rightarrow> node_id \<Rightarrow> nat \<Rightarrow> boundary_point \<Rightarrow> bool" where
  "point_in d q c p \<longleftrightarrow> bp_offset p \<le> node_length d (bp_node p) + (if bp_node p = q then c else 0)"

definition ranges_in :: "dom \<Rightarrow> node_id \<Rightarrow> nat \<Rightarrow> bool" where
  "ranges_in d q c \<longleftrightarrow> (\<forall>r \<in> set (d_ranges d). rg_kind r = Live \<longrightarrow>
     point_in d q c (rg_start r) \<and> point_in d q c (rg_end r))"

definition live_ranges_ok :: "dom \<Rightarrow> bool" where
  "live_ranges_ok d \<longleftrightarrow> (\<forall>r \<in> set (d_ranges d). rg_kind r = Live \<longrightarrow>
     bp_offset (rg_start r) \<le> node_length d (bp_node (rg_start r)) \<and>
     bp_offset (rg_end r) \<le> node_length d (bp_node (rg_end r)))"

lemma live_ranges_ok_in: "live_ranges_ok d \<longleftrightarrow> ranges_in d q 0"
  by (auto simp: live_ranges_ok_def ranges_in_def point_in_def)

lemma ranges_in_live_points:
  assumes "ranges_in d q c" "\<And>p. point_in d q c p \<Longrightarrow> point_in d' q' c' (f p)"
    "d_ranges d' = d_ranges (on_live_points f d)"
  shows "ranges_in d' q' c'"
  using assms by (auto simp: ranges_in_def on_live_points_def)

lemma ranges_in_mono:
  assumes "ranges_in d q c" "\<And>p. point_in d q c p \<Longrightarrow> point_in d' q' c' p" "d_ranges d' = d_ranges d"
  shows "ranges_in d' q' c'"
  using assms by (auto simp: ranges_in_def)

lemma node_length_cases:
  obtains "\<And>d. kind_opt d n = k \<Longrightarrow> node_length d n = length (kids d n)"
  | l where "\<And>d. kind_opt d n = k \<Longrightarrow> node_length d n = l"
proof (cases "case k of Some (Text _) \<Rightarrow> True | Some (Comment _) \<Rightarrow> True | Some (ProcessingInstruction _ _) \<Rightarrow> True
    | Some (DocumentType _) \<Rightarrow> True | None \<Rightarrow> True | _ \<Rightarrow> False")
  case True
  then show ?thesis
    by (intro that(2) [of "case k of Some (Text s) \<Rightarrow> utf16_len s | Some (Comment s) \<Rightarrow> utf16_len s
          | Some (ProcessingInstruction _ s) \<Rightarrow> utf16_len s | _ \<Rightarrow> 0"])
       (auto simp: node_length_def split: option.splits node_kind.splits)
next
  case False
  then show ?thesis
    by (intro that(1)) (auto simp: node_length_def kids_def split: option.splits node_kind.splits)
qed

text \<open>The children of a node that can have some are its length.\<close>

lemma node_length_container:
  assumes "class_of d n = Some c" "container c"
  shows "node_length d n = length (kids d n)"
  using assms by (auto simp: class_of_def node_length_def kids_def container_def split: option.splits node_kind.splits)

lemma node_length_leaf_kids:
  assumes "kind_opt d' = kind_opt d" "kids d' n = kids d n"
  shows "node_length d' n = node_length d n"
  by (cases "kind_opt d n" n rule: node_length_cases) (use assms in auto)

lemma parent_class:
  assumes "dom_wf d" "parent_of d n = Some p"
  obtains c where "class_of d p = Some c" "container c"
proof -
  have "p < length (d_nodes d)" using assms up_in_arena [OF dom_wf_tree] by (auto simp: up_def)
  then obtain c where c: "class_of d p = Some c" by (auto simp: class_of_alt node_at_def)
  have "child_allowed (class_at d p) (class_at d n)" using assms by (simp add: dom_wf_def kinds_ok_def)
  with c have "container c" by (simp add: child_allowed_def class_at_def)
  with c show thesis by (rule that)
qed

lemma length_filter_neq: "distinct xs \<Longrightarrow> n \<in> set xs \<Longrightarrow> length (filter (\<lambda>c. c \<noteq> n) xs) = length xs - 1"
proof -
  assume "distinct xs" "n \<in> set xs"
  moreover have "filter (\<lambda>c. c \<noteq> n) xs = removeAll n xs" by (simp add: removeAll_filter_not_eq eq_commute)
  ultimately show ?thesis by (simp add: distinct_remove1_removeAll [symmetric] length_remove1)
qed

lemma ranges_in_detach:
  assumes wf: "dom_wf d" and ranges: "ranges_in d q c"
  shows "ranges_in (detach_without_revision n d) q c"
proof (cases "parent_of d n")
  case None
  then show ?thesis using ranges by (simp add: detach_without_revision_def)
next
  case (Some p)
  let ?d' = "detach_without_revision n d"
  have t: "tree_ok d" using wf by (rule dom_wf_tree)
  then have n: "n \<in> set (kids d p)" "distinct (kids d p)"
    using Some by (simp_all add: tree_ok_parent tree_ok_distinct)
  then obtain i where i: "position (\<lambda>c. c = n) (kids d p) = Some i" "i < length (kids d p)"
    using position_None [of "\<lambda>c. c = n" "kids d p"] position_SomeD
    by (cases "position (\<lambda>c. c = n) (kids d p)") fastforce+
  then have index: "index_in_parent d n = Some i"
    using Some n(1) by (auto simp: index_in_parent_def kids_def split: option.splits)
  obtain c0 where c0: "class_of d p = Some c0" "container c0" using wf Some by (rule parent_class)
  have lenp: "node_length d p = length (kids d p)" using c0 by (rule node_length_container)
  have kids': "kids ?d' m = (if m = p then filter (\<lambda>c. c \<noteq> n) (kids d p) else kids d m)" for m
    using Some by (simp add: kids_detach_raw)
  have "length (kids ?d' p) = length (kids d p) - 1"
    using n by (simp add: kids' length_filter_neq)
  then have len': "node_length ?d' m = (if m = p then length (kids d p) - 1 else node_length d m)" for m
  proof (cases "m = p")
    case True
    with c0 node_length_container [of ?d' p c0] \<open>length (kids ?d' p) = _\<close> show ?thesis by simp
  next
    case False
    then show ?thesis by (simp add: node_length_leaf_kids [of ?d' d] kids')
  qed
  show ?thesis
  proof (cases "d_ranges d = []")
    case True
    then show ?thesis by (simp add: ranges_in_def detach_without_revision_def Some)
  next
    case False
    have "d_ranges ?d' = d_ranges (on_live_points (point_after_remove d n p i) d)"
      using False index Some by (simp add: detach_without_revision_def update_ranges_for_remove_def Let_def)
    then show ?thesis
      using ranges
    proof (rule ranges_in_live_points [rotated 2])
      show "point_in ?d' q c (point_after_remove d n p i x)" if "point_in d q c x" for x
        using that i(2) lenp by (auto simp: point_in_def point_after_remove_def len' split: if_splits)
    qed
  qed
qed

lemma ranges_in_detach_all:
  "dom_wf d \<Longrightarrow> ranges_in d q c \<Longrightarrow> ranges_in (fold detach_without_revision ns d) q c"
proof (induction ns arbitrary: d)
  case (Cons n ns)
  have "detached d [n] (detach_without_revision n d)"
    using detached_fold [OF dom_wf_tree [OF Cons.prems(1)], of "[n]"] by simp
  with Cons.prems have "dom_wf (detach_without_revision n d)" by (auto intro: detached_wf)
  with Cons show ?case by (simp add: ranges_in_detach)
qed simp

lemma ranges_in_same:
  assumes "ranges_in d q c" "kind_opt d' = kind_opt d" "kids d' = kids d" "d_ranges d' = d_ranges d"
  shows "ranges_in d' q c"
  using assms(1)
  by (rule ranges_in_mono) (auto simp: point_in_def assms node_length_leaf_kids [of d' d])

lemma leaves_ranges_record [leaves_rules]: "leaves d_ranges (record_mutations ms)"
  by (rule leaves_record_mutations) simp_all

lemma ranges_in_record:
  assumes "ranges_in d q c" "record_mutations ms d = (r, d')"
  shows "ranges_in d' q c"
proof -
  have d': "d' = snd (record_mutations ms d)" using assms(2) by simp
  have "kids d' = kids d"
    using silentD [OF silent_record_mutations, of d ms] unfolding d' same_skeleton_def by blast
  with assms(1) leavesD [OF leaves_kind_record, of ms d] leavesD [OF leaves_ranges_record, of ms d]
  show ?thesis unfolding d' by (metis ranges_in_same)
qed

lemma remove_child_ranges:
  assumes "dom_wf d" "live_ranges_ok d"
  shows "live_ranges_ok (snd (remove_child p n d))"
proof -
  obtain r d' where run: "remove_child p n d = (r, d')" by fastforce
  then have "ranges_in d' 0 0"
  proof (cases rule: remove_child_cases)
    case removed
    obtain u where "record_mutations [ChildList p [] [n]] (detach_without_revision n d) = (u, d')"
      using removed(2) by (auto simp: and_do_def split: prod.splits sum.splits)
    moreover have "ranges_in d 0 0" using assms(2) live_ranges_ok_in [of d 0] by simp
    ultimately show ?thesis by (metis ranges_in_detach [OF assms(1)] ranges_in_record)
  next
    case rejected
    then show ?thesis using assms(2) live_ranges_ok_in by simp
  qed
  with run live_ranges_ok_in show ?thesis by simp
qed

subsection \<open>Insertion and the live ranges\<close>

lemma ranges_in_adopt:
  assumes "ranges_in d q c"
  shows "ranges_in (snd (adopt_foreign doc ns d)) q c"
proof -
  have loop: "d_ranges (snd (adopt_loop k doc pending d)) = d_ranges d" for k doc pending d
    by (induction k doc pending d rule: adopt_loop.induct) (simp_all add: Let_def set_node_document_def)
  have "leaves d_ranges (adopt_foreign doc ns)"
  proof (induction ns)
    case (Cons n ns)
    then show ?case by (auto intro!: leaves_and_do) (simp add: leaves_def adopt_subtree_def loop)
  qed (simp add: leaves_basic)
  moreover have "kids (snd (adopt_foreign doc ns d)) = kids d"
    using silentD [OF silent_adopt_foreign, of d doc ns] unfolding same_skeleton_def by blast
  ultimately show ?thesis
    using assms leavesD [OF leaves_kind_adopt, of doc ns d] by (metis leavesD ranges_in_same)
qed

lemma insert_before_ranges:
  assumes wf: "dom_wf d" and ranges: "live_ranges_ok d" and run: "insert_before p n r d = (Inr m, d')"
  shows "live_ranges_ok d'"
  using dom_wf_tree [OF wf] run
proof (cases rule: insert_before_cases)
  case (tree k effective ns d3 d4 i)
  have class_p: "\<exists>c. class_of d p = Some c \<and> container c"
  proof -
    have p: "p < length (d_nodes d)" using tree(5) by (simp add: insertable_def)
    then obtain c where c: "class_of d p = Some c" by (auto simp: class_of_alt node_at_def)
    obtain x where "x \<in> set ns" using tree(4) by (cases ns) auto
    then have "child_allowed (class_at d p) (class_at d x)" using tree(5) by (simp add: insertable_def)
    with c show ?thesis by (simp add: child_allowed_def class_at_def)
  qed
  have start: "ranges_in d p 0" using ranges live_ranges_ok_in by simp
  define d1 where "d1 = (if k = DocumentFragment then fold detach_without_revision ns d else d)"
  have d1: "ranges_in d1 p 0" "dom_wf d1"
    using ranges_in_detach_all [OF wf start, of ns] detached_wf [OF wf detached_fold [OF dom_wf_tree [OF wf]], of ns]
      start wf by (simp_all add: d1_def)
  define d2 where "d2 = (case effective of
                  Some r \<Rightarrow> if d_ranges d1 = [] then d1
                    else update_ranges_for_insert p (index_or_zero d1 r) (length ns) d1
                | None \<Rightarrow> d1)"
  have nodes: "d_nodes d2 = d_nodes d1" "d_document d2 = d_document d1"
    by (auto simp: d2_def update_ranges_for_insert_def split: option.split)
  have d2: "ranges_in d2 p (length ns)"
  proof -
    have len: "node_length d2 = node_length d1"
      using same_nodes [OF nodes(1)] by (intro ext node_length_leaf_kids) simp_all
    have "point_in d2 p (length ns) (insert_point p j (length ns) x)" "point_in d2 p (length ns) x"
      if "point_in d1 p 0 x" for j x
      using that by (auto simp: point_in_def len insert_point_def)
    note points = this
    show ?thesis
    proof (cases "d2 = d1")
      case True
      then show ?thesis using ranges_in_mono [OF d1(1) points(2)] by simp
    next
      case False
      then obtain r where "d2 = on_live_points (insert_point p (index_or_zero d1 r) (length ns)) d1"
        by (auto simp: d2_def update_ranges_for_insert_def split: option.splits if_splits)
      then show ?thesis using ranges_in_live_points [OF d1(1) points(1)] by simp
    qed
  qed
  have "same_skeleton d1 d2" by (auto simp: d2_def update_ranges_for_insert_def split: option.split)
  then have "dom_wf d2" using d1(2) by (rule dom_wf_same)
  then have "ranges_in d3 p (length ns)"
    using ranges_in_detach_all [OF _ d2, of ns] tree(6)
    by (simp add: insertion_detached_def Let_def d1_def [symmetric] d2_def [symmetric])
  then have d4: "ranges_in d4 p (length ns)" using ranges_in_adopt [of d3 p "length ns" "owner_of d3 p" ns] tree(8) by simp
  have "same_skeleton d3 d4" using silentD [OF silent_adopt_foreign, of d3 "owner_of d3 p" ns] tree(8) by simp
  with tree(7) have det: "detached d ns d4" by (rule detached_same)
  have i: "i \<le> length (kids d4 p)"
    using tree(9) by (auto simp: insertion_index_def dest: position_SomeD split: option.splits)
  let ?d5 = "link_children p i ns d4"
  have arena: "p < length (d_nodes d4)" "\<And>n. n \<in> set ns \<Longrightarrow> n < length (d_nodes d4)"
    using tree(5) det by (simp_all add: insertable_def detached_def)
  note link = link_children_views [OF arena i]
  have "class_of d4 = class_of d" using det by (simp add: detached_def)
  with class_p link(3) obtain c where c: "class_of d4 p = Some c" "class_of ?d5 p = Some c" "container c" by auto
  have len: "node_length ?d5 m = (if m = p then length ns + node_length d4 p else node_length d4 m)" for m
  proof (cases "m = p")
    case True
    then show ?thesis using c link(2) by (simp add: node_length_container)
  next
    case False
    then have "kids ?d5 m = kids d4 m" using link(2) by simp
    with False show ?thesis using node_length_leaf_kids [OF kind_opt_link] by simp
  qed
  have "d_ranges ?d5 = d_ranges d4"
    by (induction ns arbitrary: i d4) (simp_all add: link_child_def)
  then have "ranges_in ?d5 p 0"
    by (rule ranges_in_mono [OF d4, rotated]) (auto simp: point_in_def len split: if_splits)
  moreover obtain u where "record_mutations (removals_of d ns @ [ChildList p ns []]) ?d5 = (u, d')"
    using tree(11) by (auto simp: and_do_def split: prod.splits sum.splits)
  ultimately have "ranges_in d' p 0" by (rule ranges_in_record)
  then show ?thesis using live_ranges_ok_in by simp
qed (use ranges in simp_all)

subsection \<open>Replacing data\<close>

definition data_of :: "dom \<Rightarrow> node_id \<Rightarrow> str option" where
  "data_of d n = (case character_data_text d n of Inr s \<Rightarrow> Some s | Inl _ \<Rightarrow> None)"

lemma data_of_kind:
  "data_of d n = (case kind_opt d n of Some (Text s) \<Rightarrow> Some s | Some (Comment s) \<Rightarrow> Some s
     | Some (ProcessingInstruction _ s) \<Rightarrow> Some s | _ \<Rightarrow> None)"
  by (simp add: data_of_def character_data_text_def kind_or_error_def dom_fail_def split: option.split node_kind.split)

lemma data_of_length: "data_of d n = Some t \<Longrightarrow> node_length d n = utf16_len t"
  by (auto simp: data_of_kind node_length_def split: option.splits node_kind.splits)

lemma kind_opt_set_data:
  "kind_opt (set_data_text n t d) m = (if m = n then map_option (\<lambda>k. with_data k t) (kind_opt d n) else kind_opt d m)"
  unfolding set_data_text_def by (subst views_modify_node(3)) (simp add: kind_opt_def option.map_comp comp_def)

lemma data_of_set:
  "data_of (set_data_text n t d) m = (if m = n then map_option (\<lambda>_. t) (data_of d n) else data_of d m)"
  by (auto simp: data_of_kind [of "set_data_text n t d"] kind_opt_set_data data_of_kind [of d] with_data_def
      split: option.split node_kind.split)

text \<open>The document a replacement leads to, before the mutation is recorded.\<close>

lemma replace_data_cases:
  assumes "replace_data n off cnt s d = (r, d')"
  obtains (none) "data_of d n = None" "r \<noteq> Inr ()" "d' = d"
  | (outside) t where "data_of d n = Some t" "utf16_len t < off"
      "r = dom_index_size ''the offset is greater than the length of the data''" "d' = d"
  | (inside) t where "data_of d n = Some t" "off \<le> utf16_len t"
      "record_mutations [CharacterData n]
         (on_live_points (replace_point n off (min cnt (utf16_len t - off)) (utf16_len s))
           (set_data_text n (from_utf16_lossy (replaced_units (encode_utf16 t) off
              (min cnt (utf16_len t - off)) (encode_utf16 s))) d)) = (r, d')"
  using assms
  by (auto simp: replace_data_def and_do_def [of "look f" for f] data_of_def Let_def utf16_len_def
      update_ranges_for_replace_data_def record_character_data_def not_less split: sum.splits if_splits)

lemma length_replaced_units:
  "off \<le> length us \<Longrightarrow> length (replaced_units us off (min cnt (length us - off)) vs) =
     length us - min cnt (length us - off) + length vs"
  by (simp add: replaced_units_def)

lemma units_ok_replaced: "units_ok us \<Longrightarrow> units_ok vs \<Longrightarrow> units_ok (replaced_units us off cnt vs)"
  by (auto simp: replaced_units_def list_all_iff dest: in_set_takeD in_set_dropD)

lemma data_of_nodes: "kind_opt d' = kind_opt d \<Longrightarrow> data_of d' n = data_of d n"
  by (simp add: data_of_kind)

lemma replace_data_effect:
  assumes "replace_data n off cnt s d = (Inr (), d')" "data_of d n = Some t"
  shows "off \<le> utf16_len t \<and>
    data_of d' n = Some (from_utf16_lossy (replaced_units (encode_utf16 t) off (min cnt (utf16_len t - off)) (encode_utf16 s)))"
  using assms(1)
proof (cases rule: replace_data_cases)
  case (inside t')
  have t: "t' = t" using inside(1) assms(2) by simp
  let ?new = "from_utf16_lossy (replaced_units (encode_utf16 t) off (min cnt (utf16_len t - off)) (encode_utf16 s))"
  let ?d2 = "on_live_points (replace_point n off (min cnt (utf16_len t - off)) (utf16_len s)) (set_data_text n ?new d)"
  have "d' = snd (record_mutations [CharacterData n] ?d2)" using inside(3) t by simp
  then have "kind_opt d' = kind_opt (set_data_text n ?new d)"
    using leavesD [OF leaves_kind_record, of "[CharacterData n]" ?d2] kind_opt_nodes [of ?d2 "set_data_text n ?new d"] by simp
  from data_of_nodes [OF this, of n] show ?thesis using assms(2) inside(2) t by (simp add: data_of_set)
qed (use assms(2) in auto)

lemma replace_data_ranges:
  assumes ranges: "live_ranges_ok d" and run: "replace_data n off cnt s d = (Inr (), d')"
    and texts: "\<And>t. data_of d n = Some t \<Longrightarrow> str_ok t" "str_ok s"
  shows "live_ranges_ok d'"
  using run
proof (cases rule: replace_data_cases)
  case (inside t)
  define c where "c = min cnt (utf16_len t - off)"
  then have c: "c \<le> utf16_len t - off" by simp
  let ?new = "from_utf16_lossy (replaced_units (encode_utf16 t) off c (encode_utf16 s))"
  let ?d1 = "set_data_text n ?new d"
  let ?d2 = "on_live_points (replace_point n off c (utf16_len s)) ?d1"
  have "units_ok (replaced_units (encode_utf16 t) off c (encode_utf16 s))"
    using texts inside(1) by (intro units_ok_replaced units_ok_encode)
  then have "utf16_len ?new = utf16_len t - c + utf16_len s"
    using inside(2) length_replaced_units [of off "encode_utf16 t" cnt "encode_utf16 s"]
    by (simp add: utf16_len_lossy c_def) (simp add: utf16_len_def)
  then have len1: "node_length ?d1 n = utf16_len t - c + utf16_len s"
    using inside(1) by (simp add: data_of_length data_of_set)
  have rest: "node_length ?d1 m = node_length d m" if "m \<noteq> n" for m
  proof -
    have "same_skeleton d ?d1" by (rule same_skeleton_data)
    then have "kids ?d1 m = kids d m" by (simp add: same_skeleton_def)
    moreover have "kind_opt ?d1 m = kind_opt d m" using that by (simp add: kind_opt_set_data)
    ultimately show ?thesis by (cases "kind_opt d m" m rule: node_length_cases) auto
  qed
  have len: "node_length d n = utf16_len t" using inside(1) by (rule data_of_length)
  have nodes: "d_nodes ?d2 = d_nodes ?d1" by simp
  have len2: "node_length ?d2 m = node_length ?d1 m" for m
    using same_nodes [OF nodes] by (intro node_length_leaf_kids) simp_all
  have "ranges_in d n 0" using ranges live_ranges_ok_in by simp
  then have "ranges_in ?d2 n 0"
  proof (rule ranges_in_live_points)
    show "point_in ?d2 n 0 (replace_point n off c (utf16_len s) p)" if "point_in d n 0 p" for p
    proof (cases "bp_node p = n")
      case True
      with that have "bp_offset p \<le> utf16_len t" by (simp add: point_in_def len)
      with True inside(2) c show ?thesis by (simp add: point_in_def replace_point_def len2 len1) linarith
    next
      case False
      with that show ?thesis by (simp add: point_in_def replace_point_def len2 rest)
    qed
    show "d_ranges ?d2 = d_ranges (on_live_points (replace_point n off c (utf16_len s)) d)"
      by (simp add: on_live_points_def set_data_text_def)
  qed
  then have "ranges_in d' n 0" using inside(3) unfolding c_def [symmetric] by (rule ranges_in_record)
  then show ?thesis using live_ranges_ok_in by simp
qed (use ranges in auto)

end
