(* ===== verification/DomWalks.thy ===== *)
theory DomWalks
  imports DomEffects
begin

text \<open>
  The walks of the crate over a well-formed tree: a stack walk lists a subtree in tree order, each node
  once, and the walks to the root find the ancestors and nothing else.
\<close>

definition below :: "dom \<Rightarrow> node_id \<Rightarrow> node_id set" where
  "below d n = {m. (m, n) \<in> (up d)\<^sup>*}"

definition covered :: "dom \<Rightarrow> node_id list \<Rightarrow> node_id set" where
  "covered d ns = (\<Union>n \<in> set ns. below d n)"

definition apart :: "dom \<Rightarrow> node_id list \<Rightarrow> bool" where
  "apart d ns \<longleftrightarrow> sorted_wrt (\<lambda>a b. below d a \<inter> below d b = {}) ns \<and> set ns \<subseteq> {..<length (d_nodes d)}"

lemma covered_simps [simp]:
  "covered d [] = {}" "covered d (n # ns) = below d n \<union> covered d ns"
  "covered d (xs @ ys) = covered d xs \<union> covered d ys"
  by (auto simp: covered_def)

lemma below_self [simp]: "n \<in> below d n"
  by (simp add: below_def)

lemma apart_simps:
  "apart d []"
  "apart d (n # ns) \<longleftrightarrow> n < length (d_nodes d) \<and> below d n \<inter> covered d ns = {} \<and> apart d ns"
  "apart d (xs @ ys) \<longleftrightarrow> apart d xs \<and> apart d ys \<and> covered d xs \<inter> covered d ys = {}"
  by (auto simp: apart_def covered_def sorted_wrt_append)

lemma below_arena: "tree_ok d \<Longrightarrow> n < length (d_nodes d) \<Longrightarrow> below d n \<subseteq> {..<length (d_nodes d)}"
proof
  fix m assume ok: "tree_ok d" and n: "n < length (d_nodes d)" and "m \<in> below d n"
  then have "m = n \<or> (\<exists>p. (m, p) \<in> up d)" by (auto simp: below_def elim: converse_rtranclE)
  then show "m \<in> {..<length (d_nodes d)}" using n up_in_arena [OF ok] by auto
qed

lemma finite_covered: "tree_ok d \<Longrightarrow> apart d ns \<Longrightarrow> finite (covered d ns)"
proof -
  assume *: "tree_ok d" "apart d ns"
  then have "covered d ns \<subseteq> {..<length (d_nodes d)}"
    using below_arena by (auto simp: covered_def apart_def)
  then show ?thesis by (rule finite_subset) simp
qed

lemma below_kids:
  assumes "tree_ok d"
  shows "below d n = insert n (covered d (kids d n))"
proof -
  have "m \<in> below d n \<longleftrightarrow> m = n \<or> m \<in> covered d (kids d n)" for m
    using assms by (auto simp: below_def covered_def up_def tree_ok_parent [symmetric]
        elim: rtranclE intro: rtrancl_into_rtrancl)
  then show ?thesis by auto
qed

lemma up_linear: "(m, a) \<in> (up d)\<^sup>* \<Longrightarrow> (m, b) \<in> (up d)\<^sup>* \<Longrightarrow> (a, b) \<in> (up d)\<^sup>* \<or> (b, a) \<in> (up d)\<^sup>*"
  by (rule single_valued_confluent) (auto simp: single_valued_def up_def)

lemma no_loop: "tree_ok d \<Longrightarrow> parent_of d n = Some p \<Longrightarrow> (p, n) \<notin> (up d)\<^sup>*"
proof
  assume ok: "tree_ok d" and p: "parent_of d n = Some p" and "(p, n) \<in> (up d)\<^sup>*"
  then have "(n, n) \<in> (up d)\<^sup>+" by (auto simp: up_def intro: rtrancl_into_trancl2)
  then show False using tree_ok_acyclic [OF ok] by (auto simp: acyclic_def)
qed

lemma kids_apart:
  assumes ok: "tree_ok d"
  shows "apart d (kids d n)" "n \<notin> covered d (kids d n)"
proof -
  have one: "(a, b) \<notin> (up d)\<^sup>*" if kids: "a \<in> set (kids d n)" "b \<in> set (kids d n)" "a \<noteq> b" for a b
  proof
    assume "(a, b) \<in> (up d)\<^sup>*"
    then obtain x where x: "(a, x) \<in> up d" "(x, b) \<in> (up d)\<^sup>*" using kids(3) by (auto elim: converse_rtranclE)
    have "parent_of d a = Some n" "parent_of d b = Some n"
      using kids by (simp_all add: tree_ok_parent [OF ok])
    then show False using x no_loop [OF ok, of b n] by (simp add: up_def)
  qed
  have "below d a \<inter> below d b = {}" if "a \<in> set (kids d n)" "b \<in> set (kids d n)" "a \<noteq> b" for a b
    using one that up_linear unfolding below_def by blast
  then have "sorted_wrt (\<lambda>a b. below d a \<inter> below d b = {}) (kids d n)"
    using tree_ok_distinct [OF ok, of n] by (auto simp: sorted_wrt_iff_nth_less nth_eq_iff_index_eq)
  moreover have "c < length (d_nodes d)" if "c \<in> set (kids d n)" for c
    using that by (metis tree_ok_parent [OF ok] parent_in_arena)
  ultimately show "apart d (kids d n)" by (auto simp: apart_def)
  show "n \<notin> covered d (kids d n)"
    using no_loop [OF ok] by (auto simp: covered_def below_def tree_ok_parent [OF ok, symmetric])
qed

lemma apart_step:
  assumes ok: "tree_ok d" and apart: "apart d (n # ns)"
  shows "apart d (kids d n @ ns)" "covered d (n # ns) = insert n (covered d (kids d n @ ns))"
    "n \<notin> covered d (kids d n @ ns)"
  using apart kids_apart [OF ok, of n] below_kids [OF ok, of n]
  by (auto simp: apart_simps)

lemma card_step:
  assumes "tree_ok d" "apart d (n # ns)"
  shows "card (covered d (n # ns)) = Suc (card (covered d (kids d n @ ns)))"
  using apart_step [OF assms] finite_covered [OF assms(1) apart_step(1) [OF assms]] by simp

subsection \<open>The stack walk\<close>

lemma visit_loop_exact:
  assumes ok: "tree_ok d"
  shows "apart d ns \<Longrightarrow> card (covered d ns) \<le> k \<Longrightarrow>
    set (visit_loop k d ns) = covered d ns \<and> distinct (visit_loop k d ns)"
proof (induction k arbitrary: ns)
  case 0
  then have "covered d ns = {}" using finite_covered [OF ok] by simp
  then have "ns = []" by (cases ns) (auto simp: covered_def below_def)
  then show ?case by simp
next
  case (Suc k)
  show ?case
  proof (cases ns)
    case (Cons n rest)
    note step = apart_step [OF ok Suc.prems(1) [unfolded Cons]]
    have "card (covered d (kids d n @ rest)) \<le> k"
      using card_step [OF ok Suc.prems(1) [unfolded Cons]] Suc.prems(2) Cons by simp
    from Suc.IH [OF step(1) this] show ?thesis
      using step(2,3) unfolding Cons visit_loop.simps by auto
  qed simp
qed

lemma visit_loop_append:
  assumes ok: "tree_ok d"
  shows "apart d (xs @ ys) \<Longrightarrow> card (covered d (xs @ ys)) \<le> k \<Longrightarrow> card (covered d xs) \<le> i \<Longrightarrow>
    card (covered d ys) \<le> j \<Longrightarrow> visit_loop k d (xs @ ys) = visit_loop i d xs @ visit_loop j d ys"
proof (induction k arbitrary: xs ys i j)
  case 0
  then have "covered d (xs @ ys) = {}" using finite_covered [OF ok 0(1)] by simp
  then have "xs = [] \<and> ys = []" by (cases xs; cases ys) (auto simp: covered_def below_def)
  then show ?case by simp
next
  case (Suc k)
  show ?case
  proof (cases xs)
    case (Cons n rest)
    have a: "apart d (n # rest)" "apart d (n # (rest @ ys))"
      using Suc.prems(1) Cons by (auto simp: apart_simps)
    note step = apart_step [OF ok a(2)]
    have c: "card (covered d (kids d n @ rest @ ys)) \<le> k" "card (covered d (kids d n @ rest)) \<le> i - 1" "0 < i"
      using card_step [OF ok a(1)] card_step [OF ok a(2)] Suc.prems(2,3) Cons by simp_all
    then obtain i' where i: "i = Suc i'" by (cases i) auto
    have "visit_loop k d ((kids d n @ rest) @ ys) = visit_loop i' d (kids d n @ rest) @ visit_loop j d ys"
      using step(1) c i Suc.prems(4) by (intro Suc.IH) simp_all
    then show ?thesis by (simp add: Cons i)
  next
    case Nil
    show ?thesis
    proof (cases ys)
      case ys: (Cons n rest)
      have a: "apart d (n # rest)" using Suc.prems(1) Nil ys by simp
      have c: "card (covered d (kids d n @ rest)) \<le> k" "card (covered d (kids d n @ rest)) \<le> j - 1" "0 < j"
        using card_step [OF ok a] Suc.prems(2,4) Nil ys by simp_all
      then obtain j' where j: "j = Suc j'" by (cases j) auto
      have "visit_loop k d ([] @ (kids d n @ rest)) = visit_loop 0 d [] @ visit_loop j' d (kids d n @ rest)"
        using apart_step(1) [OF ok a] c j by (intro Suc.IH) simp_all
      then show ?thesis by (simp add: Nil ys j)
    qed (simp add: Nil)
  qed
qed

lemma covered_card:
  assumes "tree_ok d" "apart d ns"
  shows "card (covered d ns) \<le> length (d_nodes d)"
proof -
  have "covered d ns \<subseteq> {..<length (d_nodes d)}"
    using below_arena [OF assms(1)] assms(2) by (auto simp: covered_def apart_def)
  from card_mono [OF finite_lessThan this] show ?thesis by simp
qed

lemma visit_exact:
  "tree_ok d \<Longrightarrow> apart d ns \<Longrightarrow> set (visit d ns) = covered d ns \<and> distinct (visit d ns)"
  unfolding visit_def using visit_loop_exact covered_card by blast

lemma visit_append:
  assumes "tree_ok d" "apart d (xs @ ys)"
  shows "visit d (xs @ ys) = visit d xs @ visit d ys"
  unfolding visit_def
  using assms by (intro visit_loop_append covered_card) (simp_all add: apart_simps)

lemma visit_concat:
  "tree_ok d \<Longrightarrow> apart d ns \<Longrightarrow> visit d ns = concat (map (\<lambda>n. visit d [n]) ns)"
proof (induction ns)
  case (Cons n ns)
  then have "apart d ([n] @ ns)" by simp
  from visit_append [OF Cons.prems(1) this] Cons show ?case by (simp add: apart_simps)
qed (simp add: visit_def)

lemma visit_root:
  assumes ok: "tree_ok d" and n: "n < length (d_nodes d)"
  shows "visit d [n] = n # visit d (kids d n)"
proof -
  have a: "apart d [n]" using n by (simp add: apart_simps)
  obtain k where k: "length (d_nodes d) = Suc k" using n by (cases "length (d_nodes d)") auto
  have "card (covered d (kids d n)) \<le> k"
    using card_step [OF ok a] covered_card [OF ok a] k by simp
  then have "visit_loop k d (kids d n @ []) = visit_loop (Suc k) d (kids d n) @ visit_loop 0 d []"
    using kids_apart [OF ok, of n] by (intro visit_loop_append [OF ok]) simp_all
  then show ?thesis by (simp add: visit_def k)
qed

subsection \<open>Roots\<close>

lemma root_below:
  assumes ok: "tree_ok d" and top: "parent_of d r = None"
  shows "n \<in> below d r \<longleftrightarrow> tree_root d n = r"
proof
  assume "n \<in> below d r"
  moreover have "(n, tree_root d n) \<in> (up d)\<^sup>*"
    using tree_root_ancestor [OF ok, of n] is_inclusive_ancestor_up [OF ok] by simp
  ultimately have "(r, tree_root d n) \<in> (up d)\<^sup>* \<or> (tree_root d n, r) \<in> (up d)\<^sup>*"
    by (auto simp: below_def dest: up_linear)
  then show "tree_root d n = r"
    using top tree_root_top [OF ok, of n] by (auto simp: up_def elim: converse_rtranclE)
next
  assume "tree_root d n = r"
  then show "n \<in> below d r"
    using tree_root_ancestor [OF ok, of n] is_inclusive_ancestor_up [OF ok] by (simp add: below_def)
qed

end
