(* ===== verification/DomStates.thy ===== *)
theory DomStates
  imports DomWalks
begin

text \<open>
  The state around the tree: attributes, the focus and the ranges.  What a test of the tree reads is the
  nodes and the document node, so writes to the tables do not change its result.
\<close>

subsection \<open>Attributes\<close>

definition attribute_qname :: "attribute \<Rightarrow> str" where
  "attribute_qname a = (case attr_prefix a of None \<Rightarrow> attr_local a | Some p \<Rightarrow> p @ lit '':'' @ attr_local a)"

lemma has_qualified_name_iff: "has_qualified_name a name \<longleftrightarrow> attribute_qname a = name"
  by (auto simp: has_qualified_name_def attribute_qname_def strip_prefix_Some split: option.split)
     (metis append_assoc strip_prefix_Some option.distinct(1) option.exhaust)+

lemma find_update_first:
  assumes "\<And>x. P x \<Longrightarrow> Q (f x)" "\<And>x. Q' (f x) = Q' x"
  shows "update_first P f xs = Some ys \<Longrightarrow> (\<And>x. P x = Q x) \<Longrightarrow> find Q ys = map_option f (find P xs)"
    "update_first P f xs = Some ys \<Longrightarrow> (\<And>x. P x \<Longrightarrow> \<not> Q' x) \<Longrightarrow> find Q' ys = find Q' xs"
  using assms by (induction xs arbitrary: ys) (auto split: if_splits)

lemma update_first_None: "update_first P f xs = None \<longleftrightarrow> find P xs = None"
  by (induction xs) auto

lemma find_append: "find P (xs @ ys) = (case find P xs of Some x \<Rightarrow> Some x | None \<Rightarrow> find P ys)"
  by (induction xs) auto

definition lookup_name :: "str \<Rightarrow> element_data \<Rightarrow> str option" where
  "lookup_name name e = map_option attr_value (find (\<lambda>a. has_qualified_name a name) (el_attributes e))"

lemma lookup_write:
  defines "new name v \<equiv> \<lparr>attr_namespace = None, attr_prefix = None, attr_local = name, attr_value = v\<rparr>"
  shows "lookup_name other (write_attribute (\<lambda>a. has_qualified_name a name) (\<lambda>a. a\<lparr>attr_value := v\<rparr>) (new name v) e) =
     (if other = name then Some v else lookup_name other e)"
proof (cases "update_first (\<lambda>a. has_qualified_name a name) (\<lambda>a. a\<lparr>attr_value := v\<rparr>) (el_attributes e)")
  case None
  then have "find (\<lambda>a. has_qualified_name a name) (el_attributes e) = None" by (simp add: update_first_None)
  then show ?thesis
    using None by (auto simp: lookup_name_def write_attribute_def find_append new_def has_qualified_name_iff
        attribute_qname_def split: option.split)
next
  case (Some as)
  have q: "has_qualified_name (a\<lparr>attr_value := v\<rparr>) b = has_qualified_name a b" for a b
    by (simp add: has_qualified_name_iff attribute_qname_def split: option.split)
  have ex: "find (\<lambda>a. has_qualified_name a name) (el_attributes e) \<noteq> None"
    using Some update_first_None [of "\<lambda>a. has_qualified_name a name"] by (metis option.distinct(1))
  show ?thesis
  proof (cases "other = name")
    case True
    then have "find (\<lambda>a. has_qualified_name a other) as =
        map_option (\<lambda>a. a\<lparr>attr_value := v\<rparr>) (find (\<lambda>a. has_qualified_name a name) (el_attributes e))"
      using Some q by (intro find_update_first(1)) auto
    with ex Some True show ?thesis by (auto simp: lookup_name_def write_attribute_def)
  next
    case False
    then have "find (\<lambda>a. has_qualified_name a other) as = find (\<lambda>a. has_qualified_name a other) (el_attributes e)"
      using Some q by (intro find_update_first(2) [where P = "\<lambda>a. has_qualified_name a name"])
        (auto simp: has_qualified_name_iff)
    with Some False show ?thesis by (simp add: lookup_name_def write_attribute_def)
  qed
qed

lemma get_attribute_lookup:
  "get_attribute d n b = (case element_at d n of
     Some e \<Rightarrow> Inr (lookup_name (normalize_name e b) e) | None \<Rightarrow> get_attribute d n b)"
  by (auto simp: get_attribute_def require_element_def kind_of_def element_at_def lookup_name_def Let_def
      split: option.split node_kind.split)

lemma require_element_Inr: "require_element d n = Inr e \<longleftrightarrow> kind_opt d n = Some (Element e)"
  by (auto simp: require_element_def kind_of_def split: option.splits node_kind.splits)

lemma element_at_Some: "element_at d n = Some e \<longleftrightarrow> kind_opt d n = Some (Element e)"
  by (auto simp: element_at_def split: option.splits node_kind.splits)

lemma get_attribute_kind: "kind_opt d' n = kind_opt d n \<Longrightarrow> get_attribute d' n b = get_attribute d n b"
  by (simp add: get_attribute_def require_element_def kind_of_def)

lemma kind_opt_tables [simp]:
  "kind_opt (index_named n d) = kind_opt d" "kind_opt (unindex_named n d) = kind_opt d"
  "kind_opt (image_source_changed n b d) = kind_opt d"
  by (rule kind_opt_nodes; simp add: index_named_def unindex_named_def image_source_changed_def
      set_image_state_def split: option.split)+

lemma kind_opt_modify_element:
  "kind_opt (modify_element n f d) m =
     (if m = n then (case element_at d n of Some e \<Rightarrow> Some (Element (f e)) | None \<Rightarrow> kind_opt d n) else kind_opt d m)"
proof (cases "element_at d n")
  case (Some e)
  then obtain x where "node_at d n = Some x" by (auto simp: element_at_def kind_opt_def split: option.splits)
  with Some show ?thesis
    by (simp add: modify_element_def set_kind_def views_modify_node(3))
qed (simp add: modify_element_def)

text \<open>What \<open>set_attribute\<close> does to the kinds of the nodes when it succeeds.\<close>

lemma set_attribute_kinds:
  assumes "set_attribute n a v d = (Inr (), d')"
  obtains e where "element_at d n = Some e"
    "kind_opt d' = (kind_opt d)(n \<mapsto> Element (write_attribute (\<lambda>x. has_qualified_name x (normalize_name e a))
       (\<lambda>x. x\<lparr>attr_value := v\<rparr>)
       \<lparr>attr_namespace = None, attr_prefix = None, attr_local = normalize_name e a, attr_value = v\<rparr> e))"
proof -
  obtain e where e: "require_element d n = Inr e"
    using assms by (auto simp: set_attribute_def and_do_def split: sum.splits)
  then have at: "element_at d n = Some e"
    by (simp add: require_element_Inr element_at_Some)
  let ?name = "normalize_name e a"
  let ?w = "write_attribute (\<lambda>x. has_qualified_name x ?name) (\<lambda>x. x\<lparr>attr_value := v\<rparr>)
       \<lparr>attr_namespace = None, attr_prefix = None, attr_local = ?name, attr_value = v\<rparr>"
  let ?d2 = "modify_element n ?w (unindex_named n d)"
  let ?rest = "and_do (record_mutations [AttributeChange n ?name]) (\<lambda>_. and_do (upd (index_named n)) (\<lambda>_.
     if ?name = lit ''src'' then upd (image_source_changed n True) else ok ()))"
  have leaves: "leaves kind_opt ?rest"
    by (intro leaves_rules leaves_upd) (auto intro: leaves_rules leaves_upd)
  have "?rest ?d2 = (Inr (), d')"
    using assms e by (simp add: set_attribute_def and_do_def [of "look f" for f] and_do_def [of "upd f" for f] Let_def)
  with leavesD [OF leaves, of ?d2] have "kind_opt d' = kind_opt ?d2" by simp
  moreover have "element_at (unindex_named n d) n = Some e" using at by (simp add: element_at_def)
  then have "kind_opt ?d2 = (kind_opt d)(n \<mapsto> Element (?w e))"
    by (auto simp: fun_eq_iff kind_opt_modify_element)
  ultimately show ?thesis using at that by simp
qed

lemma set_attribute_lookup:
  assumes "set_attribute n a v d = (Inr (), d')" "element_at d n = Some e"
  shows "get_attribute d' m b =
     (if m = n \<and> normalize_name e b = normalize_name e a then Inr (Some v) else get_attribute d m b)"
  using assms(1)
proof (cases rule: set_attribute_kinds)
  case (1 e')
  then have "e' = e" using assms(2) by simp
  let ?w = "write_attribute (\<lambda>x. has_qualified_name x (normalize_name e a)) (\<lambda>x. x\<lparr>attr_value := v\<rparr>)
       \<lparr>attr_namespace = None, attr_prefix = None, attr_local = normalize_name e a, attr_value = v\<rparr> e"
  have kinds: "kind_opt d' = (kind_opt d)(n \<mapsto> Element ?w)" using 1(2) unfolding \<open>e' = e\<close> .
  show ?thesis
  proof (cases "m = n")
    case True
    have "normalize_name ?w b = normalize_name e b"
      by (simp add: write_attribute_def normalize_name_def split: option.split)
    moreover have "element_at d' n = Some ?w" unfolding element_at_Some kinds by simp
    ultimately have "get_attribute d' n b = Inr (lookup_name (normalize_name e b) ?w)"
      by (subst get_attribute_lookup) simp
    moreover have "get_attribute d n b = Inr (lookup_name (normalize_name e b) e)"
      using assms(2) by (subst get_attribute_lookup) simp
    ultimately show ?thesis using True by (simp only: lookup_write if_True simp_thms split: if_split) simp
  next
    case False
    then have "kind_opt d' m = kind_opt d m" unfolding kinds by simp
    from get_attribute_kind [OF this] False show ?thesis by simp
  qed
qed

subsection \<open>What a test of the tree reads\<close>

locale same_tree =
  fixes d d' :: dom
  assumes nodes: "d_nodes d' = d_nodes d" and document: "d_document d' = d_document d"
begin

lemma views [simp]:
  "node_at d' = node_at d" "parent_of d' = parent_of d" "kids d' = kids d" "kind_opt d' = kind_opt d"
  "children_of d' = children_of d"
  by (rule same_nodes [OF nodes])+

declare option.case_cong [cong]

lemma reads [simp]:
  "element_at d' = element_at d" "get_attribute d' = get_attribute d" "shadow_host d' = shadow_host d"
  "index_in_parent d' = index_in_parent d"
  by (simp_all add: fun_eq_iff element_at_def get_attribute_def require_element_def kind_of_def shadow_host_def
      shadow_root_data_def index_in_parent_def)

lemma attribute_reads [simp]:
  "attribute_or_none d' = attribute_or_none d" "has_attribute d' = has_attribute d"
  "html_named d' = html_named d" "attribute_equals_ascii_case d' = attribute_equals_ascii_case d"
  "index_or_zero d' = index_or_zero d"
  by (simp_all add: fun_eq_iff attribute_or_none_def has_attribute_def html_named_def html_name_def
      attribute_equals_ascii_case_def index_or_zero_def)

lemma loops:
  "tree_root_loop k d' n = tree_root_loop k d n" "climb_loop k P d' v = climb_loop k P d v"
  "ancestors_loop k d' n = ancestors_loop k d n" "child_towards k d' a n = child_towards k d a n"
proof -
  show "tree_root_loop k d' n = tree_root_loop k d n" by (induction k arbitrary: n) (auto split: option.split)
  show "ancestors_loop k d' n = ancestors_loop k d n" by (induction k arbitrary: n) (auto split: option.split)
  show "child_towards k d' a n = child_towards k d a n" by (induction k arbitrary: n) (auto split: option.split)
  show "climb_loop k P d' v = climb_loop k P d v"
  proof (induction k arbitrary: v)
    case 0
    then show ?case by (cases v) simp_all
  next
    case (Suc k)
    then show ?case by (cases v) simp_all
  qed
qed

lemma walks [simp]:
  "tree_root d' = tree_root d" "climb P d' = climb P d" "path_from_root d' = path_from_root d"
  by (simp_all add: fun_eq_iff tree_root_def climb_def path_from_root_def loops nodes)

lemma ancestry [simp]: "is_inclusive_ancestor d' = is_inclusive_ancestor d"
  by (simp add: fun_eq_iff is_inclusive_ancestor_def)

lemma shadow_walk: "shadow_including_root_loop k d' n = shadow_including_root_loop k d n"
proof (induction k arbitrary: n)
  case 0
  show ?case by (subst (1 2) shadow_including_root_loop.simps) simp
next
  case (Suc k)
  show ?case by (subst (1 2) shadow_including_root_loop.simps) (simp add: Suc.IH)
qed

lemma connected [simp]: "is_connected d' = is_connected d"
  by (simp add: fun_eq_iff is_connected_def shadow_including_root_def shadow_walk nodes document)

lemma focus_reads [simp]:
  "is_hidden_by_attribute d' = is_hidden_by_attribute d" "is_in_first_legend_of d' = is_in_first_legend_of d"
  "parsed_tab_index d' = parsed_tab_index d" "is_natively_focusable d' = is_natively_focusable d"
  by (simp_all add: fun_eq_iff is_hidden_by_attribute_def is_in_first_legend_of_def parsed_tab_index_def
      is_natively_focusable_def)

lemma disabled_read [simp]: "is_disabled_form_control d' = is_disabled_form_control d"
  by (simp add: fun_eq_iff is_disabled_form_control_def)

lemma focusable [simp]: "is_focusable_area d' = is_focusable_area d"
  by (simp add: fun_eq_iff is_focusable_area_def)

lemma ordered [simp]: "tree_order d' = tree_order d"
  by (simp add: fun_eq_iff tree_order_def Let_def)

lemma placed [simp]: "place_of d' p q = place_of d p q"
proof -
  have forward: "place_forward d' l r = place_forward d l r" for l r
    by (simp add: place_forward_def Let_def loops nodes)
  have "place_of d' q p = place_of d q p" if "tree_order d (bp_node q) (bp_node p) \<noteq> Some Greater" for p q
    using that by (simp add: place_of.simps [of d' q p] place_of.simps [of d q p] forward)
  then show ?thesis
    using tree_order_flip [of d "bp_node p" "bp_node q"]
    by (simp add: place_of.simps [of d' p q] place_of.simps [of d p q] forward)
qed

end

interpretation with_focus: same_tree d "d\<lparr>d_focused := v\<rparr>" for d v
  by unfold_locales simp_all

interpretation with_ranges: same_tree d "d\<lparr>d_ranges := v\<rparr>" for d v
  by unfold_locales simp_all

interpretation with_points: same_tree d "on_live_points f d" for d f
  by unfold_locales simp_all

interpretation with_log: same_tree d "log_mutations ms d" for d ms
  by unfold_locales simp_all

subsection \<open>The focus\<close>

definition focus_ok :: "dom \<Rightarrow> bool" where
  "focus_ok d \<longleftrightarrow> (\<forall>n. d_focused d = Some n \<longrightarrow> is_focusable_area d n = Inr True)"

lemma focus_ok_same:
  assumes "d_nodes d' = d_nodes d" "d_document d' = d_document d" "d_focused d' = d_focused d" "focus_ok d"
  shows "focus_ok d'"
  using assms same_tree.focusable [OF same_tree.intro [OF assms(1,2)]] by (simp add: focus_ok_def)

lemma record_mutations_focus:
  assumes "record_mutations ms d = (Inr (), d')" "ms \<noteq> []"
  shows "focus_ok d'"
proof -
  obtain d1 where d1: "apply_focus_fixup d = (Inr (), d1)" "d' = log_mutations ms d1"
    using assms by (auto simp: record_mutations_def and_do_Inr)
  have "focus_ok d1"
    using d1(1) by (auto simp: apply_focus_fixup_def focus_ok_def split: option.splits sum.splits bool.splits)
  then show ?thesis unfolding d1(2) by (rule focus_ok_same [rotated 3]) simp_all
qed

lemma insert_before_focus:
  assumes "insert_before p n r d = (Inr m, d')" "focus_ok d" "tree_ok d"
  shows "focus_ok d'"
  using assms(3,1)
proof (cases rule: insert_before_cases)
  case (tree k effective ns d3 d4 i)
  from tree(11) obtain u where "record_mutations (removals_of d ns @ [ChildList p ns []]) (link_children p i ns d4) = (Inr (), d')"
    by (auto simp: and_do_Inr)
  then show ?thesis by (rule record_mutations_focus) simp
qed (use assms(2) in auto)

lemma remove_child_focus:
  assumes "remove_child p n d = (Inr m, d')"
  shows "focus_ok d'"
  using assms
proof (cases rule: remove_child_cases)
  case removed
  from removed(2) have "record_mutations [ChildList p [] [n]] (detach_without_revision n d) = (Inr (), d')"
    by (auto simp: and_do_Inr)
  then show ?thesis by (rule record_mutations_focus) simp
qed simp

lemma replace_data_focus: "replace_data n off cnt s d = (Inr (), d') \<Longrightarrow> focus_ok d \<Longrightarrow> focus_ok d'"
  by (erule replace_data_cases) (auto intro: record_mutations_focus)

lemma table_focus:
  "focus_ok d \<Longrightarrow> focus_ok (index_named n d)" "focus_ok d \<Longrightarrow> focus_ok (unindex_named n d)"
  "focus_ok d \<Longrightarrow> focus_ok (image_source_changed n b d)"
  by (erule focus_ok_same [rotated 3];
      simp add: index_named_def unindex_named_def image_source_changed_def set_image_state_def split: option.split)+

lemma recorded_focus:
  assumes "and_do (record_mutations ms) (\<lambda>_. and_do (upd (index_named n)) (\<lambda>_.
      if b then upd (image_source_changed n c) else ok ())) d = (Inr (), d')" "ms \<noteq> []"
  shows "focus_ok d'"
proof -
  from assms(1) obtain d1 where "record_mutations ms d = (Inr (), d1)"
    "d' = (if b then image_source_changed n c (index_named n d1) else index_named n d1)"
    by (auto simp: and_do_Inr split: if_splits)
  with record_mutations_focus [of ms d d1] assms(2) show ?thesis by (simp add: table_focus)
qed

lemma attribute_focus:
  "set_attribute n a v d = (Inr (), d') \<Longrightarrow> focus_ok d'"
  "set_attribute_ns n ns p a v d = (Inr (), d') \<Longrightarrow> focus_ok d'"
  "remove_attribute n a d = (Inr (), d') \<Longrightarrow> focus_ok d \<Longrightarrow> focus_ok d'"
  "remove_attribute_ns n ns a d = (Inr (), d') \<Longrightarrow> focus_ok d \<Longrightarrow> focus_ok d'"
proof -
  have written: "focus_ok d'" if "and_do (upd f) (\<lambda>_. and_do (upd g) (\<lambda>_.
      and_do (record_mutations ms) (\<lambda>_. and_do (upd (index_named n)) (\<lambda>_.
      if b then upd (image_source_changed n c) else ok ())))) d = (Inr (), d')" "ms \<noteq> []" for f g ms b c d
  proof -
    from that(1) have "and_do (record_mutations ms) (\<lambda>_. and_do (upd (index_named n)) (\<lambda>_.
      if b then upd (image_source_changed n c) else ok ())) (g (f d)) = (Inr (), d')"
      by (simp add: and_do_def [of "upd h" for h])
    then show ?thesis using that(2) by (rule recorded_focus)
  qed
  show "set_attribute n a v d = (Inr (), d') \<Longrightarrow> focus_ok d'"
    by (auto simp: set_attribute_def and_do_def [of "look h" for h] Let_def split: sum.splits intro: written)
  show "set_attribute_ns n ns p a v d = (Inr (), d') \<Longrightarrow> focus_ok d'"
    by (auto simp: set_attribute_ns_def and_do_def [of "look h" for h] split: sum.splits intro: written)
  have remove: "focus_ok d'" if "remove_matching n P x src e d = (Inr (), d')" "focus_ok d" for P x src e
  proof (cases "position P (el_attributes e)")
    case None
    with that show ?thesis by (auto simp: remove_matching_def and_do_Inr intro: table_focus)
  next
    case (Some i)
    with that(1) show ?thesis unfolding remove_matching_def by (simp add: written)
  qed
  show "remove_attribute n a d = (Inr (), d') \<Longrightarrow> focus_ok d \<Longrightarrow> focus_ok d'"
    by (auto simp: remove_attribute_def and_do_def [of "look h" for h] Let_def split: sum.splits intro: remove)
  show "remove_attribute_ns n ns a d = (Inr (), d') \<Longrightarrow> focus_ok d \<Longrightarrow> focus_ok d'"
    by (auto simp: remove_attribute_ns_def and_do_def [of "look h" for h] split: sum.splits intro: remove)
qed

text \<open>The operations of a page that can make an element lose the focus, or give it.\<close>

fun moves_focus :: "dom_op \<Rightarrow> bool" where
  "moves_focus (Tree (InsertBefore p n r)) = True"
| "moves_focus (Tree (RemoveChild p n)) = True"
| "moves_focus (Data (SetAttribute n a v)) = True"
| "moves_focus (Data (SetAttributeNs n ns p a v)) = True"
| "moves_focus (Data (RemoveAttribute n a)) = True"
| "moves_focus (Data (RemoveAttributeNs n ns a)) = True"
| "moves_focus (Data (ReplaceData n off cnt s)) = True"
| "moves_focus (Data (SetFocus n)) = True"
| "moves_focus _ = False"

lemma set_focus_ok: "set_focused_element n d = (Inr b, d') \<Longrightarrow> focus_ok d \<Longrightarrow> focus_ok d'"
  by (auto simp: set_focused_element_def focus_ok_def split: option.splits sum.splits bool.splits)

lemma dom_apply_focus:
  assumes "moves_focus x" "dom_apply x d = (Inr (), d')" "focus_ok d" "tree_ok d"
  shows "focus_ok d'"
  using assms
  by (cases x rule: moves_focus.cases)
     (auto simp: void_def and_do_Inr intro: insert_before_focus remove_child_focus attribute_focus
       replace_data_focus set_focus_ok)

subsection \<open>The order of a range\<close>

definition range_ordered :: "dom \<Rightarrow> range_record \<Rightarrow> bool" where
  "range_ordered d x \<longleftrightarrow> tree_root d (bp_node (rg_start x)) = tree_root d (bp_node (rg_end x)) \<and>
     place_of d (rg_start x) (rg_end x) \<noteq> After"

lemma place_refl: "place_of d p p = Same"
  by (simp add: place_of.simps [of d p p] cmp_def)

lemma place_flip:
  assumes ok: "tree_ok d" and after: "place_of d l r = After"
  shows "place_of d r l = Before"
proof (cases "bp_node l = bp_node r")
  case True
  with after show ?thesis
    by (auto simp: place_of.simps [of d l r] place_of.simps [of d r l] cmp_def split: if_splits)
next
  case False
  show ?thesis
  proof (cases "tree_order d (bp_node l) (bp_node r) = Some Greater")
    case True
    with False after show ?thesis
      by (simp add: place_of.simps [of d l r] split: place.splits)
  next
    case fwd: False
    then have "place_forward d l r = After" using False after by (simp add: place_of.simps [of d l r])
    then have "is_inclusive_ancestor d (bp_node l) (bp_node r)" by (auto simp: place_forward_def split: if_splits)
    then have "(bp_node r, bp_node l) \<in> (up d)\<^sup>*" by (simp add: is_inclusive_ancestor_up [OF ok])
    then have "(bp_node l, bp_node r) \<notin> (up d)\<^sup>*"
      using False tree_ok_acyclic [OF ok] by (auto simp: acyclic_def rtrancl_eq_or_trancl intro: trancl_trans)
    then have "place_forward d r l = Before"
      by (simp add: place_forward_def is_inclusive_ancestor_up [OF ok])
    then show ?thesis using False after by (simp add: place_of.simps [of d r l])
  qed
qed

lemma modify_range_Inr:
  "modify_range r f d = (Inr (), d') \<longleftrightarrow>
     r < length (d_ranges d) \<and> d' = d\<lparr>d_ranges := (d_ranges d)[r := f (d_ranges d ! r)]\<rparr>"
  by (auto simp: modify_range_def and_do_Inr range_rec_def split: if_splits)

lemma set_range_start_ordered:
  assumes "set_range_start r p d = (Inr (), d')" "range_ordered d (d_ranges d ! r)"
  shows "rg_start (d_ranges d' ! r) = p \<and> range_ordered d' (d_ranges d' ! r)"
proof -
  let ?x = "d_ranges d ! r"
  let ?m = "tree_root d (bp_node (rg_start ?x)) \<noteq> tree_root d (bp_node p) \<or> place_of d p (rg_end ?x) = After"
  let ?y = "(if ?m then ?x\<lparr>rg_end := p\<rparr> else ?x)\<lparr>rg_start := p\<rparr>"
  from assms(1) have d': "r < length (d_ranges d)" "d' = d\<lparr>d_ranges := (d_ranges d)[r := ?y]\<rparr>"
    by (auto simp: set_range_start_def and_do_Inr Let_def modify_range_Inr range_rec_def split: if_splits)
  then have "d_ranges d' ! r = ?y" by simp
  moreover have "range_ordered d ?y" using assms(2) by (auto simp: range_ordered_def place_refl)
  then have "range_ordered d' ?y" unfolding d'(2) by (simp add: range_ordered_def)
  ultimately show ?thesis by simp
qed

lemma set_range_end_ordered:
  assumes "tree_ok d" "set_range_end r p d = (Inr (), d')" "range_ordered d (d_ranges d ! r)"
  shows "rg_end (d_ranges d' ! r) = p \<and> range_ordered d' (d_ranges d' ! r)"
proof -
  let ?x = "d_ranges d ! r"
  let ?m = "tree_root d (bp_node (rg_start ?x)) \<noteq> tree_root d (bp_node p) \<or> place_of d p (rg_start ?x) = Before"
  let ?y = "(if ?m then ?x\<lparr>rg_start := p\<rparr> else ?x)\<lparr>rg_end := p\<rparr>"
  from assms(2) have d': "r < length (d_ranges d)" "d' = d\<lparr>d_ranges := (d_ranges d)[r := ?y]\<rparr>"
    by (auto simp: set_range_end_def and_do_Inr Let_def modify_range_Inr range_rec_def split: if_splits)
  then have "d_ranges d' ! r = ?y" by simp
  moreover have "range_ordered d ?y" using assms(3) place_flip [OF assms(1), of "rg_start ?x" p]
    by (auto simp: range_ordered_def place_refl)
  then have "range_ordered d' ?y" unfolding d'(2) by (simp add: range_ordered_def)
  ultimately show ?thesis by simp
qed

end
