(* ===== verification/DomSlots.thy ===== *)
theory DomSlots
  imports DomStates
begin

text \<open>
  Shadow trees: the two ways to read a slot assignment agree, and a shadow root accepts its own host as
  a child, after which the walks that cross from a shadow root to its host never end.
\<close>

subsection \<open>Assigned slots\<close>

definition host_links :: "dom \<Rightarrow> bool" where
  "host_links d \<longleftrightarrow> (\<forall>h r. shadow_root d h = Some r \<longleftrightarrow> shadow_host d r = Some h)"

lemma first_slots_range: "first_slots d slots m name = Some s \<Longrightarrow> s \<in> set slots \<or> m name = Some s"
proof (induction slots arbitrary: m)
  case (Cons a slots)
  from Cons.prems show ?case
    by (auto dest!: Cons.IH split: if_splits)
qed simp

lemma chosen_slot_in: "chosen_slot d mode slots child = Some s \<Longrightarrow> s \<in> set slots"
  by (auto simp: chosen_slot_def find_Some_iff in_set_conv_nth dest: first_slots_range split: slot_mode.splits)

lemma slot_assignments_iff:
  assumes "shadow_root_data d root = Some sh"
  shows "(n, s) \<in> set (slot_assignments d root) \<longleftrightarrow>
     n \<in> set (kids d (sh_host sh)) \<and> is_slottable d n \<and>
     chosen_slot d (sh_slot_assignment sh) (slots_in_tree d root) n = Some s"
proof (cases "slots_in_tree d root = []")
  case True
  then have "chosen_slot d (sh_slot_assignment sh) (slots_in_tree d root) n \<noteq> Some s"
    using chosen_slot_in by fastforce
  with True assms show ?thesis by (simp add: slot_assignments_def Let_def)
qed (use assms in \<open>auto simp: slot_assignments_def Let_def split: option.splits\<close>)

lemma find_fst:
  assumes "\<And>s'. (n, s') \<in> set xs \<Longrightarrow> s' = s"
  shows "map_option snd (find (\<lambda>(m, _). m = n) xs) = (if (n, s) \<in> set xs then Some s else None)"
  using assms
proof (induction xs)
  case (Cons x xs)
  obtain m t where x: "x = (m, t)" by fastforce
  show ?case
  proof (cases "m = n")
    case True
    then have "t = s" using Cons.prems [of t] x by simp
    with True x show ?thesis by simp
  next
    case False
    with Cons x show ?thesis by auto
  qed
qed simp

lemma shadow_parentless: "dom_wf d \<Longrightarrow> shadow_root_data d root = Some sh \<Longrightarrow> parent_of d root = None"
proof (rule ccontr)
  assume wf: "dom_wf d" and sh: "shadow_root_data d root = Some sh" and "parent_of d root \<noteq> None"
  then obtain p where "parent_of d root = Some p" by auto
  then have "child_allowed (class_at d p) (class_at d root)" using wf by (simp add: dom_wf_def kinds_ok_def)
  moreover have "class_of d root = Some CShadow"
    using sh by (auto simp: shadow_root_data_def class_of_def split: option.splits node_kind.splits)
  ultimately show False by (simp add: child_allowed_def class_at_def)
qed

lemma slots_in_tree_root:
  assumes wf: "dom_wf d" and sh: "shadow_root_data d root = Some sh" and s: "s \<in> set (slots_in_tree d root)"
  shows "tree_root d s = root"
proof -
  have ok: "tree_ok d" using wf by (rule dom_wf_tree)
  have "s \<in> covered d (kids d root)"
    using s visit_exact [OF ok kids_apart(1) [OF ok], of root] by (simp add: slots_in_tree_def)
  then have "s \<in> below d root" using below_kids [OF ok, of root] by simp
  then show ?thesis using root_below [OF ok shadow_parentless [OF wf sh]] by simp
qed

lemma assigned_slot_iff:
  assumes wf: "dom_wf d" and links: "host_links d"
  shows "assigned_slot d n = Some s \<longleftrightarrow> n \<in> set (directly_assigned d s)"
proof
  assume a: "assigned_slot d n = Some s"
  then obtain host root where h: "is_slottable d n" "parent_of d n = Some host" "shadow_root d host = Some root"
      "map_option snd (find (\<lambda>(m, _). m = n) (slot_assignments d root)) = Some s"
    by (auto simp: assigned_slot_def split: if_splits option.splits)
  then have m: "(n, s) \<in> set (slot_assignments d root)"
    by (auto simp: find_Some_iff) (metis nth_mem)
  have "shadow_host d root = Some host" using h(3) links by (simp add: host_links_def)
  then obtain sh where sh: "shadow_root_data d root = Some sh" by (auto simp: shadow_host_def)
  with m have "s \<in> set (slots_in_tree d root)" by (auto simp: slot_assignments_iff dest: chosen_slot_in)
  with wf sh have "tree_root d s = root" by (intro slots_in_tree_root)
  with sh m show "n \<in> set (directly_assigned d s)"
    by (force simp: directly_assigned_def Let_def assigned_to_def)
next
  assume "n \<in> set (directly_assigned d s)"
  then obtain sh where sh: "shadow_root_data d (tree_root d s) = Some sh"
      and m: "(n, s) \<in> set (slot_assignments d (tree_root d s))"
    by (auto simp: directly_assigned_def Let_def assigned_to_def split: if_splits)
  let ?root = "tree_root d s"
  have kid: "n \<in> set (kids d (sh_host sh))" "is_slottable d n"
    using m by (simp_all add: slot_assignments_iff [OF sh])
  then have "parent_of d n = Some (sh_host sh)" using tree_ok_parent [OF dom_wf_tree [OF wf]] by simp
  moreover have "shadow_root d (sh_host sh) = Some ?root"
    using links sh by (simp add: host_links_def shadow_host_def)
  moreover have "map_option snd (find (\<lambda>(m, _). m = n) (slot_assignments d ?root)) = Some s"
    using find_fst [of n "slot_assignments d ?root" s] m by (simp add: slot_assignments_iff [OF sh])
  ultimately show "assigned_slot d n = Some s" using kid(2) by (simp add: assigned_slot_def)
qed

subsection \<open>A host inside its own shadow root\<close>

lemma owner_of_modify:
  "(\<And>x. nd_owner (f x) = nd_owner x) \<Longrightarrow> owner_of (modify_node n f d) m = owner_of d m"
  by (simp add: owner_of_def node_document_def node_at_modify_node option.map_comp comp_def)

lemma owner_of_points [simp]: "owner_of (on_live_points f d) m = owner_of d m"
  by (simp add: owner_of_def same_nodes(6) [of "on_live_points f d" d])

lemma owner_of_detach [simp]: "owner_of (detach_without_revision n d) m = owner_of d m"
  by (simp add: detach_without_revision_def Let_def owner_of_modify update_ranges_for_remove_def split: option.split)

lemma focused_detach [simp]: "d_focused (detach_without_revision n d) = d_focused d"
  by (simp add: detach_without_revision_def Let_def update_ranges_for_remove_def split: option.split)

lemma shadow_walk_stuck:
  assumes "shadow_host d s = Some h" "tree_root d h = s"
  shows "shadow_including_root_loop k d s = None"
proof (induction k)
  case 0
  then show ?case using assms by (subst shadow_including_root_loop.simps) simp
next
  case (Suc k)
  then show ?case using assms by (subst shadow_including_root_loop.simps) simp
qed

text \<open>The checks before an insertion let a shadow root take its host, which is not below it.\<close>

lemma host_insertion_checks:
  assumes "tree_ok d" "class_of d s = Some CShadow" "class_of d h = Some CElement"
    "parent_of d s = None"
  shows "pre_insert_checks d s h None = Inr None"
proof -
  obtain ks kh where k: "kind_of d s = Inr ks" "kind_of d h = Inr kh"
      "class_of_kind ks = CShadow" "class_of_kind kh = CElement"
    using assms(2,3) by (auto simp: class_of_def kind_of_def)
  obtain sh e where kinds: "ks = ShadowRoot sh" "kh = Element e"
    using k(3,4) by (cases ks; cases kh) auto
  have "s \<noteq> h" using assms(2,3) by auto
  moreover have "\<not> is_inclusive_ancestor d h s"
    using assms(4) \<open>s \<noteq> h\<close> by (subst is_inclusive_ancestor_eq [OF assms(1)]) simp
  ultimately show ?thesis
    using k(1,2) by (simp add: kinds pre_insert_checks_def require_node_def require_reference_def
        validate_parent_kind_def validate_child_kind_def validate_document_children_def Let_def)
qed

lemma host_insertion:
  assumes wf: "dom_wf d" and classes: "class_of d s = Some CShadow" "class_of d h = Some CElement"
    and top: "parent_of d s = None" and owner: "owner_of d h = owner_of d s" and focus: "d_focused d = None"
  obtains d' where "append_child s h d = (Inr h, d')" "parent_of d' h = Some s" "parent_of d' s = None"
    "kind_opt d' = kind_opt d" "tree_ok d'"
proof -
  have ok: "tree_ok d" using wf by (rule dom_wf_tree)
  have checks: "pre_insert_checks d s h None = Inr None" using ok classes top by (rule host_insertion_checks)
  obtain e where e: "kind_of d h = Inr (Element e)" "kind_opt d h = Some (Element e)"
    using classes(2) by (auto simp: class_of_def kind_of_def elim: class_of_kind.elims)
  define d3 where "d3 = detach_without_revision h d"
  define d4 where "d4 = link_child s (length (kids d3 s)) h d3"
  have same_owner: "owner_of d3 m = owner_of d m" for m by (simp add: d3_def)
  have "d_focused d4 = None" using focus by (simp add: d4_def d3_def link_child_def)
  then have rec: "record_mutations ms d4 = (Inr (), if ms = [] then d4 else log_mutations ms d4)" for ms
    by (simp add: record_mutations_def and_do_def apply_focus_fixup_def)
  have run: "append_child s h d = (Inr h, log_mutations (removals_of d [h] @ [ChildList s [h] []]) d4)"
    using checks e owner rec
    by (simp add: append_child_def insert_before_def and_do_def insertion_nodes_of_def Let_def
        insertion_detached_def d3_def [symmetric] insertion_index_def d4_def [symmetric] same_owner)
  let ?d' = "log_mutations (removals_of d [h] @ [ChildList s [h] []]) d4"
  have "insertion_nodes_of d h (Element e) = [h]" by (simp add: insertion_nodes_of_def)
  then have "moved d s [h] None ?d'"
    using insert_before_moved [OF ok run [unfolded append_child_def] e(2)] by simp
  then have "parent_of ?d' h = Some s" "parent_of ?d' s = None"
    using top classes by (auto simp: moved_def)
  moreover have "kind_opt ?d' = kind_opt d"
    using leavesD [OF leaves_kind_insert, of s h None d] run by (simp add: append_child_def)
  moreover have "tree_ok ?d'"
    using insert_before_wf [OF wf, of s h None] run by (simp add: append_child_def dom_wf_tree)
  ultimately show thesis using run that by blast
qed

lemma host_cycle:
  assumes wf: "dom_wf d" and host: "shadow_host d s = Some h" and element: "class_of d h = Some CElement"
    and owner: "owner_of d h = owner_of d s" and focus: "d_focused d = None"
  shows "\<exists>d'. append_child s h d = (Inr h, d') \<and> tree_root d' h = s \<and> shadow_host d' s = Some h \<and>
    (\<forall>k. shadow_including_root_loop k d' (tree_root d' h) = None)"
proof -
  obtain sh where sh: "shadow_root_data d s = Some sh" using host by (auto simp: shadow_host_def)
  then have "class_of d s = Some CShadow"
    by (auto simp: shadow_root_data_def class_of_def split: option.splits node_kind.splits)
  then obtain d' where d': "append_child s h d = (Inr h, d')" "parent_of d' h = Some s" "parent_of d' s = None"
      "kind_opt d' = kind_opt d" "tree_ok d'"
    using host_insertion [OF wf _ element shadow_parentless [OF wf sh] owner focus] by blast
  have "tree_root d' h = s"
    using d'(2,3) by (simp add: tree_root_eq [OF d'(5), of h] tree_root_eq [OF d'(5), of s])
  moreover have "shadow_host d' s = Some h" using host d'(4) by (simp add: shadow_host_def shadow_root_data_def)
  ultimately show ?thesis using d'(1) shadow_walk_stuck by auto
qed

end
