(* ===== verification/DomProperties.thy ===== *)
theory DomProperties
  imports DomSlots "HOL-Library.Code_Target_Nat"
begin

text \<open>
  The properties of the documents that the operations lead to, each applied to a concrete document: a
  page with a paragraph of text, a host with its shadow root, and a few ranges.
\<close>

subsection \<open>Runs\<close>

definition dom_run :: "dom_op list \<Rightarrow> dom \<Rightarrow> dom" where
  "dom_run xs d = fold (\<lambda>x d. snd (dom_apply x d)) xs d"

lemma run_reachable: "dom_reachable d \<Longrightarrow> dom_reachable (dom_run xs d)"
  unfolding dom_run_def by (induction xs arbitrary: d) (auto intro: dom_reachable.step)

lemma run_grown: "dom_reachable d \<Longrightarrow> grown d (dom_run xs d)"
proof -
  assume d: "dom_reachable d"
  have "grown d (fold (\<lambda>x d. snd (dom_apply x d)) xs d1)" if "grown d d1" for d1
    using that
  proof (induction xs arbitrary: d1)
    case (Cons x xs)
    from Cons.prems have "grown d (snd (dom_apply x d1))"
      by (rule grown.keepsD [OF grown.keeps_dom_apply])
    with Cons.IH show ?case by simp
  qed simp
  then show ?thesis using grown_refl [OF reachable_wf [OF d]] by (simp add: dom_run_def)
qed

text \<open>
  The documents of the examples.  In \<open>page\<close> the nodes are: 0 the document, 1 \<open>html\<close>, 2 \<open>p\<close>, 3 the text
  of the paragraph, 4 a second text, 5 a focused input.  \<open>hosted\<close> has a \<open>div\<close>, node 1, that hosts node 2.
\<close>

definition page :: dom where
  "page = dom_run
     [Make (CreateHtmlElement (lit ''html'')), Make (CreateHtmlElement (lit ''p'')),
      Make (CreateText (lit ''hello'')), Make (CreateText (lit ''world'')),
      Make (CreateHtmlElement (lit ''input'')),
      Tree (InsertBefore 0 1 None), Tree (InsertBefore 1 2 None), Tree (InsertBefore 2 3 None),
      Tree (InsertBefore 1 5 None), Data (SetFocus (Some 5)),
      Ranges (CreateLiveRange 2), Ranges (SetRangeEnd 0 2 1)] dom_new"

definition hosted :: dom where
  "hosted = dom_run
     [Make (CreateHtmlElement (lit ''div'')), Tree (AttachShadow 1 Open False Named),
      Make (CreateHtmlElement (lit ''slot'')), Make (CreateText (lit ''light'')),
      Tree (InsertBefore 2 3 None), Tree (InsertBefore 1 4 None)] dom_new"

lemma page_reachable: "dom_reachable page"
  unfolding page_def by (intro run_reachable dom_reachable.start)

lemma hosted_reachable: "dom_reachable hosted"
  unfolding hosted_def by (intro run_reachable dom_reachable.start)

lemma returned: "(case m d of (Inr a, _) \<Rightarrow> P a | _ \<Rightarrow> False) \<Longrightarrow> \<exists>a d'. m d = (Inr a, d') \<and> P a"
  by (auto split: prod.splits sum.splits)

subsection \<open>The shape of documents\<close>

text \<open>
  C4: in every document the operations lead to, whatever their order and arguments
  and whether they succeed or not, parents and child lists agree, no node has itself as an ancestor or is
  listed twice, only documents, fragments, shadow roots and elements have children, and the children of
  a document are comments, instructions, at most one doctype and at most one element, in this order.
\<close>

theorem reachable_documents_wf:
  assumes "dom_reachable d"
  shows "dom_wf d"
  using assms by (rule reachable_wf)

theorem reachable_documents_wf_witness: "dom_wf page \<and> dom_wf hosted"
  using reachable_documents_wf [OF page_reachable] reachable_documents_wf [OF hosted_reachable] by blast



subsection \<open>Insertion\<close>

text \<open>
  C5: an insertion that succeeds returns the node, puts it, or the children of a
  fragment in their order, before the reference node (after itself, when it is its own reference) into
  the child list of the parent, takes each of them out of its old parent, and leaves all other links,
  the classes of all nodes and the size of the arena as they were.
\<close>

theorem insertion_effect:
  assumes "dom_reachable d" and "insert_before parent n reference d = (Inr m, d')" and "kind_opt d n = Some k"
  defines "ns \<equiv> insertion_nodes_of d n k"
  shows "m = n \<and> moved d parent ns (if reference = Some n then next_sibling d n else reference) d'"
  unfolding ns_def using reachable_tree [OF assms(1)] assms(2,3) by (rule insert_before_moved)

theorem insertion_effect_witness:
  "\<exists>d'. insert_before 1 4 (Some 2) page = (Inr 4, d') \<and> kids d' 1 = [4, 2, 5] \<and> parent_of d' 4 = Some 1"
proof -
  have "case insert_before 1 4 (Some 2) page of (Inr a, _) \<Rightarrow> True | _ \<Rightarrow> False"
    unfolding page_def by code_simp
  then obtain m d' where run: "insert_before 1 4 (Some 2) page = (Inr m, d')"
    by (auto split: prod.splits sum.splits)
  have k: "kind_opt page 4 = Some (Text (lit ''world''))" unfolding page_def by code_simp
  have "insertion_nodes_of page 4 (Text (lit ''world'')) = [4]" "candidate_children page 1 [4] (Some 2) = [4, 2, 5]"
    unfolding page_def by code_simp+
  with insertion_effect [OF page_reachable run k] run show ?thesis by (auto simp: moved_def)
qed

text \<open>
  C6: when an insertion is refused, with whichever error, the document
  is exactly what it was: the checks come before the first write.
\<close>

theorem failed_insertion_changes_nothing:
  assumes "dom_reachable d" and "insert_before parent n reference d = (Inl (DomErr e), d')"
  shows "d' = d"
  using insert_before_error [OF reachable_tree [OF assms(1)] assms(2)] by simp

theorem failed_insertion_changes_nothing_witness:
  "\<exists>e. insert_before 3 2 None page = (Inl (DomErr e), page) \<and> de_kind e = HierarchyRequest"
proof -
  have "case insert_before 3 2 None page of (Inl (DomErr e), _) \<Rightarrow> de_kind e = HierarchyRequest | _ \<Rightarrow> False"
    unfolding page_def by code_simp
  then obtain e d' where "insert_before 3 2 None page = (Inl (DomErr e), d')" "de_kind e = HierarchyRequest"
    by (auto split: prod.splits sum.splits dom_fault.splits)
  with failed_insertion_changes_nothing [OF page_reachable] show ?thesis by blast
qed

subsection \<open>The journal\<close>

text \<open>
  C10: a reader that follows the journal loses nothing and sees nothing twice.  If
  it reads at some point and again, from the revision the first batch ends at, after any further
  operations, it gets the records that one read over the whole time gives, as long as the bounded
  journal can still answer that one read; a read that can no longer be answered exactly is refused.
\<close>

theorem journal_read_in_pieces:
  assumes "dom_reachable d" and "d_revision (dom_run xs d) < REVISION_MAX"
    and "mutations_since d r = Inr b" and "mutations_since (dom_run xs d) r = Inr whole"
  shows "\<exists>b'. mutations_since (dom_run xs d) (mb_to b) = Inr b' \<and> mb_records whole = mb_records b @ mb_records b'"
proof -
  obtain L where "history L d" using reachable_history [OF assms(1)] by blast
  moreover have "later d (dom_run xs d)" using run_grown [OF assms(1), of xs] by (simp add: grown_def)
  ultimately show ?thesis using assms(2-4) by (rule mutations_since_chain)
qed

theorem journal_read_in_pieces_witness:
  "\<exists>b b' whole. mutations_since page 2 = Inr b \<and>
     mutations_since (dom_run [Tree (RemoveChild 1 2)] page) (mb_to b) = Inr b' \<and>
     mutations_since (dom_run [Tree (RemoveChild 1 2)] page) 2 = Inr whole \<and>
     mb_records whole = mb_records b @ mb_records b' \<and> length (mb_records whole) = 3"
proof -
  let ?d' = "dom_run [Tree (RemoveChild 1 2)] page"
  have "case mutations_since page 2 of Inr b \<Rightarrow> True | _ \<Rightarrow> False" unfolding page_def by code_simp
  then obtain b where b: "mutations_since page 2 = Inr b" by (auto split: sum.splits)
  have "case mutations_since ?d' 2 of Inr w \<Rightarrow> length (mb_records w) = 3 | _ \<Rightarrow> False"
    unfolding page_def by code_simp
  then obtain w where w: "mutations_since ?d' 2 = Inr w" "length (mb_records w) = 3"
    by (auto split: sum.splits)
  have "d_revision ?d' < REVISION_MAX" unfolding page_def by code_simp
  from journal_read_in_pieces [OF page_reachable this b w(1)] obtain b' where
    "mutations_since ?d' (mb_to b) = Inr b'" "mb_records w = mb_records b @ mb_records b'" by blast
  with b w show ?thesis by (intro exI [of _ b] exI [of _ b'] exI [of _ w] conjI)
qed

subsection \<open>Walks\<close>

text \<open>
  C11: the stack walk behind every scan of a subtree ends, and lists the node, then the
  subtrees of its children one after the other, so in tree order, with every node of the subtree in it
  exactly once.
\<close>

theorem tree_order_walk:
  assumes "dom_reachable d" and "n < length (d_nodes d)"
  shows "visit d [n] = n # concat (map (\<lambda>c. visit d [c]) (kids d n)) \<and> distinct (visit d [n]) \<and>
    set (visit d [n]) = {m. is_inclusive_ancestor d n m}"
proof -
  have ok: "tree_ok d" using assms(1) by (rule reachable_tree)
  have "apart d [n]" using assms(2) by (simp add: apart_simps)
  with visit_exact [OF ok this] visit_root [OF ok assms(2)] visit_concat [OF ok kids_apart(1) [OF ok]]
  show ?thesis by (simp add: below_def is_inclusive_ancestor_up [OF ok])
qed

theorem tree_order_walk_witness: "visit page [1] = [1, 2, 3, 5] \<and> distinct (visit page [1])"
proof -
  have "1 < length (d_nodes page)" unfolding page_def by code_simp
  from tree_order_walk [OF page_reachable this] have "distinct (visit page [1])" by (elim conjE)
  moreover have "visit page [1] = [1, 2, 3, 5]" unfolding page_def by code_simp
  ultimately show ?thesis by blast
qed

subsection \<open>Ranges\<close>

fun moves_points :: "dom_op \<Rightarrow> bool" where
  "moves_points (Tree (InsertBefore p n r)) = True"
| "moves_points (Tree (RemoveChild p n)) = True"
| "moves_points (Data (ReplaceData n off cnt s)) = str_ok s"
| "moves_points _ = False"

text \<open>
  C12: inserting and removing nodes and replacing character data keep every
  boundary point of every live range inside its node: its offset is at most the number of children, or
  of UTF-16 code units of the data.  (The texts of the document are lists of Unicode scalar values, as
  Rust strings are.)
\<close>

theorem live_ranges_stay_inside:
  assumes "dom_reachable d" and "moves_points x" and "dom_apply x d = (Inr (), d')" and "live_ranges_ok d"
    and "\<And>n t. data_of d n = Some t \<Longrightarrow> str_ok t"
  shows "live_ranges_ok d'"
proof -
  from assms(2) consider (insert) p n r where "x = Tree (InsertBefore p n r)"
    | (remove) p n where "x = Tree (RemoveChild p n)"
    | (replace) n off cnt s where "x = Data (ReplaceData n off cnt s)" "str_ok s"
    by (cases x rule: moves_points.cases) auto
  then show ?thesis
  proof cases
    case insert
    then obtain m where "insert_before p n r d = (Inr m, d')"
      using assms(3) by (auto simp: void_def and_do_Inr)
    with reachable_wf [OF assms(1)] assms(4) show ?thesis by (rule insert_before_ranges)
  next
    case remove
    then have "d' = snd (remove_child p n d)" using assms(3) by (auto simp: void_def and_do_Inr)
    then show ?thesis using remove_child_ranges [OF reachable_wf [OF assms(1)] assms(4)] by simp
  next
    case replace
    then have "replace_data n off cnt s d = (Inr (), d')" using assms(3) by simp
    from replace_data_ranges [OF assms(4) this assms(5) replace(2)] show ?thesis .
  qed
qed

definition texts_check :: "dom \<Rightarrow> bool" where
  "texts_check d \<longleftrightarrow> list_all (\<lambda>n. case data_of d n of None \<Rightarrow> True | Some t \<Rightarrow> str_ok t) [0..<length (d_nodes d)]"

lemma texts_ok:
  assumes "texts_check d" "data_of d n = Some t"
  shows "str_ok t"
proof -
  have "n < length (d_nodes d)"
    using assms(2) by (auto simp: data_of_kind kind_opt_def node_at_def split: if_splits)
  then have "case data_of d n of None \<Rightarrow> True | Some t \<Rightarrow> str_ok t"
    using assms(1) unfolding texts_check_def list_all_iff by simp
  with assms(2) show ?thesis by simp
qed

theorem live_ranges_stay_inside_witness:
  "\<exists>d'. remove_child 2 3 page = (Inr 3, d') \<and> live_ranges_ok d' \<and> map rg_end (d_ranges d') = [point 2 0]"
proof -
  have "case remove_child 2 3 page of (Inr m, d') \<Rightarrow> m = 3 \<and> map rg_end (d_ranges d') = [point 2 0] | _ \<Rightarrow> False"
    unfolding page_def by code_simp
  then obtain d' where run: "remove_child 2 3 page = (Inr 3, d')" "map rg_end (d_ranges d') = [point 2 0]"
    by (auto split: prod.splits sum.splits)
  have inside: "live_ranges_ok page" unfolding page_def by code_simp
  have texts: "texts_check page" unfolding page_def by code_simp
  have removal: "dom_apply (Tree (RemoveChild 2 3)) page = (Inr (), d')"
    using run(1) by (simp add: void_def and_do_def)
  have "live_ranges_ok d'"
  proof (rule live_ranges_stay_inside [OF page_reachable _ removal inside])
    show "moves_points (Tree (RemoveChild 2 3))" by simp
    fix n t
    assume "data_of page n = Some t"
    with texts show "str_ok t" by (rule texts_ok)
  qed
  with run show ?thesis by (intro exI conjI)
qed

text \<open>
  C39: setting the start or the end of a range puts it at the requested point and
  keeps the range in one tree with its start not after its end, moving the other end if need be.
\<close>

theorem range_setters_keep_order:
  assumes "dom_reachable d" and "range_ordered d (d_ranges d ! r)"
    and "(if at_start then range_set_start r n off else range_set_end r n off) d = (Inr (), d')"
  shows "(if at_start then rg_start (d_ranges d' ! r) else rg_end (d_ranges d' ! r)) = point n off \<and>
    range_ordered d' (d_ranges d' ! r)"
proof -
  have p: "checked_point d n off = Inr p \<Longrightarrow> p = point n off" for p
    by (auto simp: checked_point_def and_then_Inr_iff split: if_splits)
  show ?thesis
    using assms(2,3) p set_range_start_ordered set_range_end_ordered [OF reachable_tree [OF assms(1)]]
    by (auto simp: range_set_start_def range_set_end_def and_do_Inr split: if_splits)
qed

theorem range_setters_keep_order_witness:
  "\<exists>d'. range_set_start 0 2 1 page = (Inr (), d') \<and> range_ordered d' (d_ranges d' ! 0)"
proof -
  have "case range_set_start 0 2 1 page of (Inr a, _) \<Rightarrow> True | _ \<Rightarrow> False" unfolding page_def by code_simp
  then obtain d' where run: "range_set_start 0 2 1 page = (Inr (), d')" by (auto split: prod.splits sum.splits)
  have "range_ordered page (d_ranges page ! 0)" unfolding page_def by code_simp
  from range_setters_keep_order [OF page_reachable this, of True 2 1 d'] run show ?thesis by simp
qed

subsection \<open>Character data and attributes\<close>

text \<open>
  C31: replacing data works on UTF-16 code units: an offset past the end is refused, and
  otherwise the data becomes the units before the offset, the new text, and the units after the count,
  read as UTF-16 with U+FFFD for a surrogate that the cut leaves alone; the length of the data is what
  the counts say, even when the cut falls inside a surrogate pair.
\<close>

theorem replace_data_spec:
  assumes "data_of d n = Some t" and "str_ok t" and "str_ok s" and "replace_data n off cnt s d = (Inr (), d')"
  defines "c \<equiv> min cnt (utf16_len t - off)"
  shows "off \<le> utf16_len t \<and>
    data_of d' n = Some (from_utf16_lossy (take off (encode_utf16 t) @ encode_utf16 s @ drop (off + c) (encode_utf16 t))) \<and>
    node_length d' n = utf16_len t - c + utf16_len s"
proof -
  note effect = replace_data_effect [OF assms(4,1)]
  have "units_ok (replaced_units (encode_utf16 t) off c (encode_utf16 s))"
    using assms(2,3) by (intro units_ok_replaced units_ok_encode)
  then have "utf16_len (from_utf16_lossy (replaced_units (encode_utf16 t) off c (encode_utf16 s))) =
      utf16_len t - c + utf16_len s"
    using effect length_replaced_units [of off "encode_utf16 t" cnt "encode_utf16 s"]
    by (simp add: utf16_len_lossy c_def) (simp add: utf16_len_def)
  moreover have "node_length d' n = utf16_len (from_utf16_lossy (replaced_units (encode_utf16 t) off c (encode_utf16 s)))"
    using effect by (intro data_of_length) (simp add: c_def)
  ultimately show ?thesis using effect by (simp only: c_def replaced_units_def simp_thms)
qed

theorem replace_data_spec_witness:
  "\<exists>d'. replace_data 3 1 3 (lit ''ipp'') page = (Inr (), d') \<and> data_of d' 3 = Some (lit ''hippo'') \<and> node_length d' 3 = 5"
proof -
  have "case replace_data 3 1 3 (lit ''ipp'') page of (Inr a, d') \<Rightarrow> data_of d' 3 = Some (lit ''hippo'') | _ \<Rightarrow> False"
    unfolding page_def by code_simp
  then obtain d' where run: "replace_data 3 1 3 (lit ''ipp'') page = (Inr (), d')" "data_of d' 3 = Some (lit ''hippo'')"
    by (auto split: prod.splits sum.splits)
  have "data_of page 3 = Some (lit ''hello'')" unfolding page_def by code_simp
  from replace_data_spec [OF this _ _ run(1)]
  have "node_length d' 3 = utf16_len (lit ''hello'') - min 3 (utf16_len (lit ''hello'') - 1) + utf16_len (lit ''ipp'')"
    by (simp add: lit_def scalar_ok_def)
  moreover have "\<dots> = 5" by code_simp
  ultimately show ?thesis using run by simp
qed

text \<open>
  attribute_set_then_get: after an attribute was set, reading it, under any name that stands for the
  same attribute (in HTML names are compared in ASCII lower case), gives the value, and every other
  attribute of this and of every other element reads as before.
\<close>

theorem attribute_set_then_get:
  assumes "set_attribute n a v d = (Inr (), d')" and "element_at d n = Some e"
  shows "get_attribute d' m b =
    (if m = n \<and> normalize_name e b = normalize_name e a then Inr (Some v) else get_attribute d m b)"
  using assms by (rule set_attribute_lookup)

theorem attribute_set_then_get_witness:
  "\<exists>d'. set_attribute 2 (lit ''ID'') (lit ''x'') page = (Inr (), d') \<and>
     get_attribute d' 2 (lit ''id'') = Inr (Some (lit ''x'')) \<and> get_attribute d' 2 (lit ''class'') = Inr None"
proof -
  have "case set_attribute 2 (lit ''ID'') (lit ''x'') page of (Inr a, _) \<Rightarrow> True | _ \<Rightarrow> False"
    unfolding page_def by code_simp
  then obtain d' where run: "set_attribute 2 (lit ''ID'') (lit ''x'') page = (Inr (), d')"
    by (auto split: prod.splits sum.splits)
  have e: "element_at page 2 = Some (\<lparr>el_namespace = Html, el_prefix = None, el_local = lit ''p'', el_attributes = [],
      el_template_contents = None, el_shadow_root = None, el_manual = [], el_form_link = None\<rparr>)" (is "_ = Some ?e")
    unfolding page_def by code_simp
  have names: "normalize_name ?e (lit ''id'') = normalize_name ?e (lit ''ID'')"
    and other: "(normalize_name ?e (lit ''class'') = normalize_name ?e (lit ''ID'')) = False"
    by code_simp+
  have "get_attribute page 2 (lit ''class'') = Inr None" unfolding page_def by code_simp
  then show ?thesis
    using attribute_set_then_get [OF run e, of 2 "lit ''id''"] attribute_set_then_get [OF run e, of 2 "lit ''class''"]
      run names other by simp
qed

subsection \<open>The focus\<close>



subsection \<open>Shadow trees\<close>


definition host_links_check :: "dom \<Rightarrow> bool" where
  "host_links_check d \<longleftrightarrow> list_all (\<lambda>n.
     (case shadow_root d n of None \<Rightarrow> True | Some r \<Rightarrow> shadow_host d r = Some n) \<and>
     (case shadow_host d n of None \<Rightarrow> True | Some h \<Rightarrow> shadow_root d h = Some n)) [0..<length (d_nodes d)]"

lemma host_links_check:
  assumes "host_links_check d"
  shows "host_links d"
proof -
  have arena: "n < length (d_nodes d)" if "shadow_root d n = Some r \<or> shadow_host d n = Some r" for n r
    using that by (auto simp: shadow_root_def shadow_host_def shadow_root_data_def kind_opt_def node_at_def
        split: option.splits if_splits)
  have "(case shadow_root d n of None \<Rightarrow> True | Some r \<Rightarrow> shadow_host d r = Some n) \<and>
     (case shadow_host d n of None \<Rightarrow> True | Some h \<Rightarrow> shadow_root d h = Some n)" if "n < length (d_nodes d)" for n
    using assms that unfolding host_links_check_def list_all_iff by simp
  note check = this
  show ?thesis
    unfolding host_links_def
  proof (intro allI iffI)
    show "shadow_host d r = Some h" if "shadow_root d h = Some r" for h r
      using check [of h] arena [of h r] that by simp
    show "shadow_root d h = Some r" if "shadow_host d r = Some h" for h r
      using check [of r] arena [of r h] that by simp
  qed
qed


text \<open>
  C30: the checks before an insertion do not look across shadow roots, so a
  shadow root accepts its own host as a child (DOM 4.2.3 asks for a HierarchyRequestError).  From then
  on the search for the shadow-including root of the host goes round in a circle: with any number of
  steps it does not end, so the real loop, and every query that asks whether the host is connected,
  never returns.
\<close>

theorem shadow_root_takes_its_host:
  assumes "dom_reachable d" and "shadow_host d s = Some h" and "class_of d h = Some CElement"
    and "owner_of d h = owner_of d s" and "d_focused d = None"
  shows "\<exists>d'. append_child s h d = (Inr h, d') \<and> tree_root d' h = s \<and> shadow_host d' s = Some h \<and>
    (\<forall>k. shadow_including_root_loop k d' (tree_root d' h) = None)"
  using reachable_wf [OF assms(1)] assms(2-5) by (rule host_cycle)

theorem shadow_root_takes_its_host_witness:
  "\<exists>d'. append_child 2 1 hosted = (Inr 1, d') \<and> (\<forall>k. shadow_including_root_loop k d' (tree_root d' 1) = None)"
proof -
  have a: "shadow_host hosted 2 = Some 1" unfolding hosted_def by code_simp
  have b: "class_of hosted 1 = Some CElement" unfolding hosted_def by code_simp
  have c: "owner_of hosted 1 = owner_of hosted 2" unfolding hosted_def by code_simp
  have d: "d_focused hosted = None" unfolding hosted_def by code_simp
  from shadow_root_takes_its_host [OF hosted_reachable a b c d] show ?thesis by blast
qed

subsection \<open>Grafting\<close>

text \<open>
  graft_copies_the_tree: grafting a document puts all its nodes behind those of the receiver, with
  parents, children and classes carried over to the shifted ids, and leaves the nodes of the receiver
  as they were.
\<close>

theorem graft_copies_the_tree:
  assumes "graft_document other d = (root, d')"
  defines "L \<equiv> length (d_nodes d)"
  shows "root = d_document other + L \<and>
    parent_of d' (m + L) = map_option (\<lambda>p. p + L) (parent_of other m) \<and>
    kids d' (m + L) = map (\<lambda>c. c + L) (kids other m) \<and> class_of d' (m + L) = class_of other m \<and>
    (if k < L then node_at d' k = node_at d k else True)"
  using graft_views(3) [OF assms(1)] graft_links(4-6) [OF assms(1)] graft_at(1) [OF assms(1), of k]
  by (simp add: L_def)

theorem graft_copies_the_tree_witness:
  "\<exists>root d'. graft_document hosted page = (root, d') \<and> root = 6 \<and> kids d' 7 = [10] \<and> parent_of d' 10 = Some 7"
proof -
  obtain root d' where run: "graft_document hosted page = (root, d')" by fastforce
  have "length (d_nodes page) = 6" unfolding page_def by code_simp
  moreover have "d_document hosted = 0" unfolding hosted_def by code_simp
  moreover have "kids hosted 1 = [4]" unfolding hosted_def by code_simp
  moreover have "parent_of hosted 4 = Some 1" unfolding hosted_def by code_simp
  ultimately show ?thesis using graft_copies_the_tree [OF run, of 1 0] graft_copies_the_tree [OF run, of 4 0] run by simp
qed

end
