(* ===== verification/BigIntModel.thy ===== *)
theory BigIntModel
  imports RustOrdering "HOL-Library.While_Combinator" "HOL-Library.Monad_Syntax"
begin

text \<open>
  The magnitudes of \<^verbatim>\<open>crates/render-js/src/bigint.rs\<close>: little-endian vectors of 32-bit limbs and the
  arithmetic on them.

  A limb is a \<^typ>\<open>u32\<close>.  The intermediate values the code keeps in a \<open>u64\<close> or an \<open>i64\<close> are
  \<^typ>\<open>u64\<close> words, with \<open><s\<close> and \<open>signed_drop_bit\<close> where the Rust type is signed.  Counts of bits and
  indices are natural numbers.  Where the code indexes a vector by a computed position, the model
  yields \<^term>\<open>None\<close> for a position outside it, which is the panic of the code; it does so too for
  a division by zero.
\<close>

type_synonym limbs = "u32 list"

definition max_bits :: nat where
  "max_bits = 2 ^ 20"

definition u64_max :: nat where
  "u64_max = 2 ^ 64 - 1"

definition digit_count_fits :: "nat \<Rightarrow> bool" where
  "digit_count_fits n \<longleftrightarrow> min (n * 4) u64_max \<le> max_bits"

subsection \<open>Access to limbs\<close>

text \<open>\<open>limbs.get(i).copied().unwrap_or(0)\<close>, and \<open>limbs[i]\<close>.\<close>

definition limb_at :: "limbs \<Rightarrow> nat \<Rightarrow> u32" where
  "limb_at ls i = (if i < length ls then ls ! i else 0)"

definition limb_get :: "limbs \<Rightarrow> nat \<Rightarrow> u32 option" where
  "limb_get ls i = (if i < length ls then Some (ls ! i) else None)"

fun trim_limbs :: "limbs \<Rightarrow> limbs" where
  "trim_limbs ls = (if ls \<noteq> [] \<and> last ls = 0 then trim_limbs (butlast ls) else ls)"

declare trim_limbs.simps [simp del]

definition leading_zeros :: "u32 \<Rightarrow> nat" where
  "leading_zeros w = length (takeWhile Not (bits_msb 32 w))"

definition bit_length :: "limbs \<Rightarrow> nat" where
  "bit_length ls = (if ls = [] then 0 else (length ls - 1) * 32 + (32 - leading_zeros (last ls)))"

definition bit_of_limbs :: "limbs \<Rightarrow> nat \<Rightarrow> bool" where
  "bit_of_limbs ls index =
     (case limb_get ls (index div 32) of None \<Rightarrow> False
      | Some limb \<Rightarrow> drop_bit (index mod 32) limb AND 1 = 1)"

definition cmp_magnitude :: "limbs \<Rightarrow> limbs \<Rightarrow> ordering" where
  "cmp_magnitude left right =
     then_with (cmp (length left) (length right)) (cmp_iter (rev left) (rev right))"

subsection \<open>Sums and differences\<close>

text \<open>The loop over the longer operand, with the index and the carry.\<close>

fun add_limbs :: "limbs \<Rightarrow> limbs \<Rightarrow> nat \<Rightarrow> u64 \<Rightarrow> limbs \<times> u64" where
  "add_limbs [] short index carry = ([], carry)"
| "add_limbs (limb # ls) short index carry =
     (let sum = ucast limb + ucast (limb_at short index) + carry;
          (rest, c) = add_limbs ls short (index + 1) (drop_bit 32 sum)
      in (ucast sum # rest, c))"

definition add_magnitude :: "limbs \<Rightarrow> limbs \<Rightarrow> limbs" where
  "add_magnitude left right =
     (let (long, short) = (if length right \<le> length left then (left, right) else (right, left));
          (output, carry) = add_limbs long short 0 0
      in trim_limbs (if carry \<noteq> 0 then output @ [ucast carry] else output))"

fun sub_limbs :: "limbs \<Rightarrow> limbs \<Rightarrow> nat \<Rightarrow> u64 \<Rightarrow> limbs" where
  "sub_limbs [] right index borrow = []"
| "sub_limbs (limb # ls) right index borrow =
     (let difference = ucast limb - ucast (limb_at right index) - borrow;
          borrow' = (if difference <s 0 then 1 else 0);
          difference' = (if difference <s 0 then difference + 2 ^ 32 else difference)
      in ucast difference' # sub_limbs ls right (index + 1) borrow')"

definition sub_magnitude :: "limbs \<Rightarrow> limbs \<Rightarrow> limbs" where
  "sub_magnitude left right = trim_limbs (sub_limbs left right 0 0)"

subsection \<open>Products\<close>

text \<open>One limb of the left operand times the right operand, added in place from \<open>pos\<close> on.\<close>

fun mul_row :: "u32 \<Rightarrow> limbs \<Rightarrow> nat \<Rightarrow> u64 \<Rightarrow> limbs \<Rightarrow> (limbs \<times> u64) option" where
  "mul_row left_limb [] pos carry output = Some (output, carry)"
| "mul_row left_limb (right_limb # right) pos carry output =
     do { old \<leftarrow> limb_get output pos;
          let total = ucast left_limb * ucast right_limb + ucast old + carry;
          mul_row left_limb right (pos + 1) (drop_bit 32 total) (output[pos := ucast total]) }"

function mul_carry :: "nat \<Rightarrow> u64 \<Rightarrow> limbs \<Rightarrow> limbs option" where
  "mul_carry pos carry output =
     (if carry = 0 then Some output
      else if pos < length output
      then let total = ucast (output ! pos) + carry
           in mul_carry (pos + 1) (drop_bit 32 total) (output[pos := ucast total])
      else None)"
  by pat_completeness auto
termination
  by (relation "measure (\<lambda>(pos, carry, output). length output - pos)") auto

declare mul_carry.simps [simp del]

fun mul_rows :: "limbs \<Rightarrow> limbs \<Rightarrow> nat \<Rightarrow> limbs \<Rightarrow> limbs option" where
  "mul_rows [] right i output = Some output"
| "mul_rows (left_limb # left) right i output =
     do { (output', carry) \<leftarrow> mul_row left_limb right i 0 output;
          output'' \<leftarrow> mul_carry (i + length right) carry output';
          mul_rows left right (i + 1) output'' }"

definition mul_magnitude :: "limbs \<Rightarrow> limbs \<Rightarrow> limbs option" where
  "mul_magnitude left right =
     (if left = [] \<or> right = [] then Some []
      else map_option trim_limbs (mul_rows left right 0 (replicate (length left + length right) 0)))"

subsection \<open>One limb at a time\<close>

text \<open>\<open>div_small\<close> goes through the limbs from the top; the model does so over the reversed list.\<close>

fun div_limbs :: "u64 \<Rightarrow> u64 \<Rightarrow> limbs \<Rightarrow> limbs \<times> u64" where
  "div_limbs divisor remainder [] = ([], remainder)"
| "div_limbs divisor remainder (limb # ls) =
     (let current = push_bit 32 remainder OR ucast limb;
          (rest, r) = div_limbs divisor (current mod divisor) ls
      in (ucast (current div divisor) # rest, r))"

definition div_small :: "limbs \<Rightarrow> u32 \<Rightarrow> (limbs \<times> u32) option" where
  "div_small ls divisor =
     (if divisor = 0 \<and> ls \<noteq> [] then None
      else let (quotient, remainder) = div_limbs (ucast divisor) 0 (rev ls)
           in Some (trim_limbs (rev quotient), ucast remainder))"

fun mul_add_limbs :: "limbs \<Rightarrow> u64 \<Rightarrow> u64 \<Rightarrow> limbs \<times> u64" where
  "mul_add_limbs [] factor carry = ([], carry)"
| "mul_add_limbs (limb # ls) factor carry =
     (let total = ucast limb * factor + carry;
          (rest, c) = mul_add_limbs ls factor (drop_bit 32 total)
      in (ucast total # rest, c))"

definition mul_add_small :: "limbs \<Rightarrow> u32 \<Rightarrow> u32 \<Rightarrow> limbs" where
  "mul_add_small ls factor addend =
     (let (output, carry) = mul_add_limbs ls (ucast factor) (ucast addend)
      in trim_limbs (if carry \<noteq> 0 then output @ [ucast carry] else output))"

subsection \<open>Shifts\<close>

fun shl_limbs :: "nat \<Rightarrow> limbs \<Rightarrow> u32 \<Rightarrow> limbs \<times> u32" where
  "shl_limbs s [] carry = ([], carry)"
| "shl_limbs s (limb # ls) carry =
     (let (rest, c) = shl_limbs s ls (drop_bit (32 - s) limb)
      in ((push_bit s limb OR carry) # rest, c))"

definition shl_magnitude :: "limbs \<Rightarrow> nat \<Rightarrow> limbs" where
  "shl_magnitude ls bits =
     (if ls = [] then []
      else let limb_shift = bits div 32; bit_shift = bits mod 32; low = replicate limb_shift 0
           in trim_limbs
                (if bit_shift = 0 then low @ ls
                 else let (output, carry) = shl_limbs bit_shift ls 0
                      in low @ output @ (if carry \<noteq> 0 then [carry] else [])))"

text \<open>
  \<open>usize::try_from(bits / 32)\<close> cannot fail on a 64-bit target; the loop reads the limb above with
  \<open>source.get(index + 1)\<close>.
\<close>

fun shr_limbs :: "nat \<Rightarrow> limbs \<Rightarrow> limbs" where
  "shr_limbs s [] = []"
| "shr_limbs s (limb # ls) =
     (if s = 0 then limb else drop_bit s limb OR push_bit (32 - s) (limb_at ls 0)) # shr_limbs s ls"

definition shr_magnitude :: "limbs \<Rightarrow> nat \<Rightarrow> limbs" where
  "shr_magnitude ls bits =
     (if length ls \<le> bits div 32 then []
      else trim_limbs (shr_limbs (bits mod 32) (drop (bits div 32) ls)))"

text \<open>One limb longer than the input: the last limb is the carry.\<close>

definition shift_left_limbs :: "limbs \<Rightarrow> nat \<Rightarrow> limbs" where
  "shift_left_limbs ls s =
     (if s = 0 then ls @ [0]
      else let (output, carry) = shl_limbs s ls 0 in output @ [carry])"

subsection \<open>Long division\<close>

text \<open>
  The divisor of the long division is a magnitude in normal form, so its top limb is not zero.
  The steps of Knuth's Algorithm D for one quotient limb: the estimate is refined (D3), the divisor
  is multiplied by it and subtracted in place (D4), and added back when the estimate was one too
  large (D5, D6).
\<close>

function refine_digit :: "u64 \<Rightarrow> u64 \<Rightarrow> u64 \<Rightarrow> u64 \<Rightarrow> u64 \<Rightarrow> u64" where
  "refine_digit top_limb second_limb below digit rest =
     (if 2 ^ 32 \<le> digit \<or> push_bit 32 rest OR below < digit * second_limb
      then if 2 ^ 32 \<le> rest + top_limb then digit - 1
           else refine_digit top_limb second_limb below (digit - 1) (rest + top_limb)
      else digit)"
  by pat_completeness auto
termination
proof (relation "measure (\<lambda>(top_limb, second_limb, below, digit, rest). unat digit)")
  fix top_limb second_limb below digit rest :: u64
  assume "2 ^ 32 \<le> digit \<or> push_bit 32 rest OR below < digit * second_limb"
  then have "digit \<noteq> 0" by auto
  then show "((top_limb, second_limb, below, digit - 1, rest + top_limb), top_limb, second_limb, below, digit, rest)
      \<in> measure (\<lambda>(top_limb, second_limb, below, digit, rest). unat digit)"
    by (simp add: measure_unat)
qed simp

declare refine_digit.simps [simp del]

fun mul_sub :: "u64 \<Rightarrow> limbs \<Rightarrow> nat \<Rightarrow> u64 \<Rightarrow> limbs \<Rightarrow> (limbs \<times> u64) option" where
  "mul_sub digit [] pos borrow scaled = Some (scaled, borrow)"
| "mul_sub digit (limb # divisor) pos borrow scaled =
     do { old \<leftarrow> limb_get scaled pos;
          let product = digit * ucast limb;
          let difference = ucast old - borrow - (product AND 0xFFFFFFFF);
          mul_sub digit divisor (pos + 1) (drop_bit 32 product - signed_drop_bit 32 difference)
            (scaled[pos := ucast difference]) }"

fun add_back :: "limbs \<Rightarrow> nat \<Rightarrow> u64 \<Rightarrow> limbs \<Rightarrow> (limbs \<times> u64) option" where
  "add_back [] pos carry scaled = Some (scaled, carry)"
| "add_back (limb # divisor) pos carry scaled =
     do { old \<leftarrow> limb_get scaled pos;
          let sum = ucast old + ucast limb + carry;
          add_back divisor (pos + 1) (drop_bit 32 sum) (scaled[pos := ucast sum]) }"

definition quotient_digit :: "limbs \<Rightarrow> nat \<Rightarrow> limbs \<Rightarrow> (u32 \<times> limbs) option" where
  "quotient_digit divisor j scaled =
     do { let n = length divisor;
          let top_limb = (ucast (divisor ! (n - 1)) :: u64);
          let second_limb = (ucast (divisor ! (n - 2)) :: u64);
          high \<leftarrow> limb_get scaled (j + n);
          middle \<leftarrow> limb_get scaled (j + n - 1);
          below \<leftarrow> limb_get scaled (j + n - 2);
          let numerator = push_bit 32 (ucast high) OR ucast middle;
          let digit = refine_digit top_limb second_limb (ucast below) (numerator div top_limb) (numerator mod top_limb);
          (scaled', borrow) \<leftarrow> mul_sub digit divisor j 0 scaled;
          high' \<leftarrow> limb_get scaled' (j + n);
          let difference = ucast high' - borrow;
          let scaled'' = scaled'[j + n := ucast difference];
          if difference <s 0
          then do { (restored, carry) \<leftarrow> add_back divisor j 0 scaled'';
                    Some (ucast (digit - 1),
                      restored[j + n := restored ! (j + n) + ucast carry]) }
          else Some (ucast digit, scaled'') }"

text \<open>The loop over the quotient positions from the top; it collects the quotient from the top down.\<close>

fun quotient_digits :: "limbs \<Rightarrow> nat \<Rightarrow> limbs \<Rightarrow> (limbs \<times> limbs) option" where
  "quotient_digits divisor 0 scaled = Some ([], scaled)"
| "quotient_digits divisor (Suc j) scaled =
     do { (digit, scaled') \<leftarrow> quotient_digit divisor j scaled;
          (quotient, scaled'') \<leftarrow> quotient_digits divisor j scaled';
          Some (quotient @ [digit], scaled'') }"

text \<open>The low \<open>n\<close> limbs of the scaled dividend, shifted back down.\<close>

fun unscale_limbs :: "nat \<Rightarrow> nat \<Rightarrow> limbs \<Rightarrow> limbs option" where
  "unscale_limbs s 0 scaled = Some []"
| "unscale_limbs s (Suc n) scaled =
     (case scaled of [] \<Rightarrow> None
      | limb # ls \<Rightarrow>
          if s = 0 then map_option (\<lambda>r. limb # r) (unscale_limbs s n ls)
          else do { above \<leftarrow> limb_get ls 0;
                    rest \<leftarrow> unscale_limbs s n ls;
                    Some ((drop_bit s limb OR push_bit (32 - s) above) # rest) })"

definition divmod_magnitude :: "limbs \<Rightarrow> limbs \<Rightarrow> (limbs \<times> limbs) option" where
  "divmod_magnitude dividend divisor =
     (if cmp_magnitude dividend divisor = Less then Some ([], dividend)
      else if length divisor = 1
      then do { (quotient, remainder) \<leftarrow> div_small dividend (divisor ! 0);
                Some (quotient, if remainder = 0 then [] else [remainder]) }
      else if divisor = [] then None
      else do { let shift = leading_zeros (last divisor);
                let scaled_divisor = butlast (shift_left_limbs divisor shift);
                let scaled = shift_left_limbs dividend shift;
                let n = length scaled_divisor;
                (quotient, scaled') \<leftarrow> quotient_digits scaled_divisor (length dividend - n + 1) scaled;
                remainder \<leftarrow> unscale_limbs shift n scaled';
                Some (trim_limbs quotient, trim_limbs remainder) })"

end
