(* ===== verification/BigInt.thy ===== *)
theory BigInt
  imports BigIntModel "HOL-Library.Char_ord"
begin

text \<open>
  \<open>JsBigInt\<close> of \<^verbatim>\<open>crates/render-js/src/bigint.rs\<close>: a sign and a magnitude, and the operations the
  JavaScript runtime calls.

  An \<open>Option\<close> of the code is an \<open>option\<close>.  An operation that multiplies or divides can, as far as its
  text goes, index outside a vector or divide by zero; it yields \<^term>\<open>None\<close> then, and its result
  proper is inside a \<^term>\<open>Some\<close>.  Text is a list of Unicode scalar values.
\<close>

record js_bigint =
  bi_negative :: bool
  bi_limbs :: limbs

definition from_parts :: "bool \<Rightarrow> limbs \<Rightarrow> js_bigint" where
  "from_parts negative ls =
     (let limbs = trim_limbs ls in \<lparr>bi_negative = negative \<and> limbs \<noteq> [], bi_limbs = limbs\<rparr>)"

definition bi_zero :: js_bigint where
  "bi_zero = \<lparr>bi_negative = False, bi_limbs = []\<rparr>"

definition from_u64 :: "u64 \<Rightarrow> js_bigint" where
  "from_u64 v = from_parts False [ucast v, ucast (drop_bit 32 v)]"

definition from_i64 :: "64 word \<Rightarrow> js_bigint" where
  "from_i64 v = from_parts (v <s 0) (bi_limbs (from_u64 (if v <s 0 then - v else v)))"

definition bi_is_zero :: "js_bigint \<Rightarrow> bool" where
  "bi_is_zero a \<longleftrightarrow> bi_limbs a = []"

definition magnitude_u64 :: "js_bigint \<Rightarrow> u64 option" where
  "magnitude_u64 a =
     (case bi_limbs a of
        [] \<Rightarrow> Some 0
      | [low] \<Rightarrow> Some (ucast low)
      | [low, high] \<Rightarrow> Some (push_bit 32 (ucast high) OR ucast low)
      | _ \<Rightarrow> None)"

subsection \<open>Reading and printing digits\<close>

text \<open>\<open>char::to_digit\<close>, which panics for a radix over 36.\<close>

definition to_digit :: "nat \<Rightarrow> u32 \<Rightarrow> u32 option" where
  "to_digit c radix =
     (let d = (if 48 \<le> c \<and> c \<le> 57 then Some (c - 48)
               else if 97 \<le> c \<and> c \<le> 122 then Some (c - 87)
               else if 65 \<le> c \<and> c \<le> 90 then Some (c - 55) else None)
      in case d of None \<Rightarrow> None | Some n \<Rightarrow> if n < unat radix then Some (of_nat n) else None)"

text \<open>
  The loop of \<open>parse_digits\<close> over the characters, with the limbs read so far and the chunk that is
  being collected.
\<close>

fun parse_chunks :: "u32 \<Rightarrow> nat list \<Rightarrow> limbs \<Rightarrow> u32 \<Rightarrow> u32 \<Rightarrow> limbs option" where
  "parse_chunks radix [] limbs chunk_value chunk_base = Some (mul_add_small limbs chunk_base chunk_value)"
| "parse_chunks radix (c # cs) limbs chunk_value chunk_base =
     (case to_digit c radix of
        None \<Rightarrow> None
      | Some digit \<Rightarrow>
          if (- 1) div radix < chunk_base
          then parse_chunks radix cs (mul_add_small limbs chunk_base chunk_value) (0 * radix + digit) (1 * radix)
          else parse_chunks radix cs limbs (chunk_value * radix + digit) (chunk_base * radix))"

definition parse_digits :: "nat list \<Rightarrow> u32 \<Rightarrow> js_bigint option" where
  "parse_digits digits radix =
     (if digits = [] then None else map_option (from_parts False) (parse_chunks radix digits [] 0 1))"

definition bi_digits :: "nat list" where
  "bi_digits = map of_char ''0123456789abcdefghijklmnopqrstuvwxyz''"

text \<open>
  The largest power of the radix in one limb, and its number of digits.  \<open>while_option\<close> is the loop
  of the code; a radix of one would make it endless.
\<close>

definition chunk_of_radix :: "u32 \<Rightarrow> (u32 \<times> nat) option" where
  "chunk_of_radix radix =
     (if radix = 0 then None
      else while_option (\<lambda>(chunk, width). chunk \<le> (- 1) div radix)
             (\<lambda>(chunk, width). (chunk * radix, width + 1)) (radix, 1))"

text \<open>\<open>while !limbs.is_empty() { groups.push(div_small(&mut limbs, chunk)) }\<close>.\<close>

partial_function (option) digit_groups :: "u32 \<Rightarrow> limbs \<Rightarrow> u32 list option" where
  "digit_groups chunk limbs =
     (if limbs = [] then Some []
      else do { (limbs', g) \<leftarrow> div_small limbs chunk;
                gs \<leftarrow> digit_groups chunk limbs';
                Some (g # gs) })"

text \<open>The digits of one group, least significant first.\<close>

partial_function (option) group_digits :: "u32 \<Rightarrow> u32 \<Rightarrow> nat list option" where
  "group_digits radix v =
     (if v = 0 then Some []
      else if length bi_digits \<le> unat (v mod radix) then None
      else do { ds \<leftarrow> group_digits radix (v div radix);
                Some (bi_digits ! unat (v mod radix) # ds) })"

declare digit_groups.simps [code] group_digits.simps [code]

definition resize :: "nat \<Rightarrow> 'a \<Rightarrow> 'a list \<Rightarrow> 'a list" where
  "resize n x xs = take n xs @ replicate (n - length xs) x"

fun group_texts :: "u32 \<Rightarrow> nat \<Rightarrow> nat \<Rightarrow> u32 list \<Rightarrow> nat list option" where
  "group_texts radix width index [] = Some []"
| "group_texts radix width index (g # gs) =
     do { ds \<leftarrow> group_digits radix g;
          rest \<leftarrow> group_texts radix width (index + 1) gs;
          Some (rev (if 0 < index then resize width 48 ds else ds) @ rest) }"

definition to_string_radix :: "u32 \<Rightarrow> js_bigint \<Rightarrow> nat list option" where
  "to_string_radix radix a =
     (if bi_is_zero a then Some [48]
      else do { (chunk, width) \<leftarrow> chunk_of_radix radix;
                gs \<leftarrow> digit_groups chunk (bi_limbs a);
                text \<leftarrow> group_texts radix width 0 (rev gs);
                Some ((if bi_negative a then [45] else []) @ text) })"

subsection \<open>Arithmetic\<close>

definition negate :: "js_bigint \<Rightarrow> js_bigint" where
  "negate a = from_parts (\<not> bi_negative a) (bi_limbs a)"

definition bi_add :: "js_bigint \<Rightarrow> js_bigint \<Rightarrow> js_bigint" where
  "bi_add a b =
     (if bi_negative a = bi_negative b
      then from_parts (bi_negative a) (add_magnitude (bi_limbs a) (bi_limbs b))
      else (case cmp_magnitude (bi_limbs a) (bi_limbs b) of
              Less \<Rightarrow> from_parts (bi_negative b) (sub_magnitude (bi_limbs b) (bi_limbs a))
            | _ \<Rightarrow> from_parts (bi_negative a) (sub_magnitude (bi_limbs a) (bi_limbs b))))"

definition bi_sub :: "js_bigint \<Rightarrow> js_bigint \<Rightarrow> js_bigint" where
  "bi_sub a b = bi_add a (negate b)"

definition bi_mul :: "js_bigint \<Rightarrow> js_bigint \<Rightarrow> js_bigint option" where
  "bi_mul a b = map_option (from_parts (bi_negative a \<noteq> bi_negative b)) (mul_magnitude (bi_limbs a) (bi_limbs b))"

definition div_rem :: "js_bigint \<Rightarrow> js_bigint \<Rightarrow> (js_bigint \<times> js_bigint) option option" where
  "div_rem a b =
     (if bi_is_zero b then Some None
      else map_option (\<lambda>(q, r). Some (from_parts (bi_negative a \<noteq> bi_negative b) q, from_parts (bi_negative a) r))
             (divmod_magnitude (bi_limbs a) (bi_limbs b)))"

text \<open>The square-and-multiply loop of \<open>pow\<close>; the exponent is a \<open>u64\<close>.\<close>

function pow_loop :: "js_bigint \<Rightarrow> js_bigint \<Rightarrow> u64 \<Rightarrow> js_bigint option" where
  "pow_loop result base e =
     (if e = 0 then Some result
      else do { result' \<leftarrow> (if e AND 1 = 1 then bi_mul result base else Some result);
                base' \<leftarrow> (if drop_bit 1 e \<noteq> 0 then bi_mul base base else Some base);
                pow_loop result' base' (drop_bit 1 e) })"
  by pat_completeness auto
termination
  by (relation "measure (\<lambda>(result, base, e). unat e)")
    (auto simp: drop_bit_Suc unat_div_distrib unat_gt_0 intro!: div_less_dividend)

declare pow_loop.simps [simp del]

definition bi_pow :: "js_bigint \<Rightarrow> js_bigint \<Rightarrow> js_bigint option option" where
  "bi_pow a e =
     (if bi_is_zero e then Some (Some (from_i64 1))
      else if bi_is_zero a \<or> bi_limbs a = [1]
      then (let odd = (case bi_limbs e of [] \<Rightarrow> False | low # _ \<Rightarrow> low AND 1 = 1)
            in Some (Some (if bi_negative a \<and> odd then a else from_parts False (bi_limbs a))))
      else (case magnitude_u64 e of
              None \<Rightarrow> Some None
            | Some k \<Rightarrow>
                if max_bits < bit_length (bi_limbs a) * unat k then Some None
                else map_option Some (pow_loop (from_i64 1) a k)))"

subsection \<open>Shifts and bits\<close>

definition shift_right :: "js_bigint \<Rightarrow> nat \<Rightarrow> js_bigint" where
  "shift_right a bits =
     (if \<not> bi_negative a then from_parts False (shr_magnitude (bi_limbs a) bits)
      else let shifted = shr_magnitude (sub_magnitude (bi_limbs a) [1]) bits
           in from_parts True (add_magnitude shifted [1]))"

definition bi_shift :: "js_bigint \<Rightarrow> js_bigint \<Rightarrow> js_bigint option" where
  "bi_shift a count =
     (if bi_is_zero a then Some bi_zero
      else if bi_negative count
      then Some (shift_right a (case magnitude_u64 count of None \<Rightarrow> u64_max | Some k \<Rightarrow> unat k))
      else (case magnitude_u64 count of
              None \<Rightarrow> None
            | Some k \<Rightarrow>
                if max_bits < min (bit_length (bi_limbs a) + unat k) u64_max then None
                else Some (from_parts (bi_negative a) (shl_magnitude (bi_limbs a) (unat k)))))"

definition bit_not :: "js_bigint \<Rightarrow> js_bigint" where
  "bit_not a = bi_sub (negate a) (from_i64 1)"

definition twos_complement :: "js_bigint \<Rightarrow> nat \<Rightarrow> limbs" where
  "twos_complement a n =
     (let ls = resize n 0 (if bi_negative a then sub_magnitude (bi_limbs a) [1] else bi_limbs a)
      in if bi_negative a then map NOT ls else ls)"

definition from_twos_complement :: "limbs \<Rightarrow> js_bigint" where
  "from_twos_complement ls =
     (let negative = (ls \<noteq> [] \<and> last ls AND 0x80000000 \<noteq> 0)
      in from_parts negative (if negative then add_magnitude (map NOT ls) [1] else ls))"

definition bitwise :: "(u32 \<Rightarrow> u32 \<Rightarrow> u32) \<Rightarrow> js_bigint \<Rightarrow> js_bigint \<Rightarrow> js_bigint" where
  "bitwise operation a b =
     (let n = max (length (bi_limbs a)) (length (bi_limbs b)) + 1
      in from_twos_complement (map2 operation (twos_complement a n) (twos_complement b n)))"

definition bit_and :: "js_bigint \<Rightarrow> js_bigint \<Rightarrow> js_bigint" where
  "bit_and = bitwise (AND)"

definition bit_or :: "js_bigint \<Rightarrow> js_bigint \<Rightarrow> js_bigint" where
  "bit_or = bitwise (OR)"

definition bit_xor :: "js_bigint \<Rightarrow> js_bigint \<Rightarrow> js_bigint" where
  "bit_xor = bitwise (XOR)"

definition as_uint_n :: "js_bigint \<Rightarrow> nat \<Rightarrow> js_bigint option" where
  "as_uint_n a bits =
     (if bits = 0 then Some bi_zero
      else if \<not> bi_negative a \<and> bit_length (bi_limbs a) \<le> bits then Some a
      else if max_bits < bits then None
      else Some (bit_and a (bi_sub (from_parts False (shl_magnitude [1] bits)) (from_i64 1))))"

definition as_int_n :: "js_bigint \<Rightarrow> nat \<Rightarrow> js_bigint option" where
  "as_int_n a bits =
     (if bits = 0 then Some bi_zero
      else if (if bi_negative a then bit_length (sub_magnitude (bi_limbs a) [1]) else bit_length (bi_limbs a)) < bits
      then Some a
      else (case as_uint_n a bits of
              None \<Rightarrow> None
            | Some wrapped \<Rightarrow>
                Some (if bit_length (bi_limbs wrapped) = bits
                      then bi_sub wrapped (from_parts False (shl_magnitude [1] bits)) else wrapped)))"

subsection \<open>Order\<close>

definition bi_cmp :: "js_bigint \<Rightarrow> js_bigint \<Rightarrow> ordering" where
  "bi_cmp a b =
     (case (bi_negative a, bi_negative b) of
        (False, True) \<Rightarrow> Greater
      | (True, False) \<Rightarrow> Less
      | (False, False) \<Rightarrow> cmp_magnitude (bi_limbs a) (bi_limbs b)
      | (True, True) \<Rightarrow> cmp_magnitude (bi_limbs b) (bi_limbs a))"

end
