(* ===== verification/BigIntMagnitude.thy ===== *)
theory BigIntMagnitude
  imports BigIntModel
begin

text \<open>
  What the operations on magnitudes compute.  \<open>mag\<close> is the integer a vector of limbs stands for;
  every operation of the code is characterised by an equation on \<open>mag\<close>, the normal form of its
  result (\<open>trimmed\<close>: no zero limb on top) and, where it can panic, by the result being there.
\<close>

named_theorems mag_simps \<open>the integers the operations on magnitudes compute\<close>

primrec mag :: "limbs \<Rightarrow> int" where
  "mag [] = 0"
| "mag (x # xs) = uint x + 4294967296 * mag xs"

definition trimmed :: "limbs \<Rightarrow> bool" where
  "trimmed ls \<longleftrightarrow> ls = [] \<or> last ls \<noteq> 0"

subsection \<open>Words\<close>

lemma uint_u32 [simp]: "uint (x :: u32) < 4294967296" "uint x \<le> 4294967295"
  using uint_lt2p [of x] by simp_all

lemma uint_u64 [simp]: "uint (x :: u64) < 18446744073709551616" "uint x \<le> 18446744073709551615"
  using uint_lt2p [of x] by simp_all

lemma uint_widen [simp]: "uint (ucast (x :: u32) :: u64) = uint x"
  by (simp add: uint_up_ucast is_up)

lemma uint_narrow: "uint (ucast (x :: u64) :: u32) = uint x mod 4294967296"
  by (simp add: unsigned_ucast_eq take_bit_eq_mod)

lemma uint_high: "uint (drop_bit 32 (x :: u64)) = uint x div 4294967296"
  by (simp add: unsigned_drop_bit_eq drop_bit_eq_div uint_div_distrib)

lemma uint_high_less: "uint (drop_bit 32 (x :: u64)) < 4294967296"
  using uint_u64(1) [of x] unfolding uint_high by linarith

lemma split_word: "uint (ucast (x :: u64) :: u32) + 4294967296 * uint (drop_bit 32 x) = uint x"
  by (simp add: uint_narrow uint_high)

lemma uint_plus: "uint a + uint b < 18446744073709551616 \<Longrightarrow> uint (a + b :: u64) = uint a + uint b"
  by (simp add: uint_word_ariths)

lemma uint_times: "uint a * uint b < 18446744073709551616 \<Longrightarrow> uint (a * b :: u64) = uint a * uint b"
  by (simp add: uint_word_ariths)

lemma uint_mult_add:
  assumes "uint c < 4294967296" "uint d < 4294967296"
  shows "uint (ucast (a :: u32) * ucast (b :: u32) + c + d :: u64) = uint a * uint b + uint c + uint d"
    and "uint a * uint b + uint c + uint d < 18446744073709551616"
proof -
  have "uint a * uint b \<le> 4294967295 * 4294967295" by (intro mult_mono) simp_all
  with assms show lt: "uint a * uint b + uint c + uint d < 18446744073709551616" by simp
  have "0 \<le> uint a * uint b" by simp
  with lt have "uint a * uint b < 18446744073709551616" "uint a * uint b + uint c < 18446744073709551616"
    using uint_nonnegative [of c] uint_nonnegative [of d] by linarith+
  with lt show "uint (ucast a * ucast b + c + d) = uint a * uint b + uint c + uint d"
    by (simp add: uint_plus uint_times)
qed

subsection \<open>Values of vectors\<close>

lemma mag_nonneg [simp]: "0 \<le> mag ls"
  by (induction ls) simp_all

lemma mag_append [mag_simps]: "mag (xs @ ys) = mag xs + 4294967296 ^ length xs * mag ys"
  by (induction xs) (simp_all add: algebra_simps)

lemma mag_replicate [simp]: "mag (replicate n 0) = 0"
  by (induction n) simp_all

lemma mag_less: "mag ls < 4294967296 ^ length ls"
proof (induction ls)
  case (Cons x xs)
  then have "mag xs + 1 \<le> 4294967296 ^ length xs" by simp
  then have "4294967296 * (mag xs + 1) \<le> 4294967296 * 4294967296 ^ length xs" by simp
  then show ?case using uint_u32(1) [of x] by (simp del: uint_u32)
qed simp

lemma mag_drop: "mag (drop i ls) = uint (limb_at ls i) + 4294967296 * mag (drop (Suc i) ls)"
proof (cases "i < length ls")
  case True
  then show ?thesis by (simp add: limb_at_def Cons_nth_drop_Suc [symmetric])
qed (simp add: limb_at_def)

lemma limb_at_0 [simp]: "limb_at [] i = 0" "limb_at (x # xs) 0 = x" "limb_at (x # xs) (Suc i) = limb_at xs i"
  by (simp_all add: limb_at_def)

subsection \<open>Normal form\<close>

lemma trim_limbs_eq: "trim_limbs ls = rev (dropWhile (\<lambda>x. x = 0) (rev ls))"
proof (induction ls rule: rev_induct)
  case Nil
  then show ?case by (simp add: trim_limbs.simps)
next
  case (snoc x xs)
  then show ?case by (subst trim_limbs.simps) simp
qed

lemma trimmed_trim [simp]: "trimmed (trim_limbs ls)"
proof -
  have "dropWhile (\<lambda>x. x = 0) (rev ls) \<noteq> [] \<Longrightarrow> hd (dropWhile (\<lambda>x. x = 0) (rev ls)) \<noteq> 0"
    by (metis (mono_tags, lifting) hd_dropWhile)
  then show ?thesis by (auto simp: trimmed_def trim_limbs_eq last_rev)
qed

lemma trim_trimmed [simp]: "trimmed ls \<Longrightarrow> trim_limbs ls = ls"
  by (subst trim_limbs.simps) (auto simp: trimmed_def)

lemma mag_trim [simp]: "mag (trim_limbs ls) = mag ls"
proof (induction ls rule: rev_induct)
  case Nil
  then show ?case by (simp add: trim_limbs.simps)
next
  case (snoc x xs)
  then show ?case by (subst trim_limbs.simps) (simp add: mag_append)
qed

lemma trimmed_Nil [simp]: "trimmed []"
  by (simp add: trimmed_def)

lemma trimmed_tl: "trimmed (x # xs) \<Longrightarrow> trimmed xs"
  by (auto simp: trimmed_def split: if_splits)

lemma mag_lower: "trimmed ls \<Longrightarrow> ls \<noteq> [] \<Longrightarrow> 4294967296 ^ (length ls - 1) \<le> mag ls"
proof (induction ls)
  case (Cons x xs)
  show ?case
  proof (cases "xs = []")
    case True
    with Cons.prems have "x \<noteq> 0" by (simp add: trimmed_def)
    then have "uint x \<noteq> 0" by (simp add: uint_0_iff)
    then have "1 \<le> uint x" using uint_nonnegative [of x] by linarith
    with True show ?thesis by simp
  next
    case False
    then have "4294967296 ^ (length xs - 1) \<le> mag xs" using Cons by (simp add: trimmed_tl)
    moreover have "4294967296 ^ length xs = 4294967296 * (4294967296 ^ (length xs - 1) :: int)"
      using False by (cases xs) simp_all
    ultimately show ?thesis by (simp add: add_increasing)
  qed
qed simp

lemma mag_eq_0: "trimmed ls \<Longrightarrow> mag ls = 0 \<longleftrightarrow> ls = []"
proof
  assume t: "trimmed ls" and "mag ls = 0"
  moreover have "(0 :: int) < 4294967296 ^ (length ls - 1)" by simp
  ultimately show "ls = []" using mag_lower [OF t] by linarith
qed simp

lemma mag_length_less:
  "trimmed ys \<Longrightarrow> length xs < length ys \<Longrightarrow> mag xs < mag ys"
proof -
  assume ys: "trimmed ys" and lt: "length xs < length ys"
  have "mag xs < 4294967296 ^ length xs" by (rule mag_less)
  also have "\<dots> \<le> 4294967296 ^ (length ys - 1)" using lt by (intro power_increasing) simp_all
  also have "\<dots> \<le> mag ys" using ys lt by (intro mag_lower) auto
  finally show ?thesis .
qed

lemma limb_split_iff:
  fixes a b c d :: int
  assumes "0 \<le> a" "a < 4294967296" "0 \<le> b" "b < 4294967296"
  shows "a + 4294967296 * c = b + 4294967296 * d \<longleftrightarrow> a = b \<and> c = d"
proof
  assume eq: "a + 4294967296 * c = b + 4294967296 * d"
  then have "(a + 4294967296 * c) mod 4294967296 = (b + 4294967296 * d) mod 4294967296" by simp
  then have "a = b" using assms by simp
  with eq show "a = b \<and> c = d" by simp
qed simp

lemma mag_inject_length: "length xs = length ys \<Longrightarrow> mag xs = mag ys \<longleftrightarrow> xs = ys"
proof (induction xs ys rule: list_induct2)
  case (Cons x xs y ys)
  have "uint x + 4294967296 * mag xs = uint y + 4294967296 * mag ys \<longleftrightarrow> uint x = uint y \<and> mag xs = mag ys"
    by (rule limb_split_iff) simp_all
  with Cons show ?case by (simp add: word_uint_eq_iff)
qed simp

lemma mag_inject: "trimmed xs \<Longrightarrow> trimmed ys \<Longrightarrow> mag xs = mag ys \<longleftrightarrow> xs = ys"
  using mag_length_less [of xs ys] mag_length_less [of ys xs] mag_inject_length [of xs ys]
  by (metis less_irrefl linorder_neqE_nat)

subsection \<open>Comparison\<close>

lemma cmp_iter_snoc:
  "length xs = length ys \<Longrightarrow> cmp_iter (xs @ [x]) (ys @ [y]) = then_with (cmp_iter xs ys) (cmp x y)"
proof (induction xs ys rule: list_induct2)
  case Nil
  then show ?case by (cases "cmp x y") simp_all
next
  case (Cons a as b bs)
  then show ?case by (simp add: then_with_assoc)
qed

lemma cmp_limbs:
  fixes a b c d :: int
  assumes "0 \<le> a" "a < 4294967296" "0 \<le> b" "b < 4294967296"
  shows "cmp (a + 4294967296 * c) (b + 4294967296 * d) = then_with (cmp c d) (cmp a b)"
proof (cases c d rule: linorder_cases)
  case less
  then have "c + 1 \<le> d" by simp
  with assms have "a + 4294967296 * c < b + 4294967296 * d" by linarith
  with less show ?thesis by (simp add: cmp_def)
next
  case greater
  then have "d + 1 \<le> c" by simp
  with assms have "b + 4294967296 * d < a + 4294967296 * c" by linarith
  with greater show ?thesis by (simp add: cmp_def)
qed (simp add: cmp_def)

lemma cmp_iter_rev:
  "length xs = length ys \<Longrightarrow> cmp_iter (rev xs) (rev ys) = cmp (mag xs) (mag ys)"
proof (induction xs ys rule: list_induct2)
  case Nil
  then show ?case by (simp add: cmp_def)
next
  case (Cons x xs y ys)
  have "cmp x y = cmp (uint x) (uint y)" by (simp add: cmp_def word_less_def word_uint_eq_iff)
  with Cons show ?case by (simp add: cmp_iter_snoc cmp_limbs)
qed

lemma cmp_magnitude_eq [mag_simps]:
  assumes "trimmed xs" "trimmed ys"
  shows "cmp_magnitude xs ys = cmp (mag xs) (mag ys)"
proof (cases "length xs" "length ys" rule: linorder_cases)
  case less
  with mag_length_less [OF assms(2)] show ?thesis by (simp add: cmp_magnitude_def cmp_def)
next
  case equal
  then show ?thesis by (simp add: cmp_magnitude_def cmp_iter_rev cmp_def [of "length ys"])
next
  case greater
  then have "mag ys < mag xs" using mag_length_less [OF assms(1)] by simp
  with greater show ?thesis by (simp add: cmp_magnitude_def cmp_def)
qed

subsection \<open>Sums and differences\<close>

lemma add_limbs_spec:
  "add_limbs ls short i c = (out, c') \<Longrightarrow> uint c \<le> 1 \<Longrightarrow> length short \<le> i + length ls \<Longrightarrow>
   length out = length ls \<and> uint c' \<le> 1 \<and>
   mag out + 4294967296 ^ length ls * uint c' = mag ls + mag (drop i short) + uint c"
proof (induction ls arbitrary: i c out c')
  case Nil
  then show ?case by simp
next
  case (Cons x ls)
  define sum where "sum = (ucast x + ucast (limb_at short i) + c :: u64)"
  have sum: "uint sum = uint x + uint (limb_at short i) + uint c"
    using Cons.prems(2) uint_u32(2) [of x] uint_u32(2) [of "limb_at short i"]
    unfolding sum_def by (subst uint_plus; subst uint_plus; simp del: uint_u32)
  obtain rest where rest: "add_limbs ls short (Suc i) (drop_bit 32 sum) = (rest, c')"
    and out: "out = ucast sum # rest"
    using Cons.prems(1) by (auto simp: sum_def Let_def split: prod.splits)
  have "uint sum \<le> 8589934591"
    using sum Cons.prems(2) uint_u32(2) [of x] uint_u32(2) [of "limb_at short i"] by linarith
  then have "uint sum div 4294967296 \<le> 1" by linarith
  then have carry: "uint (drop_bit 32 sum) \<le> 1" by (simp add: uint_high)
  from Cons.IH [OF rest carry] Cons.prems(3)
  have IH: "length rest = length ls" "uint c' \<le> 1"
    "mag rest + 4294967296 ^ length ls * uint c' = mag ls + mag (drop (Suc i) short) + uint (drop_bit 32 sum)"
    by simp_all
  show ?case
    using IH split_word [of sum] sum unfolding out mag_drop [of i short] by (simp add: algebra_simps)
qed

lemma add_long_mag:
  assumes "add_limbs long short 0 0 = (out, carry)" "length short \<le> length long"
  shows "mag (if carry \<noteq> 0 then out @ [ucast carry] else out) = mag long + mag short"
proof -
  have spec: "length out = length long" "uint carry \<le> 1"
    "mag out + 4294967296 ^ length long * uint carry = mag long + mag short"
    using add_limbs_spec [OF assms(1)] assms(2) by simp_all
  then have "uint (ucast carry :: u32) = uint carry" by (simp add: uint_narrow)
  with spec show ?thesis by (auto simp: mag_append)
qed

lemma add_magnitude_mag [mag_simps]: "mag (add_magnitude xs ys) = mag xs + mag ys"
proof (cases "length ys \<le> length xs")
  case True
  obtain out carry where "add_limbs xs ys 0 0 = (out, carry)" by fastforce
  with add_long_mag [OF this True] True show ?thesis
    by (simp only: add_magnitude_def Let_def if_True prod.case mag_trim)
next
  case False
  obtain out carry where eq: "add_limbs ys xs 0 0 = (out, carry)" by fastforce
  with add_long_mag [OF this] False show ?thesis
    by (simp only: add_magnitude_def Let_def if_False prod.case mag_trim add.commute)
qed

lemma trimmed_add [simp]: "trimmed (add_magnitude xs ys)"
  by (simp add: add_magnitude_def Let_def split: prod.split)

text \<open>Signed readings of a \<^typ>\<open>u64\<close>: the code's \<open>i64\<close>.\<close>

lemma sint_of_int:
  "- 9223372036854775808 \<le> z \<Longrightarrow> z < 9223372036854775808 \<Longrightarrow> sint (word_of_int z :: u64) = z"
  by (simp add: signed_of_int signed_take_bit_int_eq_self)

lemma sless_0: 
  "- 9223372036854775808 \<le> z \<Longrightarrow> z < 9223372036854775808 \<Longrightarrow> (word_of_int z :: u64) <s 0 \<longleftrightarrow> z < 0"
  by (simp add: word_sless_alt sint_of_int)

lemma narrow_of_int: "uint (ucast (word_of_int z :: u64) :: u32) = z mod 4294967296"
  by (simp add: uint_narrow uint_word_of_int mod_mod_cancel)

lemma diff_of_int: "(a :: u64) - b - c = word_of_int (uint a - uint b - uint c)"
  by (simp add: wi_hom_sub [symmetric])

lemma of_int_plus_base: "word_of_int z + 2 ^ 32 = (word_of_int (z + 4294967296) :: u64)"
  by (simp add: wi_hom_add [symmetric])

lemma sub_limbs_spec:
  "uint borrow \<le> 1 \<Longrightarrow> length right \<le> i + length ls \<Longrightarrow>
   length (sub_limbs ls right i borrow) = length ls \<and>
   (\<exists>b \<in> {0, 1}. mag (sub_limbs ls right i borrow) =
      mag ls - mag (drop i right) - uint borrow + 4294967296 ^ length ls * b)"
proof (induction ls arbitrary: i borrow)
  case Nil
  then have "uint borrow = 0 \<or> uint borrow = 1" using uint_nonnegative [of borrow] by linarith
  with Nil show ?case by auto
next
  case (Cons x ls)
  define z where "z = uint x - uint (limb_at right i) - uint borrow"
  define d where "d = (ucast x - ucast (limb_at right i) - borrow :: u64)"
  have d: "d = word_of_int z" by (simp only: d_def z_def diff_of_int uint_widen)
  have bounds: "- 4294967296 \<le> z" "z < 4294967296"
    using Cons.prems(1) uint_u32(2) [of x] uint_u32(2) [of "limb_at right i"] uint_nonnegative [of x]
      uint_nonnegative [of "limb_at right i"] uint_nonnegative [of borrow]
    unfolding z_def by linarith+
  then have neg: "d <s 0 \<longleftrightarrow> z < 0" unfolding d by (intro sless_0) linarith+
  define borrow' where "borrow' = (if d <s 0 then 1 else 0 :: u64)"
  have borrow': "uint borrow' = (if z < 0 then 1 else 0)" by (simp add: borrow'_def neg)
  define limb where "limb = (ucast (if d <s 0 then d + 2 ^ 32 else d) :: u32)"
  have "uint limb = z mod 4294967296"
    unfolding limb_def neg d of_int_plus_base if_distrib [of word_of_int, symmetric] narrow_of_int
    by simp
  then have limb: "uint limb = z + 4294967296 * uint borrow'"
    using bounds mod_pos_pos_trivial [of "z + 4294967296" 4294967296] unfolding borrow'
    by (auto simp: mod_pos_pos_trivial)
  have eq: "sub_limbs (x # ls) right i borrow = limb # sub_limbs ls right (Suc i) borrow'"
    by (simp add: Let_def limb_def borrow'_def d_def)
  have "uint borrow' \<le> 1" by (simp add: borrow')
  with Cons.IH [of borrow' "Suc i"] Cons.prems(2) obtain b where
    IH: "length (sub_limbs ls right (Suc i) borrow') = length ls" "b \<in> {0, 1}"
    "mag (sub_limbs ls right (Suc i) borrow') =
      mag ls - mag (drop (Suc i) right) - uint borrow' + 4294967296 ^ length ls * b"
    by auto
  have "mag (sub_limbs (x # ls) right i borrow) =
      mag (x # ls) - mag (drop i right) - uint borrow + 4294967296 ^ length (x # ls) * b"
    unfolding eq mag.simps IH(3) limb mag_drop [of i right] z_def by (simp add: algebra_simps)
  with IH(1,2) show ?case unfolding eq by auto
qed

lemma length_ge_mag: "trimmed ys \<Longrightarrow> mag ys \<le> mag xs \<Longrightarrow> length ys \<le> length xs"
  using mag_length_less [of ys xs] by fastforce

lemma sub_magnitude_mag [mag_simps]:
  assumes "mag right \<le> mag left" "trimmed right"
  shows "mag (sub_magnitude left right) = mag left - mag right"
proof -
  have "length right \<le> length left" by (rule length_ge_mag [OF assms(2,1)])
  then obtain b where b: "b \<in> {0, 1}"
    "mag (sub_limbs left right 0 0) = mag left - mag right + 4294967296 ^ length left * b"
    and len: "length (sub_limbs left right 0 0) = length left"
    using sub_limbs_spec [of 0 right 0 left] by auto
  have "b = 0" using b assms(1) mag_less [of "sub_limbs left right 0 0"] len by auto
  with b show ?thesis by (simp add: sub_magnitude_def)
qed

lemma trimmed_sub [simp]: "trimmed (sub_magnitude xs ys)"
  by (simp add: sub_magnitude_def)

subsection \<open>Products\<close>

text \<open>Writing in place is exchanging the middle of the vector.\<close>

lemma limb_get_append [simp]: "limb_get (pre @ x # post) (length pre) = Some x"
  by (simp add: limb_get_def)

lemma limb_get_Some: "limb_get ls i = Some x \<longleftrightarrow> i < length ls \<and> ls ! i = x"
  by (auto simp: limb_get_def)

lemma mag_update: "i < length ls \<Longrightarrow>
  mag (ls[i := x]) = mag ls + 4294967296 ^ i * (uint x - uint (ls ! i))"
  by (simp add: upd_conv_take_nth_drop mag_append)
    (subst (2) id_take_nth_drop [of i], simp_all add: mag_append algebra_simps)

text \<open>A row adds the product at its position, up to the carry that is left.\<close>

lemma mul_row_spec:
  "uint carry < 4294967296 \<Longrightarrow> pos + length right \<le> length acc \<Longrightarrow>
   \<exists>out c. mul_row x right pos carry acc = Some (out, c) \<and> length out = length acc \<and>
     uint c < 4294967296 \<and>
     mag out + 4294967296 ^ (pos + length right) * uint c =
       mag acc + 4294967296 ^ pos * (uint x * mag right + uint carry)"
proof (induction right arbitrary: pos carry acc)
  case Nil
  then show ?case by simp
next
  case (Cons y right)
  define total where "total = (ucast x * ucast y + ucast (acc ! pos) + carry :: u64)"
  have "uint total = uint x * uint y + uint (acc ! pos) + uint carry"
    unfolding total_def using Cons.prems(1) by (subst uint_mult_add) simp_all
  note split = split_word [of total, unfolded this]
  have pos: "pos < length acc" using Cons.prems(2) by simp
  obtain out c where IH: "mul_row x right (Suc pos) (drop_bit 32 total) (acc[pos := ucast total]) = Some (out, c)"
    "length out = length acc" "uint c < 4294967296"
    "mag out + 4294967296 ^ (Suc pos + length right) * uint c =
      mag (acc[pos := ucast total]) + 4294967296 ^ Suc pos * (uint x * mag right + uint (drop_bit 32 total))"
    using Cons.IH [of "drop_bit 32 total" "Suc pos" "acc[pos := ucast total]"] Cons.prems(2)
      uint_high_less [of total]
    by auto
  have "mag out + 4294967296 ^ (pos + length (y # right)) * uint c =
      mag acc + 4294967296 ^ pos * (uint (ucast total :: u32) + 4294967296 * uint (drop_bit 32 total)
        - uint (acc ! pos) + 4294967296 * (uint x * mag right))"
    using IH(4) pos by (simp add: mag_update algebra_simps)
  then have "mag out + 4294967296 ^ (pos + length (y # right)) * uint c =
      mag acc + 4294967296 ^ pos * (uint x * mag (y # right) + uint carry)"
    unfolding split by (simp add: algebra_simps)
  moreover have "mul_row x (y # right) pos carry acc = Some (out, c)"
    using pos IH(1) by (simp add: limb_get_def total_def Let_def)
  ultimately show ?case using IH(2,3) by simp
qed

text \<open>The carry ripples upward; it runs out before the vector does when the sum fits it.\<close>

lemma mul_carry_spec:
  "uint carry < 4294967296 \<Longrightarrow> pos \<le> length acc \<Longrightarrow>
   mag acc + 4294967296 ^ pos * uint carry < 4294967296 ^ length acc \<Longrightarrow>
   \<exists>out. mul_carry pos carry acc = Some out \<and> length out = length acc \<and>
     mag out = mag acc + 4294967296 ^ pos * uint carry"
proof (induction pos carry acc rule: mul_carry.induct)
  case (1 pos carry acc)
  show ?case
  proof (cases "carry = 0")
    case True
    then show ?thesis by (simp add: mul_carry.simps [of pos])
  next
    case False
    then have "uint carry \<noteq> 0" by (simp add: uint_0_iff)
    then have c1: "1 \<le> uint carry" using uint_nonnegative [of carry] by linarith
    have pos: "pos < length acc"
    proof (rule ccontr)
      assume "\<not> pos < length acc"
      with 1(3) have eq: "length acc = pos" by simp
      have "(4294967296 :: int) ^ pos * 1 \<le> 4294967296 ^ pos * uint carry"
        using c1 by (intro mult_left_mono) simp_all
      then show False using 1(4) [unfolded eq] mag_nonneg [of acc] by linarith
    qed
    define total where "total = (ucast (acc ! pos) + carry :: u64)"
    have "uint total = uint (acc ! pos) + uint carry"
      unfolding total_def using 1(2) uint_u32(1) [of "acc ! pos"] by (subst uint_plus) (simp_all del: uint_u32)
    note split = split_word [of total, unfolded this]
    have val: "mag (acc[pos := ucast total]) + 4294967296 ^ Suc pos * uint (drop_bit 32 total) =
        mag acc + 4294967296 ^ pos * uint carry"
    proof -
      have "mag (acc[pos := ucast total]) + 4294967296 ^ Suc pos * uint (drop_bit 32 total) =
        mag acc + 4294967296 ^ pos * (uint (ucast total :: u32) + 4294967296 * uint (drop_bit 32 total) - uint (acc ! pos))"
        using pos by (simp add: mag_update algebra_simps)
      then show ?thesis unfolding split by simp
    qed
    from uint_high_less [of total] 1(1) [OF False pos refl, folded total_def] 1(4) pos val
    obtain out where "mul_carry (Suc pos) (drop_bit 32 total) (acc[pos := ucast total]) = Some out"
      "length out = length acc" "mag out = mag acc + 4294967296 ^ pos * uint carry"
      by (auto simp: total_def)
    with False pos show ?thesis by (simp add: mul_carry.simps [of pos] total_def Let_def)
  qed
qed

lemma mul_rows_spec:
  "length ls + length right + i = length acc \<Longrightarrow>
   mag acc + 4294967296 ^ i * (mag ls * mag right) < 4294967296 ^ length acc \<Longrightarrow>
   \<exists>out. mul_rows ls right i acc = Some out \<and> length out = length acc \<and>
     mag out = mag acc + 4294967296 ^ i * (mag ls * mag right)"
proof (induction ls arbitrary: i acc)
  case Nil
  then show ?case by simp
next
  case (Cons x ls)
  let ?p = "4294967296 ^ i :: int"
  obtain acc1 c where row: "mul_row x right i 0 acc = Some (acc1, c)" "length acc1 = length acc"
    "uint c < 4294967296"
    "mag acc1 + 4294967296 ^ (i + length right) * uint c = mag acc + ?p * (uint x * mag right)"
    using mul_row_spec [of 0 i right acc x] Cons.prems(1) by auto
  have step: "mag acc + ?p * (mag (x # ls) * mag right) =
      mag acc + ?p * (uint x * mag right) + 4294967296 ^ Suc i * (mag ls * mag right)"
    by (simp add: algebra_simps)
  have "mag acc + ?p * (uint x * mag right) \<le> mag acc + ?p * (mag (x # ls) * mag right)"
    unfolding step by simp
  then have "mag acc1 + 4294967296 ^ (i + length right) * uint c < 4294967296 ^ length acc1"
    unfolding row(2,4) using Cons.prems(2) by (rule le_less_trans)
  then obtain acc2 where carry: "mul_carry (i + length right) c acc1 = Some acc2" "length acc2 = length acc"
    "mag acc2 = mag acc + ?p * (uint x * mag right)"
    using mul_carry_spec [of c "i + length right" acc1] row Cons.prems(1) by auto
  have "mag acc2 + 4294967296 ^ Suc i * (mag ls * mag right) < 4294967296 ^ length acc2"
    using Cons.prems(2) unfolding carry(2,3) step .
  then obtain out where "mul_rows ls right (Suc i) acc2 = Some out" "length out = length acc2"
    "mag out = mag acc2 + 4294967296 ^ Suc i * (mag ls * mag right)"
    using Cons.IH [of "Suc i" acc2] Cons.prems(1) carry(2) by auto
  with row(1) carry step show ?case by simp
qed

lemma mul_magnitude_spec:
  "\<exists>out. mul_magnitude xs ys = Some out \<and> mag out = mag xs * mag ys \<and> trimmed out"
proof (cases "xs = [] \<or> ys = []")
  case True
  then show ?thesis by (auto simp: mul_magnitude_def)
next
  case False
  have "mag xs * mag ys < 4294967296 ^ length xs * 4294967296 ^ length ys"
    by (rule mult_strict_mono) (simp_all add: mag_less)
  then have "mag xs * mag ys < 4294967296 ^ (length xs + length ys)" by (simp add: power_add)
  with mul_rows_spec [of xs ys 0 "replicate (length xs + length ys) 0"]
  obtain out where "mul_rows xs ys 0 (replicate (length xs + length ys) 0) = Some out"
    "mag out = mag xs * mag ys"
    by auto
  with False show ?thesis by (simp add: mul_magnitude_def)
qed

subsection \<open>One limb at a time\<close>

lemma div_less_bound: "0 < d \<Longrightarrow> a < d * b \<Longrightarrow> a div d < (b :: int)"
proof (rule ccontr)
  assume d: "0 < d" and a: "a < d * b" and "\<not> a div d < b"
  then have "d * b \<le> d * (a div d)" by (intro mult_left_mono) simp_all
  moreover have "d * (a div d) \<le> a" using d mult_div_mod_eq [of d a] pos_mod_sign [of d a] by linarith
  ultimately show False using a by linarith
qed

lemma div_step:
  fixes r d x :: int
  assumes "0 \<le> r" "r < d" "d \<le> 4294967295" "0 \<le> x" "x < 4294967296"
  shows "r * 4294967296 + x < 18446744073709551616" "(r * 4294967296 + x) div d < 4294967296"
    "0 \<le> (r * 4294967296 + x) div d" "0 \<le> (r * 4294967296 + x) mod d" "(r * 4294967296 + x) mod d < d"
proof -
  have "r * 4294967296 \<le> (d - 1) * 4294967296" using assms by simp
  then have le: "r * 4294967296 + x < d * 4294967296" using assms by simp
  moreover have "d * 4294967296 \<le> 4294967295 * 4294967296" using assms by simp
  ultimately show "r * 4294967296 + x < 18446744073709551616" by simp
  show "(r * 4294967296 + x) div d < 4294967296"
    using le assms by (intro div_less_bound) simp_all
qed (use assms in \<open>simp_all add: pos_imp_zdiv_nonneg_iff\<close>)

lemma int_push_or: "0 \<le> (x :: int) \<Longrightarrow> x < 2 ^ n \<Longrightarrow> push_bit n a OR x = a * 2 ^ n + x"
  using concat_bit_eq [of n x a]
  by (simp add: concat_bit_def take_bit_int_eq_self push_bit_eq_mult or.commute add.commute)

lemma joined_limbs:
  assumes "uint (r :: u64) < 4294967296"
  shows "uint (push_bit 32 r OR ucast (x :: u32)) = uint r * 4294967296 + uint x"
proof -
  have "uint (push_bit 32 r) = push_bit 32 (uint r)"
    using assms uint_times [of r 4294967296] by (simp add: push_bit_eq_mult)
  then have "uint (push_bit 32 r OR ucast x) = push_bit 32 (uint r) OR uint x"
    by (simp add: unsigned_or_eq)
  then show ?thesis using int_push_or [of "uint x" 32 "uint r"] by simp
qed

lemma div_limbs_spec:
  "div_limbs d r ls = (q, r') \<Longrightarrow> uint r < uint d \<Longrightarrow> uint d \<le> 4294967295 \<Longrightarrow>
   length q = length ls \<and> uint r' < uint d \<and>
   mag (rev q) * uint d + uint r' = 4294967296 ^ length ls * uint r + mag (rev ls)"
proof (induction ls arbitrary: r q)
  case Nil
  then show ?case by simp
next
  case (Cons x ls)
  define c where "c = (push_bit 32 r OR ucast x :: u64)"
  have c: "uint c = uint r * 4294967296 + uint x"
    unfolding c_def using Cons.prems by (intro joined_limbs) simp
  note step = div_step [of "uint r" "uint d" "uint x", OF uint_nonnegative Cons.prems(2,3) uint_nonnegative uint_u32(1),
      folded c]
  obtain q1 where rest: "div_limbs d (c mod d) ls = (q1, r')" and q: "q = ucast (c div d) # q1"
    using Cons.prems(1) by (auto simp: c_def Let_def split: prod.splits)
  have "uint (c mod d) < uint d" using step(5) by (simp add: uint_mod_distrib)
  from Cons.IH [OF rest this Cons.prems(3)]
  have IH: "length q1 = length ls" "uint r' < uint d"
    "mag (rev q1) * uint d + uint r' = 4294967296 ^ length ls * uint (c mod d) + mag (rev ls)"
    by simp_all
  have digit: "uint (ucast (c div d) :: u32) = uint c div uint d"
    using step(2,3) by (simp add: uint_narrow uint_div_distrib)
  have "mag (rev q) * uint d + uint r' =
      (mag (rev q1) * uint d + uint r') + 4294967296 ^ length ls * (uint d * (uint c div uint d))"
    using IH(1) by (simp add: q mag_append digit algebra_simps)
  also have "\<dots> = 4294967296 ^ length ls * (uint d * (uint c div uint d) + uint c mod uint d) + mag (rev ls)"
    unfolding IH(3) by (simp only: uint_mod_distrib distrib_left add_ac)
  also have "\<dots> = 4294967296 ^ length (x # ls) * uint r + mag (rev (x # ls))"
    unfolding mult_div_mod_eq c by (simp add: mag_append algebra_simps)
  finally show ?case using IH(1,2) by (simp add: q)
qed

lemma div_small_spec:
  assumes "d \<noteq> 0"
  obtains q r where "div_small ls d = Some (q, r)" "mag q * uint d + uint r = mag ls" "uint r < uint d" "trimmed q"
proof -
  obtain q r where eq: "div_limbs (ucast d) 0 (rev ls) = (q, r)" by fastforce
  have d: "0 < uint d" using assms by (simp add: word_neq_0_conv word_less_def)
  then have spec: "uint r < uint d" "mag (rev q) * uint d + uint r = mag ls"
    using div_limbs_spec [OF eq] by simp_all
  have "uint r < 4294967296" using spec(1) uint_u32(1) [of d] by linarith
  then have "uint (ucast r :: u32) = uint r" by (simp add: uint_narrow)
  with spec eq assms show ?thesis
    by (intro that [of "trim_limbs (rev q)" "ucast r"]) (simp_all add: div_small_def)
qed

lemma mul_add_limbs_spec:
  "mul_add_limbs ls factor c = (out, c') \<Longrightarrow> uint c < 4294967296 \<Longrightarrow> uint factor < 4294967296 \<Longrightarrow>
   length out = length ls \<and> uint c' < 4294967296 \<and>
   mag out + 4294967296 ^ length ls * uint c' = mag ls * uint factor + uint c"
proof (induction ls arbitrary: c out)
  case Nil
  then show ?case by simp
next
  case (Cons x ls)
  define total where "total = (ucast x * factor + c :: u64)"
  have "uint (ucast x * ucast (ucast factor :: u32) + c + 0 :: u64) = uint x * uint (ucast factor :: u32) + uint c + uint (0 :: u64)"
    using Cons.prems(2) by (intro uint_mult_add(1)) simp_all
  moreover have "ucast (ucast factor :: u32) = factor"
    using Cons.prems(3) by (simp add: word_uint_eq_iff uint_narrow)
  moreover have "uint (ucast factor :: u32) = uint factor" using Cons.prems(3) by (simp add: uint_narrow)
  ultimately have "uint total = uint x * uint factor + uint c" by (simp add: total_def)
  note split = split_word [of total, unfolded this]
  obtain rest where rest: "mul_add_limbs ls factor (drop_bit 32 total) = (rest, c')" and out: "out = ucast total # rest"
    using Cons.prems(1) by (auto simp: total_def Let_def split: prod.splits)
  from Cons.IH [OF rest uint_high_less Cons.prems(3)]
  have IH: "length rest = length ls" "uint c' < 4294967296"
    "mag rest + 4294967296 ^ length ls * uint c' = mag ls * uint factor + uint (drop_bit 32 total)"
    by simp_all
  have "mag out + 4294967296 ^ length (x # ls) * uint c' =
      uint (ucast total :: u32) + 4294967296 * (mag rest + 4294967296 ^ length ls * uint c')"
    by (simp add: out algebra_simps)
  also have "\<dots> = (uint (ucast total :: u32) + 4294967296 * uint (drop_bit 32 total)) + 4294967296 * (mag ls * uint factor)"
    unfolding IH(3) by (simp add: algebra_simps)
  also have "\<dots> = mag (x # ls) * uint factor + uint c"
    unfolding split by (simp add: algebra_simps)
  finally show ?case using IH(1,2) by (simp add: out)
qed

lemma mul_add_small_mag [mag_simps]: "mag (mul_add_small ls factor addend) = mag ls * uint factor + uint addend"
proof -
  obtain out c where eq: "mul_add_limbs ls (ucast factor) (ucast addend) = (out, c)" by fastforce
  have "length out = length ls" "uint c < 4294967296"
    "mag out + 4294967296 ^ length ls * uint c = mag ls * uint factor + uint addend"
    using mul_add_limbs_spec [OF eq] by simp_all
  moreover from this(2) have "uint (ucast c :: u32) = uint c" by (simp add: uint_narrow)
  ultimately show ?thesis by (cases "c = 0") (simp_all add: mul_add_small_def eq mag_append)
qed

lemma trimmed_mul_add [simp]: "trimmed (mul_add_small ls factor addend)"
  by (simp add: mul_add_small_def split: prod.split)

subsection \<open>Shifts\<close>

lemma uint_u32_drop: "uint (drop_bit n (x :: u32)) = uint x div 2 ^ n"
  by (simp add: unsigned_drop_bit_eq take_bit_int_eq_self drop_bit_eq_div [symmetric])

lemma uint_u32_push: "n \<le> 32 \<Longrightarrow> uint (push_bit n (x :: u32)) = (uint x mod 2 ^ (32 - n)) * 2 ^ n"
  by (simp only: unsigned_push_bit_eq take_bit_push_bit word_size)
    (simp add: push_bit_eq_mult take_bit_eq_mod)

lemma uint_u32_push_or:
  assumes "n \<le> 32" "uint c < 2 ^ n"
  shows "uint (push_bit n (x :: u32) OR c) = (uint x mod 2 ^ (32 - n)) * 2 ^ n + uint c"
  unfolding unsigned_or_eq uint_u32_push [OF assms(1)]
  using int_push_or [of "uint c" n "uint x mod 2 ^ (32 - n)"] assms(2) by (simp add: push_bit_eq_mult)

lemma base_split: "s \<le> 32 \<Longrightarrow> 2 ^ s * 2 ^ (32 - s) = (4294967296 :: int)"
  by (simp add: power_add [symmetric])

lemma shl_limbs_spec:
  "shl_limbs s ls c = (out, c') \<Longrightarrow> 0 < s \<Longrightarrow> s < 32 \<Longrightarrow> uint c < 2 ^ s \<Longrightarrow>
   length out = length ls \<and> uint c' < 2 ^ s \<and>
   mag out + 4294967296 ^ length ls * uint c' = 2 ^ s * mag ls + uint c"
proof (induction ls arbitrary: c out)
  case Nil
  then show ?case by simp
next
  case (Cons x ls)
  let ?h = "uint x div 2 ^ (32 - s)" and ?l = "uint x mod 2 ^ (32 - s)"
  have high: "uint (drop_bit (32 - s) x) = ?h" by (rule uint_u32_drop)
  have "uint x < 2 ^ (32 - s) * 2 ^ s" using base_split [of s] Cons.prems(3) by (simp add: mult.commute)
  then have small: "uint (drop_bit (32 - s) x) < 2 ^ s" unfolding high by (intro div_less_bound) simp_all
  obtain rest where rest: "shl_limbs s ls (drop_bit (32 - s) x) = (rest, c')"
    and out: "out = (push_bit s x OR c) # rest"
    using Cons.prems(1) by (auto split: prod.splits)
  from Cons.IH [OF rest Cons.prems(2,3) small]
  have IH: "length rest = length ls" "uint c' < 2 ^ s"
    "mag rest + 4294967296 ^ length ls * uint c' = 2 ^ s * mag ls + ?h"
    by (simp_all add: high)
  have limb: "uint (push_bit s x OR c) = ?l * 2 ^ s + uint c"
    using Cons.prems by (intro uint_u32_push_or) simp_all
  have "mag out + 4294967296 ^ length (x # ls) * uint c' =
      ?l * 2 ^ s + uint c + 4294967296 * (mag rest + 4294967296 ^ length ls * uint c')"
    by (simp add: out limb algebra_simps)
  also have "\<dots> = 2 ^ s * (2 ^ (32 - s) * ?h + ?l) + 2 ^ s * 4294967296 * mag ls + uint c"
  proof -
    have "4294967296 * ?h = 2 ^ s * (2 ^ (32 - s) * ?h)"
      using base_split [OF less_imp_le [OF Cons.prems(3)]] by (simp only: mult.assoc [symmetric])
    then show ?thesis unfolding IH(3) by (simp only: distrib_left distrib_right mult_ac add_ac)
  qed
  also have "\<dots> = 2 ^ s * mag (x # ls) + uint c"
    unfolding mult_div_mod_eq by (simp add: algebra_simps)
  finally show ?case using IH(1,2) by (simp add: out)
qed

lemma shl_whole:
  assumes "shl_limbs s ls 0 = (out, c)" "0 < s" "s < 32"
  shows "mag (out @ (if c \<noteq> 0 then [c] else [])) = 2 ^ s * mag ls" "mag (out @ [c]) = 2 ^ s * mag ls"
    "length out = length ls"
  using shl_limbs_spec [OF assms] by (auto simp: mag_append)

lemma shl_magnitude_mag [mag_simps]: "mag (shl_magnitude ls n) = mag ls * 2 ^ n"
proof -
  have pow: "(4294967296 :: int) ^ (n div 32) * 2 ^ (n mod 32) = 2 ^ n"
  proof -
    have "(4294967296 :: int) ^ (n div 32) = 2 ^ (32 * (n div 32))" by (simp add: power_mult)
    then show ?thesis by (simp add: power_add [symmetric])
  qed
  show ?thesis
  proof (cases "n mod 32 = 0")
    case True
    with pow show ?thesis by (simp add: shl_magnitude_def mag_append mult.commute)
  next
    case False
    obtain out c where eq: "shl_limbs (n mod 32) ls 0 = (out, c)" by fastforce
    with False have "mag (out @ (if c \<noteq> 0 then [c] else [])) = 2 ^ (n mod 32) * mag ls"
      by (intro shl_whole) simp_all
    with eq False pow [symmetric] show ?thesis
      by (simp add: shl_magnitude_def mag_append mult_ac)
  qed
qed

lemma trimmed_shl [simp]: "trimmed (shl_magnitude ls n)"
  by (simp add: shl_magnitude_def Let_def split: prod.split)

lemma mag_mod: "s \<le> 32 \<Longrightarrow> mag ls mod 2 ^ s = uint (limb_at ls 0) mod 2 ^ s"
proof (cases ls)
  case (Cons x xs)
  assume "s \<le> 32"
  then have eq: "4294967296 * mag xs = 2 ^ s * (2 ^ (32 - s) * mag xs)"
    by (simp only: base_split mult.assoc [symmetric])
  show ?thesis unfolding Cons mag.simps limb_at_0 eq mod_mult_self2 ..
qed simp

lemma shr_limbs_mag: "0 < s \<Longrightarrow> s < 32 \<Longrightarrow> mag (shr_limbs s ls) = mag ls div 2 ^ s"
proof (induction ls)
  case (Cons x ls)
  let ?y = "uint (limb_at ls 0)"
  have "uint x < 2 ^ s * 2 ^ (32 - s)" using base_split [of s] Cons.prems by simp
  then have "uint (drop_bit s x) < 2 ^ (32 - s)" unfolding uint_u32_drop by (intro div_less_bound) simp_all
  then have limb: "uint (drop_bit s x OR push_bit (32 - s) (limb_at ls 0)) = ?y mod 2 ^ s * 2 ^ (32 - s) + uint x div 2 ^ s"
    using uint_u32_push_or [of "32 - s" "drop_bit s x" "limb_at ls 0"] Cons.prems
    by (simp add: uint_u32_drop or.commute)
  have "mag (x # ls) div 2 ^ s = (uint x + 2 ^ s * (2 ^ (32 - s) * mag ls)) div 2 ^ s"
    using base_split [of s] Cons.prems by (simp add: mult.assoc [symmetric])
  also have "\<dots> = uint x div 2 ^ s + 2 ^ (32 - s) * mag ls"
    by simp
  also have "\<dots> = uint x div 2 ^ s + 2 ^ (32 - s) * (2 ^ s * (mag ls div 2 ^ s) + mag ls mod 2 ^ s)"
    by simp
  also have "\<dots> = uint x div 2 ^ s + 2 ^ (32 - s) * (?y mod 2 ^ s) + 4294967296 * (mag ls div 2 ^ s)"
    unfolding mag_mod [OF less_imp_le [OF Cons.prems(2)]] base_split [OF less_imp_le [OF Cons.prems(2)], symmetric]
    by (simp only: distrib_left mult_ac add_ac)
  also have "\<dots> = mag (shr_limbs s (x # ls))"
    using Cons by (simp add: limb mult.commute)
  finally show ?case by simp
qed simp

lemma shr_limbs_0 [simp]: "shr_limbs 0 ls = ls"
  by (induction ls) simp_all

lemma mag_div_drop: "mag (drop k ls) = mag ls div 4294967296 ^ k"
proof (cases "k \<le> length ls")
  case True
  have "mag ls = mag (take k ls) + 4294967296 ^ k * mag (drop k ls)"
    using mag_append [of "take k ls" "drop k ls"] True by (simp add: min_absorb2)
  moreover have "mag (take k ls) < 4294967296 ^ k" using mag_less [of "take k ls"] True by (simp add: min_absorb2)
  ultimately show ?thesis by (simp add: div_pos_pos_trivial)
next
  case False
  then have "(4294967296 :: int) ^ length ls \<le> 4294967296 ^ k" by (intro power_increasing) simp_all
  with mag_less [of ls] have "mag ls < 4294967296 ^ k" by linarith
  with False show ?thesis by (simp add: div_pos_pos_trivial)
qed

lemma shr_magnitude_mag [mag_simps]: "mag (shr_magnitude ls n) = mag ls div 2 ^ n"
proof -
  have pow: "(2 :: int) ^ n = 4294967296 ^ (n div 32) * 2 ^ (n mod 32)"
  proof -
    have "(4294967296 :: int) ^ (n div 32) = 2 ^ (32 * (n div 32))" by (simp add: power_mult)
    then show ?thesis by (simp add: power_add [symmetric])
  qed
  have "mag (shr_limbs (n mod 32) ls') = mag ls' div 2 ^ (n mod 32)" for ls'
    by (cases "n mod 32 = 0") (simp_all add: shr_limbs_mag)
  moreover have "mag ls div 2 ^ n = mag (drop (n div 32) ls) div 2 ^ (n mod 32)"
    unfolding pow mag_div_drop by (rule zdiv_zmult2_eq) simp
  ultimately show ?thesis by (simp add: shr_magnitude_def)
qed

lemma trimmed_shr [simp]: "trimmed (shr_magnitude ls n)"
  by (simp add: shr_magnitude_def)

subsection \<open>Lengths in bits\<close>

lemma high_bit_iff: "uint (w :: u32) < 2 ^ Suc n \<Longrightarrow> bit w n \<longleftrightarrow> 2 ^ n \<le> uint w"
proof -
  let ?q = "uint w div 2 ^ n"
  assume lt: "uint w < 2 ^ Suc n"
  then have "?q < 2" by (intro div_less_bound) simp_all
  moreover have "0 \<le> ?q" by (simp add: pos_imp_zdiv_nonneg_iff)
  ultimately have q: "?q = 0 \<or> ?q = 1" by linarith
  have "bit w n \<longleftrightarrow> bit (uint w) n" by (auto simp: bit_uint_iff dest: bit_imp_le_length)
  also have "\<dots> \<longleftrightarrow> odd ?q" by (rule bit_iff_odd)
  also have "\<dots> \<longleftrightarrow> 0 < ?q" using q by auto
  also have "\<dots> \<longleftrightarrow> 2 ^ n \<le> uint w" by (simp add: pos_imp_zdiv_pos_iff)
  finally show ?thesis .
qed

lemma leading_bits:
  "uint (w :: u32) < 2 ^ n \<Longrightarrow>
   uint w < 2 ^ (n - length (takeWhile Not (bits_msb n w))) \<and>
   (w \<noteq> 0 \<longrightarrow> length (takeWhile Not (bits_msb n w)) < n \<and>
     2 ^ (n - 1 - length (takeWhile Not (bits_msb n w))) \<le> uint w)"
proof (induction n)
  case 0
  then have "uint w = 0" using uint_nonnegative [of w] unfolding power_0 by linarith
  then show ?case by (simp add: uint_0_iff)
next
  case (Suc n)
  show ?case
  proof (cases "bit w n")
    case True
    with Suc.prems high_bit_iff [OF Suc.prems] show ?thesis by (simp add: bits_msb_Suc)
  next
    case False
    with high_bit_iff [OF Suc.prems] have "uint w < 2 ^ n" by simp
    with Suc.IH False show ?thesis by (simp add: bits_msb_Suc)
  qed
qed

lemma leading_zeros_bounds:
  "uint w < 2 ^ (32 - leading_zeros w)" "w \<noteq> 0 \<Longrightarrow> leading_zeros w < 32"
  "w \<noteq> 0 \<Longrightarrow> 2 ^ (31 - leading_zeros w) \<le> uint w"
  using leading_bits [of w 32] by (simp_all add: leading_zeros_def)

lemma bit_length_bounds:
  assumes "trimmed ls"
  shows "mag ls < 2 ^ bit_length ls" "ls \<noteq> [] \<Longrightarrow> 0 < bit_length ls \<and> 2 ^ (bit_length ls - 1) \<le> mag ls"
proof -
  have both: "mag ls < 2 ^ bit_length ls \<and> (ls \<noteq> [] \<longrightarrow> 0 < bit_length ls \<and> 2 ^ (bit_length ls - 1) \<le> mag ls)"
  proof (cases ls rule: rev_exhaust)
    case (snoc xs x)
    with assms have "x \<noteq> 0" by (simp add: trimmed_def)
    note x = leading_zeros_bounds(2,3) [OF this] leading_zeros_bounds(1) [of x]
    let ?n = "32 - leading_zeros x"
    have pow: "(2 :: int) ^ (length xs * 32) = 4294967296 ^ length xs"
      using power_mult [of "2 :: int" 32 "length xs"] by (simp add: mult.commute)
    have val: "mag ls = mag xs + 2 ^ (length xs * 32) * uint x" by (simp add: snoc mag_append pow)
    have len: "bit_length ls = length xs * 32 + ?n" by (simp add: snoc bit_length_def)
    have "mag xs < 2 ^ (length xs * 32)" unfolding pow by (rule mag_less)
    then have "mag ls < 2 ^ (length xs * 32) * (uint x + 1)" unfolding val by (simp add: algebra_simps)
    also have "\<dots> \<le> 2 ^ (length xs * 32) * 2 ^ ?n" using x(3) by (intro mult_left_mono) simp_all
    finally have upper: "mag ls < 2 ^ bit_length ls" by (simp add: len power_add)
    have "bit_length ls - 1 = length xs * 32 + (31 - leading_zeros x)" using x(1) by (simp add: len)
    then have "2 ^ (bit_length ls - 1) = 2 ^ (length xs * 32) * (2 ^ (31 - leading_zeros x) :: int)"
      by (simp add: power_add)
    also have "\<dots> \<le> 2 ^ (length xs * 32) * uint x" using x(2) by (intro mult_left_mono) simp_all
    also have "\<dots> \<le> mag ls" unfolding val by simp
    finally show ?thesis using upper x(1) by (simp add: len)
  qed (simp add: bit_length_def)
  then show "mag ls < 2 ^ bit_length ls" by simp
  show "ls \<noteq> [] \<Longrightarrow> 0 < bit_length ls \<and> 2 ^ (bit_length ls - 1) \<le> mag ls" using both by simp
qed

lemma bit_length_le_iff: "trimmed ls \<Longrightarrow> bit_length ls \<le> n \<longleftrightarrow> mag ls < 2 ^ n"
proof
  assume t: "trimmed ls" and "bit_length ls \<le> n"
  then have "(2 :: int) ^ bit_length ls \<le> 2 ^ n" by (intro power_increasing) simp_all
  with bit_length_bounds(1) [OF t] show "mag ls < 2 ^ n" by linarith
next
  assume t: "trimmed ls" and lt: "mag ls < 2 ^ n"
  show "bit_length ls \<le> n"
  proof (rule ccontr)
    assume gt: "\<not> bit_length ls \<le> n"
    then have "ls \<noteq> []" by (auto simp: bit_length_def)
    from bit_length_bounds(2) [OF t this] have "2 ^ (bit_length ls - 1) \<le> mag ls" by simp
    moreover have "(2 :: int) ^ n \<le> 2 ^ (bit_length ls - 1)" using gt by (intro power_increasing) simp_all
    ultimately show False using lt by linarith
  qed
qed

end
