(* ===== verification/BigIntDivision.thy ===== *)
theory BigIntDivision
  imports BigIntMagnitude
begin

text \<open>
  Long division computes the quotient and the remainder.  \<open>refine_digit_spec\<close> says what the
  refined estimate is, \<open>mul_sub_spec\<close> and \<open>add_back_spec\<close> what the two in-place loops do to the
  value of the vector, \<open>quotient_digit_spec\<close> that one round yields the next limb of the quotient, and
  \<open>divmod_magnitude_spec\<close> puts them together.
\<close>

subsection \<open>The estimate of a quotient limb\<close>

text \<open>
  The refined estimate is the largest one-limb quotient of the top three limbs of the dividend by the
  top two limbs of the divisor.
\<close>

lemma refine_step:
  fixes d t s r w num :: int
  assumes "d * t + r = num" "num < (t + 1) * 4294967296" "4294967296 \<le> r + t"
    "0 \<le> d" "0 < t" "0 \<le> s" "s < 4294967296" "0 \<le> w"
  shows "d - 1 < 4294967296" "(d - 1) * (t * 4294967296 + s) \<le> num * 4294967296 + w"
proof -
  have eq: "(d - 1) * t + (r + t) = num" using assms(1) by (simp add: algebra_simps)
  have "(d - 1) * t < 4294967296 * t"
    using eq assms(2,3) by (simp add: distrib_right)
  then show lt: "d - 1 < 4294967296" using assms(5) by (simp add: mult_less_cancel_right)
  have "(d - 1) * s \<le> 4294967296 * 4294967296"
  proof (cases "d = 0")
    case True
    with assms show ?thesis by simp
  next
    case False
    with lt assms show ?thesis by (intro mult_mono) simp_all
  qed
  also have "\<dots> \<le> (r + t) * 4294967296" using assms(3) by simp
  finally have "(d - 1) * s \<le> (r + t) * 4294967296" .
  moreover have "(d - 1) * (t * 4294967296 + s) = (num - (r + t)) * 4294967296 + (d - 1) * s"
    unfolding eq [symmetric] by (simp add: algebra_simps)
  ultimately show "(d - 1) * (t * 4294967296 + s) \<le> num * 4294967296 + w"
    using assms(8) by (simp add: algebra_simps)
qed

lemma refine_digit_spec:
  assumes "uint top_limb * uint digit + uint rest = num" "num < (uint top_limb + 1) * 4294967296"
    "uint rest < 4294967296" "0 < uint top_limb" "uint top_limb < 4294967296"
    "uint second_limb < 4294967296" "uint below < 4294967296"
  shows "uint (refine_digit top_limb second_limb below digit rest) < 4294967296 \<and>
    uint (refine_digit top_limb second_limb below digit rest) * (uint top_limb * 4294967296 + uint second_limb)
      \<le> num * 4294967296 + uint below \<and>
    (\<forall>Q. Q \<le> uint digit \<longrightarrow> Q < 4294967296 \<longrightarrow>
      Q * (uint top_limb * 4294967296 + uint second_limb) \<le> num * 4294967296 + uint below \<longrightarrow>
      Q \<le> uint (refine_digit top_limb second_limb below digit rest))"
  using assms
proof (induction top_limb second_limb below digit rest rule: refine_digit.induct)
  case (1 top_limb second_limb below digit rest)
  let ?t = "uint top_limb" and ?s = "uint second_limb" and ?w = "uint below" and ?d = "uint digit" and ?r = "uint rest"
  note pre = "1.prems"
  have joined: "uint (push_bit 32 rest OR below) = ?r * 4294967296 + ?w"
  proof -
    have "ucast (ucast below :: u32) = below" using pre(7) by (simp add: word_uint_eq_iff uint_narrow)
    then show ?thesis using joined_limbs [OF pre(3), of "ucast below"] pre(7) by (simp add: uint_narrow)
  qed
  have le_digit: "4294967296 \<le> digit \<longleftrightarrow> 4294967296 \<le> ?d" by (simp add: word_le_def)
  have test: "push_bit 32 rest OR below < digit * second_limb \<longleftrightarrow> ?r * 4294967296 + ?w < ?d * ?s"
    if "?d < 4294967296"
  proof -
    have "?d * ?s \<le> 4294967295 * 4294967295" using that pre(6) by (intro mult_mono) simp_all
    then have "uint (digit * second_limb) = ?d * ?s" by (intro uint_times) simp
    then show ?thesis by (simp add: word_less_def joined)
  qed
  let ?go = "4294967296 \<le> ?d \<or> ?r * 4294967296 + ?w < ?d * ?s"
  have cond: "2 ^ 32 \<le> digit \<or> push_bit 32 rest OR below < digit * second_limb \<longleftrightarrow> ?go"
    using le_digit test by (cases "?d < 4294967296") auto
  show ?case
  proof (cases ?go)
    case False
    then have "refine_digit top_limb second_limb below digit rest = digit"
      by (subst refine_digit.simps) (simp only: cond if_False)
    moreover have "?d * (?t * 4294967296 + ?s) \<le> num * 4294967296 + ?w"
      using False pre(1) by (auto simp: algebra_simps)
    ultimately show ?thesis using False by simp
  next
    case True
    have d: "1 \<le> ?d"
    proof (rule ccontr)
      assume "\<not> 1 \<le> ?d"
      then have "?d = 0" using uint_nonnegative [of digit] by linarith
      with True have "?r * 4294967296 + ?w < 0" by simp
      then show False using uint_nonnegative [of rest] uint_nonnegative [of below] by linarith
    qed
    have minus: "uint (digit - 1) = ?d - 1" using d by (simp add: uint_minus_simple_alt [THEN iffD1] word_le_def uint_sub_if')
    have plus: "uint (rest + top_limb) = ?r + ?t" using pre(3,5) by (intro uint_plus) simp
    have less: "Q \<le> ?d - 1" if "Q < 4294967296" "Q \<le> ?d"
      "Q * (?t * 4294967296 + ?s) \<le> num * 4294967296 + ?w" for Q
    proof (rule ccontr)
      assume "\<not> Q \<le> ?d - 1"
      with that(2) have "Q = ?d" by simp
      with that(1) True have "?r * 4294967296 + ?w < ?d * ?s" by simp
      then have "num * 4294967296 + ?w < ?d * (?t * 4294967296 + ?s)"
        unfolding pre(1) [symmetric] by (simp add: algebra_simps)
      with that(3) \<open>Q = ?d\<close> show False by simp
    qed
    have next_eq: "?t * uint (digit - 1) + uint (rest + top_limb) = num"
      unfolding minus plus using pre(1) by (simp add: algebra_simps)
    show ?thesis
    proof (cases "4294967296 \<le> ?r + ?t")
      case big: True
      then have "refine_digit top_limb second_limb below digit rest = digit - 1"
        using True by (subst refine_digit.simps) (simp only: cond if_True, simp add: word_le_def plus)
      moreover note refine_step [of ?d ?t ?r num ?s ?w]
      ultimately show ?thesis
        using big pre d less by (simp add: minus mult.commute)
    next
      case small: False
      then have rec: "refine_digit top_limb second_limb below digit rest =
          refine_digit top_limb second_limb below (digit - 1) (rest + top_limb)"
        using True by (subst refine_digit.simps) (simp only: cond if_True, simp add: word_le_def plus)
      have "\<not> 2 ^ 32 \<le> rest + top_limb" using small by (simp add: word_le_def plus)
      note IH = "1.IH" [OF cond [THEN iffD2, OF True] this next_eq pre(2) _ pre(4-7), folded rec, unfolded minus plus]
      have "?r + ?t < 4294967296" using small by simp
      note IH = IH [OF this]
      show ?thesis using IH less by blast
    qed
  qed
qed

subsection \<open>The two loops over a window of the dividend\<close>

lemma drop_update_below: "i < k \<Longrightarrow> drop k (ls[i := x]) = drop k ls"
  by simp

lemma mul_sub_value:
  fixes x d b h :: int
  assumes "0 \<le> x" "x < 4294967296" "0 \<le> b" "b < 4294967296" "0 \<le> d" "d < 4294967296" "0 \<le> h" "h < 4294967296"
  defines "z \<equiv> x - b - d * h mod 4294967296"
  defines "b' \<equiv> d * h div 4294967296 - z div 4294967296"
  shows "- 9223372036854775808 \<le> z" "z < 9223372036854775808"
    "z mod 4294967296 - 4294967296 * b' = x - b - d * h" "0 \<le> b'" "b' < 4294967296"
proof -
  have m: "0 \<le> d * h mod 4294967296" "d * h mod 4294967296 < 4294967296" by simp_all
  then show "- 9223372036854775808 \<le> z" "z < 9223372036854775808"
    using assms(1-4) unfolding z_def by linarith+
  show eq: "z mod 4294967296 - 4294967296 * b' = x - b - d * h"
    using mult_div_mod_eq [of 4294967296 z] mult_div_mod_eq [of 4294967296 "d * h"]
    unfolding b'_def z_def by (simp add: algebra_simps)
  have dh: "0 \<le> d * h" "d * h \<le> 4294967295 * 4294967295"
    using assms by (simp, intro mult_mono) simp_all
  have z: "0 \<le> z mod 4294967296" "z mod 4294967296 < 4294967296" by simp_all
  show "0 \<le> b'" using eq dh z assms(1-4) by linarith
  show "b' < 4294967296" using eq dh z assms(1-4) by linarith
qed

lemma mul_sub_spec:
  "uint digit < 4294967296 \<Longrightarrow> uint borrow < 4294967296 \<Longrightarrow> pos + length divisor \<le> length scaled \<Longrightarrow>
   \<exists>out b. mul_sub digit divisor pos borrow scaled = Some (out, b) \<and> length out = length scaled \<and>
     uint b < 4294967296 \<and> drop (pos + length divisor) out = drop (pos + length divisor) scaled \<and>
     mag out = mag scaled - 4294967296 ^ pos * (uint digit * mag divisor + uint borrow)
       + 4294967296 ^ (pos + length divisor) * uint b"
proof (induction divisor arbitrary: pos borrow scaled)
  case Nil
  then show ?case by simp
next
  case (Cons y divisor)
  let ?x = "uint (scaled ! pos)" and ?d = "uint digit" and ?b = "uint borrow" and ?y = "uint y"
  define z where "z = ?x - ?b - ?d * ?y mod 4294967296"
  define b' where "b' = ?d * ?y div 4294967296 - z div 4294967296"
  note val = mul_sub_value [of ?x ?b ?d ?y, OF _ _ _ Cons.prems(2) _ Cons.prems(1), folded z_def, folded b'_def, simplified]
  define product where "product = digit * ucast y"
  define difference where "difference = ucast (scaled ! pos) - borrow - (product AND 0xFFFFFFFF)"
  define next_borrow where "next_borrow = drop_bit 32 product - signed_drop_bit 32 difference"
  have "?d * ?y \<le> 4294967295 * 4294967295" using Cons.prems(1) by (intro mult_mono) simp_all
  then have product: "uint product = ?d * ?y"
    unfolding product_def using uint_times [of digit "ucast y"] by simp
  have low: "uint (product AND 0xFFFFFFFF) = ?d * ?y mod 4294967296"
    using take_bit_eq_mask [of 32 "uint product"]
    by (simp add: unsigned_and_eq product take_bit_eq_mod mask_eq_exp_minus_1)
  have diff: "difference = word_of_int z"
    by (simp only: difference_def diff_of_int z_def uint_widen low)
  then have sint: "sint difference = z" using val(1,2) by (simp only: sint_of_int)
  have limb: "uint (ucast difference :: u32) = z mod 4294967296" unfolding diff by (rule narrow_of_int)
  have "signed_drop_bit 32 difference = word_of_int (z div 4294967296)"
  proof -
    have "sint (signed_drop_bit 32 difference) = z div 4294967296"
      by (simp add: sint_signed_drop_bit_eq sint drop_bit_eq_div)
    from this [symmetric] show ?thesis by (simp only: of_int_sint scast_id)
  qed
  moreover have "drop_bit 32 product = word_of_int (?d * ?y div 4294967296)"
    using uint_high [of product] product by (metis word_of_int_uint)
  ultimately have "next_borrow = word_of_int b'" by (simp only: next_borrow_def b'_def wi_hom_sub)
  then have borrow': "uint next_borrow = b'" using val(4,5) by (simp add: uint_word_of_int)
  have pos: "pos < length scaled" using Cons.prems(3) by simp
  obtain out b where IH: "mul_sub digit divisor (Suc pos) next_borrow (scaled[pos := ucast difference]) = Some (out, b)"
    "length out = length scaled" "uint b < 4294967296"
    "drop (Suc pos + length divisor) out = drop (Suc pos + length divisor) scaled"
    "mag out = mag (scaled[pos := ucast difference]) - 4294967296 ^ Suc pos * (?d * mag divisor + b')
       + 4294967296 ^ (Suc pos + length divisor) * uint b"
    using Cons.IH [of next_borrow "Suc pos" "scaled[pos := ucast difference]"] Cons.prems(1,3) val(5) borrow'
    by auto
  have "mag out = mag scaled + 4294967296 ^ pos * ((z mod 4294967296 - 4294967296 * b') - ?x - 4294967296 * (?d * mag divisor))
       + 4294967296 ^ (pos + length (y # divisor)) * uint b"
    unfolding IH(5) mag_update [OF pos] limb by (simp add: algebra_simps)
  then have "mag out = mag scaled - 4294967296 ^ pos * (?d * mag (y # divisor) + ?b)
       + 4294967296 ^ (pos + length (y # divisor)) * uint b"
    unfolding val(3) by (simp add: algebra_simps)
  moreover have "mul_sub digit (y # divisor) pos borrow scaled = Some (out, b)"
    using pos IH(1) by (simp add: limb_get_def next_borrow_def difference_def product_def Let_def)
  ultimately show ?case using IH(2-4) by simp
qed

lemma add_back_spec:
  "uint carry \<le> 1 \<Longrightarrow> pos + length divisor \<le> length scaled \<Longrightarrow>
   \<exists>out c. add_back divisor pos carry scaled = Some (out, c) \<and> length out = length scaled \<and>
     uint c \<le> 1 \<and> drop (pos + length divisor) out = drop (pos + length divisor) scaled \<and>
     mag out + 4294967296 ^ (pos + length divisor) * uint c =
       mag scaled + 4294967296 ^ pos * (mag divisor + uint carry)"
proof (induction divisor arbitrary: pos carry scaled)
  case Nil
  then show ?case by simp
next
  case (Cons y divisor)
  define sum where "sum = (ucast (scaled ! pos) + ucast y + carry :: u64)"
  have sum: "uint sum = uint (scaled ! pos) + uint y + uint carry"
    using Cons.prems(1) uint_u32(2) [of y] uint_u32(2) [of "scaled ! pos"]
    unfolding sum_def by (subst uint_plus; subst uint_plus; simp del: uint_u32)
  note split = split_word [of sum, unfolded sum]
  have "uint sum \<le> 8589934591"
    using sum Cons.prems(1) uint_u32(2) [of y] uint_u32(2) [of "scaled ! pos"] by linarith
  then have "uint sum div 4294967296 \<le> 1" by linarith
  then have carry: "uint (drop_bit 32 sum) \<le> 1" by (simp add: uint_high)
  have pos: "pos < length scaled" using Cons.prems(2) by simp
  obtain out c where IH: "add_back divisor (Suc pos) (drop_bit 32 sum) (scaled[pos := ucast sum]) = Some (out, c)"
    "length out = length scaled" "uint c \<le> 1"
    "drop (Suc pos + length divisor) out = drop (Suc pos + length divisor) scaled"
    "mag out + 4294967296 ^ (Suc pos + length divisor) * uint c =
       mag (scaled[pos := ucast sum]) + 4294967296 ^ Suc pos * (mag divisor + uint (drop_bit 32 sum))"
    using Cons.IH [OF carry, of "Suc pos" "scaled[pos := ucast sum]"] Cons.prems(2) by auto
  have "mag out + 4294967296 ^ (pos + length (y # divisor)) * uint c =
      mag scaled + 4294967296 ^ pos * (uint (ucast sum :: u32) + 4294967296 * uint (drop_bit 32 sum)
        - uint (scaled ! pos) + 4294967296 * mag divisor)"
    using IH(5) by (simp add: mag_update [OF pos] algebra_simps)
  then have "mag out + 4294967296 ^ (pos + length (y # divisor)) * uint c =
      mag scaled + 4294967296 ^ pos * (mag (y # divisor) + uint carry)"
    unfolding split by (simp add: algebra_simps)
  moreover have "add_back (y # divisor) pos carry scaled = Some (out, c)"
    using pos IH(1) by (simp add: limb_get_def sum_def Let_def)
  ultimately show ?case using IH(2-4) by simp
qed

subsection \<open>One limb of the quotient\<close>

lemma div_bounds:
  fixes a m :: int
  assumes "0 < m"
  shows "m * (a div m) \<le> a" "a < m * (a div m) + m"
  using mult_div_mod_eq [of m a] pos_mod_sign [OF assms, of a] pos_mod_bound [OF assms, of a] by linarith+

lemma le_div: "0 < v \<Longrightarrow> d * v \<le> W \<Longrightarrow> d \<le> W div (v :: int)"
  using zdiv_mono1 [of "d * v" W v] by simp

lemma estimate_bounds:
  fixes W v P u w t y d :: int
  assumes W: "W = u * P + w" "0 \<le> w" "w < P" and v: "v = t * P + y" "0 \<le> y" "y < P"
    and big: "4294967296 * P \<le> v" and W0: "0 \<le> W"
  shows "0 \<le> d \<Longrightarrow> d < 4294967296 \<Longrightarrow> d * t \<le> u \<Longrightarrow> d \<le> W div v + 1" "W div v * t \<le> u"
proof -
  have P: "0 < P" using W by linarith
  with big have v0: "0 < v" by linarith
  show "d \<le> W div v + 1" if d: "0 \<le> d" "d < 4294967296" "d * t \<le> u"
  proof -
    have "d * y \<le> 4294967296 * P" using d v P by (intro mult_mono) simp_all
    moreover have "d * t * P \<le> u * P" using d(3) P by (intro mult_right_mono) simp_all
    moreover have "d * v = d * t * P + d * y" unfolding v(1) by (simp add: algebra_simps)
    ultimately have "d * v \<le> W + v" using W(1,2) big by linarith
    then have "(d - 1) * v \<le> W" by (simp add: algebra_simps)
    then have "(d - 1) * v div v \<le> W div v" using v0 by (intro zdiv_mono1) simp_all
    with v0 show ?thesis by simp
  qed
  have q: "0 \<le> W div v" using W0 v0 by (simp add: pos_imp_zdiv_nonneg_iff)
  have "W div v * (t * P) \<le> W div v * v" using q v by (intro mult_left_mono) simp_all
  also have "\<dots> \<le> W" using div_mult_mod_eq [of W v] pos_mod_sign [OF v0, of W] by linarith
  also have "\<dots> < (u + 1) * P" using W by (simp add: algebra_simps)
  finally have "W div v * t * P < (u + 1) * P" by (simp add: mult.assoc)
  with P show "W div v * t \<le> u" by (simp add: mult_less_cancel_right)
qed

lemma mag_split_at: "mag ls = mag (take k ls) + 4294967296 ^ k * mag (drop k ls)" if "k \<le> length ls"
  using mag_append [of "take k ls" "drop k ls"] that by (simp add: min_absorb2)

lemma mag_take_less: "k \<le> length ls \<Longrightarrow> mag (take k ls) < 4294967296 ^ k"
  using mag_less [of "take k ls"] by (simp add: min_absorb2)

lemma top_two_limbs:
  assumes "2 \<le> length ls"
  shows "mag ls div 4294967296 ^ (length ls - 2) =
    uint (ls ! (length ls - 1)) * 4294967296 + uint (ls ! (length ls - 2))"
proof -
  have "Suc (length ls - 2) = length ls - 1" "length ls - 1 < length ls" "length ls - 2 < length ls"
    using assms by auto
  then show ?thesis
    using mag_drop [of "length ls - 2" ls] mag_drop [of "length ls - 1" ls] assms
    by (simp add: mag_div_drop [symmetric] limb_at_def)
qed

lemma top_three_limbs:
  assumes "k + 2 < length ls" "mag ls div 4294967296 ^ (k + 3) = 0"
  shows "mag ls div 4294967296 ^ k =
    (uint (ls ! (k + 2)) * 4294967296 + uint (ls ! (k + 1))) * 4294967296 + uint (ls ! k)"
proof -
  have "mag (drop (k + 3) ls) = 0" using assms(2) by (simp add: mag_div_drop)
  then show ?thesis
    using mag_drop [of k ls] mag_drop [of "k + 1" ls] mag_drop [of "k + 2" ls] assms(1)
    by (simp add: mag_div_drop [symmetric] limb_at_def numeral_3_eq_3)
qed

text \<open>
  The estimate of the code is the quotient limb or one more, and the sign of the top limb after the
  subtraction tells which.
\<close>

lemma refined_estimate:
  fixes v W :: int and high mid below topl secl :: u64
  assumes v: "v div P = uint topl * 4294967296 + uint secl" and W: "W div P = num * 4294967296 + uint below"
    and P: "0 < P" and big: "4294967296 * P \<le> v" and W0: "0 \<le> W" and lt: "W < 4294967296 * v"
    and small: "uint topl < 4294967296" "uint secl < 4294967296" "uint below < 4294967296" "0 < uint topl"
    and num: "uint numerator = num"
  defines "d \<equiv> uint (refine_digit topl secl below (numerator div topl) (numerator mod topl))"
  shows "W div v \<le> d" "d \<le> W div v + 1" "d < 4294967296"
proof -
  let ?t = "uint topl * 4294967296 + uint secl"
  let ?u = "num * 4294967296 + uint below"
  have Weq: "W = ?u * P + W mod P" unfolding W [symmetric] by simp
  have veq: "v = ?t * P + v mod P" unfolding v [symmetric] by simp
  note est = estimate_bounds [OF Weq _ _ veq _ _ big W0, simplified P pos_mod_sign pos_mod_bound]
  have v0: "0 < v" using big P by linarith
  have num_lt: "num < (uint topl + 1) * 4294967296"
  proof -
    have "?u * P \<le> W" using Weq pos_mod_sign [OF P, of W] by linarith
    also have "\<dots> < 4294967296 * ((?t + 1) * P)"
      using lt veq pos_mod_bound [OF P, of v] by (simp add: algebra_simps)
    finally have "?u * P < (4294967296 * (?t + 1)) * P" by (simp only: mult.assoc)
    then have "?u < 4294967296 * (?t + 1)" using P by (simp add: mult_less_cancel_right)
    then have "num * 4294967296 < (?t + 1) * 4294967296" using uint_nonnegative [of below] by linarith
    then have "num < ?t + 1" by simp
    moreover have "uint secl + 1 \<le> 4294967296" using small(2) by simp
    ultimately show ?thesis by (simp add: distrib_right)
  qed
  have div: "uint (numerator div topl) = num div uint topl" by (simp add: uint_div_distrib num)
  have md: "uint (numerator mod topl) = num mod uint topl" by (simp add: uint_mod_distrib num)
  have "uint topl * uint (numerator div topl) + uint (numerator mod topl) = num" unfolding div md by simp
  moreover have "uint (numerator mod topl) < 4294967296"
    unfolding md using pos_mod_bound [OF small(4), of num] small(1) by linarith
  ultimately have spec: "d < 4294967296" "d * ?t \<le> ?u"
    "\<And>Q. Q \<le> num div uint topl \<Longrightarrow> Q < 4294967296 \<Longrightarrow> Q * ?t \<le> ?u \<Longrightarrow> Q \<le> d"
    using refine_digit_spec [of topl "numerator div topl" "numerator mod topl" num secl below] num_lt small
    unfolding d_def by (auto simp: div)
  show "d < 4294967296" by (rule spec)
  show "d \<le> W div v + 1" using est(1) [of d] spec by (simp add: d_def)
  show "W div v \<le> d"
  proof (rule spec(3))
    show q: "W div v < 4294967296" using lt v0 by (intro div_less_bound) (simp_all add: mult.commute)
    show qt: "W div v * ?t \<le> ?u" by (rule est(2)) simp_all
    have q0: "0 \<le> W div v" using W0 v0 by (simp add: pos_imp_zdiv_nonneg_iff)
    have "W div v * uint topl * 4294967296 \<le> W div v * ?t"
      using q0 by (simp add: algebra_simps)
    also have "\<dots> < (num + 1) * 4294967296" using qt small(3) by simp
    finally have "W div v * uint topl \<le> num" by simp
    then have "W div v * uint topl div uint topl \<le> num div uint topl"
      using small(4) by (intro zdiv_mono1) simp_all
    with small(4) show "W div v \<le> num div uint topl" by simp
  qed
qed

text \<open>The top limb of the window, and what is left of it after the subtraction.\<close>

lemma window_bounds:
  fixes S v n :: int and j k :: nat
  assumes "S div 4294967296 ^ j < 4294967296 * v" "v < 4294967296 ^ k" "0 \<le> S"
  shows "S div 4294967296 ^ (j + k + 1) = 0" "S < 4294967296 ^ (j + k + 1)"
proof -
  have "S div 4294967296 ^ j < 4294967296 ^ (k + 1)"
    using assms(1,2) by simp
  then have "4294967296 ^ j * (S div 4294967296 ^ j + 1) \<le> 4294967296 ^ j * 4294967296 ^ (k + 1)"
    by (intro mult_left_mono) simp_all
  moreover have "S < 4294967296 ^ j * (S div 4294967296 ^ j + 1)"
    using div_bounds(2) [of "4294967296 ^ j" S] by (simp add: distrib_left)
  ultimately show lt: "S < 4294967296 ^ (j + k + 1)" by (simp only: power_add mult_ac)
  with assms(3) show "S div 4294967296 ^ (j + k + 1) = 0" by (simp add: div_pos_pos_trivial)
qed

lemma quotient_digit_spec:
  assumes n: "2 \<le> length divisor" and top: "divisor ! (length divisor - 1) \<noteq> 0"
    and len: "j + length divisor < length scaled"
    and lt: "mag scaled div 4294967296 ^ j < 4294967296 * mag divisor"
  shows "\<exists>digit out. quotient_digit divisor j scaled = Some (digit, out) \<and> length out = length scaled \<and>
    uint digit = (mag scaled div 4294967296 ^ j) div mag divisor \<and>
    mag out = mag scaled - 4294967296 ^ j * (uint digit * mag divisor)"
proof -
  let ?n = "length divisor"
  define v S where "v = mag divisor" and "S = mag scaled"
  define W P Q where "W = S div 4294967296 ^ j" and "P = (4294967296 :: int) ^ (?n - 2)" and "Q = (4294967296 :: int) ^ (j + ?n)"
  define topl secl where "topl = (ucast (divisor ! (?n - 1)) :: u64)" and "secl = (ucast (divisor ! (?n - 2)) :: u64)"
  define high mid low where "high = scaled ! (j + ?n)" and "mid = scaled ! (j + ?n - 1)" and "low = scaled ! (j + ?n - 2)"
  define numerator where "numerator = (push_bit 32 (ucast high) OR ucast mid :: u64)"
  define d where "d = refine_digit topl secl (ucast low) (numerator div topl) (numerator mod topl)"
  define q where "q = W div v"
  have v_lt: "v < 4294967296 ^ ?n" unfolding v_def by (rule mag_less)
  have S0: "0 \<le> S" by (simp add: S_def)
  have S_lt: "S div 4294967296 ^ (j + ?n + 1) = 0" "S < 4294967296 ^ (j + ?n + 1)"
    using window_bounds [of S j v ?n] lt v_lt S0 by (simp_all add: S_def v_def)
  have v_top: "v div P = uint topl * 4294967296 + uint secl"
    unfolding v_def P_def topl_def secl_def using top_two_limbs [OF n] by simp
  have numerator: "uint numerator = uint high * 4294967296 + uint mid"
    unfolding numerator_def by (subst joined_limbs) simp_all
  have W_top: "W div P = (uint high * 4294967296 + uint mid) * 4294967296 + uint (ucast low :: u64)"
  proof -
    have idx: "j + ?n - 2 + 2 = j + ?n" "j + ?n - 2 + 1 = j + ?n - 1" "j + ?n - 2 + 3 = j + ?n + 1"
      "j + (?n - 2) = j + ?n - 2" using n by simp_all
    have "W div P = S div 4294967296 ^ (j + (?n - 2))"
      unfolding W_def P_def power_add by (rule zdiv_zmult2_eq [symmetric]) simp
    also have "\<dots> = (uint high * 4294967296 + uint mid) * 4294967296 + uint low"
      using top_three_limbs [of "j + ?n - 2" scaled] len S_lt(1)
      unfolding idx by (simp add: S_def high_def mid_def low_def)
    finally show ?thesis by simp
  qed
  have topl: "0 < uint topl" "uint topl < 4294967296"
    using top uint_u32(1) [of "divisor ! (?n - 1)"] uint_nonnegative [of "divisor ! (?n - 1)"]
    by (auto simp: topl_def uint_0_iff [symmetric] order_less_le)
  have P0: "0 < P" by (simp add: P_def)
  have "P * (4294967296 * 1) \<le> P * (v div P)"
    unfolding v_top using topl P0 uint_nonnegative [of secl] by (intro mult_left_mono) linarith+
  also have "\<dots> \<le> v" using mult_div_mod_eq [of P v] pos_mod_sign [OF P0, of v] by linarith
  finally have big: "4294967296 * P \<le> v" by (simp add: mult.commute)
  have v0: "0 < v" using big P0 by linarith
  have W0: "0 \<le> W" by (simp add: W_def pos_imp_zdiv_nonneg_iff S0)
  have W_lt: "W < 4294967296 * v" using lt by (simp add: W_def S_def v_def)
  have est: "q \<le> uint d" "uint d \<le> q + 1" "uint d < 4294967296"
    using refined_estimate [OF v_top W_top P0 big W0 W_lt topl(2) _ _ topl(1) numerator]
    by (simp_all add: q_def d_def secl_def)
  have W_q: "q * v \<le> W" using div_bounds(1) [OF v0, of W] by (simp add: q_def mult.commute)
  have S_W: "4294967296 ^ j * W \<le> S"
    unfolding W_def by (rule div_bounds) simp
  have S_hi: "S = mag (take (j + ?n) scaled) + Q * uint high"
  proof -
    have "mag (drop (j + ?n) scaled) = uint high + 4294967296 * mag (drop (Suc (j + ?n)) scaled)"
      using mag_drop [of "j + ?n" scaled] len by (simp add: limb_at_def high_def)
    moreover have "mag (drop (Suc (j + ?n)) scaled) = 0" using S_lt(1) by (simp add: mag_div_drop S_def)
    ultimately show ?thesis using mag_split_at [of "j + ?n" scaled] len by (simp add: S_def Q_def)
  qed
  obtain out b where sub: "mul_sub d divisor j 0 scaled = Some (out, b)" "length out = length scaled"
    "uint b < 4294967296" "drop (j + ?n) out = drop (j + ?n) scaled"
    "mag out = S - 4294967296 ^ j * (uint d * v) + Q * uint b"
    using mul_sub_spec [OF est(3), of 0 j divisor scaled] len by (auto simp: S_def v_def Q_def)
  have out_hi: "out ! (j + ?n) = high" "mag out = mag (take (j + ?n) out) + Q * uint high"
  proof -
    have "hd (drop (j + ?n) out) = hd (drop (j + ?n) scaled)" by (simp add: sub(4))
    then show "out ! (j + ?n) = high" using len sub(2) by (simp add: hd_drop_conv_nth high_def)
    show "mag out = mag (take (j + ?n) out) + Q * uint high"
      using mag_split_at [of "j + ?n" out] mag_split_at [of "j + ?n" scaled] len sub(2,4) S_hi
      by (simp add: Q_def S_def)
  qed
  define diff where "diff = (ucast high - b :: u64)"
  define x where "x = (ucast diff :: u32)"
  define out2 where "out2 = out[j + ?n := x]"
  have diff: "diff = word_of_int (uint high - uint b)" by (simp add: diff_def wi_hom_sub [symmetric])
  have bounds: "uint high - uint b < 4294967296" "- 4294967296 < uint high - uint b"
    using sub(3) uint_u32(1) [of high] uint_nonnegative [of b] uint_nonnegative [of high] by linarith+
  have neg: "diff <s 0 \<longleftrightarrow> uint high < uint b" using sless_0 [of "uint high - uint b"] bounds by (simp add: diff)
  have x: "uint x = (uint high - uint b) mod 4294967296" by (simp only: x_def diff narrow_of_int)
  have idx: "j + ?n < length out" using len sub(2) by simp
  have out2: "mag out2 = S - 4294967296 ^ j * (uint d * v) + Q * (uint b + uint x - uint high)"
    unfolding out2_def mag_update [OF idx] sub(5) out_hi(1) Q_def by (simp add: algebra_simps)
  have step: "quotient_digit divisor j scaled = (if diff <s 0
      then do { (restored, carry) \<leftarrow> add_back divisor j 0 out2;
                Some (ucast (d - 1), restored[j + ?n := restored ! (j + ?n) + ucast carry]) }
      else Some (ucast d, out2))"
  proof -
    have gets: "limb_get scaled (j + ?n) = Some high" "limb_get scaled (j + ?n - 1) = Some mid"
      "limb_get scaled (j + ?n - 2) = Some low" "limb_get out (j + ?n) = Some high"
      using len idx out_hi(1) by (simp_all add: limb_get_def high_def mid_def low_def)
    show ?thesis
      by (simp only: quotient_digit_def Let_def gets bind.bind_lunit prod.case
        sub(1) [unfolded d_def numerator_def topl_def secl_def]
        out2_def x_def diff_def d_def numerator_def topl_def secl_def)
  qed
  show ?thesis
  proof (cases "uint high < uint b")
    case False
    with bounds have "uint x = uint high - uint b" by (simp add: x)
    then have val: "mag out2 = S - 4294967296 ^ j * (uint d * v)" by (simp add: out2)
    have "4294967296 ^ j * (uint d * v) \<le> S" using mag_nonneg [of out2] unfolding val by simp
    also have "S < 4294967296 ^ j * (W + 1)" using div_bounds(2) [of "4294967296 ^ j" S] by (simp add: W_def distrib_left)
    finally have "uint d * v < W + 1" by (simp add: mult_less_cancel_left_pos)
    then have "uint d \<le> q" unfolding q_def using v0 by (intro le_div) simp_all
    with est have "uint d = q" by simp
    moreover have "uint (ucast d :: u32) = uint d" using est(3) by (simp add: uint_narrow)
    ultimately show ?thesis using False neg step val sub(2)
      by (auto simp: q_def W_def S_def v_def out2_def)
  next
    case True
    have xval: "uint x = uint high - uint b + 4294967296"
      using True bounds mod_pos_pos_trivial [of "uint high - uint b + 4294967296" 4294967296] by (simp add: x)
    define S' where "S' = S - 4294967296 ^ j * (q * v)"
    have "Q * (uint high + 1) \<le> Q * uint b" using True by (intro mult_left_mono) (simp_all add: Q_def)
    moreover have "mag (take (j + ?n) out) < Q" using mag_take_less [of "j + ?n" out] idx by (simp add: Q_def)
    ultimately have "S < 4294967296 ^ j * (uint d * v)"
      using sub(5) out_hi(2) by (simp add: distrib_left)
    with S_W have "4294967296 ^ j * W < 4294967296 ^ j * (uint d * v)" by (rule le_less_trans)
    then have "W < uint d * v" by (simp only: mult_less_cancel_left_pos zero_less_power zero_less_numeral)
    have dq: "uint d = q + 1"
    proof (rule ccontr)
      assume "uint d \<noteq> q + 1"
      with est have "uint d \<le> q" by simp
      then have "uint d * v \<le> q * v" using v0 by (intro mult_right_mono) simp_all
      with W_q \<open>W < uint d * v\<close> show False by simp
    qed
    have S'0: "0 \<le> S'" "S' < Q"
    proof -
      have "4294967296 ^ j * (q * v) \<le> 4294967296 ^ j * W" using W_q by (intro mult_left_mono) simp_all
      with S_W show "0 \<le> S'" unfolding S'_def by linarith
      have "W + 1 \<le> q * v + v" using div_bounds(2) [OF v0, of W] by (simp add: q_def mult.commute)
      then have "4294967296 ^ j * (W + 1) \<le> 4294967296 ^ j * (q * v + v)" by (intro mult_left_mono) simp_all
      moreover have "S < 4294967296 ^ j * (W + 1)"
        using div_bounds(2) [of "4294967296 ^ j" S] by (simp add: W_def distrib_left)
      ultimately have "S' < 4294967296 ^ j * v" unfolding S'_def distrib_left by linarith
      also have "\<dots> < Q" using v_lt by (simp add: Q_def power_add)
      finally show "S' < Q" .
    qed
    have val2: "mag out2 = S' - 4294967296 ^ j * v + Q * 4294967296"
      unfolding out2 S'_def dq xval by (simp add: algebra_simps)
    obtain out3 c where restore: "add_back divisor j 0 out2 = Some (out3, c)" "length out3 = length scaled"
      "uint c \<le> 1" "drop (j + ?n) out3 = drop (j + ?n) out2"
      "mag out3 + Q * uint c = S' + Q * 4294967296"
      using add_back_spec [of 0 j divisor out2] idx val2 sub(2) by (auto simp: v_def Q_def out2_def)
    have hi3: "out3 ! (j + ?n) = x"
    proof -
      have "hd (drop (j + ?n) out3) = hd (drop (j + ?n) out2)" by (simp add: restore(4))
      then show ?thesis using len restore(2) sub(2) by (simp add: hd_drop_conv_nth out2_def)
    qed
    have "mag out2 = mag (take (j + ?n) out) + Q * uint x"
      unfolding out2_def mag_update [OF idx] out_hi Q_def by (simp add: algebra_simps)
    moreover have "mag out2 = mag (take (j + ?n) out) + Q * mag (drop (j + ?n) out2)"
      using mag_split_at [of "j + ?n" out2] idx by (simp add: out2_def Q_def)
    ultimately have val3: "mag out3 = mag (take (j + ?n) out3) + Q * uint x"
      using mag_split_at [of "j + ?n" out3] len restore(2,4) by (simp add: Q_def)
    have Q0: "0 < Q" by (simp add: Q_def)
    have low3: "0 \<le> mag (take (j + ?n) out3)" "mag (take (j + ?n) out3) < Q"
      using mag_take_less [of "j + ?n" out3] len restore(2) by (simp_all add: Q_def)
    have "Q * (uint x + uint c - 4294967296) = S' - mag (take (j + ?n) out3)"
      using restore(5) val3 by (simp add: algebra_simps)
    then have "Q * (uint x + uint c - 4294967296) < Q * 1" "Q * (- 1) < Q * (uint x + uint c - 4294967296)"
      using low3 S'0 by linarith+
    then have "uint x + uint c - 4294967296 < 1 \<and> - 1 < uint x + uint c - 4294967296"
      unfolding mult_less_cancel_left_pos [OF Q0] by blast
    then have sum: "uint x + uint c = 4294967296" by linarith
    have "uint (ucast c :: u32) = uint c" using restore(3) by (simp add: uint_narrow)
    with sum have "uint (x + ucast c) = 0" by (simp add: uint_word_ariths)
    then have "mag (out3[j + ?n := out3 ! (j + ?n) + ucast c]) = mag out3 - Q * uint x"
      using len restore(2) by (simp add: mag_update hi3 Q_def)
    also have "\<dots> = S'"
    proof -
      have "Q * 4294967296 = Q * uint x + Q * uint c" by (simp only: distrib_left [symmetric] sum)
      with restore(5) show ?thesis by linarith
    qed
    finally have final: "mag (out3[j + ?n := out3 ! (j + ?n) + ucast c]) = S'" .
    have q0: "0 \<le> q" using W0 v0 by (simp add: q_def pos_imp_zdiv_nonneg_iff)
    then have "uint (d - 1) = q" using dq by (simp add: uint_sub_if')
    moreover from this have "uint (ucast (d - 1) :: u32) = q" using est(3) dq q0 by (simp add: uint_narrow)
    ultimately show ?thesis using True neg step restore final
      by (auto simp: q_def W_def S_def v_def S'_def)
  qed
qed

subsection \<open>All limbs of the quotient\<close>

lemma quotient_digits_spec:
  assumes "2 \<le> length divisor" "divisor ! (length divisor - 1) \<noteq> 0"
  shows "j + length divisor \<le> length scaled \<Longrightarrow> mag scaled div 4294967296 ^ j < mag divisor \<Longrightarrow>
    \<exists>quotient out. quotient_digits divisor j scaled = Some (quotient, out) \<and>
      length quotient = j \<and> length out = length scaled \<and>
      mag quotient * mag divisor + mag out = mag scaled \<and> mag out < mag divisor"
proof (induction j arbitrary: scaled)
  case 0
  then show ?case by simp
next
  case (Suc j)
  let ?v = "mag divisor" and ?p = "4294967296 ^ j :: int"
  let ?W = "mag scaled div ?p"
  have v0: "0 < ?v" using Suc.prems(2) by (smt (verit) mag_nonneg pos_imp_zdiv_nonneg_iff zero_less_power)
  have "?W div 4294967296 < ?v"
    using Suc.prems(2) zdiv_zmult2_eq [of 4294967296 "mag scaled" ?p] by (simp add: mult.commute)
  then have "4294967296 * (?W div 4294967296 + 1) \<le> 4294967296 * ?v" by simp
  then have lt: "?W < 4294967296 * ?v" using div_bounds(2) [of 4294967296 ?W] by simp
  obtain digit out1 where digit: "quotient_digit divisor j scaled = Some (digit, out1)"
    "length out1 = length scaled" "uint digit = ?W div ?v" "mag out1 = mag scaled - ?p * (uint digit * ?v)"
    using quotient_digit_spec [OF assms, of j scaled] Suc.prems(1) lt by auto
  have "mag out1 = (?W - uint digit * ?v) * ?p + mag scaled mod ?p"
    unfolding digit(4) using div_mult_mod_eq [of "mag scaled" ?p] by (simp add: algebra_simps)
  then have "mag out1 div ?p = ?W - uint digit * ?v" by simp
  also have "\<dots> < ?v" unfolding digit(3) using div_bounds(2) [OF v0, of ?W] by (simp add: mult.commute)
  finally have "mag out1 div ?p < ?v" .
  with Suc.IH [of out1] Suc.prems(1) digit(2) obtain quotient out where
    "quotient_digits divisor j out1 = Some (quotient, out)" "length quotient = j" "length out = length scaled"
    "mag quotient * ?v + mag out = mag out1" "mag out < ?v"
    by auto
  with digit show ?case by (simp add: mag_append algebra_simps)
qed

lemma unscale_limbs_eq:
  "n < length ls \<Longrightarrow> unscale_limbs s n ls = Some (take n (shr_limbs s ls))"
proof (induction n arbitrary: ls)
  case (Suc n)
  then obtain x xs where ls: "ls = x # xs" by (cases ls) auto
  with Suc.prems have "0 < length xs" by auto
  then show ?case using ls Suc by (cases xs; cases "s = 0") (simp_all add: limb_get_def limb_at_def)
qed simp

lemma mag_take_all: "mag ls < 4294967296 ^ n \<Longrightarrow> mag (take n ls) = mag ls"
proof (cases "n \<le> length ls")
  case True
  assume "mag ls < 4294967296 ^ n"
  then have "mag (drop n ls) = 0" by (simp add: mag_div_drop div_pos_pos_trivial)
  with True show ?thesis using mag_split_at [of n ls] by simp
qed simp

lemma length_shr_limbs [simp]: "length (shr_limbs s ls) = length ls"
  by (induction ls) simp_all

lemma unscale_spec:
  assumes "n < length ls" "mag ls < 4294967296 ^ n" "s < 32"
  shows "\<exists>r. unscale_limbs s n ls = Some r \<and> mag r = mag ls div 2 ^ s"
proof -
  have shr: "mag (shr_limbs s ls) = mag ls div 2 ^ s"
    using assms(3) by (cases "s = 0") (simp_all add: shr_limbs_mag)
  have "mag ls div 2 ^ s \<le> mag ls div 1" by (intro zdiv_mono2) simp_all
  then have "mag ls div 2 ^ s \<le> mag ls" by simp
  with assms(2) shr have "mag (shr_limbs s ls) < 4294967296 ^ n" by linarith
  with assms(1) shr show ?thesis by (simp add: unscale_limbs_eq mag_take_all)
qed

subsection \<open>Scaling\<close>

lemma shift_left_limbs_mag: "s < 32 \<Longrightarrow> mag (shift_left_limbs ls s) = 2 ^ s * mag ls \<and> length (shift_left_limbs ls s) = length ls + 1"
proof (cases "s = 0")
  case False
  assume "s < 32"
  obtain out c where eq: "shl_limbs s ls 0 = (out, c)" by fastforce
  with shl_whole [OF this] False \<open>s < 32\<close> show ?thesis by (simp add: shift_left_limbs_def)
qed (simp add: shift_left_limbs_def mag_append)

lemma scaled_divisor:
  assumes "trimmed ls" "ls \<noteq> []"
  defines "s \<equiv> leading_zeros (last ls)"
  defines "sd \<equiv> butlast (shift_left_limbs ls s)"
  shows "s < 32" "length sd = length ls" "mag sd = 2 ^ s * mag ls" "sd ! (length sd - 1) \<noteq> 0"
    "4294967296 ^ length ls \<le> 2 * mag sd"
proof -
  have last: "last ls \<noteq> 0" using assms by (simp add: trimmed_def)
  note lz = leading_zeros_bounds [of "last ls", folded s_def]
  show s: "s < 32" using lz(2) last by simp
  note sl = shift_left_limbs_mag [OF s, of ls]
  show len: "length sd = length ls" using sl by (simp add: sd_def)
  obtain xs x where ls: "ls = xs @ [x]" using assms(2) by (cases ls rule: rev_exhaust) auto
  then have x: "x = last ls" by simp
  have val: "mag ls = mag xs + 4294967296 ^ length xs * uint x" by (simp add: ls mag_append)
  have p: "2 ^ s * 2 ^ (32 - s) = (4294967296 :: int)" using s by (intro base_split) simp
  have "2 ^ s * (uint x + 1) \<le> 2 ^ s * 2 ^ (32 - s)" using lz(1) x by (intro mult_left_mono) simp_all
  then have up: "2 ^ s * (uint x + 1) \<le> 4294967296" unfolding p .
  have "2 ^ s * 2 ^ (31 - s) \<le> 2 ^ s * uint x" using lz(3) last x by (intro mult_left_mono) simp_all
  moreover have "2 ^ s * 2 ^ (31 - s) = (2147483648 :: int)" using s by (simp add: power_add [symmetric])
  ultimately have lo: "2147483648 \<le> 2 ^ s * uint x" by simp
  have xs: "mag xs < 4294967296 ^ length xs" by (rule mag_less)
  have "mag ls < 4294967296 ^ length xs * (uint x + 1)" using xs unfolding val by (simp add: algebra_simps)
  then have "2 ^ s * mag ls < 2 ^ s * (4294967296 ^ length xs * (uint x + 1))" by simp
  also have "\<dots> = 4294967296 ^ length xs * (2 ^ s * (uint x + 1))" by (simp only: mult_ac)
  also have "\<dots> \<le> 4294967296 ^ length xs * 4294967296" using up by (intro mult_left_mono) simp_all
  finally have small: "2 ^ s * mag ls < 4294967296 ^ length ls" by (simp add: ls)
  have "shift_left_limbs ls s \<noteq> []" using sl by auto
  then have sp: "shift_left_limbs ls s = sd @ [last (shift_left_limbs ls s)]" by (simp add: sd_def)
  then have eq: "2 ^ s * mag ls = mag sd + 4294967296 ^ length ls * uint (last (shift_left_limbs ls s))"
    using sl mag_append [of sd "[last (shift_left_limbs ls s)]"] len by simp
  have "uint (last (shift_left_limbs ls s)) = 0"
  proof (rule ccontr)
    assume "uint (last (shift_left_limbs ls s)) \<noteq> 0"
    then have "1 \<le> uint (last (shift_left_limbs ls s))"
      using uint_nonnegative [of "last (shift_left_limbs ls s)"] by linarith
    then have "(4294967296 :: int) ^ length ls * 1 \<le> 4294967296 ^ length ls * uint (last (shift_left_limbs ls s))"
      by (intro mult_left_mono) simp_all
    with eq small mag_nonneg [of sd] show False by linarith
  qed
  with eq show sdv: "mag sd = 2 ^ s * mag ls" by simp
  have "4294967296 ^ length xs * 2147483648 \<le> 4294967296 ^ length xs * (2 ^ s * uint x)"
    using lo by (intro mult_left_mono) simp_all
  also have "\<dots> \<le> 2 ^ s * mag ls" unfolding val by (simp add: distrib_left mult_ac)
  finally show big: "4294967296 ^ length ls \<le> 2 * mag sd" unfolding sdv by (simp add: ls)
  show "sd ! (length sd - 1) \<noteq> 0"
  proof
    assume z: "sd ! (length sd - 1) = 0"
    have "sd \<noteq> []" using len assms(2) by auto
    then have "mag sd = mag (butlast sd) + 4294967296 ^ length (butlast sd) * uint (sd ! (length sd - 1))"
      using mag_append [of "butlast sd" "[last sd]"] append_butlast_last_id [of sd] last_conv_nth [of sd] by simp
    with z have "mag sd < 4294967296 ^ length xs" using mag_less [of "butlast sd"] len by (simp add: ls)
    moreover have "(0 :: int) < 4294967296 ^ length xs" by simp
    moreover have "2147483648 * 4294967296 ^ length xs \<le> mag sd" using big by (simp add: ls)
    ultimately show False by linarith
  qed
qed

theorem divmod_magnitude_spec:
  assumes "trimmed dividend" "trimmed divisor" "divisor \<noteq> []"
  shows "\<exists>q r. divmod_magnitude dividend divisor = Some (q, r) \<and> trimmed q \<and> trimmed r \<and>
    mag q = mag dividend div mag divisor \<and> mag r = mag dividend mod mag divisor"
proof -
  have pos: "0 < mag divisor" using assms(2,3) mag_eq_0 [of divisor] mag_nonneg [of divisor] by (simp add: order_less_le)
  consider (less) "mag dividend < mag divisor" | (one) "mag divisor \<le> mag dividend" "length divisor = 1"
    | (long) "mag divisor \<le> mag dividend" "2 \<le> length divisor"
    using assms(3) by (cases divisor rule: remdups_adj.cases) fastforce+
  then show ?thesis
  proof cases
    case less
    then have "cmp_magnitude dividend divisor = Less" using assms by (simp add: cmp_magnitude_eq)
    with less assms(1) show ?thesis by (simp add: divmod_magnitude_def div_pos_pos_trivial mod_pos_pos_trivial)
  next
    case one
    then have ge: "cmp_magnitude dividend divisor \<noteq> Less" using assms by (simp add: cmp_magnitude_eq)
    from one(2) obtain x where x: "divisor = [x]" by (auto simp: length_Suc_conv)
    with assms(2) have "x \<noteq> 0" by (simp add: trimmed_def)
    then obtain q r where qr: "div_small dividend x = Some (q, r)" "mag q * uint x + uint r = mag dividend"
      "uint r < uint x" "trimmed q"
      by (rule div_small_spec)
    have "mag q = mag dividend div uint x \<and> uint r = mag dividend mod uint x"
      using qr(2,3) int_div_pos_eq [of "mag dividend" "uint x" "mag q" "uint r"]
        int_mod_pos_eq [of "mag dividend" "uint x" "mag q" "uint r"]
      by (simp add: mult.commute)
    with ge qr x show ?thesis
      by (auto simp: divmod_magnitude_def trimmed_def uint_0_iff)
  next
    case long
    then have ge: "cmp_magnitude dividend divisor \<noteq> Less" using assms by (simp add: cmp_magnitude_eq)
    define s sd sc n where "s = leading_zeros (last divisor)" and "sd = butlast (shift_left_limbs divisor s)"
      and "sc = shift_left_limbs dividend s" and "n = length sd"
    note sdiv = scaled_divisor [OF assms(2,3), folded s_def, folded sd_def]
    have sc: "mag sc = 2 ^ s * mag dividend" "length sc = length dividend + 1"
      using shift_left_limbs_mag [OF sdiv(1), of dividend] by (simp_all add: sc_def)
    have n: "n = length divisor" "n \<le> length dividend"
      using sdiv(2) length_ge_mag [OF assms(2) long(1)] by (simp_all add: n_def)
    let ?J = "length dividend - n + 1"
    have "mag sc div 4294967296 ^ ?J < mag sd"
    proof (rule div_less_bound)
      have "2 ^ s \<le> (2 :: int) ^ 31" using sdiv(1) by (intro power_increasing) simp_all
      then have "mag sc \<le> 2147483648 * mag dividend" unfolding sc(1) by (intro mult_right_mono) simp_all
      also have "\<dots> < 2147483648 * 4294967296 ^ length dividend" using mag_less [of dividend] by simp
      finally have "2 * mag sc < 4294967296 ^ (length dividend + 1)" by simp
      also have "\<dots> = 4294967296 ^ ?J * 4294967296 ^ length divisor" using n by (simp add: power_add [symmetric])
      also have "\<dots> \<le> 4294967296 ^ ?J * (2 * mag sd)" using sdiv(5) by (intro mult_left_mono) simp_all
      finally show "mag sc < 4294967296 ^ ?J * mag sd" by (simp add: mult_ac)
    qed simp
    then obtain q out where quo: "quotient_digits sd ?J sc = Some (q, out)" "length out = length sc"
      "mag q * mag sd + mag out = mag sc" "mag out < mag sd"
      using quotient_digits_spec [of sd ?J sc] sdiv(2,4) sc(2) n long(2) by auto
    have "mag out < 4294967296 ^ n" using quo(4) mag_less [of sd] by (simp add: n_def)
    then obtain r where r: "unscale_limbs s n out = Some r" "mag r = mag out div 2 ^ s"
      using unscale_spec [of n out s] quo(2) sc(2) n sdiv(1) by auto
    have "mag out = 2 ^ s * (mag dividend - mag q * mag divisor)"
      using quo(3) unfolding sc(1) sdiv(3) by (simp add: algebra_simps)
    with r(2) quo(4) sdiv(3) have rem: "mag r = mag dividend - mag q * mag divisor" "mag r < mag divisor"
      by simp_all
    then have "mag dividend = mag q * mag divisor + mag r" by simp
    then have "mag q = mag dividend div mag divisor \<and> mag r = mag dividend mod mag divisor"
      using rem(2) int_div_pos_eq [of "mag dividend" "mag divisor" "mag q" "mag r"]
        int_mod_pos_eq [of "mag dividend" "mag divisor" "mag q" "mag r"]
      by (simp add: mult.commute)
    moreover have "divmod_magnitude dividend divisor = Some (trim_limbs q, trim_limbs r)"
    proof -
      have one: "(length divisor = 1) = False" using long(2) by simp
      note defs = n_def sd_def sc_def s_def
      show ?thesis
        by (simp only: divmod_magnitude_def ge one assms(3) if_False Let_def bind.bind_lunit prod.case
          quo(1) [unfolded defs] r(1) [unfolded defs])
    qed
    ultimately show ?thesis by simp
  qed
qed

end
