(* ===== verification/BigIntValues.thy ===== *)
theory BigIntValues
  imports BigInt BigIntDivision "HOL-Library.Signed_Division"
begin

text \<open>
  The integers that big integers stand for.  \<open>bi_ok\<close> is the normal form of \<open>from_parts\<close>, \<open>val\<close> the
  integer, and for every operation there is an equation between \<open>val\<close> of its result and the integer
  operation it implements; \<open>val_inject\<close> makes the derived equality of the code the equality of
  integers.
\<close>

definition bi_ok :: "js_bigint \<Rightarrow> bool" where
  "bi_ok a \<longleftrightarrow> trimmed (bi_limbs a) \<and> (bi_negative a \<longrightarrow> bi_limbs a \<noteq> [])"

definition val :: "js_bigint \<Rightarrow> int" where
  "val a = (if bi_negative a then - mag (bi_limbs a) else mag (bi_limbs a))"

named_theorems val_simps \<open>the integers the operations compute\<close>

lemma trimmed_one [simp]: "trimmed [1]"
  by (simp add: trimmed_def)

lemma from_parts_ok [simp]: "bi_ok (from_parts negative ls)"
  by (simp add: bi_ok_def from_parts_def Let_def)

lemma val_from_parts [val_simps]: "val (from_parts negative ls) = (if negative then - mag ls else mag ls)"
proof -
  have "trim_limbs ls = [] \<Longrightarrow> mag ls = 0" using mag_trim [of ls] by simp
  then show ?thesis by (auto simp: val_def from_parts_def Let_def)
qed

lemma bi_zero_ok [simp]: "bi_ok bi_zero" and val_zero [val_simps]: "val bi_zero = 0"
  by (simp_all add: bi_ok_def val_def bi_zero_def)

lemma ok_cases:
  assumes "bi_ok a"
  obtains "bi_negative a" "val a < 0" "mag (bi_limbs a) = - val a" "trimmed (bi_limbs a)" "bi_limbs a \<noteq> []"
  | "\<not> bi_negative a" "0 \<le> val a" "mag (bi_limbs a) = val a" "trimmed (bi_limbs a)"
proof (cases "bi_negative a")
  case True
  with assms have "bi_limbs a \<noteq> []" "trimmed (bi_limbs a)" by (simp_all add: bi_ok_def)
  then have "0 < mag (bi_limbs a)" by (simp add: mag_eq_0 order_less_le eq_commute [of 0])
  with True \<open>bi_limbs a \<noteq> []\<close> \<open>trimmed (bi_limbs a)\<close> show ?thesis by (intro that(1)) (simp_all add: val_def)
next
  case False
  with assms show ?thesis by (intro that(2)) (simp_all add: val_def bi_ok_def)
qed

lemma mag_limbs: "bi_ok a \<Longrightarrow> mag (bi_limbs a) = \<bar>val a\<bar>"
  by (erule ok_cases) simp_all

lemma limbs_trimmed: "bi_ok a \<Longrightarrow> trimmed (bi_limbs a)"
  by (simp add: bi_ok_def)

lemma negative_iff: "bi_ok a \<Longrightarrow> bi_negative a \<longleftrightarrow> val a < 0"
  by (erule ok_cases) simp_all

lemma is_zero_iff: "bi_ok a \<Longrightarrow> bi_is_zero a \<longleftrightarrow> val a = 0"
  using mag_eq_0 [OF limbs_trimmed, of a] mag_limbs [of a] by (auto simp: bi_is_zero_def)

lemma val_inject: "bi_ok a \<Longrightarrow> bi_ok b \<Longrightarrow> val a = val b \<longleftrightarrow> a = b"
proof
  assume ok: "bi_ok a" "bi_ok b" and eq: "val a = val b"
  then have "bi_negative a = bi_negative b" by (simp add: negative_iff)
  moreover have "bi_limbs a = bi_limbs b"
    using ok eq mag_inject [OF limbs_trimmed limbs_trimmed, of a b] by (simp add: mag_limbs)
  ultimately show "a = b" by simp
qed simp

subsection \<open>Conversions and order\<close>

lemma from_u64_ok [simp]: "bi_ok (from_u64 v)"
  by (simp add: from_u64_def)

lemma val_from_u64 [val_simps]: "val (from_u64 v) = uint v"
  using split_word [of v] uint_high_less [of v] by (simp add: from_u64_def val_from_parts uint_narrow)

lemma from_i64_ok [simp]: "bi_ok (from_i64 v)"
  by (simp add: from_i64_def)

lemma sint_read:
  "sint (v :: u64) = (if uint v < 9223372036854775808 then uint v else uint v - 18446744073709551616)"
proof (cases "uint v < 9223372036854775808")
  case True
  then show ?thesis using sint_of_int [of "uint v"] uint_nonnegative [of v] by simp
next
  case False
  have "sint (word_of_int (uint v - 18446744073709551616) :: u64) = uint v - 18446744073709551616"
    using False uint_u64(1) [of v] by (intro sint_of_int) linarith+
  moreover have "word_of_int (uint v - 18446744073709551616) = v"
    by (simp only: word_uint_eq_iff uint_word_of_int) simp
  ultimately have "sint v = uint v - 18446744073709551616" by (simp only:)
  with False show ?thesis by simp
qed

lemma val_from_i64 [val_simps]: "val (from_i64 v) = sint v"
proof -
  have m: "mag (bi_limbs (from_u64 w)) = uint w" for w
    using mag_limbs [of "from_u64 w"] by (simp add: val_from_u64)
  have s: "sint v = (if uint v < 9223372036854775808 then uint v else uint v - 18446744073709551616)"
    using sint_read [of v] .
  show ?thesis
  proof (cases "v <s 0")
    case True
    then have "sint v < 0" by (simp add: word_sless_alt)
    with s have ge: "\<not> uint v < 9223372036854775808" by (auto split: if_splits)
    then have "uint (- v) = 18446744073709551616 - uint v"
      using uint_u64(1) [of v] by (simp add: uint_word_ariths zmod_zminus1_eq_if)
    with True ge s show ?thesis by (simp add: from_i64_def val_from_parts m)
  next
    case False
    then have "0 \<le> sint v" by (simp add: word_sless_alt)
    have "uint v < 9223372036854775808"
    proof (rule ccontr)
      assume "\<not> uint v < 9223372036854775808"
      with s have "sint v = uint v - 18446744073709551616" by simp
      with \<open>0 \<le> sint v\<close> uint_u64(1) [of v] show False by linarith
    qed
    with False s show ?thesis by (simp add: from_i64_def val_from_parts m)
  qed
qed

lemma val_one [val_simps]: "val (from_i64 1) = 1"
  by (simp add: val_from_i64)

lemma magnitude_u64_eq:
  assumes "bi_ok a"
  shows "magnitude_u64 a = (if \<bar>val a\<bar> < 18446744073709551616 then Some (word_of_int \<bar>val a\<bar>) else None)"
proof -
  have joined: "push_bit 32 (ucast y) OR ucast x = (word_of_int (uint x + 4294967296 * uint y) :: u64)" for x y :: u32
  proof -
    have "uint (push_bit 32 (ucast y) OR ucast x :: u64) = uint x + 4294967296 * uint y"
      by (subst joined_limbs) simp_all
    from this [symmetric] show ?thesis by simp
  qed
  have wide: "18446744073709551616 \<le> mag (x # y # z # ls)" if "trimmed (x # y # z # ls)" for x y z ls
  proof -
    have "(4294967296 :: int) ^ 2 \<le> 4294967296 ^ (length (x # y # z # ls) - 1)"
      by (intro power_increasing) simp_all
    also have "\<dots> \<le> mag (x # y # z # ls)" using that by (intro mag_lower) simp_all
    finally show ?thesis by simp
  qed
  consider (zero) "bi_limbs a = []" | (one) x where "bi_limbs a = [x]" | (two) x y where "bi_limbs a = [x, y]"
    | (more) x y z ls where "bi_limbs a = x # y # z # ls"
    by (metis neq_Nil_conv)
  then show ?thesis
  proof cases
    case zero
    with mag_limbs [OF assms] show ?thesis by (simp add: magnitude_u64_def)
  next
    case (one x)
    then have "\<bar>val a\<bar> = uint x" using mag_limbs [OF assms] by simp
    moreover have "ucast x = (word_of_int (uint x) :: u64)" by (simp add: word_uint_eq_iff uint_word_of_int)
    moreover have "uint x < 18446744073709551616" using uint_u32(1) [of x] by linarith
    ultimately show ?thesis using one by (simp add: magnitude_u64_def)
  next
    case (two x y)
    then have "\<bar>val a\<bar> = uint x + 4294967296 * uint y" using mag_limbs [OF assms] by simp
    moreover have "uint x + 4294967296 * uint y < 18446744073709551616"
      using uint_u32(2) [of x] uint_u32(2) [of y] by linarith
    ultimately show ?thesis using two joined [of y x] by (simp add: magnitude_u64_def)
  next
    case (more x y z ls)
    with wide [of x y z ls] limbs_trimmed [OF assms] mag_limbs [OF assms] show ?thesis
      by (simp add: magnitude_u64_def)
  qed
qed

lemma bi_cmp_eq:
  assumes "bi_ok a" "bi_ok b"
  shows "bi_cmp a b = cmp (val a) (val b)"
  using assms
  by (elim ok_cases) (simp_all add: bi_cmp_def cmp_magnitude_eq cmp_def)

subsection \<open>Arithmetic\<close>

lemma negate_ok [simp]: "bi_ok (negate a)" and val_negate [val_simps]: "val (negate a) = - val a"
  by (simp_all add: negate_def val_from_parts) (simp add: val_def)

lemma add_ok [simp]: "bi_ok (bi_add a b)"
  by (simp add: bi_add_def split: ordering.split)

lemma val_add [val_simps]: "bi_ok a \<Longrightarrow> bi_ok b \<Longrightarrow> val (bi_add a b) = val a + val b"
  by (elim ok_cases)
    (auto simp: bi_add_def val_from_parts add_magnitude_mag sub_magnitude_mag cmp_magnitude_eq cmp_def
       split: ordering.split)

lemma sub_ok [simp]: "bi_ok (bi_sub a b)"
  by (simp add: bi_sub_def)

lemma val_sub [val_simps]: "bi_ok a \<Longrightarrow> bi_ok b \<Longrightarrow> val (bi_sub a b) = val a - val b"
  by (simp add: bi_sub_def val_add val_negate)

lemma val_mul: "\<exists>r. bi_mul a b = Some r \<and> bi_ok r \<and> val r = val a * val b"
proof -
  obtain out where "mul_magnitude (bi_limbs a) (bi_limbs b) = Some out" "mag out = mag (bi_limbs a) * mag (bi_limbs b)"
    using mul_magnitude_spec by blast
  then show ?thesis by (simp add: bi_mul_def val_from_parts) (auto simp: val_def)
qed

lemma sdiv_by_sign:
  fixes a b :: int
  shows "a sdiv b = (if (a < 0) \<noteq> (b < 0) then - (\<bar>a\<bar> div \<bar>b\<bar>) else \<bar>a\<bar> div \<bar>b\<bar>)"
    and "a smod b = (if a < 0 then - (\<bar>a\<bar> mod \<bar>b\<bar>) else \<bar>a\<bar> mod \<bar>b\<bar>)"
  by (auto simp: signed_divide_int_def signed_modulo_int_def sgn_if)

lemma val_div_rem:
  assumes "bi_ok a" "bi_ok b" "val b \<noteq> 0"
  shows "\<exists>q r. div_rem a b = Some (Some (q, r)) \<and> bi_ok q \<and> bi_ok r \<and>
    val q = val a sdiv val b \<and> val r = val a smod val b"
proof -
  have "bi_limbs b \<noteq> []" using is_zero_iff [OF assms(2)] assms(3) by (simp add: bi_is_zero_def)
  then obtain q r where qr: "divmod_magnitude (bi_limbs a) (bi_limbs b) = Some (q, r)"
    "mag q = \<bar>val a\<bar> div \<bar>val b\<bar>" "mag r = \<bar>val a\<bar> mod \<bar>val b\<bar>"
    using divmod_magnitude_spec [of "bi_limbs a" "bi_limbs b"] assms by (auto simp: limbs_trimmed mag_limbs)
  then show ?thesis
    using assms by (simp add: div_rem_def is_zero_iff val_from_parts sdiv_by_sign negative_iff)
qed

subsection \<open>Powers\<close>

lemma unat_half: "unat (drop_bit 1 (e :: u64)) = unat e div 2"
  by (simp add: drop_bit_Suc unat_div_distrib)

lemma odd_word: "e AND 1 = (1 :: u64) \<longleftrightarrow> odd (unat e)"
  by (simp add: and_one_eq word_unat_eq_iff unat_mod_distrib odd_iff_mod_2_eq_one)

lemma pow_loop_spec:
  "bi_ok result \<Longrightarrow> bi_ok base \<Longrightarrow>
   \<exists>r. pow_loop result base e = Some r \<and> bi_ok r \<and> val r = val result * val base ^ unat e"
proof (induction result base e rule: pow_loop.induct)
  case (1 result base e)
  show ?case
  proof (cases "e = 0")
    case True
    with 1 show ?thesis by (simp add: pow_loop.simps [of result base])
  next
    case False
    obtain p where p: "bi_mul result base = Some p" "bi_ok p" "val p = val result * val base"
      using val_mul by blast
    obtain s where s: "bi_mul base base = Some s" "bi_ok s" "val s = val base * val base"
      using val_mul by blast
    define result' where "result' = (if odd (unat e) then p else result)"
    define base' where "base' = (if drop_bit 1 e \<noteq> 0 then s else base)"
    have ok: "bi_ok result'" "bi_ok base'" using p s 1 by (simp_all add: result'_def base'_def)
    have r': "(if e AND 1 = 1 then bi_mul result base else Some result) = Some result'"
      by (simp add: p odd_word result'_def)
    have b': "(if drop_bit 1 e \<noteq> 0 then bi_mul base base else Some base) = Some base'"
      by (simp add: s base'_def)
    obtain r where r: "pow_loop result' base' (drop_bit 1 e) = Some r" "bi_ok r"
      "val r = val result' * val base' ^ unat (drop_bit 1 e)"
      using "1.IH" [OF False r' b' ok] by blast
    have "val base' ^ unat (drop_bit 1 e) = (val base * val base) ^ (unat e div 2)"
    proof (cases "drop_bit 1 e = 0")
      case True
      then have "unat e div 2 = 0" using unat_half [of e] by simp
      with True show ?thesis by simp
    next
      case False
      then show ?thesis by (simp only: base'_def if_True not_False_eq_True s unat_half)
    qed
    also have "\<dots> = val base ^ (2 * (unat e div 2))" by (simp add: power_mult power2_eq_square)
    finally have sq: "val base' ^ unat (drop_bit 1 e) = val base ^ (2 * (unat e div 2))" .
    have "val r = val result * val base ^ unat e"
    proof (cases "odd (unat e)")
      case True
      then have "unat e = Suc (2 * (unat e div 2))" by simp
      then have "val base ^ unat e = val base * val base ^ (2 * (unat e div 2))" by (metis power_Suc)
      with True show ?thesis unfolding r(3) sq by (simp add: result'_def p)
    next
      case even: False
      then have "2 * (unat e div 2) = unat e" by simp
      with even show ?thesis unfolding r(3) sq by (simp add: result'_def)
    qed
    with r False r' b' show ?thesis by (simp add: pow_loop.simps [of result base])
  qed
qed

lemma limbs_one: "bi_ok a \<Longrightarrow> bi_limbs a = [1] \<longleftrightarrow> \<bar>val a\<bar> = 1"
  using mag_inject [OF limbs_trimmed trimmed_one, of a] by (auto simp: mag_limbs)

lemma odd_limbs:
  assumes "bi_ok e"
  shows "(case bi_limbs e of [] \<Rightarrow> False | low # _ \<Rightarrow> low AND 1 = 1) \<longleftrightarrow> odd (val e)"
proof -
  have "low AND 1 = (1 :: u32) \<longleftrightarrow> odd (uint low)" for low
    by (simp add: and_one_eq word_uint_eq_iff uint_mod_distrib odd_iff_mod_2_eq_one)
  then have "(case bi_limbs e of [] \<Rightarrow> False | low # _ \<Rightarrow> low AND 1 = 1) \<longleftrightarrow> odd (mag (bi_limbs e))"
    by (cases "bi_limbs e") simp_all
  with assms show ?thesis by (simp add: mag_limbs)
qed

lemma bi_pow_spec:
  assumes "bi_ok a" "bi_ok e" "0 \<le> val e"
  obtains (result) r where "bi_pow a e = Some (Some r)" "bi_ok r" "val r = val a ^ nat (val e)"
  | (refused) "bi_pow a e = Some None" "2 \<le> \<bar>val a\<bar>" "int max_bits < int (bit_length (bi_limbs a)) * val e"
proof -
  note zero = is_zero_iff [OF assms(1)] is_zero_iff [OF assms(2)]
  consider (e0) "val e = 0" | (small) "val e \<noteq> 0" "\<bar>val a\<bar> \<le> 1" | (big) "val e \<noteq> 0" "2 \<le> \<bar>val a\<bar>"
    by linarith
  then show ?thesis
  proof cases
    case e0
    with zero show ?thesis by (intro result [of "from_i64 1"]) (simp_all add: bi_pow_def val_one)
  next
    case small
    then have branch: "bi_is_zero a \<or> bi_limbs a = [1]" using zero limbs_one [OF assms(1)] by auto
    define r where "r = (if bi_negative a \<and> odd (val e) then a else from_parts False (bi_limbs a))"
    have eq: "bi_pow a e = Some (Some r)"
      using small(1) branch zero unfolding bi_pow_def Let_def odd_limbs [OF assms(2)] r_def by simp
    have n: "0 < nat (val e)" "even (nat (val e)) \<longleftrightarrow> even (val e)" using small(1) assms(3) by (simp_all add: even_nat_iff)
    consider "val a = 0" | "val a = 1" | "val a = - 1" using small(2) by linarith
    then have "val r = val a ^ nat (val e)"
      using n by cases (auto simp: r_def val_from_parts mag_limbs [OF assms(1)] negative_iff [OF assms(1)])
    with eq assms(1) show ?thesis by (intro result [of r]) (simp_all add: r_def)
  next
    case big
    then have branch: "\<not> (bi_is_zero a \<or> bi_limbs a = [1])" using zero limbs_one [OF assms(1)] by auto
    have "bi_limbs a \<noteq> []" using branch by (simp add: bi_is_zero_def)
    then have bl: "0 < bit_length (bi_limbs a)" using bit_length_bounds(2) [OF limbs_trimmed [OF assms(1)]] by simp
    show ?thesis
    proof (cases "val e < 18446744073709551616 \<and> int (bit_length (bi_limbs a)) * val e \<le> int max_bits")
      case True
      then have k: "magnitude_u64 e = Some (word_of_int (val e))" "unat (word_of_int (val e) :: u64) = nat (val e)"
        using assms(3) by (simp_all add: magnitude_u64_eq [OF assms(2)] unat_eq_nat_uint uint_word_of_int)
      have "int (bit_length (bi_limbs a) * nat (val e)) \<le> int max_bits" using True assms(3) by simp
      then have le: "\<not> max_bits < bit_length (bi_limbs a) * unat (word_of_int (val e) :: u64)"
        unfolding k(2) by linarith
      obtain r where "pow_loop (from_i64 1) a (word_of_int (val e)) = Some r" "bi_ok r" "val r = val a ^ nat (val e)"
        using pow_loop_spec [of "from_i64 1" a "word_of_int (val e)"] assms(1) k(2) by (auto simp: val_one)
      with branch big zero k(1) le show ?thesis by (intro result [of r]) (simp_all add: bi_pow_def)
    next
      case False
      have gt: "int max_bits < int (bit_length (bi_limbs a)) * val e"
      proof (cases "val e < 18446744073709551616")
        case wide: False
        have "1 * val e \<le> int (bit_length (bi_limbs a)) * val e"
          using bl assms(3) by (intro mult_right_mono) simp_all
        moreover have "int max_bits = 1048576" by (simp add: max_bits_def)
        ultimately show ?thesis using wide by linarith
      qed (use False in simp)
      have "bi_pow a e = Some None"
      proof (cases "val e < 18446744073709551616")
        case wide: False
        with branch big zero assms(3) show ?thesis by (simp add: bi_pow_def magnitude_u64_eq [OF assms(2)])
      next
        case fits: True
        then have k: "magnitude_u64 e = Some (word_of_int (val e))" "unat (word_of_int (val e) :: u64) = nat (val e)"
          using assms(3) by (simp_all add: magnitude_u64_eq [OF assms(2)] unat_eq_nat_uint uint_word_of_int)
        have "int max_bits < int (bit_length (bi_limbs a) * nat (val e))" using gt assms(3) by simp
        then have "max_bits < bit_length (bi_limbs a) * nat (val e)" by linarith
        with branch big zero k show ?thesis by (simp add: bi_pow_def)
      qed
      with big gt show ?thesis by (intro refused)
    qed
  qed
qed

subsection \<open>Shifts\<close>

lemma div_of_minus: "0 < p \<Longrightarrow> (- m) div p = - ((m - 1) div p) - (1 :: int)"
proof (rule int_div_pos_eq)
  assume p: "0 < p"
  let ?q = "(m - 1) div p" and ?r = "(m - 1) mod p"
  show "- m = p * (- ?q - 1) + (p - 1 - ?r)" using mult_div_mod_eq [of p "m - 1"] by (simp add: algebra_simps)
  show "0 \<le> p - 1 - ?r" "p - 1 - ?r < p"
    using pos_mod_sign [OF p, of "m - 1"] pos_mod_bound [OF p, of "m - 1"] by linarith+
qed

lemma shift_right_ok [simp]: "bi_ok (shift_right a n)"
  by (simp add: shift_right_def Let_def)

lemma val_shift_right [val_simps]:
  assumes "bi_ok a"
  shows "val (shift_right a n) = val a div 2 ^ n"
  using assms
proof (cases rule: ok_cases)
  case 1
  have "mag [1 :: u32] = 1" by simp
  then have sub: "mag (sub_magnitude (bi_limbs a) [1]) = - val a - 1"
    using 1 by (subst sub_magnitude_mag) simp_all
  have "val a div 2 ^ n = - ((- val a - 1) div 2 ^ n) - 1"
    using div_of_minus [of "2 ^ n" "- val a"] by simp
  with 1 sub show ?thesis
    by (simp add: shift_right_def val_from_parts add_magnitude_mag shr_magnitude_mag)
next
  case 2
  then show ?thesis by (simp add: shift_right_def val_from_parts shr_magnitude_mag)
qed

text \<open>
  A left shift is refused when the result would be longer than the limit; a right shift by a count
  that does not fit a \<open>u64\<close> is cut to the largest one, which is further than any value this long.
\<close>

lemma small_quotient: "- (p :: int) \<le> a \<Longrightarrow> a < p \<Longrightarrow> a div p = (if a < 0 then - 1 else 0)"
  using int_div_pos_eq [of a p "- 1" "a + p"] by (auto simp: div_pos_pos_trivial)

lemma shift_count:
  assumes "bi_ok c"
  shows "\<bar>val c\<bar> < 18446744073709551616 \<Longrightarrow>
      magnitude_u64 c = Some (word_of_int \<bar>val c\<bar>) \<and> unat (word_of_int \<bar>val c\<bar> :: u64) = nat \<bar>val c\<bar>"
    and "\<not> \<bar>val c\<bar> < 18446744073709551616 \<Longrightarrow> magnitude_u64 c = None"
  by (simp_all add: magnitude_u64_eq [OF assms] unat_eq_nat_uint uint_word_of_int)

lemma bi_shift_left:
  assumes "bi_ok a" "bi_ok c" "0 \<le> val c"
  obtains (result) r where "bi_shift a c = Some r" "bi_ok r" "val r = val a * 2 ^ nat (val c)"
  | (refused) "bi_shift a c = None" "val a \<noteq> 0" "int max_bits < int (bit_length (bi_limbs a)) + val c"
proof (cases "val a = 0")
  case True
  then show ?thesis using assms by (intro result [of bi_zero]) (simp_all add: bi_shift_def is_zero_iff val_zero)
next
  case nonzero: False
  have neg: "\<not> bi_negative c" "\<bar>val c\<bar> = val c" using assms by (simp_all add: negative_iff)
  show ?thesis
  proof (cases "val c < 18446744073709551616")
    case False
    with shift_count(2) [OF assms(2)] neg have "magnitude_u64 c = None" by simp
    with False nonzero neg assms show ?thesis by (intro refused) (simp_all add: bi_shift_def is_zero_iff max_bits_def)
  next
    case True
    with shift_count(1) [OF assms(2)] neg
    have k: "magnitude_u64 c = Some (word_of_int (val c))" "unat (word_of_int (val c) :: u64) = nat (val c)" by simp_all
    let ?len = "bit_length (bi_limbs a)"
    have iff: "max_bits < min (?len + nat (val c)) u64_max \<longleftrightarrow> int max_bits < int ?len + val c"
    proof -
      have "max_bits < u64_max" by (simp add: max_bits_def u64_max_def)
      then have "max_bits < min (?len + nat (val c)) u64_max \<longleftrightarrow> max_bits < ?len + nat (val c)" by auto
      with assms(3) show ?thesis by linarith
    qed
    show ?thesis
    proof (cases "int max_bits < int ?len + val c")
      case True
      with k iff nonzero neg assms show ?thesis by (intro refused) (simp_all add: bi_shift_def is_zero_iff)
    next
      case False
      let ?r = "from_parts (bi_negative a) (shl_magnitude (bi_limbs a) (nat (val c)))"
      have "bi_shift a c = Some ?r" using False k iff nonzero neg assms by (simp add: bi_shift_def is_zero_iff)
      moreover have "val ?r = val a * 2 ^ nat (val c)"
        by (simp add: val_from_parts shl_magnitude_mag) (simp add: val_def)
      ultimately show ?thesis by (intro result [of ?r]) simp_all
    qed
  qed
qed

lemma bi_shift_right:
  assumes "bi_ok a" "bi_ok c" "val c < 0" "bit_length (bi_limbs a) \<le> u64_max"
  shows "\<exists>r. bi_shift a c = Some r \<and> bi_ok r \<and> val r = val a div 2 ^ nat (- val c)"
proof (cases "val a = 0")
  case True
  then show ?thesis using assms by (simp add: bi_shift_def is_zero_iff val_zero)
next
  case nonzero: False
  have neg: "bi_negative c" "\<bar>val c\<bar> = - val c" using assms by (simp_all add: negative_iff)
  show ?thesis
  proof (cases "- val c < 18446744073709551616")
    case True
    with shift_count(1) [OF assms(2)] neg
    have "magnitude_u64 c = Some (word_of_int (- val c))" "unat (word_of_int (- val c) :: u64) = nat (- val c)" by auto
    with nonzero neg assms show ?thesis by (simp add: bi_shift_def is_zero_iff val_shift_right)
  next
    case False
    with shift_count(2) [OF assms(2)] neg have none: "magnitude_u64 c = None" by simp
    have far: "u64_max \<le> nat (- val c)" using False by (simp add: u64_max_def)
    have "\<bar>val a\<bar> < 2 ^ bit_length (bi_limbs a)"
      using bit_length_bounds(1) [OF limbs_trimmed [OF assms(1)]] by (simp add: mag_limbs [OF assms(1)])
    also have "(2 :: int) ^ bit_length (bi_limbs a) \<le> 2 ^ u64_max" using assms(4) by (intro power_increasing) simp_all
    finally have small: "\<bar>val a\<bar> < 2 ^ u64_max" .
    moreover have "(2 :: int) ^ u64_max \<le> 2 ^ nat (- val c)" using far by (intro power_increasing) simp_all
    ultimately have "\<bar>val a\<bar> < 2 ^ nat (- val c)" by linarith
    then have "val a div 2 ^ nat (- val c) = (if val a < 0 then - 1 else 0)" by (intro small_quotient) linarith+
    moreover have "val a div 2 ^ u64_max = (if val a < 0 then - 1 else 0)"
      using small by (intro small_quotient) linarith+
    ultimately have "val a div 2 ^ u64_max = val a div 2 ^ nat (- val c)" by simp
    with none nonzero neg assms show ?thesis by (simp add: bi_shift_def is_zero_iff val_shift_right)
  qed
qed

subsection \<open>Two's complement\<close>

lemma bit_not_ok [simp]: "bi_ok (bit_not a)"
  by (simp add: bit_not_def)

lemma val_bit_not [val_simps]: "bi_ok a \<Longrightarrow> val (bit_not a) = NOT (val a)"
  by (simp add: bit_not_def val_sub val_negate val_one not_eq_complement)

lemma mag_take_bit: "mag (x # xs) = concat_bit 32 (uint x) (mag xs)"
  by (simp add: concat_bit_eq take_bit_int_eq_self push_bit_eq_mult mult.commute)

text \<open>A bitwise operation on integers that works limb by limb.\<close>

definition limbwise :: "(u32 \<Rightarrow> u32 \<Rightarrow> u32) \<Rightarrow> (int \<Rightarrow> int \<Rightarrow> int) \<Rightarrow> bool" where
  "limbwise f g \<longleftrightarrow> (\<forall>x y. uint (f x y) = g (uint x) (uint y)) \<and>
     (\<forall>n a b. take_bit n (g a b) = g (take_bit n a) (take_bit n b)) \<and>
     (\<forall>n a b. drop_bit n (g a b) = g (drop_bit n a) (drop_bit n b)) \<and>
     (\<forall>n a b. signed_take_bit n (g a b) = g (signed_take_bit n a) (signed_take_bit n b)) \<and> g 0 0 = 0"

lemma signed_take_bit_ops:
  fixes a b :: int
  shows "signed_take_bit n (a AND b) = signed_take_bit n a AND signed_take_bit n b"
    "signed_take_bit n (a OR b) = signed_take_bit n a OR signed_take_bit n b"
    "signed_take_bit n (a XOR b) = signed_take_bit n a XOR signed_take_bit n b"
  by (auto intro!: bit_eqI simp: bit_simps)

lemma limbwise_ops: "limbwise (AND) (AND)" "limbwise (OR) (OR)" "limbwise (XOR) (XOR)"
  by (simp_all add: limbwise_def unsigned_and_eq unsigned_or_eq unsigned_xor_eq signed_take_bit_ops)

lemma split_at_32: "z = w \<longleftrightarrow> take_bit 32 z = take_bit 32 w \<and> drop_bit 32 z = drop_bit 32 (w :: int)"
  by (metis bits_ident)

lemma mag_map2:
  assumes "limbwise f g"
  shows "length xs = length ys \<Longrightarrow> mag (map2 f xs ys) = g (mag xs) (mag ys)"
proof (induction xs ys rule: list_induct2)
  case Nil
  then show ?case using assms by (simp add: limbwise_def)
next
  case (Cons x xs y ys)
  have "take_bit 32 (mag (z # zs)) = uint z" "drop_bit 32 (mag (z # zs)) = mag zs" for z zs
    by (simp_all add: take_bit_eq_mod drop_bit_eq_div)
  with Cons assms show ?case
    unfolding split_at_32 [of "mag (map2 f (x # xs) (y # ys))"] by (simp add: limbwise_def del: mag.simps)
qed

lemma mag_map_not: "mag (map NOT ls) = 4294967296 ^ length ls - 1 - mag ls"
proof (induction ls)
  case (Cons x ls)
  have "uint (NOT x) = 4294967295 - uint x" by (simp add: unsigned_not_eq take_bit_not_eq_mask_diff take_bit_int_eq_self mask_eq_exp_minus_1)
  with Cons show ?case by (simp add: algebra_simps)
qed simp

lemma pow_base: "(4294967296 :: int) ^ n = 2 ^ (32 * n)"
  by (simp add: power_mult)

lemma mag_resize: "length ls \<le> n \<Longrightarrow> mag (resize n 0 ls) = mag ls" "length (resize n x ls) = n"
  by (simp_all add: resize_def mag_append)

lemma length_sub_one: "bi_ok a \<Longrightarrow> bi_negative a \<Longrightarrow>
  mag (sub_magnitude (bi_limbs a) [1]) = - val a - 1 \<and> length (sub_magnitude (bi_limbs a) [1]) \<le> length (bi_limbs a)"
proof (erule ok_cases)
  assume a: "bi_negative a" "val a < 0" "mag (bi_limbs a) = - val a" "trimmed (bi_limbs a)"
  have sub: "mag (sub_magnitude (bi_limbs a) [1]) = - val a - 1"
    using a by (subst sub_magnitude_mag) simp_all
  with a length_ge_mag [of "sub_magnitude (bi_limbs a) [1]" "bi_limbs a"] show ?thesis by simp
qed simp

lemma mag_twos_complement:
  assumes "bi_ok a" "length (bi_limbs a) < n"
  shows "mag (twos_complement a n) = take_bit (32 * n) (val a)" "length (twos_complement a n) = n"
    "- (2 ^ (32 * n - 1)) \<le> val a" "val a < 2 ^ (32 * n - 1)"
proof -
  have "mag (bi_limbs a) < 4294967296 ^ length (bi_limbs a)" by (rule mag_less)
  also have "\<dots> \<le> 2 ^ (32 * n - 1)" unfolding pow_base using assms(2) by (intro power_increasing) simp_all
  finally have range: "\<bar>val a\<bar> < 2 ^ (32 * n - 1)" by (simp add: mag_limbs [OF assms(1)])
  then show "- (2 ^ (32 * n - 1)) \<le> val a" "val a < 2 ^ (32 * n - 1)" by linarith+
  show "length (twos_complement a n) = n" by (simp add: twos_complement_def Let_def mag_resize)
  have "(2 :: int) ^ (32 * n - 1) \<le> 2 ^ (32 * n)" by (intro power_increasing) simp_all
  with range have big: "\<bar>val a\<bar> < 2 ^ (32 * n)" by linarith
  show "mag (twos_complement a n) = take_bit (32 * n) (val a)"
    using assms(1)
  proof (cases rule: ok_cases)
    case 1
    with length_sub_one [OF assms(1)] assms(2)
    have "mag (twos_complement a n) = 2 ^ (32 * n) + val a"
      by (simp add: twos_complement_def Let_def mag_map_not mag_resize pow_base)
    moreover have "take_bit (32 * n) (val a) = 2 ^ (32 * n) + val a"
      using 1 big take_bit_int_eq_self [of "val a + 2 ^ (32 * n)" "32 * n"] by (simp add: take_bit_eq_mod add.commute)
    ultimately show ?thesis by simp
  next
    case 2
    with assms(2) big show ?thesis
      by (simp add: twos_complement_def Let_def mag_resize take_bit_int_eq_self)
  qed
qed

lemma val_from_twos_complement:
  assumes "ls \<noteq> []"
  shows "val (from_twos_complement ls) = signed_take_bit (32 * length ls - 1) (mag ls)"
proof -
  obtain xs x where ls: "ls = xs @ [x]" using assms by (cases ls rule: rev_exhaust) auto
  let ?p = "2 ^ (32 * length xs) :: int"
  have m: "mag ls = mag xs + ?p * uint x" by (simp add: ls mag_append pow_base)
  have N: "2 ^ (32 * length ls - 1) = ?p * 2147483648" "2 ^ (32 * length ls) = ?p * 4294967296"
    "32 * length ls = Suc (32 * length ls - 1)"
    by (simp_all add: ls power_add)
  have xs: "mag xs < ?p" using mag_less [of xs] by (simp add: pow_base)
  have p: "0 < ?p" by simp
  have "0x80000000 = (2 :: u32) ^ 31" by simp
  then have top: "x AND 0x80000000 \<noteq> 0 \<longleftrightarrow> bit x 31" by (simp only: and_exp_eq_0_iff_not_bit not_not)
  also have "\<dots> \<longleftrightarrow> 2147483648 \<le> uint x" using high_bit_iff [of x 31] uint_u32(1) [of x] by simp
  finally have top: "x AND 0x80000000 \<noteq> 0 \<longleftrightarrow> 2147483648 \<le> uint x" .
  have up: "mag ls < 2 ^ (32 * length ls)" using mag_less [of ls] by (simp add: pow_base)
  show ?thesis
  proof (cases "2147483648 \<le> uint x")
    case True
    then have "?p * 2147483648 \<le> ?p * uint x" using p by (intro mult_left_mono) simp_all
    then have ge: "2 ^ (32 * length ls - 1) \<le> mag ls" unfolding m N(1) using mag_nonneg [of xs] by linarith
    have "signed_take_bit (32 * length ls - 1) (mag ls) = signed_take_bit (32 * length ls - 1) (mag ls - 2 ^ (32 * length ls))"
      unfolding signed_take_bit_eq_iff_take_bit_eq N(3) [symmetric] take_bit_eq_mod by simp
    also have "\<dots> = mag ls - 2 ^ (32 * length ls)"
      using ge up N(1,2) by (intro signed_take_bit_int_eq_self) linarith+
    finally have r: "signed_take_bit (32 * length ls - 1) (mag ls) = mag ls - 2 ^ (32 * length ls)" .
    have "last ls = x" by (simp add: ls)
    with True top assms have "from_twos_complement ls = from_parts True (add_magnitude (map NOT ls) [1])"
      by (simp add: from_twos_complement_def Let_def)
    then show ?thesis unfolding r by (simp add: val_from_parts add_magnitude_mag mag_map_not pow_base)
  next
    case False
    then have "?p * (uint x + 1) \<le> ?p * 2147483648" using p by (intro mult_left_mono) simp_all
    then have lt: "mag ls < 2 ^ (32 * length ls - 1)" unfolding m N(1) using xs unfolding distrib_left by linarith
    then have r: "signed_take_bit (32 * length ls - 1) (mag ls) = mag ls"
      using mag_nonneg [of ls] by (intro signed_take_bit_int_eq_self) linarith+
    have "last ls = x" by (simp add: ls)
    with False top assms have "from_twos_complement ls = from_parts False ls"
      by (simp add: from_twos_complement_def Let_def)
    then show ?thesis unfolding r by (simp add: val_from_parts)
  qed
qed

lemma val_bitwise:
  assumes "limbwise f g" "bi_ok a" "bi_ok b"
  shows "val (bitwise f a b) = g (val a) (val b)"
proof -
  define n where "n = max (length (bi_limbs a)) (length (bi_limbs b)) + 1"
  note a = mag_twos_complement [OF assms(2), of n] and b = mag_twos_complement [OF assms(3), of n]
  have len: "length (bi_limbs a) < n" "length (bi_limbs b) < n" by (simp_all add: n_def)
  let ?ls = "map2 f (twos_complement a n) (twos_complement b n)"
  have ls: "?ls \<noteq> []" "length ?ls = n" using a(2) b(2) len by auto
  have "mag ?ls = take_bit (32 * n) (g (val a) (val b))"
    using mag_map2 [OF assms(1), of "twos_complement a n" "twos_complement b n"] a b len assms(1)
    by (simp add: limbwise_def)
  moreover have "bitwise f a b = from_twos_complement ?ls" by (simp only: bitwise_def Let_def n_def)
  ultimately have "val (bitwise f a b) = signed_take_bit (32 * n - 1) (take_bit (32 * n) (g (val a) (val b)))"
    using val_from_twos_complement [OF ls(1)] by (simp only: ls(2))
  also have "\<dots> = signed_take_bit (32 * n - 1) (g (val a) (val b))"
  proof -
    have "\<not> 32 * n \<le> 32 * n - 1" using len by linarith
    then show ?thesis by (simp only: signed_take_bit_take_bit if_False)
  qed
  also have "\<dots> = g (val a) (val b)"
    using assms(1) a(3,4) b(3,4) len by (simp add: limbwise_def signed_take_bit_int_eq_self)
  finally show ?thesis .
qed

lemma bitwise_ok [simp]: "bi_ok (bitwise f a b)"
  by (simp add: bitwise_def from_twos_complement_def Let_def)

lemma val_bit_ops [val_simps]:
  assumes "bi_ok a" "bi_ok b"
  shows "val (bit_and a b) = val a AND val b" "val (bit_or a b) = val a OR val b"
    "val (bit_xor a b) = val a XOR val b"
  using assms limbwise_ops by (simp_all add: bit_and_def bit_or_def bit_xor_def val_bitwise)

lemma bit_ops_ok [simp]: "bi_ok (bit_and a b)" "bi_ok (bit_or a b)" "bi_ok (bit_xor a b)"
  by (simp_all add: bit_and_def bit_or_def bit_xor_def)

subsection \<open>Wrapping to a width\<close>

lemma power_of_two:
  "bi_ok (from_parts False (shl_magnitude [1] n))" "val (from_parts False (shl_magnitude [1] n)) = 2 ^ n"
  by (simp_all add: val_from_parts shl_magnitude_mag)

lemma as_uint_n_spec:
  assumes "bi_ok a"
  obtains (result) r where "as_uint_n a n = Some r" "bi_ok r" "val r = val a mod 2 ^ n"
  | (refused) "as_uint_n a n = None" "max_bits < n" "val a < 0 \<or> 2 ^ n \<le> val a"
proof -
  have fits: "bit_length (bi_limbs a) \<le> n \<longleftrightarrow> \<bar>val a\<bar> < 2 ^ n"
    using bit_length_le_iff [OF limbs_trimmed [OF assms]] by (simp add: mag_limbs [OF assms])
  consider (none) "n = 0" | (same) "n \<noteq> 0" "\<not> bi_negative a" "bit_length (bi_limbs a) \<le> n"
    | (wrap) "n \<noteq> 0" "\<not> (\<not> bi_negative a \<and> bit_length (bi_limbs a) \<le> n)"
    by blast
  then show ?thesis
  proof cases
    case none
    then show ?thesis by (intro result [of bi_zero]) (simp_all add: as_uint_n_def val_zero)
  next
    case same
    moreover from this have "val a mod 2 ^ n = val a"
      using fits assms by (simp add: negative_iff mod_pos_pos_trivial)
    ultimately show ?thesis using assms by (intro result [of a]) (simp_all add: as_uint_n_def)
  next
    case wrap
    show ?thesis
    proof (cases "max_bits < n")
      case True
      have "val a < 0 \<or> 2 ^ n \<le> val a" using wrap(2) fits assms by (auto simp: negative_iff)
      with wrap True show ?thesis by (intro refused) (auto simp: as_uint_n_def)
    next
      case False
      let ?r = "bit_and a (bi_sub (from_parts False (shl_magnitude [1] n)) (from_i64 1))"
      have "as_uint_n a n = Some ?r" using wrap False by (auto simp: as_uint_n_def)
      moreover have "val ?r = val a mod 2 ^ n"
        using assms by (simp add: val_bit_ops val_sub power_of_two val_one mask_eq_exp_minus_1 [symmetric]
            take_bit_eq_mask [symmetric] take_bit_eq_mod)
      ultimately show ?thesis by (intro result [of ?r]) simp_all
    qed
  qed
qed

lemma as_int_n_spec:
  assumes "bi_ok a"
  obtains (zero) "as_int_n a n = Some bi_zero" "n = 0"
  | (result) r where "as_int_n a n = Some r" "0 < n" "bi_ok r" "val r = signed_take_bit (n - 1) (val a)"
  | (refused) "as_int_n a n = None" "max_bits < n" "val a < - (2 ^ (n - 1)) \<or> 2 ^ (n - 1) \<le> val a"
proof (cases "n = 0")
  case True
  then show ?thesis by (intro zero) (simp_all add: as_int_n_def)
next
  case False
  then have n: "0 < n" "n = Suc (n - 1)" by simp_all
  let ?w = "if bi_negative a then bit_length (sub_magnitude (bi_limbs a) [1]) else bit_length (bi_limbs a)"
  have fits: "?w < n \<longleftrightarrow> - (2 ^ (n - 1)) \<le> val a \<and> val a < 2 ^ (n - 1)"
  proof -
    have "?w < n \<longleftrightarrow> ?w \<le> n - 1" using n by auto
    also have "\<dots> \<longleftrightarrow> - (2 ^ (n - 1)) \<le> val a \<and> val a < 2 ^ (n - 1)"
      using assms
    proof (cases rule: ok_cases)
      case 1
      then have "mag (sub_magnitude (bi_limbs a) [1]) = - val a - 1" using length_sub_one [OF assms] by simp
      then have "?w \<le> n - 1 \<longleftrightarrow> - val a - 1 < 2 ^ (n - 1)" using 1 by (simp add: bit_length_le_iff)
      moreover have "val a < 2 ^ (n - 1)" using 1 zero_less_power [of "2 :: int" "n - 1"] by linarith
      ultimately show ?thesis by auto
    next
      case 2
      then have "?w \<le> n - 1 \<longleftrightarrow> val a < 2 ^ (n - 1)" by (simp add: bit_length_le_iff)
      moreover have "- (2 ^ (n - 1)) \<le> val a" using 2 zero_less_power [of "2 :: int" "n - 1"] by linarith
      ultimately show ?thesis by auto
    qed
    finally show ?thesis .
  qed
  show ?thesis
  proof (cases "?w < n")
    case True
    then have "signed_take_bit (n - 1) (val a) = val a" using fits by (simp add: signed_take_bit_int_eq_self)
    with True n assms show ?thesis by (intro result [of a]) (simp_all add: as_int_n_def)
  next
    case wide: False
    then have out: "val a < - (2 ^ (n - 1)) \<or> 2 ^ (n - 1) \<le> val a" using fits by linarith
    from assms show ?thesis
    proof (cases rule: as_uint_n_spec [of a n])
      case (result r)
      let ?r = "if bit_length (bi_limbs r) = n then bi_sub r (from_parts False (shl_magnitude [1] n)) else r"
      have r0: "0 \<le> val r" "val r < 2 ^ n" using result by simp_all
      have le: "bit_length (bi_limbs r) \<le> n"
        using bit_length_le_iff [OF limbs_trimmed [OF result(2)]] r0 by (simp add: mag_limbs [OF result(2)])
      have top: "bit_length (bi_limbs r) = n \<longleftrightarrow> 2 ^ (n - 1) \<le> val r"
        using bit_length_le_iff [OF limbs_trimmed [OF result(2)], of "n - 1"] r0 le n
        by (auto simp: mag_limbs [OF result(2)])
      have p: "2 ^ n = 2 * (2 ^ (n - 1) :: int)" by (subst n(2)) simp
      have same: "signed_take_bit (n - 1) (val a) = signed_take_bit (n - 1) z" if "z mod 2 ^ n = val a mod 2 ^ n" for z
        unfolding signed_take_bit_eq_iff_take_bit_eq n(2) [symmetric] take_bit_eq_mod using that by simp
      have "val ?r = signed_take_bit (n - 1) (val a)"
      proof (cases "2 ^ (n - 1) \<le> val r")
        case True
        then have "val ?r = val r - 2 ^ n" using top result(2) by (simp add: val_sub power_of_two)
        moreover have "(val r - 2 ^ n) mod 2 ^ n = val a mod 2 ^ n" using result(3) by simp
        note same [OF this]
        moreover have "signed_take_bit (n - 1) (val r - 2 ^ n) = val r - 2 ^ n"
          using True r0 p by (intro signed_take_bit_int_eq_self) linarith+
        ultimately show ?thesis by simp
      next
        case False
        then have "val ?r = val r" using top by simp
        moreover have "val r mod 2 ^ n = val a mod 2 ^ n" using result(3) by simp
        note same [OF this]
        moreover have "signed_take_bit (n - 1) (val r) = val r"
          using False r0 p by (intro signed_take_bit_int_eq_self) linarith+
        ultimately show ?thesis by simp
      qed
      moreover have "as_int_n a n = Some ?r" using result(1) wide n by (simp add: as_int_n_def)
      ultimately show ?thesis using n result(2) by (intro that(2) [of ?r]) simp_all
    next
      case refused
      with wide out n show ?thesis by (intro that(3)) (simp_all add: as_int_n_def)
    qed
  qed
qed

end
