(* ===== verification/BigIntText.thy ===== *)
theory BigIntText
  imports BigIntValues RustText
begin

text \<open>
  Reading and printing big integers.  \<open>text_value\<close> is the number a run of digits denotes and \<open>lsd\<close> the
  digits of a number, least significant first; the chunked loops of \<open>parse_digits\<close> and
  \<open>to_string_radix\<close> compute exactly these, and neither of them runs for ever.
\<close>

definition valid_radix :: "u32 \<Rightarrow> bool" where
  "valid_radix r \<longleftrightarrow> 2 \<le> r \<and> r \<le> 36"

lemma valid_radix_iff: "valid_radix r \<longleftrightarrow> 2 \<le> unat r \<and> unat r \<le> 36"
  by (simp add: valid_radix_def word_le_nat_alt)

definition digit_value :: "u32 \<Rightarrow> nat \<Rightarrow> int" where
  "digit_value rx c = (case to_digit c rx of None \<Rightarrow> 0 | Some d \<Rightarrow> uint d)"

definition text_value :: "u32 \<Rightarrow> nat list \<Rightarrow> int" where
  "text_value rx cs = foldl (\<lambda>v c. v * uint rx + digit_value rx c) 0 cs"

definition is_digits :: "u32 \<Rightarrow> nat list \<Rightarrow> bool" where
  "is_digits rx cs \<longleftrightarrow> list_all (\<lambda>c. to_digit c rx \<noteq> None) cs"

subsection \<open>Reading\<close>

lemma to_digit_less: "to_digit c rx = Some d \<Longrightarrow> uint d < uint rx"
proof -
  have "uint (of_nat n :: u32) < uint rx" if "n < unat rx" for n
  proof -
    have "unat rx < 4294967296" using unsigned_less [of rx] by simp
    with that have "n < 2 ^ 32" by simp
    then have "unat (of_nat n :: u32) = n" by (simp add: unat_of_nat)
    with that show ?thesis by (simp only: uint_nat of_nat_less_iff)
  qed
  then show "to_digit c rx = Some d \<Longrightarrow> uint d < uint rx"
    by (auto simp: to_digit_def Let_def split: option.splits if_splits)
qed

lemma chunk_grows:
  assumes "\<not> (- 1) div rx < base" "valid_radix rx"
  shows "uint base * uint rx < 4294967296"
proof -
  have r: "0 < uint rx" using assms(2) by (simp add: valid_radix_def word_le_def)
  have "base \<le> (- 1) div rx" using assms(1) by (simp add: not_less)
  moreover have "uint (- 1 :: u32) = 4294967295" by (simp add: unsigned_minus_1_eq_mask mask_eq_exp_minus_1)
  ultimately have "uint base \<le> 4294967295 div uint rx" by (simp add: word_le_def uint_div_distrib)
  then have "uint base * uint rx \<le> 4294967295 div uint rx * uint rx" using r by (intro mult_right_mono) simp_all
  also have "\<dots> \<le> 4294967295" using div_bounds(1) [OF r, of 4294967295] by (simp add: mult.commute)
  finally show ?thesis by simp
qed

lemma uint_u32_mult_add:
  "uint a * uint b + uint c < 4294967296 \<Longrightarrow> uint (a * b + c :: u32) = uint a * uint b + uint c"
  by (simp add: uint_word_ariths mod_add_left_eq)

lemma parse_chunks_spec:
  assumes "valid_radix rx"
  shows "uint cv < uint cb \<Longrightarrow>
    (is_digits rx cs \<longrightarrow> (\<exists>out. parse_chunks rx cs ls cv cb = Some out \<and> trimmed out \<and>
       mag out = foldl (\<lambda>v c. v * uint rx + digit_value rx c) (mag ls * uint cb + uint cv) cs)) \<and>
    (\<not> is_digits rx cs \<longrightarrow> parse_chunks rx cs ls cv cb = None)"
proof (induction cs arbitrary: ls cv cb)
  case Nil
  then show ?case by (simp add: is_digits_def mul_add_small_mag)
next
  case (Cons c cs)
  show ?case
  proof (cases "to_digit c rx")
    case None
    then show ?thesis by (simp add: is_digits_def)
  next
    case (Some d)
    have d: "uint d < uint rx" by (rule to_digit_less [OF Some])
    have dv: "digit_value rx c = uint d" by (simp add: digit_value_def Some)
    have digs: "is_digits rx (c # cs) \<longleftrightarrow> is_digits rx cs" by (simp add: is_digits_def Some)
    show ?thesis
    proof (cases "(- 1) div rx < cb")
      case True
      have "uint (0 * rx + d) < uint (1 * rx)" using d by simp
      note IH = Cons.IH [OF this, of "mul_add_small ls cb cv"]
      show ?thesis using IH unfolding digs by (simp add: Some True dv mul_add_small_mag)
    next
      case False
      have cb: "uint cb * uint rx < 4294967296" by (rule chunk_grows [OF False assms])
      have step: "uint cv * uint rx + uint d < uint cb * uint rx"
      proof -
        have "(uint cv + 1) * uint rx \<le> uint cb * uint rx" using Cons.prems by (intro mult_right_mono) simp_all
        then show ?thesis using d unfolding distrib_right by linarith
      qed
      have cb': "uint (cb * rx) = uint cb * uint rx" using uint_u32_mult_add [of cb rx 0] cb by simp
      have cv': "uint (cv * rx + d) = uint cv * uint rx + uint d"
        using step cb by (intro uint_u32_mult_add) linarith
      have "uint (cv * rx + d) < uint (cb * rx)" unfolding cb' cv' by (rule step)
      note IH = Cons.IH [OF this, of ls]
      have acc: "mag ls * uint (cb * rx) + uint (cv * rx + d) = (mag ls * uint cb + uint cv) * uint rx + digit_value rx c"
        unfolding cb' cv' dv by (simp add: algebra_simps)
      show ?thesis using IH unfolding digs acc by (simp add: Some False)
    qed
  qed
qed

lemma parse_digits_spec:
  assumes "valid_radix rx"
  shows "cs \<noteq> [] \<Longrightarrow> is_digits rx cs \<Longrightarrow>
      \<exists>a. parse_digits cs rx = Some a \<and> bi_ok a \<and> val a = text_value rx cs"
    and "cs = [] \<or> \<not> is_digits rx cs \<Longrightarrow> parse_digits cs rx = None"
  using parse_chunks_spec [OF assms, of 0 1 cs "[]"]
  by (auto simp: parse_digits_def val_from_parts text_value_def)

subsection \<open>Digits of a number\<close>

fun lsd :: "nat \<Rightarrow> nat \<Rightarrow> nat list" where
  "lsd b n = (if n = 0 \<or> b < 2 then [] else n mod b # lsd b (n div b))"

declare lsd.simps [simp del]

lemma lsd_0 [simp]: "lsd b 0 = []"
  by (simp add: lsd.simps)

lemma lsd_step: "0 < n \<Longrightarrow> 2 \<le> b \<Longrightarrow> lsd b n = n mod b # lsd b (n div b)"
  by (subst lsd.simps) simp

lemma lsd_small: "2 \<le> b \<Longrightarrow> d \<in> set (lsd b n) \<Longrightarrow> d < b"
  by (induction b n rule: lsd.induct) (subst (asm) (2) lsd.simps, auto split: if_splits)

lemma resize_simps: "resize 0 x xs = []" "resize (Suc n) x (y # ys) = y # resize n x ys"
  "resize (Suc n) x [] = x # resize n x []"
  by (simp_all add: resize_def)

lemma lsd_chunk:
  "2 \<le> b \<Longrightarrow> 0 < m \<Longrightarrow> g < b ^ w \<Longrightarrow> lsd b (g + b ^ w * m) = resize w 0 (lsd b g) @ lsd b m"
proof (induction w arbitrary: g)
  case 0
  then show ?case by (simp add: resize_simps)
next
  case (Suc w)
  have pos: "0 < g + b ^ Suc w * m" using Suc.prems by simp
  have md: "(g + b ^ Suc w * m) mod b = g mod b" by (simp add: mult.assoc)
  have "(g + b * (b ^ w * m)) div b = b ^ w * m + g div b" using Suc.prems(1) by (intro div_mult_self2) simp
  then have dv: "(g + b ^ Suc w * m) div b = g div b + b ^ w * m" by (simp add: mult.assoc)
  have "g div b < b ^ w" using Suc.prems by (simp add: less_mult_imp_div_less mult.commute)
  then have "lsd b (g + b ^ Suc w * m) = g mod b # resize w 0 (lsd b (g div b)) @ lsd b m"
    using Suc by (simp only: lsd_step [OF pos Suc.prems(1)] md dv)
  also have "\<dots> = resize (Suc w) 0 (lsd b g) @ lsd b m"
    using Suc.prems(1) by (cases "g = 0") (simp_all add: resize_simps lsd_step)
  finally show ?case .
qed

subsection \<open>Printing\<close>

definition digit_code :: "nat \<Rightarrow> nat" where
  "digit_code d = bi_digits ! d"

lemma length_bi_digits [simp]: "length bi_digits = 36"
  by (simp add: bi_digits_def)

definition digits_agree :: bool where
  "digits_agree = list_all (\<lambda>d. bi_digits ! d = (if d < 10 then 48 + d else 87 + d)) [0..<36]"

lemma digits_agree: digits_agree
  by code_simp

lemma digit_code_eq: "d < 36 \<Longrightarrow> digit_code d = (if d < 10 then 48 + d else 87 + d)"
  using digits_agree by (simp add: digits_agree_def list_all_iff digit_code_def)

lemma digit_code_char: "d < 36 \<Longrightarrow> digit_code d = of_char (digit_char d)"
  by (simp add: digit_code_eq digit_char_def)

lemma to_digit_code:
  assumes "d < unat rx" "unat rx \<le> 36"
  shows "to_digit (digit_code d) rx = Some (of_nat d)"
  using assms by (simp add: digit_code_eq to_digit_def Let_def)

lemma group_digits_eq:
  assumes "valid_radix rx"
  shows "group_digits rx v = Some (map digit_code (lsd (unat rx) (unat v)))"
proof (induction "unat v" arbitrary: v rule: less_induct)
  case less
  have r: "2 \<le> unat rx" "unat rx \<le> 36" using assms by (simp_all add: valid_radix_iff)
  show ?case
  proof (cases "v = 0")
    case True
    then show ?thesis by (simp add: group_digits.simps)
  next
    case False
    then have pos: "0 < unat v" by (simp add: unat_gt_0)
    have dv: "unat (v div rx) = unat v div unat rx" and md: "unat (v mod rx) = unat v mod unat rx"
      by (simp_all add: unat_div_distrib unat_mod_distrib)
    have "unat (v div rx) < unat v" unfolding dv using r pos by (intro div_less_dividend) simp_all
    note IH = less.hyps [OF this, unfolded dv]
    have "unat v mod unat rx < 36" using r mod_less_divisor [of "unat rx" "unat v"] by linarith
    then have "\<not> length bi_digits \<le> unat (v mod rx)" by (simp add: md)
    with False show ?thesis unfolding group_digits.simps [of rx v] lsd_step [OF pos r(1)]
      by (simp only: if_False IH bind.bind_lunit list.map md digit_code_def)
  qed
qed

lemma digit_groups_spec:
  assumes "2 \<le> unat chunk"
  shows "trimmed ls \<Longrightarrow> \<exists>gs. digit_groups chunk ls = Some gs \<and> map unat gs = lsd (unat chunk) (nat (mag ls))"
proof (induction "nat (mag ls)" arbitrary: ls rule: less_induct)
  case less
  show ?case
  proof (cases "ls = []")
    case True
    then show ?thesis by (simp add: digit_groups.simps)
  next
    case False
    have "2 \<le> uint chunk" using assms unfolding unat_eq_nat_uint by linarith
    then have c: "chunk \<noteq> 0" "2 \<le> uint chunk" by auto
    have pos: "0 < mag ls" using False less.prems mag_nonneg [of ls] by (simp add: mag_eq_0 order_less_le eq_commute [of 0])
    obtain q r where qr: "div_small ls chunk = Some (q, r)" "mag q * uint chunk + uint r = mag ls"
      "uint r < uint chunk" "trimmed q"
      using c(1) by (rule div_small_spec)
    have q: "mag q = mag ls div uint chunk" and r: "uint r = mag ls mod uint chunk"
      using qr(2,3) int_div_pos_eq [of "mag ls" "uint chunk" "mag q" "uint r"]
        int_mod_pos_eq [of "mag ls" "uint chunk" "mag q" "uint r"]
      by (simp_all add: mult.commute)
    have nq: "nat (mag q) = nat (mag ls) div unat chunk" unfolding q unat_eq_nat_uint by (rule nat_div_distrib) simp
    have nr: "unat r = nat (mag ls) mod unat chunk"
      unfolding unat_eq_nat_uint r by (rule nat_mod_distrib) simp_all
    have "nat (mag q) < nat (mag ls)" unfolding nq using pos assms by (intro div_less_dividend) simp_all
    from less.hyps [OF this qr(4)] obtain gs where
      gs: "digit_groups chunk q = Some gs" "map unat gs = lsd (unat chunk) (nat (mag q))" by blast
    then show ?thesis
      using False qr(1) assms pos nr nq by (simp add: digit_groups.simps [of chunk ls] lsd_step)
  qed
qed

lemma chunk_of_radix_spec:
  assumes "valid_radix rx"
  shows "\<exists>chunk width. chunk_of_radix rx = Some (chunk, width) \<and> unat chunk = unat rx ^ width \<and> 2 \<le> unat chunk"
proof -
  let ?P = "\<lambda>(chunk :: u32, width). unat chunk = unat rx ^ width \<and> 2 \<le> unat chunk"
  let ?b = "\<lambda>(chunk, width :: nat). chunk \<le> (- 1) div rx"
  let ?c = "\<lambda>(chunk, width :: nat). (chunk * rx, width + 1)"
  have r: "2 \<le> unat rx" using assms by (simp add: valid_radix_iff)
  have step: "?P (?c s)" "2 ^ 32 - unat (fst (?c s)) < 2 ^ 32 - unat (fst s)" if "?P s" "?b s" for s
  proof -
    obtain chunk width where s: "s = (chunk, width)" by fastforce
    with that have c: "unat chunk = unat rx ^ width" "2 \<le> unat chunk" "\<not> (- 1) div rx < chunk" by simp_all
    have lt: "uint chunk * uint rx < 4294967296" by (rule chunk_grows [OF c(3) assms])
    then have "int (unat chunk * unat rx) < 4294967296" by simp
    then have "unat chunk * unat rx < 4294967296" by linarith
    then have mult: "unat (chunk * rx) = unat chunk * unat rx" by (simp add: unat_word_ariths)
    have two: "unat chunk * 2 \<le> unat chunk * unat rx" using r by (intro mult_left_mono) simp_all
    then have "2 \<le> unat chunk * unat rx" using c(2) by linarith
    then show "?P (?c s)" using c(1) mult unfolding s by (simp add: mult.commute)
    have "unat chunk < unat chunk * unat rx" using two c(2) by linarith
    moreover have "unat chunk < 2 ^ 32" using unsigned_less [of chunk] by simp
    ultimately have "2 ^ 32 - unat chunk * unat rx < 2 ^ 32 - unat chunk" by (rule diff_less_mono2)
    then show "2 ^ 32 - unat (fst (?c s)) < 2 ^ 32 - unat (fst s)"
      unfolding s by (simp only: prod.case fst_conv mult)
  qed
  have start: "?P (rx, 1)" using r by simp
  have "\<exists>t. while_option ?b ?c (rx, 1) = Some t"
  proof (rule measure_while_option_Some [where P = ?P and f = "\<lambda>s. 2 ^ 32 - unat (fst s)", OF _ start])
    fix s
    assume "?P s" "?b s"
    then show "?P (?c s) \<and> 2 ^ 32 - unat (fst (?c s)) < 2 ^ 32 - unat (fst s)" by (intro conjI step)
  qed
  then obtain t where t: "while_option ?b ?c (rx, 1) = Some t" by (elim exE)
  have "?P t" by (rule while_option_rule [where P = ?P, OF _ t start]) (rule step)
  moreover have "rx \<noteq> 0" using r by auto
  ultimately show ?thesis using t by (cases t) (simp add: chunk_of_radix_def)
qed

lemma group_texts_append:
  "group_texts rx w i (xs @ ys) =
     do { a \<leftarrow> group_texts rx w i xs; b \<leftarrow> group_texts rx w (i + length xs) ys; Some (a @ b) }"
proof (induction xs arbitrary: i)
  case Nil
  then show ?case by (cases "group_texts rx w i ys") simp_all
next
  case (Cons x xs)
  then show ?case by (cases "group_digits rx x"; cases "group_texts rx w (Suc i) xs"; cases "group_texts rx w (Suc (i + length xs)) ys") simp_all
qed

lemma map_resize: "f x = y \<Longrightarrow> map f (resize n x xs) = resize n y (map f xs)"
  by (simp add: resize_def take_map)

lemma group_texts_spec:
  assumes "valid_radix rx" "0 < w"
  shows "map unat gs = lsd (unat rx ^ w) n \<Longrightarrow>
    group_texts rx w 0 (rev gs) = Some (rev (map digit_code (lsd (unat rx) n)))"
proof (induction gs arbitrary: n)
  case Nil
  have C: "2 \<le> unat rx ^ w" using assms power_increasing [of 1 w "unat rx"] by (simp add: valid_radix_iff)
  from Nil have "n = 0" using lsd_step [OF _ C, of n] by (cases "n = 0") auto
  then show ?case by simp
next
  case (Cons g gs)
  have r: "2 \<le> unat rx" using assms by (simp add: valid_radix_iff)
  have C: "2 \<le> unat rx ^ w" using assms power_increasing [of 1 w "unat rx"] by (simp add: valid_radix_iff)
  have pos: "0 < n" using Cons.prems by (cases "n = 0") auto
  from Cons.prems have g: "unat g = n mod unat rx ^ w" and gs: "map unat gs = lsd (unat rx ^ w) (n div unat rx ^ w)"
    by (simp_all add: lsd_step [OF pos C])
  note IH = Cons.IH [OF gs]
  note digits = group_digits_eq [OF assms(1), of g, unfolded g]
  have code0: "digit_code 0 = 48" by (simp add: digit_code_eq)
  show ?case
  proof (cases "n div unat rx ^ w = 0")
    case True
    then have "n mod unat rx ^ w = n" using mult_div_mod_eq [of "unat rx ^ w" n] by simp
    moreover have "gs = []" using gs True by simp
    ultimately show ?thesis using digits by simp
  next
    case False
    then have "gs \<noteq> []" using gs lsd_step [of "n div unat rx ^ w" "unat rx ^ w"] C by auto
    have "n mod unat rx ^ w < unat rx ^ w" using C by (intro mod_less_divisor) linarith
    moreover have "n = n mod unat rx ^ w + unat rx ^ w * (n div unat rx ^ w)" by simp
    ultimately have "lsd (unat rx) n = resize w 0 (lsd (unat rx) (n mod unat rx ^ w)) @ lsd (unat rx) (n div unat rx ^ w)"
      using lsd_chunk [OF r, of "n div unat rx ^ w" "n mod unat rx ^ w" w] False C by simp
    with IH digits \<open>gs \<noteq> []\<close> show ?thesis
      by (simp add: group_texts_append map_resize [where f = digit_code, OF code0])
  qed
qed

theorem to_string_spec:
  assumes "valid_radix rx" "bi_ok a"
  shows "to_string_radix rx a = Some (if val a = 0 then [48]
    else (if val a < 0 then [45] else []) @ rev (map digit_code (lsd (unat rx) (nat \<bar>val a\<bar>))))"
proof (cases "val a = 0")
  case True
  with assms show ?thesis by (simp add: to_string_radix_def is_zero_iff)
next
  case False
  obtain chunk width where c: "chunk_of_radix rx = Some (chunk, width)" "unat chunk = unat rx ^ width" "2 \<le> unat chunk"
    using chunk_of_radix_spec [OF assms(1)] by blast
  have w: "0 < width" using c(2,3) by (cases width) simp_all
  obtain gs where gs: "digit_groups chunk (bi_limbs a) = Some gs" "map unat gs = lsd (unat rx ^ width) (nat \<bar>val a\<bar>)"
    using digit_groups_spec [OF c(3) limbs_trimmed [OF assms(2)]] by (auto simp: c(2) mag_limbs [OF assms(2)])
  from False assms show ?thesis
    by (simp add: to_string_radix_def is_zero_iff negative_iff c(1) gs(1) group_texts_spec [OF assms(1) w gs(2)])
qed

lemma radix_lsd: "2 \<le> b \<Longrightarrow> b \<le> 36 \<Longrightarrow> 0 < n \<Longrightarrow> map of_char (radix b n) = rev (map digit_code (lsd b n))"
proof (induction b n rule: radix.induct)
  case (1 b n)
  have "n mod b < 36" using "1.prems" mod_less_divisor [of b n] by linarith
  then have code: "of_char (digit_char (n mod b)) = digit_code (n mod b)" by (simp add: digit_code_char)
  show ?case
  proof (cases "n < b")
    case True
    then have "lsd b n = [n]" using "1.prems" lsd_step [of n b] by simp
    with True "1.prems" code show ?thesis by (subst radix.simps) simp
  next
    case False
    then have "0 < n div b" using "1.prems" by (simp add: div_greater_zero_iff)
    with False "1.IH" "1.prems" code show ?thesis
      by (subst radix.simps) (simp add: lsd_step)
  qed
qed

lemma number_lsd: "2 \<le> b \<Longrightarrow> foldl (\<lambda>v d. v * int b + int d) 0 (rev (lsd b n)) = int n"
proof (induction b n rule: lsd.induct)
  case (1 b n)
  show ?case
  proof (cases "n = 0")
    case False
    have "int (n div b) * int b + int (n mod b) = int (n div b * b + n mod b)" by (simp only: of_nat_mult of_nat_add)
    also have "\<dots> = int n" by (simp only: div_mult_mod_eq)
    finally have eq: "int (n div b) * int b + int (n mod b) = int n" .
    have st: "lsd b n = n mod b # lsd b (n div b)" using False "1.prems" by (intro lsd_step) auto
    have IH: "foldl (\<lambda>v d. v * int b + int d) 0 (rev (lsd b (n div b))) = int (n div b)"
      using False "1.prems" by (intro "1.IH") auto
    show ?thesis unfolding st rev.simps foldl_append foldl.simps IH eq ..
  qed simp
qed

lemma text_value_digits:
  assumes "valid_radix rx" "\<And>d. d \<in> set ds \<Longrightarrow> d < unat rx"
  shows "text_value rx (map digit_code ds) = foldl (\<lambda>v d. v * int (unat rx) + int d) 0 ds"
    "is_digits rx (map digit_code ds)"
proof -
  have r: "unat rx \<le> 36" using assms(1) by (simp add: valid_radix_iff)
  have dv: "digit_value rx (digit_code d) = int d" if "d < unat rx" for d
    using that r to_digit_code [OF that r] by (simp add: digit_value_def uint_nat unat_of_nat)
  have "foldl (\<lambda>v c. v * uint rx + digit_value rx c) v (map digit_code ds) =
      foldl (\<lambda>v d. v * int (unat rx) + int d) v ds" if "\<forall>d \<in> set ds. d < unat rx" for v ds
    using that by (induction ds arbitrary: v) (simp_all add: dv)
  with assms(2) show "text_value rx (map digit_code ds) = foldl (\<lambda>v d. v * int (unat rx) + int d) 0 ds"
    by (simp add: text_value_def)
  show "is_digits rx (map digit_code ds)"
    using assms(2) to_digit_code [OF _ r] by (auto simp: is_digits_def list_all_iff)
qed

theorem parse_printed:
  assumes "valid_radix rx" "bi_ok a" "0 \<le> val a"
  shows "\<exists>text. to_string_radix rx a = Some text \<and> parse_digits text rx = Some a"
proof -
  have r: "2 \<le> unat rx" using assms(1) by (simp add: valid_radix_iff)
  define ds where "ds = (if val a = 0 then [0] else rev (lsd (unat rx) (nat (val a))))"
  have print: "to_string_radix rx a = Some (map digit_code ds)"
    using to_string_spec [OF assms(1,2)] assms(3) by (simp add: ds_def digit_code_eq rev_map)
  have small: "d < unat rx" if "d \<in> set ds" for d
    using that r lsd_small [OF r] by (auto simp: ds_def split: if_splits)
  have "foldl (\<lambda>v d. v * int (unat rx) + int d) 0 ds = val a"
    using number_lsd [OF r, of "nat (val a)"] assms(3) by (simp add: ds_def)
  then have tv: "text_value rx (map digit_code ds) = val a" "is_digits rx (map digit_code ds)"
    using text_value_digits [OF assms(1) small] by simp_all
  have "ds \<noteq> []" using r assms(3) by (simp add: ds_def lsd_step)
  then obtain b where "parse_digits (map digit_code ds) rx = Some b" "bi_ok b" "val b = val a"
    using parse_digits_spec(1) [OF assms(1), of "map digit_code ds"] tv by auto
  with val_inject [OF _ assms(2), of b] print show ?thesis by simp
qed

end
