(* ===== verification/BigIntProperties.thy ===== *)
theory BigIntProperties
  imports BigIntText "HOL-Library.Code_Target_Nat"
begin

text \<open>
  What the JavaScript runtime may rely on when it computes with big integers.
\<close>

definition big :: js_bigint where
  "big = \<lparr>bi_negative = True, bi_limbs = [5, 0xFFFFFFFF, 7, 0x80000001]\<rparr>"

definition half :: js_bigint where
  "half = \<lparr>bi_negative = False, bi_limbs = [0xFFFFFFFF, 3]\<rparr>"

lemma samples_ok: "bi_ok big" "bi_ok half" "\<not> 0 \<le> val (negate half)" "0 \<le> val half"
  by (simp_all add: bi_ok_def trimmed_def big_def half_def val_negate) (simp_all add: val_def)



text \<open>
  C20: sums, differences, negation and products are exact, and the multiplication
  never runs off its output vector, whatever the carries are.
\<close>

theorem bigint_ring_exact:
  assumes "bi_ok a" "bi_ok b"
  shows "val (negate a) = - val a \<and> val (bi_add a b) = val a + val b \<and> val (bi_sub a b) = val a - val b \<and>
    (\<exists>r. bi_mul a b = Some r \<and> bi_ok r \<and> val r = val a * val b)"
  using assms val_mul by (simp add: val_simps)

theorem bigint_ring_exact_witness:
  "bi_ok big \<and> bi_ok half \<and> val (bi_add big half) = val big + val half \<and>
   (\<exists>r. bi_mul big half = Some r \<and> bi_ok r \<and> val r = val big * val half)"
  using samples_ok bigint_ring_exact [of big half] by blast

text \<open>
  C17: long division (Knuth's Algorithm D) yields the truncated quotient and the
  remainder with the sign of the dividend.  It refuses a zero divisor and nothing else, never
  indexes outside its vectors, and its estimate loop ends.
\<close>

theorem bigint_division_exact:
  assumes "bi_ok a" "bi_ok b"
  shows "case div_rem a b of
      None \<Rightarrow> False
    | Some None \<Rightarrow> val b = 0
    | Some (Some (q, r)) \<Rightarrow> val b \<noteq> 0 \<and> bi_ok q \<and> bi_ok r \<and>
        val q = val a sdiv val b \<and> val r = val a smod val b"
proof (cases "val b = 0")
  case True
  with assms show ?thesis by (simp add: div_rem_def is_zero_iff)
next
  case False
  with val_div_rem [OF assms this] show ?thesis by auto
qed

theorem bigint_division_exact_witness:
  "bi_ok big \<and> bi_ok half \<and> (case div_rem big half of
      None \<Rightarrow> False
    | Some None \<Rightarrow> val half = 0
    | Some (Some (q, r)) \<Rightarrow> val half \<noteq> 0 \<and> bi_ok q \<and> bi_ok r \<and>
        val q = val big sdiv val half \<and> val r = val big smod val half)"
  using samples_ok bigint_division_exact [of big half] by (intro conjI)

text \<open>
  C23: a power with a non-negative exponent is exact, or it is refused because the
  bit length of the base times the exponent exceeds the limit.
\<close>

theorem bigint_power_exact:
  assumes "bi_ok a" "bi_ok e" "0 \<le> val e"
  shows "case bi_pow a e of
      None \<Rightarrow> False
    | Some None \<Rightarrow> 2 \<le> \<bar>val a\<bar> \<and> int max_bits < int (bit_length (bi_limbs a)) * val e
    | Some (Some r) \<Rightarrow> bi_ok r \<and> val r = val a ^ nat (val e)"
  using assms by (cases rule: bi_pow_spec) simp_all

theorem bigint_power_exact_witness:
  "bi_ok big \<and> bi_ok half \<and> 0 \<le> val half \<and> (case bi_pow big half of
      None \<Rightarrow> False
    | Some None \<Rightarrow> 2 \<le> \<bar>val big\<bar> \<and> int max_bits < int (bit_length (bi_limbs big)) * val half
    | Some (Some r) \<Rightarrow> bi_ok r \<and> val r = val big ^ nat (val half))"
  using samples_ok bigint_power_exact [of big half] by (intro conjI)

text \<open>The refusal is coarser than the comment of the code says: \<open>2 ** 524289\<close> has 524290 bits.\<close>

theorem power_refused_below_limit:
  "bi_pow (from_i64 2) (from_i64 524289) = Some None \<and>
   val (from_i64 2) ^ nat (val (from_i64 524289)) < 2 ^ max_bits"
proof
  show "bi_pow (from_i64 2) (from_i64 524289) = Some None" by code_simp
  have "val (from_i64 2) = 2" "nat (val (from_i64 524289)) = 524289" by (simp_all add: val_from_i64)
  moreover have "(2 :: int) ^ 524289 < 2 ^ max_bits"
    by (rule power_strict_increasing) (simp_all add: max_bits_def)
  ultimately show "val (from_i64 2) ^ nat (val (from_i64 524289)) < 2 ^ max_bits" by (simp only:)
qed

text \<open>
  C21: a left shift multiplies by a power of two or is refused past the limit; a
  right shift, by any count, is the floor of the division by the power of two.
\<close>

theorem bigint_shift_exact:
  assumes "bi_ok a" "bi_ok c" "bit_length (bi_limbs a) \<le> u64_max"
  shows "case bi_shift a c of
      None \<Rightarrow> 0 \<le> val c \<and> val a \<noteq> 0 \<and> int max_bits < int (bit_length (bi_limbs a)) + val c
    | Some r \<Rightarrow> bi_ok r \<and> val r = (if 0 \<le> val c then val a * 2 ^ nat (val c) else val a div 2 ^ nat (- val c))"
proof (cases "0 \<le> val c")
  case True
  from assms(1,2) this show ?thesis by (cases rule: bi_shift_left) (use True in simp_all)
next
  case False
  with bi_shift_right [OF assms(1,2) _ assms(3)] show ?thesis by auto
qed

theorem bigint_shift_exact_witness:
  "bi_ok big \<and> bi_ok half \<and> bit_length (bi_limbs big) \<le> u64_max \<and> (case bi_shift big half of
      None \<Rightarrow> 0 \<le> val half \<and> val big \<noteq> 0 \<and> int max_bits < int (bit_length (bi_limbs big)) + val half
    | Some r \<Rightarrow> bi_ok r \<and> val r = (if 0 \<le> val half then val big * 2 ^ nat (val half) else val big div 2 ^ nat (- val half)))"
proof -
  have "bit_length (bi_limbs big) \<le> u64_max" by (simp add: bit_length_def big_def u64_max_def)
  with samples_ok bigint_shift_exact [of big half] show ?thesis by (intro conjI)
qed

text \<open>
  C19: the bitwise operations, which go through a two's complement form one limb
  longer than the operands, are the operations on the infinite two's complement of the integers.
\<close>

theorem bigint_bitwise_exact:
  assumes "bi_ok a" "bi_ok b"
  shows "val (bit_and a b) = val a AND val b \<and> val (bit_or a b) = val a OR val b \<and>
    val (bit_xor a b) = val a XOR val b \<and> val (bit_not a) = NOT (val a)"
  using assms by (simp add: val_bit_ops val_bit_not)

theorem bigint_bitwise_exact_witness:
  "bi_ok big \<and> bi_ok half \<and> val (bit_and big half) = val big AND val half \<and> val (bit_not big) = NOT (val big)"
  using samples_ok bigint_bitwise_exact [of big half] by blast

text \<open>
  C22: \<open>asUintN\<close> is the remainder modulo a power of two and \<open>asIntN\<close> the signed
  residue; they are refused only for a width over the limit.
\<close>

theorem bigint_wrapping_exact:
  assumes "bi_ok a"
  shows "(case as_uint_n a n of
      None \<Rightarrow> max_bits < n \<and> (val a < 0 \<or> 2 ^ n \<le> val a)
    | Some r \<Rightarrow> bi_ok r \<and> val r = val a mod 2 ^ n) \<and>
    (case as_int_n a n of
      None \<Rightarrow> max_bits < n
    | Some r \<Rightarrow> bi_ok r \<and> val r = (if n = 0 then 0 else signed_take_bit (n - 1) (val a)))"
proof
  show "case as_uint_n a n of None \<Rightarrow> max_bits < n \<and> (val a < 0 \<or> 2 ^ n \<le> val a)
    | Some r \<Rightarrow> bi_ok r \<and> val r = val a mod 2 ^ n"
    using assms by (cases rule: as_uint_n_spec [of a n]) simp_all
  show "case as_int_n a n of None \<Rightarrow> max_bits < n
    | Some r \<Rightarrow> bi_ok r \<and> val r = (if n = 0 then 0 else signed_take_bit (n - 1) (val a))"
    using assms by (cases rule: as_int_n_spec [of a n]) (simp_all add: val_zero)
qed

theorem bigint_wrapping_exact_witness:
  "bi_ok big \<and> (case as_uint_n big 40 of
      None \<Rightarrow> max_bits < 40 \<and> (val big < 0 \<or> 2 ^ 40 \<le> val big)
    | Some r \<Rightarrow> bi_ok r \<and> val r = val big mod 2 ^ 40)"
  using samples_ok bigint_wrapping_exact [of big 40] by blast



end
