(* ===== verification/EventLoop.thy ===== *)
theory EventLoop
  imports DomFocus
begin

text \<open>
  The event loop of \<^verbatim>\<open>crates/render-core/src/event_loop.rs\<close>: queues of tasks, microtasks and timers, a
  virtual clock, and the turn that runs one task, its microtasks and a rendering opportunity.

  A \<open>Duration\<close> is its number of nanoseconds, below \<open>DURATION_LIMIT\<close>; identifiers and counts are
  natural numbers with the bounds of their Rust types written out where the code tests them.  The
  timers are a \<open>BTreeMap\<close>: an association list in the order of its keys.  The executor a host passes
  to \<open>run_one_turn\<close> is a parameter: a function of what it is to run, its own state (it is a
  \<open>FnMut\<close>), the loop and the document.
\<close>

definition DURATION_LIMIT :: nat where
  "DURATION_LIMIT = 2 ^ 64 * 1000000000"

definition duration_add :: "nat \<Rightarrow> nat \<Rightarrow> nat option" where
  "duration_add a b = (if a + b < DURATION_LIMIT then Some (a + b) else None)"

datatype task_source =
    DomManipulation | UserInteraction | Networking | HistoryTraversal | PostedMessage | Timer
  | PerformanceTimeline

record event_loop_limits =
  max_pending_tasks :: nat
  max_pending_timers :: nat
  max_pending_microtasks :: nat
  max_microtasks_per_checkpoint :: nat

definition default_limits :: event_loop_limits where
  "default_limits = \<lparr>max_pending_tasks = 4096, max_pending_timers = 4096,
     max_pending_microtasks = 4096, max_microtasks_per_checkpoint = 100000\<rparr>"

datatype queue_error =
    TaskCapacityReached nat | TimerCapacityReached nat | MicrotaskCapacityReached nat
  | IdentifierSpaceExhausted | TimerDeadlineOverflow

datatype clock_error = WouldMoveBackwards nat nat | ClockOverflow

subsection \<open>The clock\<close>

record virtual_clock =
  vc_now :: nat

definition clock_new :: virtual_clock where
  "clock_new = \<lparr>vc_now = 0\<rparr>"

definition advance_by :: "nat \<Rightarrow> virtual_clock \<Rightarrow> (clock_error + unit) \<times> virtual_clock" where
  "advance_by duration c =
     (case duration_add (vc_now c) duration of
        None \<Rightarrow> (Inl ClockOverflow, c)
      | Some t \<Rightarrow> (Inr (), c\<lparr>vc_now := t\<rparr>))"

definition advance_to :: "nat \<Rightarrow> virtual_clock \<Rightarrow> (clock_error + unit) \<times> virtual_clock" where
  "advance_to instant c =
     (if instant < vc_now c then (Inl (WouldMoveBackwards (vc_now c) instant), c)
      else (Inr (), c\<lparr>vc_now := instant\<rparr>))"

subsection \<open>The state\<close>

datatype 'a runnable = RunTask nat task_source 'a | RunMicrotask nat 'a

record executed_task =
  et_id :: nat
  et_source :: task_source

datatype microtask_checkpoint = Complete nat | ResourceLimitReached nat nat

datatype rendering_decision =
    NoChange | Incremental mutation_batch | FullRefresh nat nat history_error

record rendering_opportunity =
  ro_at :: nat
  ro_decision :: rendering_decision

record turn_outcome =
  to_task :: executed_task
  to_microtasks :: microtask_checkpoint
  to_rendering :: rendering_opportunity

record 'a scheduled_task =
  st_id :: nat
  st_source :: task_source
  st_payload :: 'a

record 'a scheduled_microtask =
  sm_id :: nat
  sm_payload :: 'a

datatype timer_key = TimerKey (tk_deadline: nat) (tk_id: nat)

text \<open>The derived order of \<open>TimerKey\<close>: by deadline, then by identifier.\<close>

instantiation timer_key :: linorder
begin

definition less_eq_timer_key :: "timer_key \<Rightarrow> timer_key \<Rightarrow> bool" where
  "k \<le> l \<longleftrightarrow> tk_deadline k < tk_deadline l \<or> tk_deadline k = tk_deadline l \<and> tk_id k \<le> tk_id l"

definition less_timer_key :: "timer_key \<Rightarrow> timer_key \<Rightarrow> bool" where
  "k < l \<longleftrightarrow> tk_deadline k < tk_deadline l \<or> tk_deadline k = tk_deadline l \<and> tk_id k < tk_id l"

instance
  by standard (auto simp: less_eq_timer_key_def less_timer_key_def timer_key.expand)

end

type_synonym 'a timers = "(timer_key \<times> 'a scheduled_task) list"

fun timer_insert :: "timer_key \<Rightarrow> 'a scheduled_task \<Rightarrow> 'a timers \<Rightarrow> 'a timers" where
  "timer_insert k t [] = [(k, t)]"
| "timer_insert k t ((k', t') # ts) =
     (if k < k' then (k, t) # (k', t') # ts
      else if k = k' then (k, t) # ts
      else (k', t') # timer_insert k t ts)"

record 'a event_loop =
  el_limits :: event_loop_limits
  el_clock :: virtual_clock
  el_ready :: "'a scheduled_task list"
  el_microtasks :: "'a scheduled_microtask list"
  el_timers :: "'a timers"
  el_next_task :: nat
  el_next_microtask :: nat
  el_next_timer :: nat
  el_rendering :: nat

definition with_limits :: "dom \<Rightarrow> event_loop_limits \<Rightarrow> 'a event_loop" where
  "with_limits d limits =
     \<lparr>el_limits = limits, el_clock = clock_new, el_ready = [], el_microtasks = [], el_timers = [],
      el_next_task = 0, el_next_microtask = 0, el_next_timer = 0, el_rendering = d_revision d\<rparr>"

definition loop_new :: "dom \<Rightarrow> 'a event_loop" where
  "loop_new d = with_limits d default_limits"

abbreviation el_now :: "'a event_loop \<Rightarrow> nat" where
  "el_now l \<equiv> vc_now (el_clock l)"

definition pending_task_count :: "'a event_loop \<Rightarrow> nat" where
  "pending_task_count l = min (length (el_ready l) + length (el_timers l)) (2 ^ 64 - 1)"

definition microtask_payloads :: "'a event_loop \<Rightarrow> 'a list" where
  "microtask_payloads l = map sm_payload (el_microtasks l)"

definition next_timer_deadline :: "'a event_loop \<Rightarrow> nat option" where
  "next_timer_deadline l = (case el_timers l of [] \<Rightarrow> None | (k, t) # ts \<Rightarrow> Some (tk_deadline k))"

subsection \<open>Queueing\<close>

type_synonym ('a, 'r) loop_step = "'a event_loop \<Rightarrow> (queue_error + 'r) \<times> 'a event_loop"

definition ensure_task_capacity :: "'a event_loop \<Rightarrow> queue_error + unit" where
  "ensure_task_capacity l =
     (if max_pending_tasks (el_limits l) \<le> pending_task_count l
      then Inl (TaskCapacityReached (max_pending_tasks (el_limits l))) else Inr ())"

definition next_id :: "nat \<Rightarrow> queue_error + nat" where
  "next_id n = (if n + 1 < 2 ^ 64 then Inr (n + 1) else Inl IdentifierSpaceExhausted)"

definition allocate_task_id :: "('a, nat) loop_step" where
  "allocate_task_id l =
     (case next_id (el_next_task l) of
        Inl e \<Rightarrow> (Inl e, l)
      | Inr n \<Rightarrow> (Inr (el_next_task l), l\<lparr>el_next_task := n\<rparr>))"

definition allocate_microtask_id :: "('a, nat) loop_step" where
  "allocate_microtask_id l =
     (case next_id (el_next_microtask l) of
        Inl e \<Rightarrow> (Inl e, l)
      | Inr n \<Rightarrow> (Inr (el_next_microtask l), l\<lparr>el_next_microtask := n\<rparr>))"

definition allocate_timer_id :: "('a, nat) loop_step" where
  "allocate_timer_id l =
     (case next_id (el_next_timer l) of
        Inl e \<Rightarrow> (Inl e, l)
      | Inr n \<Rightarrow> (Inr (el_next_timer l), l\<lparr>el_next_timer := n\<rparr>))"

definition queue_task :: "task_source \<Rightarrow> 'a \<Rightarrow> ('a, nat) loop_step" where
  "queue_task source payload =
     and_do (look ensure_task_capacity) (\<lambda>_.
     and_do allocate_task_id (\<lambda>i.
     and_do (upd (\<lambda>l. l\<lparr>el_ready := el_ready l @ [\<lparr>st_id = i, st_source = source, st_payload = payload\<rparr>]\<rparr>)) (\<lambda>_.
     ok i)))"

definition queue_microtask :: "'a \<Rightarrow> ('a, nat) loop_step" where
  "queue_microtask payload l =
     (if max_pending_microtasks (el_limits l) \<le> length (el_microtasks l)
      then (Inl (MicrotaskCapacityReached (max_pending_microtasks (el_limits l))), l)
      else and_do allocate_microtask_id (\<lambda>i.
           and_do (upd (\<lambda>l. l\<lparr>el_microtasks := el_microtasks l @ [\<lparr>sm_id = i, sm_payload = payload\<rparr>]\<rparr>)) (\<lambda>_.
           ok i)) l)"

definition set_timeout :: "nat \<Rightarrow> 'a \<Rightarrow> ('a, nat) loop_step" where
  "set_timeout delay payload l =
     (case ensure_task_capacity l of
        Inl e \<Rightarrow> (Inl e, l)
      | Inr _ \<Rightarrow>
          if max_pending_timers (el_limits l) \<le> length (el_timers l)
          then (Inl (TimerCapacityReached (max_pending_timers (el_limits l))), l)
          else (case duration_add (el_now l) delay of
                  None \<Rightarrow> (Inl TimerDeadlineOverflow, l)
                | Some deadline \<Rightarrow>
                    and_do allocate_task_id (\<lambda>task_id.
                    and_do allocate_timer_id (\<lambda>timer_id.
                    and_do (upd (\<lambda>l. l\<lparr>el_timers := timer_insert (TimerKey deadline timer_id)
                      \<lparr>st_id = task_id, st_source = Timer, st_payload = payload\<rparr> (el_timers l)\<rparr>)) (\<lambda>_.
                    ok timer_id))) l))"

definition cancel_timers :: "('a \<Rightarrow> bool) \<Rightarrow> 'a event_loop \<Rightarrow> nat \<times> 'a event_loop" where
  "cancel_timers predicate l =
     (let kept = filter (\<lambda>(k, t). \<not> predicate (st_payload t)) (el_timers l)
      in (length (el_timers l) - length kept, l\<lparr>el_timers := kept\<rparr>))"

definition advance_time_by :: "nat \<Rightarrow> 'a event_loop \<Rightarrow> (clock_error + unit) \<times> 'a event_loop" where
  "advance_time_by duration l =
     (let (r, c) = advance_by duration (el_clock l) in (r, l\<lparr>el_clock := c\<rparr>))"

definition advance_time_to :: "nat \<Rightarrow> 'a event_loop \<Rightarrow> (clock_error + unit) \<times> 'a event_loop" where
  "advance_time_to instant l =
     (let (r, c) = advance_to instant (el_clock l) in (r, l\<lparr>el_clock := c\<rparr>))"

subsection \<open>A turn\<close>

fun promote_loop :: "nat \<Rightarrow> 'a timers \<Rightarrow> 'a scheduled_task list \<Rightarrow> bool \<Rightarrow> 'a timers \<times> 'a scheduled_task list \<times> bool" where
  "promote_loop now [] ready woke = ([], ready, woke)"
| "promote_loop now ((k, t) # ts) ready woke =
     (if now < tk_deadline k then ((k, t) # ts, ready, woke)
      else promote_loop now ts (ready @ [t]) True)"

text \<open>\<open>None\<close> is the panic of the \<open>expect\<close> on the clock.\<close>

definition promote_due_timers :: "'a event_loop \<Rightarrow> 'a event_loop option" where
  "promote_due_timers l =
     (let (timers, ready, woke) = promote_loop (el_now l) (el_timers l) (el_ready l) False;
          l1 = l\<lparr>el_timers := timers, el_ready := ready\<rparr>
      in if el_ready l1 \<noteq> [] \<or> \<not> woke then Some l1
         else (case next_timer_deadline l1 of
                 None \<Rightarrow> Some l1
               | Some deadline \<Rightarrow>
                   (case advance_time_to deadline l1 of (Inl _, _) \<Rightarrow> None | (Inr _, l2) \<Rightarrow> Some l2)))"

type_synonym ('a, 'x) executor =
  "'a runnable \<Rightarrow> 'x \<times> 'a event_loop \<times> dom \<Rightarrow> 'x \<times> 'a event_loop \<times> dom"

text \<open>\<open>None\<close> is a checkpoint that does not end.\<close>

partial_function (option) perform_microtask_checkpoint ::
  "('a, 'x) executor \<Rightarrow> nat \<Rightarrow> 'x \<times> 'a event_loop \<times> dom \<Rightarrow>
   (microtask_checkpoint \<times> 'x \<times> 'a event_loop \<times> dom) option" where
  "perform_microtask_checkpoint execute executed s =
     (case s of (x, l, d) \<Rightarrow>
        (case el_microtasks l of
           [] \<Rightarrow> Some (Complete executed, x, l, d)
         | m # ms \<Rightarrow>
             if max_microtasks_per_checkpoint (el_limits l) \<le> executed
             then Some (ResourceLimitReached executed (length ms + 1), x, l\<lparr>el_microtasks := []\<rparr>, d)
             else perform_microtask_checkpoint execute (executed + 1)
                    (execute (RunMicrotask (sm_id m) (sm_payload m)) (x, l\<lparr>el_microtasks := ms\<rparr>, d))))"

declare perform_microtask_checkpoint.simps [code]

definition rendering_decision_of :: "dom \<Rightarrow> 'a event_loop \<Rightarrow> rendering_decision \<times> 'a event_loop" where
  "rendering_decision_of d l =
     (case mutations_since d (el_rendering l) of
        Inr batch \<Rightarrow>
          if mb_records batch = [] then (NoChange, l)
          else (Incremental batch, l\<lparr>el_rendering := mb_to batch\<rparr>)
      | Inl cause \<Rightarrow>
          (FullRefresh (el_rendering l) (d_revision d) cause, l\<lparr>el_rendering := d_revision d\<rparr>))"

definition run_one_turn :: "('a, 'x) executor \<Rightarrow> 'x \<times> 'a event_loop \<times> dom \<Rightarrow>
   (turn_outcome option \<times> 'x \<times> 'a event_loop \<times> dom) option" where
  "run_one_turn execute s =
     (case s of (x, l, d) \<Rightarrow>
        (case promote_due_timers l of
           None \<Rightarrow> None
         | Some l1 \<Rightarrow>
             (case el_ready l1 of
                [] \<Rightarrow> Some (None, x, l1, d)
              | t # ts \<Rightarrow>
                  (case perform_microtask_checkpoint execute 0
                      (execute (RunTask (st_id t) (st_source t) (st_payload t)) (x, l1\<lparr>el_ready := ts\<rparr>, d)) of
                     None \<Rightarrow> None
                   | Some (checkpoint, x', l', d') \<Rightarrow>
                       (let (decision, l'') = rendering_decision_of d' l' in
                        Some (Some \<lparr>to_task = \<lparr>et_id = st_id t, et_source = st_source t\<rparr>,
                                    to_microtasks = checkpoint,
                                    to_rendering = \<lparr>ro_at = el_now l', ro_decision = decision\<rparr>\<rparr>,
                              x', l'', d'))))))"

end
