(* ===== verification/EventLoopInvariant.thy ===== *)
theory EventLoopInvariant
  imports EventLoop DomProperties "HOL-Library.Multiset"
begin

text \<open>
  The operations of the event loop and its invariant \<open>loop_ok\<close>.  A host drives the loop with its public
  operations and with turns whose executor uses these operations and those of the document
  (\<open>behaves\<close>).  Promotion of due timers is put in closed form.
\<close>

datatype 'a loop_op =
    QueueTask task_source 'a | QueueMicrotask 'a | SetTimeout nat 'a | CancelTimers "'a \<Rightarrow> bool"
  | AdvanceBy nat | AdvanceTo nat

fun loop_apply :: "'a loop_op \<Rightarrow> 'a event_loop \<Rightarrow> 'a event_loop" where
  "loop_apply (QueueTask s p) l = snd (queue_task s p l)"
| "loop_apply (QueueMicrotask p) l = snd (queue_microtask p l)"
| "loop_apply (SetTimeout delay p) l = snd (set_timeout delay p l)"
| "loop_apply (CancelTimers f) l = snd (cancel_timers f l)"
| "loop_apply (AdvanceBy t) l = snd (advance_time_by t l)"
| "loop_apply (AdvanceTo t) l = snd (advance_time_to t l)"

definition loop_run :: "'a loop_op list \<Rightarrow> 'a event_loop \<Rightarrow> 'a event_loop" where
  "loop_run xs l = foldl (\<lambda>l x. loop_apply x l) l xs"

definition behaves :: "('a, 'x) executor \<Rightarrow> bool" where
  "behaves execute \<longleftrightarrow> (\<forall>r x l d. \<exists>x' ops ds. execute r (x, l, d) = (x', loop_run ops l, dom_run ds d))"

lemma behavesE:
  assumes "behaves execute"
  obtains x' ops ds where "execute r (x, l, d) = (x', loop_run ops l, dom_run ds d)"
  using assms unfolding behaves_def by blast

subsection \<open>Promotion\<close>

abbreviation due :: "nat \<Rightarrow> timer_key \<times> 'a scheduled_task \<Rightarrow> bool" where
  "due now \<equiv> \<lambda>(k, t). tk_deadline k \<le> now"

lemma promote_loop_eq:
  "promote_loop now ts ready woke =
     (dropWhile (due now) ts, ready @ map snd (takeWhile (due now) ts), woke \<or> takeWhile (due now) ts \<noteq> [])"
  by (induction now ts ready woke rule: promote_loop.induct) auto

definition promoted :: "'a event_loop \<Rightarrow> 'a event_loop" where
  "promoted l = l\<lparr>el_timers := dropWhile (due (el_now l)) (el_timers l),
     el_ready := el_ready l @ map snd (takeWhile (due (el_now l)) (el_timers l))\<rparr>"

text \<open>The clock is never advanced here: if a timer woke up, the ready queue is not empty.\<close>

lemma promote_due_timers_eq: "promote_due_timers l = Some (promoted l)"
  by (simp add: promote_due_timers_def promote_loop_eq promoted_def)

lemma sorted_takeWhile_filter:
  assumes "sorted_wrt (<) (map fst ts)"
  shows "takeWhile (due now) ts = filter (due now) ts" "dropWhile (due now) ts = filter (\<lambda>x. \<not> due now x) ts"
  using assms
proof (induction ts)
  case (Cons x ts)
  case 1
  obtain k t where x: "x = (k, t)" by fastforce
  have late: "\<not> due now y" if "now < tk_deadline k" "y \<in> set ts" for y
    using that 1 by (cases y) (fastforce simp: x less_timer_key_def)
  then have "now < tk_deadline k \<Longrightarrow> filter (due now) ts = []" by (simp add: filter_empty_conv)
  with Cons.IH 1 show ?case by (auto simp: x)
next
  case (Cons x ts)
  case 2
  obtain k t where x: "x = (k, t)" by fastforce
  have late: "\<not> due now y" if "now < tk_deadline k" "y \<in> set ts" for y
    using that 2 by (cases y) (fastforce simp: x less_timer_key_def)
  then have "now < tk_deadline k \<Longrightarrow> filter (\<lambda>x. \<not> due now x) ts = ts" by (simp add: filter_id_conv)
  with Cons.IH 2 show ?case by (auto simp: x)
qed simp_all

subsection \<open>Timers\<close>

lemma timer_insert_fresh:
  assumes "k \<notin> fst ` set ts"
  shows "mset (timer_insert k t ts) = add_mset (k, t) (mset ts)"
  using assms by (induction ts) auto

lemma timer_insert_sorted:
  "k \<notin> fst ` set ts \<Longrightarrow> sorted_wrt (<) (map fst ts) \<Longrightarrow> sorted_wrt (<) (map fst (timer_insert k t ts))"
proof (induction ts)
  case (Cons x ts)
  have "set (timer_insert k t ts) = insert (k, t) (set ts)"
    using timer_insert_fresh [of k ts t] Cons.prems(1) by (metis image_insert insertCI list.simps(15) set_mset_add_mset_insert set_mset_mset)
  with Cons show ?case by (cases x) (auto intro: less_trans)
qed simp

subsection \<open>The invariant\<close>

definition limits_ok :: "event_loop_limits \<Rightarrow> bool" where
  "limits_ok b \<longleftrightarrow> max_pending_tasks b < 2 ^ 64"

definition tasks_of :: "'a event_loop \<Rightarrow> 'a scheduled_task list" where
  "tasks_of l = el_ready l @ map snd (el_timers l)"

definition timers_ok :: "nat \<Rightarrow> 'a timers \<Rightarrow> bool" where
  "timers_ok n ts \<longleftrightarrow> sorted_wrt (<) (map fst ts) \<and> (\<forall>(k, t) \<in> set ts. tk_id k < n \<and> st_source t = Timer)"

definition ids_ok :: "nat \<Rightarrow> nat list \<Rightarrow> bool" where
  "ids_ok n ids \<longleftrightarrow> distinct ids \<and> (\<forall>i \<in> set ids. i < n)"

definition consecutive :: "nat \<Rightarrow> nat list \<Rightarrow> bool" where
  "consecutive n ids \<longleftrightarrow> length ids \<le> n \<and> ids = [n - length ids..<n]"

definition loop_ok :: "'a event_loop \<Rightarrow> bool" where
  "loop_ok l \<longleftrightarrow>
     limits_ok (el_limits l) \<and>
     timers_ok (el_next_timer l) (el_timers l) \<and>
     ids_ok (el_next_task l) (map st_id (tasks_of l)) \<and>
     consecutive (el_next_microtask l) (map sm_id (el_microtasks l)) \<and>
     length (tasks_of l) \<le> max_pending_tasks (el_limits l) \<and>
     length (el_timers l) \<le> max_pending_timers (el_limits l) \<and>
     length (el_microtasks l) \<le> max_pending_microtasks (el_limits l)"

lemma ids_ok_add: "mset ids' = add_mset n (mset ids) \<Longrightarrow> ids_ok n ids \<Longrightarrow> ids_ok (n + 1) ids'"
proof -
  assume m: "mset ids' = add_mset n (mset ids)" and ok: "ids_ok n ids"
  then have "mset ids' = mset (n # ids)" by simp
  then have "distinct ids' = distinct (n # ids)" "set ids' = set (n # ids)"
    by (rule mset_eq_imp_distinct_iff, rule mset_eq_setD)
  with ok show ?thesis by (auto simp: ids_ok_def)
qed

lemma ids_ok_mono: "ids_ok n ids \<Longrightarrow> n \<le> n' \<Longrightarrow> ids_ok n' ids"
  by (auto simp: ids_ok_def)

lemma consecutive_add: "consecutive n ids \<Longrightarrow> consecutive (n + 1) (ids @ [n])"
proof -
  assume c: "consecutive n ids"
  then have "ids @ [n] = [n - length ids..<Suc n]" by (simp add: consecutive_def)
  with c show ?thesis by (simp add: consecutive_def Suc_diff_le)
qed

lemma consecutive_tl: "consecutive n (i # ids) \<Longrightarrow> consecutive n ids \<and> i = n - length (i # ids)"
proof -
  assume c: "consecutive n (i # ids)"
  then have "i # ids = [n - Suc (length ids)..<n]" "n - Suc (length ids) < n" by (auto simp: consecutive_def)
  then have "i # ids = (n - Suc (length ids)) # [Suc (n - Suc (length ids))..<n]" by (simp add: upt_conv_Cons)
  moreover have "Suc (n - Suc (length ids)) = n - length ids" using c by (auto simp: consecutive_def)
  ultimately show ?thesis using c by (simp add: consecutive_def)
qed

lemma loop_ok_start: "limits_ok b \<Longrightarrow> loop_ok (with_limits d b)"
  by (simp add: loop_ok_def with_limits_def tasks_of_def timers_ok_def ids_ok_def consecutive_def)

lemma capacity_left:
  "loop_ok l \<Longrightarrow> ensure_task_capacity l = Inr u \<Longrightarrow> length (tasks_of l) < max_pending_tasks (el_limits l)"
  by (auto simp: ensure_task_capacity_def pending_task_count_def loop_ok_def tasks_of_def limits_ok_def min_def
      split: if_splits)

lemma next_id_Inr: "next_id n = Inr m \<Longrightarrow> m = n + 1"
  by (simp add: next_id_def split: if_splits)

lemma ok_more_ids:
  "loop_ok l \<Longrightarrow> el_next_task l \<le> n \<Longrightarrow> loop_ok (l\<lparr>el_next_task := n\<rparr>)"
  using ids_ok_mono [of "el_next_task l" "map st_id (tasks_of l)" n] by (simp add: loop_ok_def tasks_of_def)

lemma ok_queue_task: "loop_ok l \<Longrightarrow> loop_ok (snd (queue_task s p l))"
proof -
  assume l: "loop_ok l"
  show ?thesis
  proof (cases "ensure_task_capacity l")
    case room: (Inr u)
    show ?thesis
    proof (cases "next_id (el_next_task l)")
      case (Inr n)
      let ?l = "l\<lparr>el_next_task := el_next_task l + 1,
        el_ready := el_ready l @ [\<lparr>st_id = el_next_task l, st_source = s, st_payload = p\<rparr>]\<rparr>"
      have "snd (queue_task s p l) = ?l"
        using room Inr next_id_Inr [OF Inr] by (simp add: queue_task_def and_do_def allocate_task_id_def)
      moreover have "ids_ok (el_next_task l + 1) (map st_id (tasks_of ?l))"
        using l by (intro ids_ok_add [of _ _ "map st_id (tasks_of l)"]) (simp_all add: tasks_of_def loop_ok_def)
      ultimately show ?thesis using l capacity_left [OF l room] by (simp add: loop_ok_def tasks_of_def)
    qed (use l room in \<open>simp add: queue_task_def and_do_def allocate_task_id_def\<close>)
  qed (use l in \<open>simp add: queue_task_def and_do_def\<close>)
qed

lemma ok_queue_microtask: "loop_ok l \<Longrightarrow> loop_ok (snd (queue_microtask p l))"
proof -
  assume l: "loop_ok l"
  show ?thesis
  proof (cases "next_id (el_next_microtask l)")
    case (Inr n)
    with l next_id_Inr [OF Inr] show ?thesis
      using consecutive_add [of "el_next_microtask l" "map sm_id (el_microtasks l)"]
      by (simp add: queue_microtask_def and_do_def allocate_microtask_id_def loop_ok_def tasks_of_def)
  qed (use l in \<open>simp add: queue_microtask_def and_do_def allocate_microtask_id_def\<close>)
qed

lemma ok_set_timeout: "loop_ok l \<Longrightarrow> loop_ok (snd (set_timeout delay p l))"
proof -
  assume l: "loop_ok l"
  note unfold = set_timeout_def and_do_def allocate_task_id_def allocate_timer_id_def
  consider (skip) "snd (set_timeout delay p l) = l"
    | (half) "snd (set_timeout delay p l) = l\<lparr>el_next_task := el_next_task l + 1\<rparr>"
    | (set) deadline where "length (tasks_of l) < max_pending_tasks (el_limits l)"
        "length (el_timers l) < max_pending_timers (el_limits l)"
        "snd (set_timeout delay p l) = l\<lparr>el_next_task := el_next_task l + 1, el_next_timer := el_next_timer l + 1,
          el_timers := timer_insert (TimerKey deadline (el_next_timer l))
            \<lparr>st_id = el_next_task l, st_source = Timer, st_payload = p\<rparr> (el_timers l)\<rparr>"
  proof (cases "ensure_task_capacity l")
    case (Inl e)
    then show ?thesis by (intro skip) (simp add: set_timeout_def)
  next
    case room: (Inr u)
    show ?thesis
    proof (cases "length (el_timers l) < max_pending_timers (el_limits l)")
      case False
      with room show ?thesis by (intro skip) (simp add: set_timeout_def)
    next
      case free: True
      show ?thesis
      proof (cases "duration_add (el_now l) delay")
        case None
        with room free show ?thesis by (intro skip) (simp add: set_timeout_def)
      next
        case (Some deadline)
        show ?thesis
        proof (cases "next_id (el_next_task l)")
          case (Inl e)
          with room free Some show ?thesis by (intro skip) (simp add: unfold)
        next
          case task: (Inr n)
          show ?thesis
          proof (cases "next_id (el_next_timer l)")
            case (Inl e)
            with room free Some task next_id_Inr [OF task] show ?thesis by (intro half) (simp add: unfold)
          next
            case (Inr k)
            with room free Some task next_id_Inr [OF task] next_id_Inr [OF Inr] capacity_left [OF l room]
            show ?thesis by (intro set) (simp_all add: unfold)
          qed
        qed
      qed
    qed
  qed
  then show ?thesis
  proof cases
    case set
    let ?k = "TimerKey deadline (el_next_timer l)"
    let ?t = "\<lparr>st_id = el_next_task l, st_source = Timer, st_payload = p\<rparr>"
    have ts: "timers_ok (el_next_timer l) (el_timers l)" using l by (simp add: loop_ok_def)
    have fresh: "?k \<notin> fst ` set (el_timers l)" using ts by (fastforce simp: timers_ok_def)
    note m = timer_insert_fresh [OF fresh, of ?t]
    then have elems: "set (timer_insert ?k ?t (el_timers l)) = insert (?k, ?t) (set (el_timers l))"
      by (metis set_mset_add_mset_insert set_mset_mset)
    have "timers_ok (el_next_timer l + 1) (timer_insert ?k ?t (el_timers l))"
      using ts timer_insert_sorted [OF fresh, of ?t] unfolding timers_ok_def elems by auto
    moreover have "ids_ok (el_next_task l + 1)
        (map st_id (el_ready l @ map snd (timer_insert ?k ?t (el_timers l))))"
      using l by (intro ids_ok_add [of _ _ "map st_id (tasks_of l)"])
        (simp_all add: tasks_of_def loop_ok_def mset_map m del: map_map)
    moreover have "length (timer_insert ?k ?t (el_timers l)) = length (el_timers l) + 1"
      using arg_cong [OF m, of size] by simp
    ultimately show ?thesis using l set by (simp add: loop_ok_def tasks_of_def)
  next
    case half
    with ok_more_ids [OF l, of "el_next_task l + 1"] show ?thesis by simp
  qed (use l in simp)
qed

lemma ok_cancel_timers: "loop_ok l \<Longrightarrow> loop_ok (snd (cancel_timers f l))"
proof -
  assume l: "loop_ok l"
  let ?ts = "filter (\<lambda>(k, t). \<not> f (st_payload t)) (el_timers l)"
  have "sorted_wrt (<) (map fst ?ts)"
    using l unfolding loop_ok_def timers_ok_def sorted_wrt_map by (blast intro: sorted_wrt_filter)
  then have "timers_ok (el_next_timer l) ?ts" using l by (auto simp: loop_ok_def timers_ok_def)
  moreover have "ids_ok (el_next_task l) (map st_id (el_ready l @ map snd ?ts))"
    using l by (auto simp: loop_ok_def tasks_of_def ids_ok_def distinct_map_filter)
  moreover obtain n where "length ?ts = n" "n \<le> length (el_timers l)" by simp
  ultimately show ?thesis using l by (simp add: cancel_timers_def Let_def loop_ok_def tasks_of_def)
qed

lemma ok_advance: "loop_ok l \<Longrightarrow> loop_ok (snd (advance_time_by t l))" "loop_ok l \<Longrightarrow> loop_ok (snd (advance_time_to t l))"
  by (simp_all add: advance_time_by_def advance_time_to_def loop_ok_def tasks_of_def split: prod.split)


lemma ok_apply: "loop_ok l \<Longrightarrow> loop_ok (loop_apply x l)"
  by (cases x) (simp_all add: ok_queue_task ok_queue_microtask ok_set_timeout ok_cancel_timers ok_advance)

lemma ok_pop_task: "loop_ok l \<Longrightarrow> el_ready l = t # ts \<Longrightarrow> loop_ok (l\<lparr>el_ready := ts\<rparr>)"
  by (auto simp: loop_ok_def tasks_of_def ids_ok_def)

lemma ok_pop_microtask: "loop_ok l \<Longrightarrow> el_microtasks l = m # ms \<Longrightarrow> loop_ok (l\<lparr>el_microtasks := ms\<rparr>)"
  using consecutive_tl [of "el_next_microtask l" "sm_id m" "map sm_id ms"] by (simp add: loop_ok_def tasks_of_def)

lemma ok_discard: "loop_ok l \<Longrightarrow> loop_ok (l\<lparr>el_microtasks := []\<rparr>)"
  by (simp add: loop_ok_def tasks_of_def consecutive_def)

lemma ok_cursor: "loop_ok l \<Longrightarrow> loop_ok (l\<lparr>el_rendering := r\<rparr>)"
  by (simp add: loop_ok_def tasks_of_def)

lemma ok_promoted: "loop_ok l \<Longrightarrow> loop_ok (promoted l)"
proof -
  assume l: "loop_ok l"
  let ?f = "due (el_now l)"
  have split: "takeWhile ?f (el_timers l) @ dropWhile ?f (el_timers l) = el_timers l" by simp
  have tasks: "tasks_of (promoted l) = tasks_of l"
    unfolding promoted_def tasks_of_def by (simp flip: map_append)
  have "sorted_wrt (<) (map fst (takeWhile ?f (el_timers l)) @ map fst (dropWhile ?f (el_timers l)))"
    using l by (simp add: loop_ok_def timers_ok_def flip: map_append)
  then have "sorted_wrt (<) (map fst (dropWhile ?f (el_timers l)))" by (simp add: sorted_wrt_append)
  then have "timers_ok (el_next_timer l) (dropWhile ?f (el_timers l))"
    using l by (auto simp: loop_ok_def timers_ok_def dest: set_dropWhileD)
  moreover have "length (dropWhile ?f (el_timers l)) \<le> length (el_timers l)" by (rule length_dropWhile_le)
  ultimately show ?thesis using l tasks by (simp add: loop_ok_def) (simp add: promoted_def)
qed

end
