(* ===== verification/EventLoopTurns.thy ===== *)
theory EventLoopTurns
  imports EventLoopInvariant
begin

text \<open>
  What a turn keeps.  The locale \<open>op_kept\<close> takes a relation between states from single operations to
  whole executions, its extensions \<open>step_kept\<close> and \<open>turn_kept\<close> to microtask checkpoints and to whole
  turns; they are interpreted for the numbering of microtasks, for the invariant, for the limits and the clock, and for the queue of ready tasks, which
  only grows at its end.  Checkpoints of a behaving executor return.
\<close>

locale op_kept =
  fixes R :: "'a event_loop \<times> dom \<Rightarrow> 'a event_loop \<times> dom \<Rightarrow> bool"
  assumes refl: "R s s"
    and trans: "R s1 s2 \<Longrightarrow> R s2 s3 \<Longrightarrow> R s1 s3"
    and applied: "R (l, d) (loop_apply x l, d)"
    and mutated: "R (l, d) (l, dom_run ds d)"
begin

lemma run: "R (l, d) (loop_run ops l, d)"
proof (induction ops arbitrary: l)
  case (Cons x ops)
  from trans [OF applied Cons.IH] show ?case by (simp add: loop_run_def)
qed (simp add: loop_run_def refl)

lemma executes: "behaves execute \<Longrightarrow> execute r (x, l, d) = (x', l', d') \<Longrightarrow> R (l, d) (l', d')"
  using trans [OF run mutated] by (metis behavesE prod.inject)

end

locale step_kept = op_kept +
  assumes pop_microtask: "el_microtasks l = m # ms \<Longrightarrow> R (l, d) (l\<lparr>el_microtasks := ms\<rparr>, d)"
    and discard: "R (l, d) (l\<lparr>el_microtasks := []\<rparr>, d)"
begin

lemma checkpoint_kept:
  assumes "perform_microtask_checkpoint execute n s = Some y"
  shows "behaves execute \<longrightarrow> R (snd s) (snd (snd y))"
proof (rule perform_microtask_checkpoint.raw_induct
    [where P = "\<lambda>execute n s y. behaves execute \<longrightarrow> R (snd s) (snd (snd y))", OF _ assms],
    intro impI)
  fix rec n s y and execute :: "('a, 'x) executor"
  assume 1: "\<And>execute n s y. rec execute n s = Some y \<Longrightarrow> behaves execute \<longrightarrow> R (snd s) (snd (snd y))"
    "(case s of (x, l, d) \<Rightarrow> case el_microtasks l of [] \<Rightarrow> Some (Complete n, x, l, d)
      | m # ms \<Rightarrow>
          if max_microtasks_per_checkpoint (el_limits l) \<le> n
          then Some (ResourceLimitReached n (length ms + 1), x, l\<lparr>el_microtasks := []\<rparr>, d)
          else rec execute (n + 1)
                 (execute (RunMicrotask (sm_id m) (sm_payload m)) (x, l\<lparr>el_microtasks := ms\<rparr>, d))) = Some y"
    "behaves execute"
  obtain x l d where s: "s = (x, l, d)" using prod_cases3 by blast
  show "R (snd s) (snd (snd y))"
  proof (cases "el_microtasks l")
    case Nil
    with 1(2) show ?thesis by (auto simp: s refl)
  next
    case (Cons m ms)
    note popped = pop_microtask [OF Cons]
    show ?thesis
    proof (cases "max_microtasks_per_checkpoint (el_limits l) \<le> n")
      case True
      with 1(2) Cons show ?thesis by (auto simp: s intro: discard)
    next
      case False
      obtain x' l' d' where e:
        "execute (RunMicrotask (sm_id m) (sm_payload m)) (x, l\<lparr>el_microtasks := ms\<rparr>, d) = (x', l', d')"
        using prod_cases3 by blast
      with 1(2) Cons False have "rec execute (n + 1) (x', l', d') = Some y" by (simp add: s)
      from 1(1) [OF this] 1(3) trans [OF popped executes [OF 1(3) e]] show ?thesis
        by (auto simp: s intro: trans)
    qed
  qed
qed

lemma checkpoint:
  "behaves execute \<Longrightarrow> perform_microtask_checkpoint execute n (x, l, d) = Some (c, x', l', d') \<Longrightarrow> R (l, d) (l', d')"
  using checkpoint_kept by fastforce

end

locale turn_kept = step_kept +
  assumes pop_task: "el_ready l = t # ts \<Longrightarrow> R (l, d) (l\<lparr>el_ready := ts\<rparr>, d)"
    and promote: "R (l, d) (promoted l, d)"
    and cursor: "R (l, d) (l\<lparr>el_rendering := d_revision d\<rparr>, d)"
begin

lemma rendering: "rendering_decision_of d l = (c, l') \<Longrightarrow> R (l, d) (l', d)"
  using cursor [of l d]
  by (auto simp: rendering_decision_of_def mutations_since_def refl split: sum.splits if_splits)

lemma turn:
  assumes "behaves execute" "run_one_turn execute (x, l, d) = Some (out, x', l', d')"
  shows "R (l, d) (l', d')"
proof (cases "el_ready (promoted l)")
  case Nil
  with assms(2) promote show ?thesis by (auto simp: run_one_turn_def promote_due_timers_eq)
next
  case (Cons t ts)
  obtain x1 l1 d1 where e: "execute (RunTask (st_id t) (st_source t) (st_payload t))
      (x, promoted l\<lparr>el_ready := ts\<rparr>, d) = (x1, l1, d1)"
    using prod_cases3 by blast
  from assms(2) Cons e obtain c l2 dec where
    "perform_microtask_checkpoint execute 0 (x1, l1, d1) = Some (c, x', l2, d')"
    "rendering_decision_of d' l2 = (dec, l')"
    by (auto simp: run_one_turn_def promote_due_timers_eq split: option.splits prod.splits)
  with checkpoint [OF assms(1)] rendering have "R (l1, d1) (l', d')" by (blast intro: trans)
  with executes [OF assms(1) e] pop_task [OF Cons] promote [of l d] show ?thesis by (blast intro: trans)
qed

end

subsection \<open>The relations\<close>

lemmas loop_effects = queue_task_def queue_microtask_def set_timeout_def cancel_timers_def advance_time_by_def
  advance_time_to_def advance_by_def advance_to_def duration_add_def allocate_task_id_def
  allocate_microtask_id_def allocate_timer_id_def and_do_def next_id_def ensure_task_capacity_def Let_def

abbreviation counters_grow :: "'a event_loop \<Rightarrow> 'a event_loop \<Rightarrow> bool" where
  "counters_grow l l' \<equiv> el_limits l' = el_limits l \<and> el_now l \<le> el_now l' \<and> el_next_task l \<le> el_next_task l' \<and>
     el_next_microtask l \<le> el_next_microtask l' \<and> el_next_timer l \<le> el_next_timer l'"

lemma apply_frame:
  "counters_grow l (loop_apply x l)" "el_rendering (loop_apply x l) = el_rendering l"
  by (cases x; auto simp: loop_effects split: sum.splits option.splits prod.splits if_splits)+

lemma run_revision: "dom_reachable d \<Longrightarrow> d_revision d \<le> d_revision (dom_run ds d)"
  using run_grown [of d ds] reachable_history [of d] by (auto simp: grown_def later_def)

definition kept_sound :: "'a event_loop \<times> dom \<Rightarrow> 'a event_loop \<times> dom \<Rightarrow> bool" where
  "kept_sound = (\<lambda>(l, d) (l', d'). (loop_ok l \<longrightarrow> loop_ok l') \<and>
     (dom_reachable d \<longrightarrow> dom_reachable d' \<and> (el_rendering l \<le> d_revision d \<longrightarrow> el_rendering l' \<le> d_revision d')))"

interpretation sound: turn_kept kept_sound
proof
  show "kept_sound (l, d) (l, dom_run ds d)" for l :: "'a event_loop" and d ds
    using run_reachable [of d ds] run_revision [of d ds] by (auto simp: kept_sound_def)
qed (auto simp: kept_sound_def apply_frame promoted_def [THEN arg_cong [of _ _ el_rendering]]
  intro: ok_apply ok_pop_task ok_pop_microtask ok_discard ok_cursor ok_promoted)

interpretation grows: turn_kept "\<lambda>s s'. counters_grow (fst s) (fst s')"
  by unfold_locales (auto simp: promoted_def apply_frame intro: le_trans)

definition grown_queue :: "'a event_loop \<Rightarrow> 'a event_loop \<Rightarrow> bool" where
  "grown_queue l l' \<longleftrightarrow> el_next_task l \<le> el_next_task l' \<and> el_rendering l' = el_rendering l \<and>
     (\<exists>new. el_ready l' = el_ready l @ new \<and> (\<forall>t \<in> set new. el_next_task l \<le> st_id t))"

lemma queue_apply: "grown_queue l (loop_apply x l)"
  by (cases x; auto simp: grown_queue_def loop_effects split: sum.splits option.splits prod.splits if_splits)

lemma queue_trans: "grown_queue l1 l2 \<Longrightarrow> grown_queue l2 l3 \<Longrightarrow> grown_queue l1 l3"
  unfolding grown_queue_def by (auto 0 4 intro: le_trans)

interpretation queue: step_kept "\<lambda>s s'. grown_queue (fst s) (fst s')"
proof
  show "grown_queue (fst s1) (fst s3)" if "grown_queue (fst s1) (fst s2)" "grown_queue (fst s2) (fst s3)"
    for s1 s2 s3 :: "'a event_loop \<times> dom"
    using that by (rule queue_trans)
qed (simp_all add: queue_apply, simp_all add: grown_queue_def)

text \<open>Operations only append microtasks, and number them in order.\<close>

definition numbered :: "'a event_loop \<Rightarrow> 'a event_loop \<Rightarrow> bool" where
  "numbered l l' \<longleftrightarrow> el_next_microtask l' + length (el_microtasks l) = el_next_microtask l + length (el_microtasks l')"

lemma numbered_apply: "numbered l (loop_apply x l)"
  by (cases x; auto simp: numbered_def loop_effects split: sum.splits option.splits prod.splits if_splits)

interpretation numbers: op_kept "\<lambda>s s'. numbered (fst s) (fst s')"
  by unfold_locales (simp_all add: numbered_apply, simp_all add: numbered_def)

subsection \<open>Termination\<close>

lemma checkpoint_returns:
  assumes "behaves execute"
  shows "\<exists>y. perform_microtask_checkpoint execute n s = Some y"
proof (induction "max_microtasks_per_checkpoint (el_limits (fst (snd s))) - n" arbitrary: n s rule: less_induct)
  case less
  obtain x l d where s: "s = (x, l, d)" using prod_cases3 by blast
  show ?case
  proof (cases "el_microtasks l = [] \<or> max_microtasks_per_checkpoint (el_limits l) \<le> n")
    case True
    then show ?thesis by (subst perform_microtask_checkpoint.simps) (auto simp: s split: list.splits)
  next
    case False
    then obtain m ms where ms: "el_microtasks l = m # ms" by (cases "el_microtasks l") auto
    obtain x' l' d' where e:
      "execute (RunMicrotask (sm_id m) (sm_payload m)) (x, l\<lparr>el_microtasks := ms\<rparr>, d) = (x', l', d')"
      using prod_cases3 by blast
    have "el_limits l' = el_limits l" using grows.executes [OF assms e] by simp
    with False have "\<exists>y. perform_microtask_checkpoint execute (n + 1) (x', l', d') = Some y"
      by (intro less) (auto simp: s)
    with False ms e show ?thesis by (subst perform_microtask_checkpoint.simps) (simp add: s)
  qed
qed

end
