(* ===== verification/EventLoopProperties.thy ===== *)
theory EventLoopProperties
  imports EventLoopTurns
begin

text \<open>
  The properties of the event loop over every state that a host can reach with its operations, the
  operations of the document and turns.
\<close>

inductive event_loop_reachable :: "('a, 'x) executor \<Rightarrow> 'x \<times> 'a event_loop \<times> dom \<Rightarrow> bool" for execute where
  start: "limits_ok limits \<Longrightarrow> dom_reachable d \<Longrightarrow> event_loop_reachable execute (x, with_limits d limits, d)"
| operation: "event_loop_reachable execute (x, l, d) \<Longrightarrow> event_loop_reachable execute (x, loop_apply p l, d)"
| mutation: "event_loop_reachable execute (x, l, d) \<Longrightarrow> event_loop_reachable execute (x, l, dom_run ds d)"
| turn: "event_loop_reachable execute (x, l, d) \<Longrightarrow> run_one_turn execute (x, l, d) = Some (out, x', l', d') \<Longrightarrow>
    event_loop_reachable execute (x', l', d')"

lemma reachable_loop:
  assumes "event_loop_reachable execute s" "behaves execute"
  shows "loop_ok (fst (snd s))" "dom_reachable (snd (snd s))"
    "el_rendering (fst (snd s)) \<le> d_revision (snd (snd s))"
proof -
  have "loop_ok (fst (snd s)) \<and> dom_reachable (snd (snd s)) \<and>
    el_rendering (fst (snd s)) \<le> d_revision (snd (snd s))"
    using assms
  proof (induction rule: event_loop_reachable.induct)
    case (start limits d x)
    then show ?case by (simp add: loop_ok_start) (simp add: with_limits_def)
  next
    case (operation x l d p)
    with sound.applied [of l d p] show ?case by (auto simp: kept_sound_def)
  next
    case (mutation x l d ds)
    with sound.mutated [of l d ds] show ?case by (auto simp: kept_sound_def)
  next
    case (turn x l d out x' l' d')
    with sound.turn [OF turn.prems turn.hyps(2)] show ?case by (auto simp: kept_sound_def)
  qed
  then show "loop_ok (fst (snd s))" "dom_reachable (snd (snd s))"
    "el_rendering (fst (snd s)) \<le> d_revision (snd (snd s))" by blast+
qed

subsection \<open>Turns\<close>

lemma promoted_filter:
  assumes "loop_ok l"
  shows "promoted l = l\<lparr>el_timers := filter (\<lambda>(k, t). el_now l < tk_deadline k) (el_timers l),
     el_ready := el_ready l @ map snd (filter (\<lambda>(k, t). tk_deadline k \<le> el_now l) (el_timers l))\<rparr>"
proof -
  have "sorted_wrt (<) (map fst (el_timers l))" using assms by (simp add: loop_ok_def timers_ok_def)
  note this [THEN sorted_takeWhile_filter(1), of "el_now l"] this [THEN sorted_takeWhile_filter(2), of "el_now l"]
  moreover have "(\<lambda>x. \<not> due (el_now l) x) = (\<lambda>(k, t :: 'a scheduled_task). el_now l < tk_deadline k)" by auto
  ultimately show ?thesis by (simp only: promoted_def)
qed

lemma turn_idle:
  "el_ready (promoted l) = [] \<Longrightarrow> run_one_turn execute (x, l, d) = Some (None, x, l, d)"
proof -
  assume idle: "el_ready (promoted l) = []"
  then have none: "map snd (takeWhile (due (el_now l)) (el_timers l)) = []" "el_ready l = []"
    unfolding promoted_def by (simp_all del: map_is_Nil_conv)
  then have "dropWhile (due (el_now l)) (el_timers l) = el_timers l"
    by (metis map_is_Nil_conv append_Nil takeWhile_dropWhile_id)
  with none have "promoted l = l" by (simp only: promoted_def) simp
  with idle show ?thesis by (simp add: run_one_turn_def promote_due_timers_eq)
qed

lemma turn_runs:
  assumes "behaves execute" "el_ready (promoted l) = t # ts"
  obtains c x' l1 d' decision l' where
    "perform_microtask_checkpoint execute 0 (execute (RunTask (st_id t) (st_source t) (st_payload t))
       (x, promoted l\<lparr>el_ready := ts\<rparr>, d)) = Some (c, x', l1, d')"
    "rendering_decision_of d' l1 = (decision, l')" "grown_queue (promoted l\<lparr>el_ready := ts\<rparr>) l1"
    "kept_sound (promoted l\<lparr>el_ready := ts\<rparr>, d) (l1, d')"
    "run_one_turn execute (x, l, d) =
       Some (Some \<lparr>to_task = \<lparr>et_id = st_id t, et_source = st_source t\<rparr>, to_microtasks = c,
                  to_rendering = \<lparr>ro_at = el_now l1, ro_decision = decision\<rparr>\<rparr>, x', l', d')"
proof -
  obtain x1 l2 d1 where e: "execute (RunTask (st_id t) (st_source t) (st_payload t))
      (x, promoted l\<lparr>el_ready := ts\<rparr>, d) = (x1, l2, d1)"
    using prod_cases3 by blast
  obtain c x' l1 d' where c: "perform_microtask_checkpoint execute 0 (x1, l2, d1) = Some (c, x', l1, d')"
    using checkpoint_returns [OF assms(1)] by (metis prod_cases4)
  obtain decision l' where r: "rendering_decision_of d' l1 = (decision, l')" by fastforce
  have "grown_queue (promoted l\<lparr>el_ready := ts\<rparr>) l1"
    using queue.trans [OF queue.executes [OF assms(1) e] queue.checkpoint [OF assms(1) c]] by simp
  moreover have "kept_sound (promoted l\<lparr>el_ready := ts\<rparr>, d) (l1, d')"
    using sound.trans [OF sound.executes [OF assms(1) e] sound.checkpoint [OF assms(1) c]] .
  ultimately show ?thesis using assms(2) e c r
    by (intro that [of c x' l1 d' decision l'])
      (auto simp: run_one_turn_def promote_due_timers_eq)
qed

text \<open>
  The host of the examples: a task queues two microtasks, a microtask notes its payload and puts the
  element 1 into the document.  In the state \<open>busy\<close> one task is ready and one of two timers is due.
\<close>

definition host :: "(nat, nat list) executor" where
  "host r s = (case s of (x, l, d) \<Rightarrow>
     (case r of
        RunTask _ _ p \<Rightarrow> (x, loop_run [QueueMicrotask p, QueueMicrotask (p + 1)] l, d)
      | RunMicrotask _ p \<Rightarrow> (x @ [p], l, dom_run [Tree (InsertBefore 0 1 None)] d)))"

lemma host_behaves: "behaves host"
  unfolding behaves_def
proof (intro allI)
  fix r :: "nat runnable" and x :: "nat list" and l :: "nat event_loop" and d
  show "\<exists>x' ops ds. host r (x, l, d) = (x', loop_run ops l, dom_run ds d)"
  proof (cases r)
    case (RunTask i s p)
    then have "host r (x, l, d) = (x, loop_run [QueueMicrotask p, QueueMicrotask (p + 1)] l, dom_run [] d)"
      by (simp add: host_def dom_run_def)
    then show ?thesis by blast
  next
    case (RunMicrotask i p)
    then have "host r (x, l, d) = (x @ [p], loop_run [] l, dom_run [Tree (InsertBefore 0 1 None)] d)"
      by (simp add: host_def loop_run_def)
    then show ?thesis by blast
  qed
qed

definition blank :: dom where
  "blank = dom_run [Make (CreateHtmlElement (lit ''html''))] dom_new"

definition busy :: "nat event_loop" where
  "busy = loop_run [QueueTask UserInteraction 7, SetTimeout 5 20, SetTimeout 3 30, AdvanceBy 4]
     (with_limits blank default_limits)"

lemma run_reached:
  "event_loop_reachable execute (x, l, d) \<Longrightarrow> event_loop_reachable execute (x, loop_run ops l, d)"
  unfolding loop_run_def by (induction ops arbitrary: l) (auto intro: event_loop_reachable.operation)

lemma busy_reachable: "event_loop_reachable host ([], busy, blank)"
  unfolding busy_def
proof (intro run_reached event_loop_reachable.start)
  show "limits_ok default_limits" by (simp add: limits_ok_def default_limits_def)
  show "dom_reachable blank" unfolding blank_def by (intro run_reachable dom_reachable.start)
qed

text \<open>
  C13: from every state a host can reach, a turn returns, without a panic and
  however many microtasks its task and the microtasks themselves queue; the loop keeps its
  invariant: timers in the order of deadline and creation, pending tasks with identifiers of their own,
  pending microtasks numbered consecutively, every queue within its limit, the cursor of the
  rendering not after the document; and time never runs backwards.
\<close>

theorem event_loop_turn_sound:
  assumes "behaves execute" and "event_loop_reachable execute (x, l, d)"
  shows "loop_ok l \<and> el_rendering l \<le> d_revision d \<and>
    (\<exists>out x' l' d'. run_one_turn execute (x, l, d) = Some (out, x', l', d') \<and>
       loop_ok l' \<and> el_limits l' = el_limits l \<and> el_now l \<le> el_now l')"
proof -
  note l = reachable_loop [OF assms(2,1)]
  have "\<exists>out x' l' d'. run_one_turn execute (x, l, d) = Some (out, x', l', d')"
  proof (cases "el_ready (promoted l)")
    case (Cons t ts)
    then show ?thesis using turn_runs [OF assms(1) Cons, of x d] by (metis (no_types))
  qed (use turn_idle [of l execute x d] in simp)
  then obtain out x' l' d' where t: "run_one_turn execute (x, l, d) = Some (out, x', l', d')" by blast
  from t sound.turn [OF assms(1) t] grows.turn [OF assms(1) t] l show ?thesis
    by (auto simp: kept_sound_def)
qed

theorem event_loop_turn_sound_witness:
  "loop_ok busy \<and> el_rendering busy \<le> d_revision blank \<and>
    (\<exists>out x' l' d'. run_one_turn host ([], busy, blank) = Some (out, x', l', d') \<and>
       loop_ok l' \<and> el_limits l' = el_limits busy \<and> el_now busy \<le> el_now l')"
  by (rule event_loop_turn_sound [OF host_behaves busy_reachable])

text \<open>
  C14: a turn moves the timers that are due behind the ready tasks, in the order of
  their deadlines and, for equal deadlines, of their creation, and nothing else: no timer fires early.
  It then executes the first ready task, and after it the microtasks.  If no task is ready it does
  nothing at all.  The other ready tasks keep their places at the front of the queue, and every
  task behind them was queued or created later.
\<close>

theorem turn_takes_next_task:
  assumes "behaves execute" and "event_loop_reachable execute (x, l, d)"
  shows "sorted_wrt (<) (map fst (el_timers l)) \<and>
    (case el_ready l @ map snd (filter (\<lambda>(k, t). tk_deadline k \<le> el_now l) (el_timers l)) of
       [] \<Rightarrow> run_one_turn execute (x, l, d) = Some (None, x, l, d)
     | t # ts \<Rightarrow> \<exists>out x' l' d' new.
         run_one_turn execute (x, l, d) = Some (Some out, x', l', d') \<and>
         to_task out = \<lparr>et_id = st_id t, et_source = st_source t\<rparr> \<and>
         perform_microtask_checkpoint execute 0
           (execute (RunTask (st_id t) (st_source t) (st_payload t))
              (x, l\<lparr>el_timers := filter (\<lambda>(k, t). el_now l < tk_deadline k) (el_timers l), el_ready := ts\<rparr>, d))
         = Some (to_microtasks out, x', l'\<lparr>el_rendering := el_rendering l\<rparr>, d') \<and>
         el_ready l' = ts @ new \<and> (\<forall>u \<in> set new. el_next_task l \<le> st_id u))"
proof -
  have l: "loop_ok l" using reachable_loop(1) [OF assms(2,1)] by simp
  note p = promoted_filter [OF l]
  have "sorted_wrt (<) (map fst (el_timers l))" using l by (simp add: loop_ok_def timers_ok_def)
  moreover have "\<exists>out x' l' d' new.
      run_one_turn execute (x, l, d) = Some (Some out, x', l', d') \<and>
      to_task out = \<lparr>et_id = st_id t, et_source = st_source t\<rparr> \<and>
      perform_microtask_checkpoint execute 0
        (execute (RunTask (st_id t) (st_source t) (st_payload t)) (x, promoted l\<lparr>el_ready := ts\<rparr>, d))
      = Some (to_microtasks out, x', l'\<lparr>el_rendering := el_rendering l\<rparr>, d') \<and>
      el_ready l' = ts @ new \<and> (\<forall>u \<in> set new. el_next_task l \<le> st_id u)"
    if ready: "el_ready (promoted l) = t # ts" for t ts
  proof (rule turn_runs [OF assms(1) ready, of x d])
    fix c x' l1 d' decision l'
    assume run: "perform_microtask_checkpoint execute 0 (execute (RunTask (st_id t) (st_source t) (st_payload t))
         (x, promoted l\<lparr>el_ready := ts\<rparr>, d)) = Some (c, x', l1, d')"
      "run_one_turn execute (x, l, d) =
         Some (Some \<lparr>to_task = \<lparr>et_id = st_id t, et_source = st_source t\<rparr>, to_microtasks = c,
                    to_rendering = \<lparr>ro_at = el_now l1, ro_decision = decision\<rparr>\<rparr>, x', l', d')"
    assume render: "rendering_decision_of d' l1 = (decision, l')"
    assume grown: "grown_queue (promoted l\<lparr>el_ready := ts\<rparr>) l1"
    then have "el_rendering l1 = el_rendering l" by (simp add: grown_queue_def promoted_def)
    then have same: "l'\<lparr>el_rendering := el_rendering l\<rparr> = l1" "el_ready l' = el_ready l1"
      using render by (auto simp: rendering_decision_of_def split: sum.splits if_splits)
    from grown obtain new where "el_ready l1 = ts @ new" "\<forall>u \<in> set new. el_next_task l \<le> st_id u"
      by (auto simp: grown_queue_def promoted_def)
    with run same show ?thesis by fastforce
  qed
  ultimately show ?thesis
    using turn_idle [of l execute x d] by (simp add: p split: list.split)
qed

theorem turn_takes_next_task_witness:
  "\<exists>out x' l' d' new. run_one_turn host ([], busy, blank) = Some (Some out, x', l', d') \<and>
     to_task out = \<lparr>et_id = 0, et_source = UserInteraction\<rparr> \<and>
     el_ready l' = [\<lparr>st_id = 2, st_source = Timer, st_payload = 30\<rparr>] @ new"
proof -
  have "el_ready busy @ map snd (filter (\<lambda>(k, t). tk_deadline k \<le> el_now busy) (el_timers busy)) =
      [\<lparr>st_id = 0, st_source = UserInteraction, st_payload = 7\<rparr>, \<lparr>st_id = 2, st_source = Timer, st_payload = 30\<rparr>]"
    unfolding busy_def by code_simp
  with turn_takes_next_task [OF host_behaves busy_reachable] show ?thesis by auto
qed

subsection \<open>Checkpoints\<close>

text \<open>The executor \<open>execute\<close> with a log of the microtasks it was given.\<close>

definition logging :: "('a, 'x) executor \<Rightarrow> ('a, 'x \<times> nat list) executor" where
  "logging execute r s =
     (case s of ((x, seen), l, d) \<Rightarrow>
        (case execute r (x, l, d) of (x', l', d') \<Rightarrow>
           ((x', case r of RunTask _ _ _ \<Rightarrow> seen | RunMicrotask i _ \<Rightarrow> seen @ [i]), l', d')))"

abbreviation first_microtask :: "'a event_loop \<Rightarrow> nat" where
  "first_microtask l \<equiv> el_next_microtask l - length (el_microtasks l)"

lemma checkpoint_log:
  assumes "behaves execute"
  shows "loop_ok l \<Longrightarrow> n \<le> max_microtasks_per_checkpoint (el_limits l) \<Longrightarrow>
    \<exists>c x' l' d' last.
      perform_microtask_checkpoint execute n (x, l, d) = Some (c, x', l', d') \<and>
      perform_microtask_checkpoint (logging execute) n ((x, seen), l, d) =
        Some (c, (x', seen @ [first_microtask l..<last]), l', d') \<and>
      first_microtask l \<le> last \<and> last \<le> el_next_microtask l' \<and> el_microtasks l' = [] \<and>
      c = (if last = el_next_microtask l' then Complete (n + last - first_microtask l)
           else ResourceLimitReached (n + last - first_microtask l) (el_next_microtask l' - last)) \<and>
      (last < el_next_microtask l' \<longrightarrow> n + last - first_microtask l = max_microtasks_per_checkpoint (el_limits l)) \<and>
      n + last - first_microtask l \<le> max_microtasks_per_checkpoint (el_limits l)"
proof (induction "max_microtasks_per_checkpoint (el_limits l) - n" arbitrary: n x l d seen rule: less_induct)
  case less
  have ids: "consecutive (el_next_microtask l) (map sm_id (el_microtasks l))"
    using less.prems(1) by (simp add: loop_ok_def)
  show ?case
  proof (cases "el_microtasks l")
    case Nil
    with less.prems(2) show ?thesis
      by (intro exI [of _ "Complete n"] exI [of _ x] exI [of _ l] exI [of _ d] exI [of _ "el_next_microtask l"])
        (simp add: perform_microtask_checkpoint.simps [of _ _ "(_, _)"])
  next
    case (Cons m ms)
    have m: "sm_id m = first_microtask l" "length ms < el_next_microtask l"
      using consecutive_tl [of "el_next_microtask l" "sm_id m" "map sm_id ms"] ids Cons
      by (auto simp: consecutive_def)
    show ?thesis
    proof (cases "max_microtasks_per_checkpoint (el_limits l) \<le> n")
      case True
      with less.prems(2) have "n = max_microtasks_per_checkpoint (el_limits l)" by simp
      with Cons m True show ?thesis
        by (intro exI [of _ "ResourceLimitReached n (length ms + 1)"] exI [of _ x]
              exI [of _ "l\<lparr>el_microtasks := []\<rparr>"] exI [of _ d] exI [of _ "first_microtask l"])
          (simp add: perform_microtask_checkpoint.simps [of _ _ "(_, _)"])
    next
      case False
      obtain x1 l1 d1 where e:
        "execute (RunMicrotask (sm_id m) (sm_payload m)) (x, l\<lparr>el_microtasks := ms\<rparr>, d) = (x1, l1, d1)"
        using prod_cases3 by blast
      have l1: "loop_ok l1"
        using sound.executes [OF assms e] ok_pop_microtask [OF less.prems(1) Cons] by (simp add: kept_sound_def)
      have limits: "el_limits l1 = el_limits l" using grows.executes [OF assms e] by simp
      have first: "first_microtask l1 = first_microtask l + 1"
        using numbers.executes [OF assms e] m(2) Cons by (simp add: numbered_def)
      have "\<exists>c x' l' d' last.
          perform_microtask_checkpoint execute (n + 1) (x1, l1, d1) = Some (c, x', l', d') \<and>
          perform_microtask_checkpoint (logging execute) (n + 1) ((x1, seen @ [sm_id m]), l1, d1) =
            Some (c, (x', (seen @ [sm_id m]) @ [first_microtask l1..<last]), l', d') \<and>
          first_microtask l1 \<le> last \<and> last \<le> el_next_microtask l' \<and> el_microtasks l' = [] \<and>
          c = (if last = el_next_microtask l' then Complete (n + 1 + last - first_microtask l1)
               else ResourceLimitReached (n + 1 + last - first_microtask l1) (el_next_microtask l' - last)) \<and>
          (last < el_next_microtask l' \<longrightarrow>
             n + 1 + last - first_microtask l1 = max_microtasks_per_checkpoint (el_limits l1)) \<and>
          n + 1 + last - first_microtask l1 \<le> max_microtasks_per_checkpoint (el_limits l1)"
        using False l1 by (intro less.hyps) (auto simp: limits)
      moreover have counts: "n + 1 + k - (f + 1) = n + k - f" for k f by simp
      ultimately obtain c x' l' d' last where ih:
        "perform_microtask_checkpoint execute (n + 1) (x1, l1, d1) = Some (c, x', l', d')"
        "perform_microtask_checkpoint (logging execute) (n + 1) ((x1, seen @ [sm_id m]), l1, d1) =
           Some (c, (x', (seen @ [sm_id m]) @ [first_microtask l + 1..<last]), l', d')"
        "first_microtask l + 1 \<le> last" "last \<le> el_next_microtask l'" "el_microtasks l' = []"
        "c = (if last = el_next_microtask l' then Complete (n + last - first_microtask l)
              else ResourceLimitReached (n + last - first_microtask l) (el_next_microtask l' - last))"
        "last < el_next_microtask l' \<longrightarrow>
           n + last - first_microtask l = max_microtasks_per_checkpoint (el_limits l)"
        "n + last - first_microtask l \<le> max_microtasks_per_checkpoint (el_limits l)"
        unfolding first limits counts by (elim exE conjE) (rule that; assumption)
      have log: "logging execute (RunMicrotask (sm_id m) (sm_payload m)) ((x, seen), l\<lparr>el_microtasks := ms\<rparr>, d) =
          ((x1, seen @ [sm_id m]), l1, d1)"
        by (simp add: logging_def e)
      have "perform_microtask_checkpoint execute n (x, l, d) = Some (c, x', l', d')"
        using Cons False e ih(1) by (simp add: perform_microtask_checkpoint.simps [of _ n])
      moreover have "perform_microtask_checkpoint (logging execute) n ((x, seen), l, d) =
          Some (c, (x', seen @ [first_microtask l..<last]), l', d')"
        using Cons False log ih(2,3) m(1)
        by (simp add: perform_microtask_checkpoint.simps [of _ n] upt_conv_Cons)
      ultimately show ?thesis using ih(3-8) by (intro exI conjI) (assumption | simp)+
    qed
  qed
qed

text \<open>
  C15: a microtask checkpoint returns and leaves no microtask behind.  It executes the
  pending microtasks and those queued meanwhile, by a task or by a microtask, each once and in the
  order in which they were queued; the count it reports is theirs.  Only at the limit it stops:
  then exactly the limit of microtasks was executed, and it reports how many it dropped.
\<close>

theorem checkpoint_is_fifo:
  assumes "behaves execute" and "event_loop_reachable execute (x, l, d)"
  shows "\<exists>c x' l' d' last.
    perform_microtask_checkpoint execute 0 (x, l, d) = Some (c, x', l', d') \<and>
    perform_microtask_checkpoint (logging execute) 0 ((x, []), l, d) =
      Some (c, (x', [first_microtask l..<last]), l', d') \<and>
    first_microtask l \<le> last \<and> last \<le> el_next_microtask l' \<and> el_microtasks l' = [] \<and>
    c = (if last = el_next_microtask l' then Complete (last - first_microtask l)
         else ResourceLimitReached (max_microtasks_per_checkpoint (el_limits l)) (el_next_microtask l' - last)) \<and>
    last - first_microtask l \<le> max_microtasks_per_checkpoint (el_limits l)"
proof -
  have "loop_ok l" using reachable_loop(1) [OF assms(2,1)] by simp
  from checkpoint_log [OF assms(1) this le0, of x d "[]"] obtain c x' l' d' last where run:
    "perform_microtask_checkpoint execute 0 (x, l, d) = Some (c, x', l', d')"
    "perform_microtask_checkpoint (logging execute) 0 ((x, []), l, d) =
       Some (c, (x', [] @ [first_microtask l..<last]), l', d')"
    "first_microtask l \<le> last" "last \<le> el_next_microtask l'" "el_microtasks l' = []"
    "c = (if last = el_next_microtask l' then Complete (0 + last - first_microtask l)
          else ResourceLimitReached (0 + last - first_microtask l) (el_next_microtask l' - last))"
    "last < el_next_microtask l' \<longrightarrow> 0 + last - first_microtask l = max_microtasks_per_checkpoint (el_limits l)"
    "0 + last - first_microtask l \<le> max_microtasks_per_checkpoint (el_limits l)"
    by (elim exE conjE) (rule that; assumption)
  then have "c = (if last = el_next_microtask l' then Complete (last - first_microtask l)
      else ResourceLimitReached (max_microtasks_per_checkpoint (el_limits l)) (el_next_microtask l' - last))"
    by auto
  with run show ?thesis by (intro exI conjI) (assumption | simp)+
qed

theorem checkpoint_is_fifo_witness:
  "\<exists>x' l' d'. perform_microtask_checkpoint host 0 ([], loop_run [QueueMicrotask 1, QueueMicrotask 2] busy, blank) =
      Some (Complete 2, x', l', d') \<and>
    perform_microtask_checkpoint (logging host) 0 (([], []), loop_run [QueueMicrotask 1, QueueMicrotask 2] busy, blank) =
      Some (Complete 2, (x', [0, 1]), l', d')"
proof -
  let ?l = "loop_run [QueueMicrotask 1, QueueMicrotask 2] busy"
  have "case perform_microtask_checkpoint host 0 ([], ?l, blank) of Some (c, _) \<Rightarrow> c = Complete 2 | None \<Rightarrow> False"
    unfolding busy_def blank_def by code_simp
  moreover have "first_microtask ?l = 0" unfolding busy_def by code_simp
  moreover obtain c x' l' d' last where run:
    "perform_microtask_checkpoint host 0 ([], ?l, blank) = Some (c, x', l', d')"
    "perform_microtask_checkpoint (logging host) 0 (([], []), ?l, blank) =
      Some (c, (x', [first_microtask ?l..<last]), l', d')"
    "c = (if last = el_next_microtask l' then Complete (last - first_microtask ?l)
         else ResourceLimitReached (max_microtasks_per_checkpoint (el_limits ?l)) (el_next_microtask l' - last))"
    using checkpoint_is_fifo [OF host_behaves run_reached [OF busy_reachable]] by blast
  ultimately show ?thesis by (auto split: if_splits simp: upt_rec)
qed

subsection \<open>Rendering\<close>



end
